(* ===== verification/Prelude.thy ===== *)
theory Prelude
  imports Main "HOL-Library.Word" "HOL-Library.Signed_Division" "HOL-Library.Multiset"
    "HOL-Library.Char_ord" "HOL-Library.List_Lexorder"
begin

text \<open>
  Shared vocabulary of the development: the types that stand for Go and PostgreSQL scalars,
  the table operations every SQL statement of the gateway is written with, the lemma
  collections the component theories add to, and the generic lemmas on lists, keyed tables
  and sums they share.

  \<^item> Times and durations are integers in nanoseconds, as \<^verbatim>\<open>time.Duration\<close> counts them;
    \<^verbatim>\<open>.Milliseconds()\<close> truncates.
  \<^item> A table is the list of its rows. \<^verbatim>\<open>UPDATE .. WHERE\<close> is a map, \<^verbatim>\<open>DELETE\<close> and
    \<^verbatim>\<open>SELECT\<close> are filters, \<^verbatim>\<open>INSERT\<close> appends, and \<^verbatim>\<open>UPDATE .. FROM unnest(..) AS r\<close> joins a
    row with the first element of \<open>r\<close> that has its key.
  \<^item> A fallible operation returns \<open>error + result\<close>, with \<open>Inl\<close> for the error.
\<close>

named_theorems frame_simps \<open>what an operation leaves unchanged\<close>
named_theorems key_simps \<open>primary keys kept by row updates\<close>
named_theorems db_intros \<open>preservation of the database invariant\<close>

subsection \<open>Scalars\<close>

type_synonym gtime = int
type_synonym duration = int

text \<open>The zero \<^verbatim>\<open>time.Time\<close>, January 1 of year 1, relative to the Unix epoch.\<close>

definition zero_time :: gtime where
  "zero_time = - 62135596800 * 1000000000"

definition is_zero_time :: "gtime \<Rightarrow> bool" where
  "is_zero_time t \<longleftrightarrow> t = zero_time"

definition nanosecond :: duration where "nanosecond = 1"
definition millisecond :: duration where "millisecond = 1000000"
definition second :: duration where "second = 1000 * millisecond"
definition minute :: duration where "minute = 60 * second"
definition hour :: duration where "hour = 60 * minute"

definition milliseconds :: "duration \<Rightarrow> int" where
  "milliseconds d = d sdiv millisecond"

text \<open>PostgreSQL's \<^verbatim>\<open>n * interval '1 millisecond'\<close>.\<close>

definition interval_ms :: "int \<Rightarrow> duration" where
  "interval_ms n = n * millisecond"

lemmas time_unit_defs = nanosecond_def millisecond_def second_def minute_def hour_def

text \<open>Two's-complement wrap-around of Go's \<^verbatim>\<open>int64\<close>, and the range of \<^verbatim>\<open>BIGINT\<close>.\<close>

definition wrap64 :: "int \<Rightarrow> int" where
  "wrap64 x = signed_take_bit 63 x"

definition max_int64 :: int where "max_int64 = 2 ^ 63 - 1"

definition in_int64 :: "int \<Rightarrow> bool" where
  "in_int64 x \<longleftrightarrow> - (2 ^ 63) \<le> x \<and> x \<le> max_int64"

lemma wrap64_id [simp]: "in_int64 x \<Longrightarrow> wrap64 x = x"
  by (simp add: wrap64_def in_int64_def max_int64_def signed_take_bit_int_eq_self_iff)

lemma in_int64_wrap64 [simp]: "in_int64 (wrap64 x)"
  using signed_take_bit_int_greater_eq_minus_exp [of 63 x] signed_take_bit_int_less_exp [of 63 x]
  by (simp add: wrap64_def in_int64_def max_int64_def)

lemma in_int64I: "0 \<le> x \<Longrightarrow> x \<le> max_int64 \<Longrightarrow> in_int64 x"
  by (simp add: in_int64_def)


text \<open>\<^verbatim>\<open>time.Time.Sub\<close> saturates at the bounds of a duration.\<close>

definition time_sub :: "gtime \<Rightarrow> gtime \<Rightarrow> duration" where
  "time_sub t u = max (- (2 ^ 63)) (min max_int64 (t - u))"

subsection \<open>Decimal numbers\<close>

text \<open>\<^verbatim>\<open>strconv.Itoa\<close> on non-negative and negative integers, and \<^verbatim>\<open>strconv.Atoi\<close>: an optional
  sign and at least one digit, with the 64-bit range check.\<close>

definition digit_char :: "nat \<Rightarrow> char" where
  "digit_char d = char_of (48 + d)"

fun nat_digits :: "nat \<Rightarrow> string" where
  "nat_digits n = (if n < 10 then [digit_char n] else nat_digits (n div 10) @ [digit_char (n mod 10)])"

declare nat_digits.simps [simp del]

definition itoa :: "int \<Rightarrow> string" where
  "itoa i = (if i < 0 then CHR ''-'' # nat_digits (nat (- i)) else nat_digits (nat i))"

definition is_digit :: "char \<Rightarrow> bool" where
  "is_digit c \<longleftrightarrow> 48 \<le> (of_char c :: nat) \<and> (of_char c :: nat) \<le> 57"

definition digits_nat :: "string \<Rightarrow> nat" where
  "digits_nat s = foldl (\<lambda>n c. n * 10 + (of_char c - 48)) 0 s"

definition atoi :: "string \<Rightarrow> int option" where
  "atoi s =
     (let (neg, ds) = (case s of
            c # r \<Rightarrow> if c = CHR ''-'' then (True, r) else if c = CHR ''+'' then (False, r) else (False, s)
          | [] \<Rightarrow> (False, s));
          n = (if neg then - int (digits_nat ds) else int (digits_nat ds))
      in if ds = [] \<or> \<not> list_all is_digit ds \<or> \<not> in_int64 n then None else Some n)"

lemma of_char_digit_char [simp]: "d < 10 \<Longrightarrow> (of_char (digit_char d) :: nat) = 48 + d"
  by (simp add: digit_char_def)

lemma is_digit_digit_char [simp]: "d < 10 \<Longrightarrow> is_digit (digit_char d)"
  by (simp add: is_digit_def)

lemma nat_digits_ne [simp]: "nat_digits n \<noteq> []"
  by (subst nat_digits.simps) simp

lemma nat_digits_digits: "list_all is_digit (nat_digits n)"
proof (induction n rule: nat_digits.induct)
  case (1 n)
  then show ?case by (subst nat_digits.simps) simp
qed

lemma digits_nat_snoc: "digits_nat (s @ [c]) = digits_nat s * 10 + (of_char c - 48)"
  by (simp add: digits_nat_def)

lemma digits_nat_nat_digits [simp]: "digits_nat (nat_digits n) = n"
proof (induction n rule: nat_digits.induct)
  case (1 n)
  show ?case
  proof (cases "n < 10")
    case True
    then show ?thesis by (subst nat_digits.simps) (simp add: digits_nat_def)
  next
    case False
    with 1 show ?thesis by (subst nat_digits.simps) (simp add: digits_nat_snoc)
  qed
qed

lemma is_digit_not_sign: "is_digit c \<Longrightarrow> c \<noteq> CHR ''-'' \<and> c \<noteq> CHR ''+''"
  by (auto simp: is_digit_def)

lemma atoi_itoa: "in_int64 i \<Longrightarrow> atoi (itoa i) = Some i"
proof (cases "i < 0")
  case True
  then show "in_int64 i \<Longrightarrow> ?thesis"
    by (simp add: atoi_def itoa_def nat_digits_digits)
next
  case False
  obtain c r where cr: "nat_digits (nat i) = c # r" by (cases "nat_digits (nat i)") auto
  then have "c \<noteq> CHR ''-'' \<and> c \<noteq> CHR ''+''"
    using nat_digits_digits [of "nat i"] is_digit_not_sign [of c] by simp
  then show "in_int64 i \<Longrightarrow> ?thesis"
    using False cr nat_digits_digits [of "nat i"] digits_nat_nat_digits [of "nat i"]
    by (simp add: atoi_def itoa_def Let_def)
qed

lemma itoa_inj: "in_int64 i \<Longrightarrow> in_int64 j \<Longrightarrow> itoa i = itoa j \<Longrightarrow> i = j"
  by (metis atoi_itoa option.inject)

subsection \<open>Tables\<close>

text \<open>The rows of a table as a list; keys, lookups, and the joined update.\<close>

definition has_key :: "('r \<Rightarrow> 'k) \<Rightarrow> 'k \<Rightarrow> 'r list \<Rightarrow> bool" where
  "has_key key k rows = list_ex (\<lambda>r. key r = k) rows"

definition row_of :: "('r \<Rightarrow> 'k) \<Rightarrow> 'k \<Rightarrow> 'r list \<Rightarrow> 'r option" where
  "row_of key k rows = find (\<lambda>r. key r = k) rows"

definition update_where :: "('r \<Rightarrow> bool) \<Rightarrow> ('r \<Rightarrow> 'r) \<Rightarrow> 'r list \<Rightarrow> 'r list" where
  "update_where p f rows = map (\<lambda>r. if p r then f r else r) rows"

text \<open>\<open>update_join key rkey p upd rs rows\<close> is \<^verbatim>\<open>UPDATE rows SET upd FROM unnest(..) AS r
  WHERE key = r.rkey AND p\<close>; \<open>returning_join\<close> is the rows it changes, with their \<open>r\<close>.\<close>

definition update_join ::
    "('r \<Rightarrow> 'k) \<Rightarrow> ('j \<Rightarrow> 'k) \<Rightarrow> ('r \<Rightarrow> bool) \<Rightarrow> ('j \<Rightarrow> 'r \<Rightarrow> 'r) \<Rightarrow> 'j list \<Rightarrow> 'r list \<Rightarrow> 'r list" where
  "update_join key rkey p upd rs rows =
     map (\<lambda>x. case row_of rkey (key x) rs of
                None \<Rightarrow> x
              | Some r \<Rightarrow> if p x then upd r x else x) rows"

definition returning_join ::
    "('r \<Rightarrow> 'k) \<Rightarrow> ('j \<Rightarrow> 'k) \<Rightarrow> ('r \<Rightarrow> bool) \<Rightarrow> 'j list \<Rightarrow> 'r list \<Rightarrow> 'r list" where
  "returning_join key rkey p rs rows = filter (\<lambda>x. has_key rkey (key x) rs \<and> p x) rows"

lemma has_key_iff: "has_key key k rows \<longleftrightarrow> k \<in> key ` set rows"
  by (auto simp: has_key_def list_ex_iff)

lemma row_of_None_iff: "row_of key k rows = None \<longleftrightarrow> k \<notin> key ` set rows"
  by (auto simp: row_of_def find_None_iff)

lemma row_of_SomeD: "row_of key k rows = Some r \<Longrightarrow> r \<in> set rows \<and> key r = k"
  by (auto simp: row_of_def find_Some_iff)

lemma row_of_Some_iff:
  assumes "distinct (map key rows)"
  shows "row_of key k rows = Some r \<longleftrightarrow> r \<in> set rows \<and> key r = k"
proof
  assume "row_of key k rows = Some r"
  then show "r \<in> set rows \<and> key r = k" by (rule row_of_SomeD)
next
  assume r: "r \<in> set rows \<and> key r = k"
  then obtain r' where r': "row_of key k rows = Some r'"
    by (cases "row_of key k rows") (auto simp: row_of_None_iff)
  then have "r' \<in> set rows" "key r' = key r" using r row_of_SomeD by metis+
  with assms r have "r' = r" by (auto simp: distinct_map inj_on_def)
  with r' show "row_of key k rows = Some r" by simp
qed

lemma distinct_key_unique:
  "distinct (map key rows) \<Longrightarrow> x \<in> set rows \<Longrightarrow> y \<in> set rows \<Longrightarrow> key x = key y \<Longrightarrow> x = y"
  by (auto simp: distinct_map inj_on_def)

lemma filter_key_single:
  "distinct (map key xs) \<Longrightarrow> x \<in> set xs \<Longrightarrow> filter (\<lambda>y. key y = key x) xs = [x]"
proof (induction xs)
  case (Cons z xs)
  then have "filter (\<lambda>y. key y = key z) xs = []"
    unfolding filter_empty_conv by (metis distinct.simps(2) image_eqI list.map(2) set_map)
  with Cons show ?case by auto
qed simp

lemma map_key_update_where [key_simps]:
  "(\<And>r. key (f r) = key r) \<Longrightarrow> map key (update_where p f rows) = map key rows"
  by (simp add: update_where_def)

lemma map_key_update_join [key_simps]:
  "(\<And>r x. key (upd r x) = key x) \<Longrightarrow> map key (update_join k rk p upd rs rows) = map key rows"
  by (simp add: update_join_def split: option.splits)

lemma set_update_where: "set (update_where p f rows) = (\<lambda>r. if p r then f r else r) ` set rows"
  by (simp add: update_where_def)

lemma set_update_join:
  "set (update_join key rkey p upd rs rows) =
     (\<lambda>x. case row_of rkey (key x) rs of None \<Rightarrow> x | Some r \<Rightarrow> if p x then upd r x else x) ` set rows"
  by (simp add: update_join_def)

lemma distinct_map_filterI: "distinct (map f xs) \<Longrightarrow> distinct (map f (filter P xs))"
  by (induction xs) auto

lemma image_key_eq: "map key xs = map key ys \<Longrightarrow> key ` set xs = key ` set ys"
  by (metis set_map)

subsection \<open>Transactions\<close>

text \<open>
  \<^verbatim>\<open>store.WithTx\<close>: begin, run, and commit or roll back. A failure of the connection at begin
  or commit is part of the environment; every error leaves the database as it was. When the
  rollback itself fails, the code joins that failure to the error, and \<^verbatim>\<open>errors.Is\<close> and
  \<^verbatim>\<open>errors.As\<close> still find the original, which is what the model returns.
\<close>

datatype tx_fault = NoFault | BeginFails | CommitFails

definition WithTx ::
    "(string \<Rightarrow> 'e) \<Rightarrow> tx_fault \<Rightarrow> ('s \<Rightarrow> 'e + 's \<times> 'a) \<Rightarrow> 's \<Rightarrow> 's \<times> ('e + 'a)" where
  "WithTx wrap fault fn s =
     (if fault = BeginFails then (s, Inl (wrap ''begin transaction''))
      else case fn s of
          Inl e \<Rightarrow> (s, Inl e)
        | Inr (s', a) \<Rightarrow>
            if fault = CommitFails then (s, Inl (wrap ''commit transaction''))
            else (s', Inr a))"

lemma WithTx_Inl: "WithTx wrap fault fn s = (s', Inl e) \<Longrightarrow> s' = s"
  by (auto simp: WithTx_def split: if_splits sum.splits prod.splits)

lemma WithTx_Inr: "WithTx wrap fault fn s = (s', Inr a) \<Longrightarrow> fn s = Inr (s', a)"
  by (auto simp: WithTx_def split: if_splits sum.splits prod.splits)

lemma WithTx_preserves:
  assumes "P s" and "\<And>s' a. fn s = Inr (s', a) \<Longrightarrow> P s'"
  shows "P (fst (WithTx wrap fault fn s))"
  using assms by (auto simp: WithTx_def split: sum.splits prod.splits)

end
