(* ===== verification/Ids.thy ===== *)
theory Ids
  imports Prelude
begin

text \<open>
  Identifiers and pagination cursors: \<^verbatim>\<open>internal/store/ids.go\<close>, \<^verbatim>\<open>cursor.go\<close> and
  \<^verbatim>\<open>null.go\<close>, and the byte-wise comparison \<^verbatim>\<open>compareIDs\<close> of the completer and the
  delivery-report batcher. A UUID is the 128-bit number its sixteen bytes spell in
  big-endian order. The \<^verbatim>\<open>RawURLEncoding\<close> of Go's \<^verbatim>\<open>encoding/base64\<close> is modelled as the
  library documents it: newlines are skipped, trailing bits are ignored, padding is an error.
\<close>

type_synonym uuid = "128 word"
type_synonym byte = "8 word"

subsection \<open>Big-endian bytes\<close>

definition be_nat :: "byte list \<Rightarrow> nat" where
  "be_nat bs = foldl (\<lambda>a b. a * 256 + unat b) 0 bs"

fun be_bytes :: "nat \<Rightarrow> nat \<Rightarrow> byte list" where
  "be_bytes 0 n = []"
| "be_bytes (Suc k) n = be_bytes k (n div 256) @ [word_of_nat (n mod 256)]"

definition uuid_nil :: uuid where "uuid_nil = 0"

definition uuid_bytes :: "uuid \<Rightarrow> byte list" where
  "uuid_bytes u = be_bytes 16 (unat u)"

definition uuid_of_bytes :: "byte list \<Rightarrow> uuid" where
  "uuid_of_bytes bs = word_of_nat (be_nat bs)"

text \<open>\<^verbatim>\<open>compareIDs\<close>: the difference of the first pair of bytes that differ.\<close>

fun compare_bytes :: "byte list \<Rightarrow> byte list \<Rightarrow> int" where
  "compare_bytes (a # as) (b # bs) =
     (if a \<noteq> b then int (unat a) - int (unat b) else compare_bytes as bs)"
| "compare_bytes _ _ = 0"

definition compareIDs :: "uuid \<Rightarrow> uuid \<Rightarrow> int" where
  "compareIDs a b = compare_bytes (uuid_bytes a) (uuid_bytes b)"

lemma be_nat_Nil [simp]: "be_nat [] = 0"
  by (simp add: be_nat_def)

lemma be_nat_snoc [simp]: "be_nat (bs @ [b]) = be_nat bs * 256 + unat b"
  by (simp add: be_nat_def)

lemma unat_byte_less: "unat (b :: byte) < 256"
  using unsigned_less [of b] by simp

lemma unat_byte_of_nat [simp]: "unat (word_of_nat (n mod 256) :: byte) = n mod 256"
  by (simp add: unat_of_nat)

lemma be_nat_less: "be_nat bs < 256 ^ length bs"
proof (induction bs rule: rev_induct)
  case (snoc b bs)
  have "unat b < 256" by (rule unat_byte_less)
  with snoc have "be_nat bs * 256 + unat b < (be_nat bs + 1) * 256" by simp
  also have "\<dots> \<le> 256 ^ length bs * 256"
    using snoc by (intro mult_le_mono1) simp
  finally show ?case by (simp add: mult.commute)
qed simp

lemma be_nat_append: "be_nat (as @ bs) = be_nat as * 256 ^ length bs + be_nat bs"
proof (induction bs rule: rev_induct)
  case (snoc b bs)
  have "be_nat (as @ bs @ [b]) = be_nat (as @ bs) * 256 + unat b"
    using be_nat_snoc [of "as @ bs" b] by simp
  with snoc show ?case by (simp add: algebra_simps)
qed simp

lemma be_nat_Cons: "be_nat (b # bs) = unat b * 256 ^ length bs + be_nat bs"
  using be_nat_append [of "[b]" bs] be_nat_snoc [of "[]" b] by simp

lemma length_be_bytes [simp]: "length (be_bytes k n) = k"
  by (induction k arbitrary: n) auto

lemma be_nat_be_bytes: "be_nat (be_bytes k n) = n mod 256 ^ k"
proof (induction k arbitrary: n)
  case (Suc k)
  have "be_nat (be_bytes (Suc k) n) = (n div 256) mod 256 ^ k * 256 + n mod 256"
    by (simp add: Suc.IH)
  also have "\<dots> = n mod (256 * 256 ^ k)"
    by (simp add: mod_mult2_eq)
  finally show ?case by simp
qed simp

lemma be_bytes_be_nat: "length bs = k \<Longrightarrow> be_bytes k (be_nat bs) = bs"
proof (induction bs arbitrary: k rule: rev_induct)
  case (snoc b bs)
  have "unat b < 256" by (rule unat_byte_less)
  then have "(be_nat bs * 256 + unat b) div 256 = be_nat bs"
    and "(be_nat bs * 256 + unat b) mod 256 = unat b" by simp_all
  with snoc show ?case by auto
qed simp

lemma length_uuid_bytes [simp]: "length (uuid_bytes u) = 16"
  by (simp add: uuid_bytes_def)

lemma be_nat_uuid_bytes [simp]: "be_nat (uuid_bytes u) = unat u"
proof -
  have "unat u < 2 ^ 128" using unsigned_less [of u] by simp
  then show ?thesis by (simp add: uuid_bytes_def be_nat_be_bytes)
qed

lemma uuid_of_uuid_bytes [simp]: "uuid_of_bytes (uuid_bytes u) = u"
  by (simp add: uuid_of_bytes_def)

lemma unat_uuid_of_bytes: "length bs = 16 \<Longrightarrow> unat (uuid_of_bytes bs) = be_nat bs"
  using be_nat_less [of bs] by (simp add: uuid_of_bytes_def unat_of_nat)

lemma uuid_bytes_of_bytes: "length bs = 16 \<Longrightarrow> uuid_bytes (uuid_of_bytes bs) = bs"
  by (simp add: uuid_bytes_def unat_uuid_of_bytes be_bytes_be_nat)

lemma compare_bytes_sgn:
  "length as = length bs \<Longrightarrow>
   sgn (compare_bytes as bs) = sgn (int (be_nat as) - int (be_nat bs))"
proof (induction as bs rule: list_induct2)
  case (Cons a as b bs)
  have la: "be_nat as < 256 ^ length bs" and lb: "be_nat bs < 256 ^ length bs"
    using be_nat_less [of as] be_nat_less [of bs] Cons.hyps by simp_all
  show ?case
  proof (cases "unat a" "unat b" rule: linorder_cases)
    case less
    then have "unat a * 256 ^ length bs + 256 ^ length bs \<le> unat b * 256 ^ length bs"
      by (metis Suc_leI add.commute mult_Suc mult_le_mono1)
    with la have "be_nat (a # as) < be_nat (b # bs)"
      by (simp add: be_nat_Cons Cons.hyps)
    moreover from less have "uint a < uint b"
      by (simp add: word_less_nat_alt flip: word_less_def)
    ultimately show ?thesis by auto
  next
    case greater
    then have "unat b * 256 ^ length bs + 256 ^ length bs \<le> unat a * 256 ^ length bs"
      by (metis Suc_leI add.commute mult_Suc mult_le_mono1)
    with lb have "be_nat (b # bs) < be_nat (a # as)"
      by (simp add: be_nat_Cons Cons.hyps)
    moreover from greater have "uint b < uint a"
      by (simp add: word_less_nat_alt flip: word_less_def)
    ultimately show ?thesis by auto
  next
    case equal
    then have "a = b" by (rule unsigned_word_eqI)
    with Cons show ?thesis by (simp add: be_nat_Cons)
  qed
qed simp

lemma compareIDs_sgn: "sgn (compareIDs a b) = sgn (int (unat a) - int (unat b))"
  by (simp add: compareIDs_def compare_bytes_sgn)


subsection \<open>UUIDv7 time bounds\<close>

text \<open>
  \<^verbatim>\<open>LowerBound\<close>: the millisecond count as eight big-endian bytes, its last six copied to the
  front of the identifier, and the version and variant bytes with zero random bits.
\<close>

definition unix_milli :: "gtime \<Rightarrow> int" where
  "unix_milli t = t div millisecond"

definition LowerBound :: "gtime \<Rightarrow> uuid" where
  "LowerBound t =
     (let ms = word_of_int (unix_milli t) :: 64 word;
          ts = be_bytes 8 (unat ms)
      in uuid_of_bytes (drop 2 ts @ [0x70, 0, 0x80] @ replicate 7 0))"

text \<open>What \<^verbatim>\<open>store.NewID\<close> documents of its result: version 7, RFC 4122 variant, and the
  creation time in the leading 48 bits.\<close>

definition uuid_ms :: "uuid \<Rightarrow> nat" where
  "uuid_ms u = unat u div 2 ^ 80"

definition is_v7 :: "uuid \<Rightarrow> bool" where
  "is_v7 u \<longleftrightarrow> unat u div 2 ^ 76 mod 16 = 7 \<and> unat u div 2 ^ 62 mod 4 = 2"

lemma be_nat_replicate_0 [simp]: "be_nat (replicate k 0) = 0"
  by (induction k) (simp_all add: be_nat_Cons)

lemma be_nat_drop: "k \<le> length bs \<Longrightarrow> be_nat (drop k bs) = be_nat bs mod 256 ^ (length bs - k)"
  using be_nat_append [of "take k bs" "drop k bs"] be_nat_less [of "drop k bs"]
  by simp

lemma unat_LowerBound:
  "unat (LowerBound t) =
     nat (unix_milli t mod 2 ^ 48) * 2 ^ 80 + 7 * 2 ^ 76 + 2 ^ 63"
proof -
  define ms where "ms = (word_of_int (unix_milli t) :: 64 word)"
  have "unat ms = nat (unix_milli t mod 2 ^ 64)"
    by (simp add: ms_def unat_eq_nat_uint uint_word_of_int)
  then have "unat ms mod 2 ^ 48 = nat (unix_milli t mod 2 ^ 64 mod 2 ^ 48)"
    by (simp add: nat_mod_distrib)
  also have "\<dots> = nat (unix_milli t mod 2 ^ 48)"
    using mod_mod_cancel [of "2 ^ 48" "2 ^ 64" "unix_milli t"] by (simp add: dvd_def)
  finally have *: "unat ms mod 2 ^ 48 = nat (unix_milli t mod 2 ^ 48)" .
  have "be_nat (drop 2 (be_bytes 8 (unat ms))) = unat ms mod 2 ^ 64 mod 2 ^ 48"
    by (simp add: be_nat_drop be_nat_be_bytes)
  also have "\<dots> = unat ms mod 2 ^ 48"
    using unsigned_less [of ms, where ?'a = nat] by simp
  finally have **: "be_nat (drop 2 (be_bytes 8 (unat ms))) = nat (unix_milli t mod 2 ^ 48)"
    using * by simp
  show ?thesis
    unfolding LowerBound_def Let_def ms_def [symmetric]
    by (simp add: unat_uuid_of_bytes be_nat_append be_nat_Cons ** del: be_bytes.simps drop_append)
qed

lemma v7_low_bits:
  assumes "is_v7 u"
  shows "7 * 2 ^ 76 + 2 ^ 63 \<le> unat u mod 2 ^ 80"
proof -
  define n where "n = unat u"
  from assms have v: "n div 2 ^ 76 mod 16 = 7" and r: "n div 2 ^ 62 mod 4 = 2"
    by (simp_all add: is_v7_def n_def)
  have "n mod (2 ^ 76 * 16) = 2 ^ 76 * (n div 2 ^ 76 mod 16) + n mod 2 ^ 76"
    by (rule mod_mult2_eq)
  with v have a: "n mod 2 ^ 80 = 7 * 2 ^ 76 + n mod 2 ^ 76" by simp
  have "n mod (2 ^ 62 * 4) = 2 ^ 62 * (n div 2 ^ 62 mod 4) + n mod 2 ^ 62"
    by (rule mod_mult2_eq)
  with r have "2 ^ 63 \<le> n mod 2 ^ 64" by simp
  also have "n mod 2 ^ 64 = n mod 2 ^ 76 mod 2 ^ 64"
    using mod_mod_cancel [of "2 ^ 64" "2 ^ 76" n] by (simp add: dvd_def)
  also have "\<dots> \<le> n mod 2 ^ 76" by (rule mod_less_eq_dividend)
  finally show ?thesis using a by (simp add: n_def)
qed

lemma LowerBound_le_iff:
  assumes v7: "is_v7 u" and range: "0 \<le> unix_milli t" "unix_milli t < 2 ^ 48"
  shows "LowerBound t \<le> u \<longleftrightarrow> unix_milli t \<le> int (uuid_ms u)"
proof -
  define k where "k = nat (unix_milli t)"
  have k: "unix_milli t = int k" using range by (simp add: k_def)
  have lb: "unat (LowerBound t) = k * 2 ^ 80 + 7 * 2 ^ 76 + 2 ^ 63"
    using range by (simp add: unat_LowerBound k)
  have split: "unat u = uuid_ms u * 2 ^ 80 + unat u mod 2 ^ 80"
    unfolding uuid_ms_def by (simp only: div_mult_mod_eq)
  have low: "7 * 2 ^ 76 + 2 ^ 63 \<le> unat u mod 2 ^ 80"
    by (rule v7_low_bits [OF v7])
  have lt: "unat u mod 2 ^ 80 < 2 ^ 80" by simp
  have "unat (LowerBound t) \<le> unat u \<longleftrightarrow> k \<le> uuid_ms u"
  proof
    assume "k \<le> uuid_ms u"
    then have "k * 2 ^ 80 \<le> uuid_ms u * 2 ^ 80" by simp
    with low split lb show "unat (LowerBound t) \<le> unat u" by linarith
  next
    assume le: "unat (LowerBound t) \<le> unat u"
    show "k \<le> uuid_ms u"
    proof (rule ccontr)
      assume "\<not> k \<le> uuid_ms u"
      then have "(uuid_ms u + 1) * 2 ^ 80 \<le> k * 2 ^ 80" by (intro mult_le_mono1) simp
      then have "uuid_ms u * 2 ^ 80 + 2 ^ 80 \<le> k * 2 ^ 80" by (simp only: add_mult_distrib mult_1)
      with le split lb lt show False by linarith
    qed
  qed
  then show ?thesis by (simp add: word_le_nat_alt k)
qed


subsection \<open>Pagination cursors\<close>

definition b64_alphabet :: string where
  "b64_alphabet = ''ABCDEFGHIJKLMNOPQRSTUVWXYZabcdefghijklmnopqrstuvwxyz0123456789-_''"

definition b64_char :: "nat \<Rightarrow> char" where
  "b64_char n = b64_alphabet ! (n mod 64)"

fun index_of :: "'a \<Rightarrow> 'a list \<Rightarrow> nat option" where
  "index_of x [] = None"
| "index_of x (y # ys) = (if x = y then Some 0 else map_option Suc (index_of x ys))"

text \<open>\<^verbatim>\<open>base64.RawURLEncoding.EncodeToString\<close>: three bytes are four characters; one or two
  remaining bytes are two or three characters, without padding.\<close>

fun b64_encode :: "nat list \<Rightarrow> string" where
  "b64_encode (a # b # c # rest) =
     (let val = a * 65536 + b * 256 + c
      in b64_char (val div 262144) # b64_char (val div 4096) # b64_char (val div 64) #
         b64_char val # b64_encode rest)"
| "b64_encode [a, b] =
     (let val = a * 65536 + b * 256
      in [b64_char (val div 262144), b64_char (val div 4096), b64_char (val div 64)])"
| "b64_encode [a] =
     (let val = a * 65536 in [b64_char (val div 262144), b64_char (val div 4096)])"
| "b64_encode [] = []"

fun b64_decode_sextets :: "nat list \<Rightarrow> nat list option" where
  "b64_decode_sextets (a # b # c # d # rest) =
     (let val = a * 262144 + b * 4096 + c * 64 + d
      in map_option (\<lambda>r. (val div 65536) mod 256 # (val div 256) mod 256 # val mod 256 # r)
           (b64_decode_sextets rest))"
| "b64_decode_sextets [a, b, c] =
     (let val = a * 262144 + b * 4096 + c * 64
      in Some [(val div 65536) mod 256, (val div 256) mod 256])"
| "b64_decode_sextets [a, b] =
     (let val = a * 262144 + b * 4096 in Some [(val div 65536) mod 256])"
| "b64_decode_sextets [a] = None"
| "b64_decode_sextets [] = Some []"

text \<open>\<^verbatim>\<open>DecodeString\<close>: carriage returns and newlines are skipped, any other character outside
  the alphabet is an error, and so is a last group of a single character.\<close>

definition b64_decode :: "string \<Rightarrow> nat list option" where
  "b64_decode s =
     Option.bind (those (map (\<lambda>c. index_of c b64_alphabet)
                    (filter (\<lambda>c. c \<noteq> CHR 0x0D \<and> c \<noteq> CHR 0x0A) s)))
       b64_decode_sextets"

definition EncodeCursor :: "uuid \<Rightarrow> string" where
  "EncodeCursor u = b64_encode (map unat (uuid_bytes u))"

text \<open>\<open>None\<close> is \<^verbatim>\<open>ErrInvalidCursor\<close>.\<close>

definition DecodeCursor :: "string \<Rightarrow> uuid option" where
  "DecodeCursor s =
     (if s = [] then Some uuid_nil
      else case b64_decode s of
          None \<Rightarrow> None
        | Some b \<Rightarrow> if length b \<noteq> 16 then None
                     else Some (uuid_of_bytes (map word_of_nat b)))"

lemma index_of_nth: "distinct xs \<Longrightarrow> i < length xs \<Longrightarrow> index_of (xs ! i) xs = Some i"
proof (induction xs arbitrary: i)
  case (Cons x xs)
  then show ?case by (cases i) auto
qed simp

lemma length_b64_alphabet [simp]: "length b64_alphabet = 64"
  by (simp add: b64_alphabet_def)

lemma distinct_b64_alphabet: "distinct b64_alphabet"
  by (simp add: b64_alphabet_def)

lemma index_of_b64_char [simp]: "index_of (b64_char n) b64_alphabet = Some (n mod 64)"
  by (simp add: b64_char_def index_of_nth distinct_b64_alphabet)

lemma b64_char_in: "b64_char n \<in> set b64_alphabet"
  by (simp add: b64_char_def)

lemma b64_encode_chars: "set (b64_encode bs) \<subseteq> set b64_alphabet"
  by (induction bs rule: b64_encode.induct) (auto simp: Let_def b64_char_in)

lemma b64_no_newline: "c \<in> set b64_alphabet \<Longrightarrow> c \<noteq> CHR 0x0D \<and> c \<noteq> CHR 0x0A"
  by (auto simp: b64_alphabet_def)

lemma filter_b64_encode [simp]:
  "filter (\<lambda>c. c \<noteq> CHR 0x0D \<and> c \<noteq> CHR 0x0A) (b64_encode bs) = b64_encode bs"
  using b64_encode_chars [of bs] b64_no_newline by (intro filter_True) blast

lemma sextets_recombine:
  fixes v :: nat
  assumes "v < 16777216"
  shows "v div 262144 mod 64 * 262144 + v div 4096 mod 64 * 4096 + v div 64 mod 64 * 64 + v mod 64 = v"
proof -
  have 1: "v = v div 64 * 64 + v mod 64" by simp
  have 2: "v div 64 = v div 4096 * 64 + v div 64 mod 64"
    using div_mult_mod_eq [of "v div 64" 64] by (simp flip: div_mult2_eq)
  have 3: "v div 4096 = v div 262144 * 64 + v div 4096 mod 64"
    using div_mult_mod_eq [of "v div 4096" 64] by (simp flip: div_mult2_eq)
  have 4: "v div 262144 mod 64 = v div 262144" using assms by simp
  show ?thesis using 1 2 3 unfolding 4 by linarith
qed

lemma bytes_of_group:
  fixes a b c :: nat
  assumes "a < 256" "b < 256" "c < 256"
  defines "v \<equiv> a * 65536 + b * 256 + c"
  shows "v < 16777216" "v div 65536 mod 256 = a" "v div 256 mod 256 = b" "v mod 256 = c"
proof -
  have v: "v = (a * 256 + b) * 256 + c" by (simp add: v_def)
  show "v < 16777216" using assms by (simp add: v_def)
  have d: "v div 256 = a * 256 + b" using assms(3) unfolding v by simp
  then show "v div 256 mod 256 = b" using assms(2) by simp
  have "v div 65536 = v div 256 div 256" by (simp flip: div_mult2_eq)
  also have "\<dots> = a" using assms(2) unfolding d by simp
  finally show "v div 65536 mod 256 = a" using assms(1) by simp
  show "v mod 256 = c" using assms(3) unfolding v by (simp only: mod_mult_self3 mod_less)
qed

lemma decode_group:
  assumes "a < 256" "b < 256" "c < 256"
  defines "v \<equiv> a * 65536 + b * 256 + c"
  shows "b64_decode_sextets (v div 262144 mod 64 # v div 4096 mod 64 # v div 64 mod 64 # v mod 64 # r)
       = map_option (\<lambda>r. a # b # c # r) (b64_decode_sextets r)"
  using bytes_of_group [OF assms(1-3)] sextets_recombine [of v]
  unfolding v_def by (simp only: b64_decode_sextets.simps Let_def)

lemma those_encode:
  "\<forall>x\<in>set bs. x < 256 \<Longrightarrow>
   Option.bind (those (map (\<lambda>c. index_of c b64_alphabet) (b64_encode bs))) b64_decode_sextets
     = Some bs"
proof (induction bs rule: b64_encode.induct)
  case (1 a b c rest)
  then have less: "a < 256" "b < 256" "c < 256" by auto
  define v where "v = a * 65536 + b * 256 + c"
  have enc: "b64_encode (a # b # c # rest) = b64_char (v div 262144) # b64_char (v div 4096) #
      b64_char (v div 64) # b64_char v # b64_encode rest"
    by (simp only: b64_encode.simps Let_def v_def)
  from 1 obtain xs where xs: "those (map (\<lambda>c. index_of c b64_alphabet) (b64_encode rest)) = Some xs"
    and rest: "b64_decode_sextets xs = Some rest"
    by (auto simp: bind_eq_Some_conv)
  show ?case
    unfolding enc using decode_group [OF less, of xs, folded v_def]
    by (simp add: xs rest del: b64_decode_sextets.simps)
next
  case (2 a b)
  then have less: "a < 256" "b < 256" "(0::nat) < 256" by auto
  note v = bytes_of_group [OF less] sextets_recombine [OF bytes_of_group(1) [OF less]]
  then show ?case by (simp add: Let_def)
next
  case (3 a)
  then have less: "a < 256" "(0::nat) < 256" "(0::nat) < 256" by auto
  note v = bytes_of_group [OF less] sextets_recombine [OF bytes_of_group(1) [OF less]]
  then show ?case by (simp add: Let_def)
qed simp

lemma b64_decode_encode: "\<forall>x\<in>set bs. x < 256 \<Longrightarrow> b64_decode (b64_encode bs) = Some bs"
  by (simp add: b64_decode_def those_encode)

lemma b64_encode_eq_Nil [simp]: "b64_encode bs = [] \<longleftrightarrow> bs = []"
  by (cases bs rule: b64_encode.cases) (auto simp: Let_def)

lemma DecodeCursor_EncodeCursor: "DecodeCursor (EncodeCursor u) = Some u"
proof -
  have "\<forall>x\<in>set (map unat (uuid_bytes u)). x < 256" by (auto simp: unat_byte_less)
  then have "b64_decode (EncodeCursor u) = Some (map unat (uuid_bytes u))"
    unfolding EncodeCursor_def by (rule b64_decode_encode)
  moreover have "EncodeCursor u \<noteq> []"
    using length_uuid_bytes [of u] by (auto simp: EncodeCursor_def simp del: length_uuid_bytes)
  moreover have "map word_of_nat (map unat (uuid_bytes u)) = uuid_bytes u"
    by (simp add: comp_def)
  ultimately show ?thesis by (simp add: DecodeCursor_def)
qed

subsection \<open>Optional query filters\<close>

definition NullString :: "string \<Rightarrow> string option" where
  "NullString s = (if s = [] then None else Some s)"

definition NullID :: "uuid \<Rightarrow> uuid option" where
  "NullID u = (if u = uuid_nil then None else Some u)"

definition NullLowerBound :: "gtime \<Rightarrow> uuid option" where
  "NullLowerBound t = (if is_zero_time t then None else Some (LowerBound t))"

subsection \<open>Hexadecimal text\<close>

text \<open>\<^verbatim>\<open>hex.EncodeToString\<close>.\<close>

definition hex_digit :: "nat \<Rightarrow> char" where
  "hex_digit n = ''0123456789abcdef'' ! n"

definition hex_encode :: "8 word list \<Rightarrow> string" where
  "hex_encode bs = concat (map (\<lambda>b. [hex_digit (unat b div 16), hex_digit (unat b mod 16)]) bs)"

end
