(* ===== verification/Segment.thy ===== *)
theory Segment
  imports Prelude
begin

text \<open>
  Text encoding and segment counting: \<^verbatim>\<open>internal/segment/segment.go\<close> and \<^verbatim>\<open>gsm7.go\<close>. A Go
  string is the sequence of its bytes, here a \<open>string\<close>; \<^verbatim>\<open>for _, r := range text\<close> decodes
  UTF-8 and yields U+FFFD for each byte that starts no valid sequence, which \<open>decode_rune\<close>
  and \<open>runes\<close> model with the acceptance ranges of \<^verbatim>\<open>unicode/utf8\<close>.
\<close>

type_synonym rune = nat

subsection \<open>UTF-8\<close>

definition utf8_cont :: "nat \<Rightarrow> nat \<Rightarrow> nat \<Rightarrow> bool" where
  "utf8_cont lo hi b \<longleftrightarrow> lo \<le> b \<and> b \<le> hi"

text \<open>The first rune of a non-empty byte sequence, its width, and whether it was valid.\<close>

definition decode_rune :: "nat list \<Rightarrow> rune \<times> nat \<times> bool" where
  "decode_rune bs =
    (case bs of
       [] \<Rightarrow> (0xFFFD, 0, False)
     | p0 # r \<Rightarrow>
       let bad = (0xFFFD, 1, False);
           cont = utf8_cont 0x80 0xBF;
           two = (case r of
                p1 # _ \<Rightarrow> if cont p1 then ((p0 - 0xC0) * 64 + (p1 - 0x80), 2, True) else bad
              | _ \<Rightarrow> bad);
           three = (\<lambda>lo hi. case r of
                p1 # p2 # _ \<Rightarrow>
                  if utf8_cont lo hi p1 \<and> cont p2
                  then ((p0 - 0xE0) * 4096 + (p1 - 0x80) * 64 + (p2 - 0x80), 3, True) else bad
              | _ \<Rightarrow> bad);
           four = (\<lambda>lo hi. case r of
                p1 # p2 # p3 # _ \<Rightarrow>
                  if utf8_cont lo hi p1 \<and> cont p2 \<and> cont p3
                  then ((p0 - 0xF0) * 262144 + (p1 - 0x80) * 4096 + (p2 - 0x80) * 64 + (p3 - 0x80),
                        4, True) else bad
              | _ \<Rightarrow> bad)
       in if p0 < 0x80 then (p0, 1, True)
          else if p0 < 0xC2 then bad
          else if p0 \<le> 0xDF then two
          else if p0 = 0xE0 then three 0xA0 0xBF
          else if p0 \<le> 0xEC then three 0x80 0xBF
          else if p0 = 0xED then three 0x80 0x9F
          else if p0 \<le> 0xEF then three 0x80 0xBF
          else if p0 = 0xF0 then four 0x90 0xBF
          else if p0 \<le> 0xF3 then four 0x80 0xBF
          else if p0 = 0xF4 then four 0x80 0x8F
          else bad)"

lemma decode_rune_width: "bs \<noteq> [] \<Longrightarrow> decode_rune bs = (r, w, ok) \<Longrightarrow> 0 < w"
  by (auto simp: decode_rune_def Let_def split: list.splits if_splits)

lemma decode_rune_less:
  "bs \<noteq> [] \<Longrightarrow> (r, w, ok) = decode_rune bs \<Longrightarrow> length bs - w < length bs"
  using decode_rune_width [of bs r w ok] by simp

function decode_all :: "nat list \<Rightarrow> (rune \<times> bool) list" where
  "decode_all bs =
     (if bs = [] then []
      else case decode_rune bs of (r, w, ok) \<Rightarrow> (r, ok) # decode_all (drop w bs))"
  by pat_completeness auto
termination
  by (relation "measure length") (auto intro: decode_rune_less)

declare decode_all.simps [simp del]

definition string_bytes :: "string \<Rightarrow> nat list" where
  "string_bytes s = map of_char s"

text \<open>\<^verbatim>\<open>for _, r := range text\<close>\<close>

definition runes :: "string \<Rightarrow> rune list" where
  "runes text = map fst (decode_all (string_bytes text))"

text \<open>\<^verbatim>\<open>utf8.ValidString\<close> and \<^verbatim>\<open>strings.ContainsRune(text, 0)\<close>\<close>

definition valid_utf8 :: "string \<Rightarrow> bool" where
  "valid_utf8 text = list_all snd (decode_all (string_bytes text))"

definition contains_nul :: "string \<Rightarrow> bool" where
  "contains_nul text = List.member (string_bytes text) 0"

subsection \<open>Alphabets, encodings and widths\<close>

datatype encoding = GSM7 | UCS2

definition gsm7Basic :: "rune list" where
  "gsm7Basic =
    [64, 163, 36, 165, 232, 233, 249, 236, 242, 199, 10, 216, 248, 13, 197, 229,
     916, 95, 934, 915, 923, 937, 928, 936, 931, 920, 926, 198, 230, 223, 201, 32,
     33, 34, 35, 164, 37, 38, 39, 40, 41, 42, 43, 44, 45, 46, 47, 48,
     49, 50, 51, 52, 53, 54, 55, 56, 57, 58, 59, 60, 61, 62, 63, 161,
     65, 66, 67, 68, 69, 70, 71, 72, 73, 74, 75, 76, 77, 78, 79, 80,
     81, 82, 83, 84, 85, 86, 87, 88, 89, 90, 196, 214, 209, 220, 167, 191,
     97, 98, 99, 100, 101, 102, 103, 104, 105, 106, 107, 108, 109, 110, 111, 112,
     113, 114, 115, 116, 117, 118, 119, 120, 121, 122, 228, 246, 241, 252, 224]"

definition gsm7Extension :: "rune list" where
  "gsm7Extension = [12, 94, 123, 125, 92, 91, 126, 93, 124, 8364]"

definition GSM7Single :: nat where "GSM7Single = 160"
definition GSM7Part :: nat where "GSM7Part = 153"
definition UCS2Single :: nat where "UCS2Single = 70"
definition UCS2Part :: nat where "UCS2Part = 67"

record seg_result =
  seg_encoding :: encoding
  Units :: nat
  Segments :: nat

fun Detect_runes :: "rune list \<Rightarrow> encoding" where
  "Detect_runes [] = GSM7"
| "Detect_runes (r # rs) =
     (if \<not> List.member gsm7Basic r \<and> \<not> List.member gsm7Extension r then UCS2 else Detect_runes rs)"

definition Detect :: "string \<Rightarrow> encoding" where
  "Detect text = Detect_runes (runes text)"

definition rune_width :: "encoding \<Rightarrow> rune \<Rightarrow> nat" where
  "rune_width enc r =
     (if enc = GSM7 then (if List.member gsm7Extension r then 2 else 1)
      else if r > 0xFFFF then 2 else 1)"

subsection \<open>Counting segments\<close>

text \<open>The greedy loop of \<^verbatim>\<open>Count\<close>: \<open>segs\<close> parts opened, \<open>used\<close> units in the last one.\<close>

fun fill_parts :: "nat \<Rightarrow> nat list \<Rightarrow> nat \<Rightarrow> nat \<Rightarrow> nat" where
  "fill_parts part [] segs used = segs"
| "fill_parts part (w # ws) segs used =
     (if used + w > part then fill_parts part ws (segs + 1) (0 + w)
      else fill_parts part ws segs (used + w))"

definition Count_runes :: "rune list \<Rightarrow> seg_result" where
  "Count_runes rs =
     (let enc = Detect_runes rs;
          (single, part) = (if enc = UCS2 then (UCS2Single, UCS2Part) else (GSM7Single, GSM7Part));
          total = fold (\<lambda>r t. t + rune_width enc r) rs 0
      in if total = 0 then \<lparr>seg_encoding = enc, Units = 0, Segments = 0\<rparr>
         else if total \<le> single then \<lparr>seg_encoding = enc, Units = total, Segments = 1\<rparr>
         else \<lparr>seg_encoding = enc, Units = total,
                Segments = fill_parts part (map (rune_width enc) rs) 1 0\<rparr>)"

definition Count :: "string \<Rightarrow> seg_result" where
  "Count text = Count_runes (runes text)"


subsection \<open>Correctness of the count\<close>

declare sum_list_eq_0_iff [simp del]

text \<open>The reference: a way to cut the widths of a text into parts, none of them larger than a
  part and no character cut in two.\<close>

definition valid_parts :: "nat \<Rightarrow> nat list \<Rightarrow> nat list list \<Rightarrow> bool" where
  "valid_parts part ws ps \<longleftrightarrow> concat ps = ws \<and> (\<forall>p\<in>set ps. sum_list p \<le> part)"

lemma rune_width_bounds: "1 \<le> rune_width enc r" "rune_width enc r \<le> 2"
  by (simp_all add: rune_width_def)

lemma rune_width_pos [simp]: "0 < rune_width enc r"
  by (simp add: rune_width_def)

lemma fold_width: "fold (\<lambda>r t. t + f r) rs (t :: nat) = t + sum_list (map f rs)"
  by (induction rs arbitrary: t) auto

lemma fill_parts_split:
  assumes "\<forall>w\<in>set ws. w \<le> part" and "used \<le> part"
  shows "\<exists>p ps. p @ concat ps = ws \<and> used + sum_list p \<le> part \<and>
           (\<forall>q\<in>set ps. sum_list q \<le> part) \<and> fill_parts part ws segs used = segs + length ps"
  using assms
proof (induction ws arbitrary: segs used)
  case Nil
  then show ?case by (intro exI [of _ "[]"]) simp
next
  case (Cons w ws)
  show ?case
  proof (cases "used + w > part")
    case True
    from Cons.IH [of w "segs + 1"] Cons.prems obtain p ps
      where "p @ concat ps = ws" "w + sum_list p \<le> part" "\<forall>q\<in>set ps. sum_list q \<le> part"
        "fill_parts part ws (segs + 1) w = segs + 1 + length ps" by auto
    with True Cons.prems(2) show ?thesis
      by (intro exI [of _ "[]"] exI [of _ "(w # p) # ps"]) simp
  next
    case False
    from Cons.IH [of "used + w" segs] Cons.prems False obtain p ps
      where "p @ concat ps = ws" "used + w + sum_list p \<le> part" "\<forall>q\<in>set ps. sum_list q \<le> part"
        "fill_parts part ws segs (used + w) = segs + length ps" by auto
    with False show ?thesis
      by (intro exI [of _ "w # p"] exI [of _ ps]) simp
  qed
qed

lemma fill_parts_mono:
  "s < s' \<or> (s = s' \<and> u \<le> u') \<Longrightarrow> fill_parts part ws s u \<le> fill_parts part ws s' u'"
proof (induction ws arbitrary: s s' u u')
  case Nil
  then show ?case by auto
next
  case (Cons w ws)
  show ?case
    using Cons.prems by (auto intro!: Cons.IH)
qed

lemma fill_parts_ge: "s \<le> fill_parts part ws s u"
  by (induction ws arbitrary: s u) (auto intro: Suc_leD)

lemma fill_parts_le:
  assumes "p @ concat ps = ws" "used + sum_list p \<le> part" "\<forall>q\<in>set ps. sum_list q \<le> part"
  shows "fill_parts part ws segs used \<le> segs + length ps"
  using assms
proof (induction ps arbitrary: ws segs used p)
  case Nil
  then have "fill_parts part p segs used = segs"
    by (induction p arbitrary: used ws) (auto simp: add.assoc)
  with Nil.prems show ?case by simp
next
  case (Cons q ps)
  have "fill_parts part (p @ q @ concat ps) segs used \<le> fill_parts part (q @ concat ps) (segs + 1) 0"
    using Cons.prems(2)
  proof (induction p arbitrary: used)
    case Nil
    show ?case by (simp add: fill_parts_mono)
  qed (simp add: add.assoc)
  also have "\<dots> \<le> segs + 1 + length ps"
    using Cons.prems(3) by (intro Cons.IH) auto
  finally show ?case using Cons.prems(1) by simp
qed

lemma fill_parts_minimal:
  assumes "valid_parts part ws ps" "ws \<noteq> []"
  shows "fill_parts part ws 1 0 \<le> length ps"
proof (cases ps)
  case Nil
  with assms show ?thesis by (simp add: valid_parts_def)
next
  case (Cons p ps')
  with assms have "p @ concat ps' = ws" "0 + sum_list p \<le> part" "\<forall>q\<in>set ps'. sum_list q \<le> part"
    by (auto simp: valid_parts_def)
  from fill_parts_le [OF this, of 1] Cons show ?thesis by simp
qed

lemma fill_parts_attained:
  assumes "\<forall>w\<in>set ws. w \<le> part"
  shows "\<exists>ps. valid_parts part ws ps \<and> length ps = fill_parts part ws 1 0"
proof -
  from fill_parts_split [OF assms, of 0 1] obtain p ps where "p @ concat ps = ws"
    "sum_list p \<le> part" "\<forall>q\<in>set ps. sum_list q \<le> part" "fill_parts part ws 1 0 = 1 + length ps"
    by auto
  then have "valid_parts part ws (p # ps) \<and> length (p # ps) = fill_parts part ws 1 0"
    by (auto simp: valid_parts_def)
  then show ?thesis by blast
qed

lemma valid_parts_sum: "valid_parts part ws ps \<Longrightarrow> sum_list ws \<le> length ps * part"
  unfolding valid_parts_def
proof (induction ps arbitrary: ws)
  case (Cons p ps)
  then have "sum_list (concat ps) \<le> length ps * part" "sum_list p \<le> part" by auto
  with Cons.prems show ?case by auto
qed simp

text \<open>Every part but the last has at most one unit to spare, since no character is wider than
  two units.\<close>

lemma fill_parts_upper:
  assumes "\<forall>w\<in>set ws. w \<le> 2"
  shows "(part - 1) * fill_parts part ws s' u \<le> (part - 1) * s' + (u + sum_list ws)"
  using assms
proof (induction ws arbitrary: s' u)
  case (Cons w ws)
  show ?case
  proof (cases "u + w > part")
    case True
    with Cons.prems have "part - 1 \<le> u" by auto
    have "(part - 1) * fill_parts part ws (s' + 1) w \<le> (part - 1) * (s' + 1) + (w + sum_list ws)"
      using Cons.IH [of "s' + 1" w] Cons.prems by auto
    with True \<open>part - 1 \<le> u\<close> show ?thesis by simp
  next
    case False
    then show ?thesis using Cons.IH [of s' "u + w"] Cons.prems by simp
  qed
qed simp

lemma Detect_runes_GSM7_iff:
  "Detect_runes rs = GSM7 \<longleftrightarrow> (\<forall>r\<in>set rs. r \<in> set gsm7Basic \<union> set gsm7Extension)"
  by (induction rs) auto

lemma total_width_eq:
  "fold (\<lambda>r t. t + rune_width enc r) rs 0 = sum_list (map (rune_width enc) rs)"
  by (simp add: fold_width)

lemma total_width_pos: "sum_list (map (rune_width enc) rs) = 0 \<longleftrightarrow> rs = []"
  by (cases rs) (simp_all add: sum_list_eq_0_iff)

definition part_size :: "encoding \<Rightarrow> nat" where
  "part_size enc = (if enc = UCS2 then UCS2Part else GSM7Part)"

definition single_size :: "encoding \<Rightarrow> nat" where
  "single_size enc = (if enc = UCS2 then UCS2Single else GSM7Single)"

lemmas size_defs = part_size_def single_size_def GSM7Single_def GSM7Part_def UCS2Single_def UCS2Part_def

lemma rune_width_le_part: "rune_width enc r \<le> part_size enc'"
  by (simp add: rune_width_def size_defs)

lemma Count_runes_eq:
  "Count_runes rs =
     (let enc = Detect_runes rs; ws = map (rune_width enc) rs; total = sum_list ws
      in \<lparr>seg_encoding = enc, Units = total,
           Segments = (if total = 0 then 0 else if total \<le> single_size enc then 1
                       else fill_parts (part_size enc) ws 1 0)\<rparr>)"
  by (cases "Detect_runes rs")
    (simp_all add: Count_runes_def Let_def total_width_eq single_size_def part_size_def)

lemma Segments_cases:
  fixes rs defines "c \<equiv> Count_runes rs"
  shows "Units c = 0 \<Longrightarrow> Segments c = 0"
    and "0 < Units c \<Longrightarrow> Units c \<le> single_size (seg_encoding c) \<Longrightarrow> Segments c = 1"
    and "single_size (seg_encoding c) < Units c \<Longrightarrow>
      Segments c = fill_parts (part_size (seg_encoding c)) (map (rune_width (seg_encoding c)) rs) 1 0"
  by (simp_all add: c_def Count_runes_eq Let_def)

lemma Count_fields:
  "seg_encoding (Count s) = Detect s"
  "Units (Count s) = sum_list (map (rune_width (Detect s)) (runes s))"
  by (simp_all add: Count_def Count_runes_eq Detect_def Let_def)

lemma runes_Nil_iff [simp]: "runes s = [] \<longleftrightarrow> s = []"
  by (simp add: runes_def string_bytes_def decode_all.simps [of "map of_char s"] split: prod.splits)

lemma Count_Units_0_iff: "Units (Count s) = 0 \<longleftrightarrow> s = []"
  by (simp add: Count_fields total_width_pos)

lemma Segments_pos_iff: "0 < Segments (Count s) \<longleftrightarrow> s \<noteq> []"
proof (cases "s = []")
  case True
  then show ?thesis using Segments_cases(1) [of "runes s"] Count_Units_0_iff [of s]
    by (simp add: Count_def)
next
  case False
  then have "0 < Units (Count_runes (runes s))"
    using Count_Units_0_iff [of s] by (simp add: Count_def)
  then show ?thesis
    using False Segments_cases(2,3) [of "runes s"] fill_parts_ge [of 1]
    by (cases "Units (Count_runes (runes s)) \<le> single_size (seg_encoding (Count_runes (runes s)))")
      (simp_all add: Count_def not_le Suc_le_eq)
qed

lemma Segments_long:
  assumes "single_size (Detect s) < Units (Count s)"
  shows "Segments (Count s) =
     fill_parts (part_size (Detect s)) (map (rune_width (Detect s)) (runes s)) 1 0"
  using Segments_cases(3) [of "runes s"] assms
  by (simp add: Count_def Detect_def Count_runes_eq Let_def)


text \<open>The segment count is bounded by the units on both sides: a multipart text of \<open>n\<close>
  segments has at most \<open>n\<close> times the part capacity in units, and more than \<open>n - 1\<close> parts with
  one spare unit each could hold. A text in one segment fits the single capacity, and only the
  empty text occupies no segment.\<close>

theorem Count_bounds:
  "(Segments (Count s) = 0 \<longleftrightarrow> s = [])
   \<and> (Units (Count s) \<le> single_size (Detect s) \<longrightarrow> Segments (Count s) \<le> 1)
   \<and> (single_size (Detect s) < Units (Count s) \<longrightarrow>
        Units (Count s) \<le> Segments (Count s) * part_size (Detect s)
        \<and> (part_size (Detect s) - 1) * (Segments (Count s) - 1) \<le> Units (Count s))"
proof (intro conjI impI)
  show "Segments (Count s) = 0 \<longleftrightarrow> s = []"
    using Segments_pos_iff [of s] by auto
next
  assume "Units (Count s) \<le> single_size (Detect s)"
  then show "Segments (Count s) \<le> 1"
    using Segments_cases(1,2) [of "runes s"]
    by (cases "Units (Count s) = 0") (simp_all add: Count_def Detect_def Count_runes_eq Let_def)
next
  let ?ws = "map (rune_width (Detect s)) (runes s)"
  assume long: "single_size (Detect s) < Units (Count s)"
  have seg: "Segments (Count s) = fill_parts (part_size (Detect s)) ?ws 1 0"
    by (rule Segments_long [OF long])
  have ws: "\<forall>w\<in>set ?ws. w \<le> part_size (Detect s)" "\<forall>w\<in>set ?ws. w \<le> 2"
    by (simp_all add: rune_width_le_part rune_width_bounds)
  from fill_parts_attained [OF ws(1)] valid_parts_sum
  show "Units (Count s) \<le> Segments (Count s) * part_size (Detect s)"
    unfolding seg Count_fields by metis
  show "(part_size (Detect s) - 1) * (Segments (Count s) - 1) \<le> Units (Count s)"
    using fill_parts_upper [OF ws(2), of "part_size (Detect s)" 1 0]
    unfolding seg Count_fields by (simp add: diff_mult_distrib2)
qed

text \<open>A plain ASCII text of 161 characters is two segments.\<close>

lemma runes_ascii: "\<forall>c\<in>set s. (of_char c :: nat) < 128 \<Longrightarrow> runes s = map of_char s"
proof -
  have "\<forall>b\<in>set bs. b < 128 \<Longrightarrow> map fst (decode_all bs) = bs" for bs
    by (induction bs) (subst decode_all.simps, simp add: decode_rune_def Let_def)+
  then show "\<forall>c\<in>set s. (of_char c :: nat) < 128 \<Longrightarrow> runes s = map of_char s"
    by (simp add: runes_def string_bytes_def)
qed

lemma Count_example:
  "Detect (replicate 161 (CHR ''a'')) = GSM7" "Units (Count (replicate 161 (CHR ''a''))) = 161"
proof -
  have r: "runes (replicate 161 (CHR ''a'')) = replicate 161 97" by (subst runes_ascii) simp_all
  show d: "Detect (replicate 161 (CHR ''a'')) = GSM7"
    unfolding Detect_def r by (subst Detect_runes_GSM7_iff) (simp add: gsm7Basic_def)
  show "Units (Count (replicate 161 (CHR ''a''))) = 161"
    unfolding Count_fields r d by (simp add: rune_width_def gsm7Extension_def sum_list_replicate)
qed


theorem Count_bounds_witness:
  "single_size (Detect (replicate 161 (CHR ''a''))) < Units (Count (replicate 161 (CHR ''a'')))
   \<and> Segments (Count (replicate 161 (CHR ''a''))) = 2"
proof -
  have h: "single_size (Detect (replicate 161 (CHR ''a''))) < Units (Count (replicate 161 (CHR ''a'')))"
    unfolding Count_example by (simp add: size_defs)
  moreover from Count_bounds [of "replicate 161 (CHR ''a'')"] h
  have "161 \<le> Segments (Count (replicate 161 (CHR ''a''))) * 153"
    "152 * (Segments (Count (replicate 161 (CHR ''a''))) - 1) \<le> 161"
    unfolding Count_example by (simp_all add: size_defs)
  then have "Segments (Count (replicate 161 (CHR ''a''))) = 2" by arith
  ultimately show ?thesis by blast
qed

end
