(* ===== verification/Schema.thy ===== *)
theory Schema
  imports Ids Segment
begin

text \<open>
  The data of the gateway: the domain types of \<^verbatim>\<open>internal/message\<close> and \<^verbatim>\<open>internal/billing\<close>,
  and the database they live in (\<^verbatim>\<open>migrations/00001_init.sql\<close>). Each table is the list of its
  rows. A statement that would break a constraint of the schema fails with the violation
  PostgreSQL reports, so the constraints are part of every operation that writes.
\<close>

subsection \<open>Domain types\<close>

datatype mtype = Normal | Express

datatype status =
    StatusAccepted | StatusSent | StatusDelivered | StatusUndelivered | StatusFailed | StatusExpired

datatype failure_reason = ReasonRejected | ReasonAttemptsExhausted | ReasonExpired

datatype kind = KindCharge | KindDebit | KindRefund

definition ParseType :: "string \<Rightarrow> mtype option" where
  "ParseType s = (if s = ''normal'' then Some Normal else if s = ''express'' then Some Express else None)"

definition type_string :: "mtype \<Rightarrow> string" where
  "type_string t = (case t of Normal \<Rightarrow> ''normal'' | Express \<Rightarrow> ''express'')"

definition status_string :: "status \<Rightarrow> string" where
  "status_string st = (case st of StatusAccepted \<Rightarrow> ''accepted'' | StatusSent \<Rightarrow> ''sent''
     | StatusDelivered \<Rightarrow> ''delivered'' | StatusUndelivered \<Rightarrow> ''undelivered''
     | StatusFailed \<Rightarrow> ''failed'' | StatusExpired \<Rightarrow> ''expired'')"

definition Statuses :: "status list" where
  "Statuses = [StatusAccepted, StatusSent, StatusDelivered, StatusUndelivered, StatusFailed, StatusExpired]"

definition ParseStatus :: "string \<Rightarrow> status option" where
  "ParseStatus s = find (\<lambda>st. status_string st = s) Statuses"

definition kind_string :: "kind \<Rightarrow> string" where
  "kind_string k = (case k of KindCharge \<Rightarrow> ''charge'' | KindDebit \<Rightarrow> ''debit'' | KindRefund \<Rightarrow> ''refund'')"

definition ParseKind :: "string \<Rightarrow> kind option" where
  "ParseKind s = (if s = ''charge'' then Some KindCharge else if s = ''debit'' then Some KindDebit
     else if s = ''refund'' then Some KindRefund else None)"

lemma ParseType_type_string [simp]: "ParseType (type_string t) = Some t"
  by (cases t) (simp_all add: ParseType_def type_string_def)

lemma ParseStatus_status_string [simp]: "ParseStatus (status_string st) = Some st"
  by (cases st) (simp_all add: ParseStatus_def status_string_def Statuses_def)

lemma ParseKind_kind_string [simp]: "ParseKind (kind_string k) = Some k"
  by (cases k) (simp_all add: ParseKind_def kind_string_def)

subsection \<open>Errors\<close>

record field_error =
  fe_field :: string
  fe_code :: string
  fe_message :: string

datatype db_error =
    CheckViolation string
  | UniqueViolation string
  | ForeignKeyViolation string
  | NumericOutOfRange
  | Unavailable

datatype error =
    ValidationError "field_error list"
  | ConflictError "field_error list"
  | ErrInsufficientCredits
  | ErrChargeConflict
  | ErrCustomerNotFound
  | ErrMessageNotFound
  | ErrNotFound
  | ErrUnauthorized
  | ErrClientRefTaken
  | DbErr string db_error
  | ErrText string

definition tx_error :: "string \<Rightarrow> error" where
  "tx_error s = DbErr s Unavailable"

subsection \<open>Rows\<close>

record customer =
  c_id :: uuid
  c_name :: string
  c_api_key_hash :: string
  c_api_key_prefix :: string
  c_balance :: int
  c_rate_limit_rps :: int
  c_created_at :: gtime
  c_updated_at :: gtime

record message =
  m_id :: uuid
  m_customer_id :: uuid
  m_type :: mtype
  m_recipient :: string
  m_body :: string
  m_encoding :: encoding
  m_segments :: nat
  m_cost :: int
  m_status :: status
  m_attempts :: int
  m_provider :: "string option"
  m_provider_ref :: "string option"
  m_last_error :: "string option"
  m_failure_reason :: "failure_reason option"
  m_sla_breached :: bool
  m_client_ref :: "string option"
  m_accepted_at :: gtime
  m_expires_at :: gtime
  m_sent_at :: "gtime option"
  m_completed_at :: "gtime option"
  m_updated_at :: gtime

record transaction =
  t_id :: uuid
  t_customer_id :: uuid
  t_kind :: kind
  t_amount :: int
  t_message_id :: "uuid option"
  t_client_ref :: "string option"
  t_created_at :: gtime

record queue_row =
  q_message_id :: uuid
  q_lane :: string
  q_next_attempt_at :: gtime
  q_lease_owner :: "string option"
  q_lease_version :: int
  q_expires_at :: gtime

record worker_row =
  w_id :: string
  w_role :: string
  w_started_at :: gtime
  w_last_seen :: gtime
  w_stats :: string

record db =
  customers :: "customer list"
  messages :: "message list"
  transactions :: "transaction list"
  queue :: "queue_row list"
  workers :: "worker_row list"

definition empty_db :: db where
  "empty_db = \<lparr>customers = [], messages = [], transactions = [], queue = [], workers = []\<rparr>"

text \<open>What one operation gets from outside: the transaction's \<^verbatim>\<open>now()\<close>, the identifiers its
  calls of \<^verbatim>\<open>store.NewID\<close> return in order, and the textual form of an identifier
  (\<^verbatim>\<open>uuid.UUID.String\<close>).\<close>

record env =
  env_now :: gtime
  env_new_id :: "nat \<Rightarrow> uuid"
  env_uuid_string :: "uuid \<Rightarrow> string"

subsection \<open>Constraints\<close>

definition ended :: "status \<Rightarrow> bool" where
  "ended st \<longleftrightarrow> st = StatusFailed \<or> st = StatusExpired"

definition terminal :: "status \<Rightarrow> bool" where
  "terminal st \<longleftrightarrow> st = StatusDelivered \<or> st = StatusUndelivered \<or> ended st"

lemma status_class [simp]:
  "\<not> ended StatusAccepted" "\<not> ended StatusSent" "\<not> ended StatusDelivered" "\<not> ended StatusUndelivered"
  "ended StatusFailed" "ended StatusExpired" "\<not> terminal StatusAccepted" "\<not> terminal StatusSent"
  "terminal StatusDelivered" "terminal StatusUndelivered" "terminal StatusFailed" "terminal StatusExpired"
  by (simp_all add: ended_def terminal_def)

text \<open>The check constraints of each table, with the range of the \<^verbatim>\<open>BIGINT\<close> balance.\<close>

definition customer_check :: "customer \<Rightarrow> bool" where
  "customer_check c \<longleftrightarrow> 1 \<le> length (runes (c_name c)) \<and> length (runes (c_name c)) \<le> 100 \<and>
     0 \<le> c_balance c \<and> in_int64 (c_balance c) \<and> 1 \<le> c_rate_limit_rps c \<and> c_rate_limit_rps c \<le> 100000"

definition message_check :: "message \<Rightarrow> bool" where
  "message_check m \<longleftrightarrow> 1 \<le> m_segments m \<and> m_segments m \<le> 10 \<and> 0 < m_cost m \<and>
     ended (m_status m) = (m_failure_reason m \<noteq> None)"

definition transaction_check :: "transaction \<Rightarrow> bool" where
  "transaction_check t \<longleftrightarrow>
     ((t_kind t = KindDebit \<and> t_amount t < 0) \<or> (t_kind t \<noteq> KindDebit \<and> 0 < t_amount t)) \<and>
     (t_kind t = KindCharge) = (t_message_id t = None) \<and>
     (t_kind t = KindCharge) = (t_client_ref t \<noteq> None)"

text \<open>\<^verbatim>\<open>transactions_message_kind_uidx\<close>, \<^verbatim>\<open>transactions_charge_ref_uidx\<close> and
  \<^verbatim>\<open>messages_customer_client_ref_key\<close>; NULL conflicts with nothing.\<close>

definition message_kind_taken :: "uuid option \<Rightarrow> kind \<Rightarrow> transaction list \<Rightarrow> bool" where
  "message_kind_taken mid k ts \<longleftrightarrow>
     mid \<noteq> None \<and> list_ex (\<lambda>t. t_message_id t = mid \<and> t_kind t = k) ts"

definition charge_ref_taken :: "uuid \<Rightarrow> string option \<Rightarrow> transaction list \<Rightarrow> bool" where
  "charge_ref_taken cid ref ts \<longleftrightarrow>
     ref \<noteq> None \<and>
     list_ex (\<lambda>t. t_kind t = KindCharge \<and> t_customer_id t = cid \<and> t_client_ref t = ref) ts"

definition client_ref_taken :: "uuid \<Rightarrow> string option \<Rightarrow> message list \<Rightarrow> bool" where
  "client_ref_taken cid ref ms \<longleftrightarrow>
     ref \<noteq> None \<and> list_ex (\<lambda>m. m_customer_id m = cid \<and> m_client_ref m = ref) ms"

subsection \<open>Statements shared by the components\<close>

text \<open>\<^verbatim>\<open>INSERT INTO transactions\<close> of one row. PostgreSQL evaluates the check constraints first,
  then the unique indexes, then, at the end of the statement, the foreign keys.\<close>

definition insert_transaction :: "transaction \<Rightarrow> db \<Rightarrow> db_error + db" where
  "insert_transaction t d =
     (if \<not> transaction_check t then Inl (CheckViolation ''transactions'')
      else if has_key t_id (t_id t) (transactions d) then Inl (UniqueViolation ''transactions_pkey'')
      else if message_kind_taken (t_message_id t) (t_kind t) (transactions d)
      then Inl (UniqueViolation ''transactions_message_kind_uidx'')
      else if t_kind t = KindCharge \<and> charge_ref_taken (t_customer_id t) (t_client_ref t) (transactions d)
      then Inl (UniqueViolation ''transactions_charge_ref_uidx'')
      else if \<not> has_key c_id (t_customer_id t) (customers d)
      then Inl (ForeignKeyViolation ''transactions_customer_id_fkey'')
      else if \<not> (case t_message_id t of None \<Rightarrow> True | Some mid \<Rightarrow> has_key m_id mid (messages d))
      then Inl (ForeignKeyViolation ''transactions_message_id_fkey'')
      else Inr (d\<lparr>transactions := transactions d @ [t]\<rparr>))"

text \<open>\<^verbatim>\<open>UPDATE customers SET balance = balance + delta .. WHERE id = cid RETURNING balance\<close>; no
  row returned is \<open>None\<close>.\<close>

definition add_balance :: "gtime \<Rightarrow> uuid \<Rightarrow> int \<Rightarrow> db \<Rightarrow> db_error + db \<times> int option" where
  "add_balance now cid delta d =
     (case row_of c_id cid (customers d) of
        None \<Rightarrow> Inr (d, None)
      | Some c \<Rightarrow>
          let b = c_balance c + delta
          in if \<not> in_int64 b then Inl NumericOutOfRange
             else if b < 0 then Inl (CheckViolation ''customers'')
             else Inr (d\<lparr>customers := update_where (\<lambda>c. c_id c = cid)
                          (\<lambda>c. c\<lparr>c_balance := c_balance c + delta, c_updated_at := now\<rparr>) (customers d)\<rparr>,
                       Some b))"

lemma insert_transaction_Inr_iff:
  "insert_transaction t d = Inr d' \<longleftrightarrow>
     transaction_check t \<and> \<not> has_key t_id (t_id t) (transactions d) \<and>
     \<not> message_kind_taken (t_message_id t) (t_kind t) (transactions d) \<and>
     \<not> (t_kind t = KindCharge \<and> charge_ref_taken (t_customer_id t) (t_client_ref t) (transactions d)) \<and>
     has_key c_id (t_customer_id t) (customers d) \<and>
     (\<forall>mid. t_message_id t = Some mid \<longrightarrow> has_key m_id mid (messages d)) \<and>
     d' = d\<lparr>transactions := transactions d @ [t]\<rparr>"
  by (auto simp: insert_transaction_def split: option.splits if_splits)

lemma add_balance_InrD:
  assumes "add_balance now cid delta d = Inr (d', Some b)"
  shows "\<exists>c. row_of c_id cid (customers d) = Some c \<and> b = c_balance c + delta \<and> 0 \<le> b \<and> in_int64 b \<and>
    d' = d\<lparr>customers := update_where (\<lambda>c. c_id c = cid)
            (\<lambda>c. c\<lparr>c_balance := c_balance c + delta, c_updated_at := now\<rparr>) (customers d)\<rparr>"
  using assms by (auto simp: add_balance_def Let_def split: option.splits if_splits)

end
