(* ===== verification/Consistency.thy ===== *)
theory Consistency
  imports Schema
begin

text \<open>
  What every commit keeps true of the database, in one invariant \<open>db_inv\<close>: the constraints of
  the schema (keys, foreign keys, row checks, unique client references) and the accounting and
  lifecycle rules that \<^verbatim>\<open>docs/070-reliability/020-invariants.md\<close> lists as I1 to I4 and I7. The
  lemmas at the end say which net effects of a transaction keep it; each component reduces
  its transactions to one of them.
\<close>

subsection \<open>The invariant\<close>

definition keys_ok :: "db \<Rightarrow> bool" where
  "keys_ok d \<longleftrightarrow> distinct (map c_id (customers d)) \<and> distinct (map m_id (messages d)) \<and>
     distinct (map t_id (transactions d)) \<and> distinct (map q_message_id (queue d))"

definition foreign_ok :: "db \<Rightarrow> bool" where
  "foreign_ok d \<longleftrightarrow>
     (\<forall>m\<in>set (messages d). m_customer_id m \<in> c_id ` set (customers d)) \<and>
     (\<forall>t\<in>set (transactions d). t_customer_id t \<in> c_id ` set (customers d)) \<and>
     (\<forall>t\<in>set (transactions d). \<forall>mid. t_message_id t = Some mid \<longrightarrow> mid \<in> m_id ` set (messages d)) \<and>
     (\<forall>q\<in>set (queue d). q_message_id q \<in> m_id ` set (messages d))"

definition rows_ok :: "db \<Rightarrow> bool" where
  "rows_ok d \<longleftrightarrow> (\<forall>c\<in>set (customers d). customer_check c) \<and> (\<forall>m\<in>set (messages d). message_check m) \<and>
     (\<forall>t\<in>set (transactions d). transaction_check t)"

definition refs_ok :: "db \<Rightarrow> bool" where
  "refs_ok d \<longleftrightarrow>
     distinct (map (\<lambda>m. (m_customer_id m, m_client_ref m)) (filter (\<lambda>m. m_client_ref m \<noteq> None) (messages d))) \<and>
     distinct (map (\<lambda>t. (t_customer_id t, t_client_ref t)) (filter (\<lambda>t. t_kind t = KindCharge) (transactions d)))"

definition ledger_sum :: "uuid \<Rightarrow> transaction list \<Rightarrow> int" where
  "ledger_sum cid ts = (\<Sum>t\<leftarrow>filter (\<lambda>t. t_customer_id t = cid) ts. t_amount t)"

definition txns_of :: "kind \<Rightarrow> uuid \<Rightarrow> transaction list \<Rightarrow> transaction list" where
  "txns_of k mid ts = filter (\<lambda>t. t_message_id t = Some mid \<and> t_kind t = k) ts"

text \<open>I1: balances are the sums of their ledger rows.\<close>

definition balances_ok :: "customer list \<Rightarrow> transaction list \<Rightarrow> bool" where
  "balances_ok cs ts \<longleftrightarrow> (\<forall>c\<in>set cs. c_balance c = ledger_sum (c_id c) ts)"

text \<open>I2 and I3: one debit of the cost, a refund of the cost exactly for failed and expired
  messages, both in the name of the message's customer.\<close>

definition message_ledger_ok :: "transaction list \<Rightarrow> message \<Rightarrow> bool" where
  "message_ledger_ok ts m \<longleftrightarrow>
     map t_amount (txns_of KindDebit (m_id m) ts) = [- m_cost m] \<and>
     map t_amount (txns_of KindRefund (m_id m) ts) = (if ended (m_status m) then [m_cost m] else []) \<and>
     (\<forall>t\<in>set ts. t_message_id t = Some (m_id m) \<longrightarrow> t_customer_id t = m_customer_id m)"

definition ledger_ok :: "db \<Rightarrow> bool" where
  "ledger_ok d \<longleftrightarrow> balances_ok (customers d) (transactions d) \<and>
     (\<forall>m\<in>set (messages d). message_ledger_ok (transactions d) m)"

text \<open>I4: an accepted message has a queue row.\<close>

definition queued_ok :: "db \<Rightarrow> bool" where
  "queued_ok d \<longleftrightarrow>
     (\<forall>m\<in>set (messages d). m_status m = StatusAccepted \<longrightarrow> m_id m \<in> q_message_id ` set (queue d))"

text \<open>I7, strengthened with what the statuses before the end say of the timestamps.\<close>

definition stamps_ok :: "gtime \<Rightarrow> message \<Rightarrow> bool" where
  "stamps_ok now m \<longleftrightarrow>
     m_accepted_at m \<le> now \<and>
     (m_status m = StatusAccepted \<longrightarrow> m_sent_at m = None \<and> m_completed_at m = None) \<and>
     (m_status m = StatusSent \<longrightarrow> m_sent_at m \<noteq> None \<and> m_completed_at m = None) \<and>
     (terminal (m_status m) \<longrightarrow> m_completed_at m \<noteq> None) \<and>
     (\<forall>t. m_sent_at m = Some t \<longrightarrow> m_accepted_at m \<le> t \<and> t \<le> now) \<and>
     (\<forall>t. m_completed_at m = Some t \<longrightarrow> m_accepted_at m \<le> t \<and> t \<le> now)"

definition db_inv :: "gtime \<Rightarrow> db \<Rightarrow> bool" where
  "db_inv now d \<longleftrightarrow> keys_ok d \<and> foreign_ok d \<and> rows_ok d \<and> refs_ok d \<and> ledger_ok d \<and> queued_ok d \<and>
     (\<forall>m\<in>set (messages d). stamps_ok now m)"

lemmas db_inv_defs = db_inv_def keys_ok_def foreign_ok_def rows_ok_def refs_ok_def ledger_ok_def queued_ok_def

lemma db_inv_keysD:
  assumes "db_inv now d"
  shows "distinct (map c_id (customers d))" "distinct (map m_id (messages d))"
    "distinct (map t_id (transactions d))" "distinct (map q_message_id (queue d))"
  using assms by (simp_all add: db_inv_def keys_ok_def)

lemma db_inv_rowsD:
  assumes "db_inv now d"
  shows "c \<in> set (customers d) \<Longrightarrow> customer_check c" "m \<in> set (messages d) \<Longrightarrow> message_check m"
    "t \<in> set (transactions d) \<Longrightarrow> transaction_check t"
    "m \<in> set (messages d) \<Longrightarrow> message_ledger_ok (transactions d) m" "m \<in> set (messages d) \<Longrightarrow> stamps_ok now m"
  using assms by (simp_all add: db_inv_def rows_ok_def ledger_ok_def)

lemma db_inv_empty: "db_inv now empty_db"
  by (simp add: db_inv_defs balances_ok_def empty_db_def)

lemma stamps_ok_mono: "stamps_ok now m \<Longrightarrow> now \<le> now' \<Longrightarrow> stamps_ok now' m"
  by (auto simp: stamps_ok_def)

lemma db_inv_mono: "db_inv now d \<Longrightarrow> now \<le> now' \<Longrightarrow> db_inv now' d"
  by (auto simp: db_inv_def intro: stamps_ok_mono)

subsection \<open>Ledger sums\<close>

lemma ledger_sum_Nil [simp]: "ledger_sum cid [] = 0"
  by (simp add: ledger_sum_def)

lemma ledger_sum_append [simp]: "ledger_sum cid (ts @ us) = ledger_sum cid ts + ledger_sum cid us"
  by (simp add: ledger_sum_def)

lemma ledger_sum_Cons [simp]:
  "ledger_sum cid (t # ts) = (if t_customer_id t = cid then t_amount t else 0) + ledger_sum cid ts"
  by (simp add: ledger_sum_def)

lemma txns_of_append [simp]: "txns_of k mid (ts @ us) = txns_of k mid ts @ txns_of k mid us"
  by (simp add: txns_of_def)

lemma txns_of_Nil [simp]: "txns_of k mid [] = []"
  by (simp add: txns_of_def)

lemma txns_of_eq_Nil_iff:
  "txns_of k mid ts = [] \<longleftrightarrow> \<not> message_kind_taken (Some mid) k ts"
  by (auto simp: txns_of_def message_kind_taken_def filter_empty_conv list_ex_iff)

lemma ledger_sum_filter:
  "(\<And>t. t \<in> set ts \<Longrightarrow> t_customer_id t = cid \<Longrightarrow> P t) \<Longrightarrow> ledger_sum cid (filter P ts) = ledger_sum cid ts"
  by (induction ts) auto

lemma txns_of_filter:
  "(\<And>t. t \<in> set ts \<Longrightarrow> t_message_id t = Some mid \<Longrightarrow> P t) \<Longrightarrow> txns_of k mid (filter P ts) = txns_of k mid ts"
  by (induction ts) (auto simp: txns_of_def)

subsection \<open>Effects that keep the invariant\<close>

text \<open>A row update that only touches what the invariant does not read of a customer.\<close>

definition same_account :: "customer \<Rightarrow> customer \<Rightarrow> bool" where
  "same_account c c' \<longleftrightarrow> c_id c' = c_id c \<and> c_balance c' = c_balance c"

definition same_core :: "message \<Rightarrow> message \<Rightarrow> bool" where
  "same_core m m' \<longleftrightarrow> m_id m' = m_id m \<and> m_customer_id m' = m_customer_id m \<and> m_cost m' = m_cost m \<and>
     m_client_ref m' = m_client_ref m \<and> m_segments m' = m_segments m"

lemma same_coreD:
  "same_core m m' \<Longrightarrow> m_id m' = m_id m"
  "same_core m m' \<Longrightarrow> m_customer_id m' = m_customer_id m"
  "same_core m m' \<Longrightarrow> m_cost m' = m_cost m"
  "same_core m m' \<Longrightarrow> m_client_ref m' = m_client_ref m"
  by (simp_all add: same_core_def)

lemma map_same_core:
  assumes "\<forall>m\<in>set ms. same_core m (f m)"
  shows "map m_id (map f ms) = map m_id ms" "m_id ` f ` set ms = m_id ` set ms"
    "map (\<lambda>m. (m_customer_id m, m_client_ref m)) (filter (\<lambda>m. m_client_ref m \<noteq> None) (map f ms)) =
     map (\<lambda>m. (m_customer_id m, m_client_ref m)) (filter (\<lambda>m. m_client_ref m \<noteq> None) ms)"
proof -
  show "map m_id (map f ms) = map m_id ms"
    using assms by (simp add: same_core_def)
  then show "m_id ` f ` set ms = m_id ` set ms"
    by (metis set_map)
  show "map (\<lambda>m. (m_customer_id m, m_client_ref m)) (filter (\<lambda>m. m_client_ref m \<noteq> None) (map f ms)) =
     map (\<lambda>m. (m_customer_id m, m_client_ref m)) (filter (\<lambda>m. m_client_ref m \<noteq> None) ms)"
    using assms by (induction ms) (auto simp: same_core_def)
qed

text \<open>Updating messages without ending or un-ending any.\<close>

lemma db_inv_update_messages [db_intros]:
  assumes inv: "db_inv now d"
    and core: "\<forall>m\<in>set (messages d). same_core m (f m) \<and> ended (m_status (f m)) = ended (m_status m)"
    and check: "\<forall>m\<in>set (messages d). message_check (f m) \<and> stamps_ok now (f m)"
    and acc: "\<forall>m\<in>set (messages d). m_status (f m) = StatusAccepted \<longrightarrow> m_status m = StatusAccepted"
  shows "db_inv now (d\<lparr>messages := map f (messages d)\<rparr>)"
proof -
  have sc: "\<forall>m\<in>set (messages d). same_core m (f m)" using core by blast
  note ids = map_same_core [OF sc]
  have "keys_ok (d\<lparr>messages := map f (messages d)\<rparr>)"
    using inv by (simp add: db_inv_defs ids(1) del: map_map)
  moreover have "foreign_ok (d\<lparr>messages := map f (messages d)\<rparr>)"
    using inv ids(2) same_coreD(2) sc by (simp add: db_inv_defs) metis
  moreover have "rows_ok (d\<lparr>messages := map f (messages d)\<rparr>)"
    using inv check by (simp add: db_inv_defs)
  moreover have "refs_ok (d\<lparr>messages := map f (messages d)\<rparr>)"
    using inv ids(3) by (simp add: db_inv_defs del: filter_map)
  moreover have "ledger_ok (d\<lparr>messages := map f (messages d)\<rparr>)"
    using inv core by (auto simp: db_inv_defs message_ledger_ok_def same_core_def)
  moreover have "queued_ok (d\<lparr>messages := map f (messages d)\<rparr>)"
    using inv acc sc by (auto simp: db_inv_defs same_core_def)
  ultimately show ?thesis using check by (simp add: db_inv_def)
qed

text \<open>The same for \<^verbatim>\<open>UPDATE messages .. FROM unnest(..)\<close>.\<close>

lemma update_join_map:
  "update_join key rkey p upd rs rows =
     map (\<lambda>x. case row_of rkey (key x) rs of None \<Rightarrow> x | Some r \<Rightarrow> if p x then upd r x else x) rows"
  by (simp add: update_join_def)

lemma db_inv_update_join:
  assumes inv: "db_inv now d"
    and upd: "\<And>r m. r \<in> set rs \<Longrightarrow> m \<in> set (messages d) \<Longrightarrow> rkey r = m_id m \<Longrightarrow> p m \<Longrightarrow>
      same_core m (upd r m) \<and> ended (m_status (upd r m)) = ended (m_status m) \<and> message_check (upd r m) \<and>
      stamps_ok now (upd r m) \<and> (m_status (upd r m) = StatusAccepted \<longrightarrow> m_status m = StatusAccepted)"
  shows "db_inv now (d\<lparr>messages := update_join m_id rkey p upd rs (messages d)\<rparr>)"
proof -
  let ?f = "\<lambda>m. case row_of rkey (m_id m) rs of None \<Rightarrow> m | Some r \<Rightarrow> if p m then upd r m else m"
  have f: "same_core m (?f m) \<and> ended (m_status (?f m)) = ended (m_status m) \<and> message_check (?f m) \<and>
      stamps_ok now (?f m) \<and> (m_status (?f m) = StatusAccepted \<longrightarrow> m_status m = StatusAccepted)"
    if m: "m \<in> set (messages d)" for m
  proof (cases "\<exists>r. row_of rkey (m_id m) rs = Some r \<and> p m")
    case False
    then have "?f m = m" by (auto split: option.splits)
    then show ?thesis using db_inv_rowsD [OF inv] m by (simp add: same_core_def)
  next
    case True
    then obtain r where r: "row_of rkey (m_id m) rs = Some r" "p m" by blast
    then show ?thesis using upd [of r m] row_of_SomeD [OF r(1)] m by simp
  qed
  show ?thesis unfolding update_join_map by (rule db_inv_update_messages [OF inv]) (use f in blast)+
qed

text \<open>Updating queue rows in place, and deleting rows of messages that left the accepted status.\<close>

lemma db_inv_update_queue [db_intros]:
  assumes "db_inv now d" and "\<And>q. q_message_id (g q) = q_message_id q"
  shows "db_inv now (d\<lparr>queue := map g (queue d)\<rparr>)"
  using assms by (auto simp: db_inv_defs image_image comp_def)

lemma db_inv_filter_queue [db_intros]:
  assumes inv: "db_inv now d"
    and keep: "\<And>q m. q \<in> set (queue d) \<Longrightarrow> m \<in> set (messages d) \<Longrightarrow> m_id m = q_message_id q \<Longrightarrow>
      m_status m = StatusAccepted \<Longrightarrow> P q"
  shows "db_inv now (d\<lparr>queue := filter P (queue d)\<rparr>)"
proof -
  have "queued_ok (d\<lparr>queue := filter P (queue d)\<rparr>)"
    unfolding queued_ok_def
  proof (intro ballI impI)
    fix m assume m: "m \<in> set (messages (d\<lparr>queue := filter P (queue d)\<rparr>))" "m_status m = StatusAccepted"
    then obtain q where q: "q \<in> set (queue d)" "m_id m = q_message_id q"
      using inv by (auto simp: db_inv_defs)
    with m keep have "P q" by simp
    with q show "m_id m \<in> q_message_id ` set (queue (d\<lparr>queue := filter P (queue d)\<rparr>))" by simp
  qed
  then show ?thesis
    using inv by (auto simp: db_inv_defs distinct_map_filterI)
qed

lemma db_inv_update_workers [db_intros]:
  "db_inv now d \<Longrightarrow> db_inv now (d\<lparr>workers := ws\<rparr>)"
  by (simp add: db_inv_defs)

end
