(* ===== verification/Billing.thy ===== *)
theory Billing
  imports Consistency
begin

text \<open>
  Credit movements: \<^verbatim>\<open>internal/billing/ledger.go\<close> and \<^verbatim>\<open>query.go\<close>. Every operation runs inside
  the caller's transaction: it takes the database and returns an error or the new database.
  The first part is the operations, the second their effect on the ledger.
\<close>

subsection \<open>Operations\<close>

definition MaxChargeAmount :: int where "MaxChargeAmount = 1000000000"

record debit =
  d_message_id :: uuid
  d_amount :: int

record refund =
  r_customer_id :: uuid
  r_message_id :: uuid
  r_amount :: int

record charge_result =
  cr_transaction :: transaction
  cr_balance :: int
  cr_replayed :: bool

text \<open>\<^verbatim>\<open>RecordDebits\<close>: one row per debit, in one statement; \<open>k\<close> counts the identifiers already
  drawn by the caller.\<close>

definition debit_transaction :: "env \<Rightarrow> uuid \<Rightarrow> uuid \<Rightarrow> debit \<Rightarrow> transaction" where
  "debit_transaction e cid tid db =
     \<lparr>t_id = tid, t_customer_id = cid, t_kind = KindDebit, t_amount = - d_amount db,
      t_message_id = Some (d_message_id db), t_client_ref = None, t_created_at = env_now e\<rparr>"

fun insert_debits :: "env \<Rightarrow> nat \<Rightarrow> uuid \<Rightarrow> debit list \<Rightarrow> db \<Rightarrow> db_error + db" where
  "insert_debits e k cid [] d = Inr d"
| "insert_debits e k cid (x # xs) d =
     (case insert_transaction (debit_transaction e cid (env_new_id e k) x) d of
        Inl err \<Rightarrow> Inl err
      | Inr d' \<Rightarrow> insert_debits e (Suc k) cid xs d')"

definition RecordDebits :: "env \<Rightarrow> nat \<Rightarrow> uuid \<Rightarrow> debit list \<Rightarrow> db \<Rightarrow> error + db" where
  "RecordDebits e k cid debits d =
     (case insert_debits e k cid debits d of
        Inl err \<Rightarrow> Inl (DbErr ''record debits'' err)
      | Inr d' \<Rightarrow> Inr d')"

text \<open>\<^verbatim>\<open>DebitBalance\<close>: the conditional update; no row returned is \<^verbatim>\<open>ErrInsufficientCredits\<close>.\<close>

definition DebitBalance :: "env \<Rightarrow> uuid \<Rightarrow> int \<Rightarrow> db \<Rightarrow> error + db \<times> int" where
  "DebitBalance e cid amount d =
     (case row_of c_id cid (customers d) of
        None \<Rightarrow> Inl ErrInsufficientCredits
      | Some c \<Rightarrow>
          if \<not> amount \<le> c_balance c then Inl ErrInsufficientCredits
          else case add_balance (env_now e) cid (- amount) d of
              Inl err \<Rightarrow> Inl (DbErr ''debit balance'' err)
            | Inr (d', None) \<Rightarrow> Inl ErrInsufficientCredits
            | Inr (d', Some b) \<Rightarrow> Inr (d', b))"

definition currentBalance :: "uuid \<Rightarrow> db \<Rightarrow> error + int" where
  "currentBalance cid d =
     (case row_of c_id cid (customers d) of
        None \<Rightarrow> Inl ErrCustomerNotFound
      | Some c \<Rightarrow> Inr (c_balance c))"

definition replayCharge :: "uuid \<Rightarrow> int \<Rightarrow> string \<Rightarrow> db \<Rightarrow> error + charge_result" where
  "replayCharge cid amount ref d =
     (case filter (\<lambda>t. t_customer_id t = cid \<and> t_kind t = KindCharge \<and> t_client_ref t = Some ref)
             (transactions d) of
        [orig] \<Rightarrow>
          if t_amount orig \<noteq> amount then Inl ErrChargeConflict
          else (case currentBalance cid d of
              Inl err \<Rightarrow> Inl err
            | Inr b \<Rightarrow> Inr \<lparr>cr_transaction = orig, cr_balance = b, cr_replayed = True\<rparr>)
      | [] \<Rightarrow> Inl (ErrText ''load charge: no rows'')
      | _ \<Rightarrow> Inl (ErrText ''load charge: too many rows''))"

text \<open>\<^verbatim>\<open>Charge\<close>: the insert skips an existing reference, a missing customer breaks the foreign key.\<close>

definition charge_transaction :: "env \<Rightarrow> nat \<Rightarrow> uuid \<Rightarrow> int \<Rightarrow> string \<Rightarrow> transaction" where
  "charge_transaction e k cid amount ref =
     \<lparr>t_id = env_new_id e k, t_customer_id = cid, t_kind = KindCharge, t_amount = amount,
      t_message_id = None, t_client_ref = Some ref, t_created_at = env_now e\<rparr>"

definition Charge :: "env \<Rightarrow> nat \<Rightarrow> uuid \<Rightarrow> int \<Rightarrow> string \<Rightarrow> db \<Rightarrow> error + db \<times> charge_result" where
  "Charge e k cid amount ref d =
     (let t = charge_transaction e k cid amount ref
      in if \<not> transaction_check t then Inl (DbErr ''insert charge'' (CheckViolation ''transactions''))
         else if charge_ref_taken cid (Some ref) (transactions d)
         then (case replayCharge cid amount ref d of
                 Inl err \<Rightarrow> Inl err
               | Inr r \<Rightarrow> Inr (d, r))
         else (case insert_transaction t d of
                 Inl (ForeignKeyViolation c) \<Rightarrow> Inl ErrCustomerNotFound
               | Inl err \<Rightarrow> Inl (DbErr ''insert charge'' err)
               | Inr d1 \<Rightarrow>
                   (case add_balance (env_now e) cid amount d1 of
                      Inl err \<Rightarrow> Inl (DbErr ''credit balance'' err)
                    | Inr (d2, None) \<Rightarrow> Inl (ErrText ''credit balance: no rows'')
                    | Inr (d2, Some b) \<Rightarrow>
                        Inr (d2, \<lparr>cr_transaction = t, cr_balance = b, cr_replayed = False\<rparr>))))"

definition ChargeCustomer ::
    "tx_fault \<Rightarrow> env \<Rightarrow> uuid \<Rightarrow> int \<Rightarrow> string \<Rightarrow> db \<Rightarrow> db \<times> (error + charge_result)" where
  "ChargeCustomer fault e cid amount ref d = WithTx tx_error fault (Charge e 0 cid amount ref) d"

text \<open>\<^verbatim>\<open>ApplyRefunds\<close>: the insert skips messages that already have a refund and returns the rows it
  added; their amounts are totalled per customer and credited in the order of the customers'
  textual identifiers.\<close>

definition refund_transaction :: "env \<Rightarrow> uuid \<Rightarrow> refund \<Rightarrow> transaction" where
  "refund_transaction e tid r =
     \<lparr>t_id = tid, t_customer_id = r_customer_id r, t_kind = KindRefund, t_amount = r_amount r,
      t_message_id = Some (r_message_id r), t_client_ref = None, t_created_at = env_now e\<rparr>"

fun record_refunds :: "env \<Rightarrow> nat \<Rightarrow> refund list \<Rightarrow> db \<Rightarrow> db_error + db \<times> (uuid \<times> int) list" where
  "record_refunds e k [] d = Inr (d, [])"
| "record_refunds e k (r # rs) d =
     (let t = refund_transaction e (env_new_id e k) r
      in if \<not> transaction_check t then Inl (CheckViolation ''transactions'')
         else if message_kind_taken (Some (r_message_id r)) KindRefund (transactions d)
         then record_refunds e (Suc k) rs d
         else (case insert_transaction t d of
                 Inl err \<Rightarrow> Inl err
               | Inr d1 \<Rightarrow>
                   (case record_refunds e (Suc k) rs d1 of
                      Inl err \<Rightarrow> Inl err
                    | Inr (d2, ret) \<Rightarrow> Inr (d2, (r_customer_id r, r_amount r) # ret))))"

fun add_total :: "uuid \<Rightarrow> int \<Rightarrow> (uuid \<times> int) list \<Rightarrow> (uuid \<times> int) list" where
  "add_total c a [] = [(c, a)]"
| "add_total c a ((c', b) # tot) = (if c = c' then (c, b + a) # tot else (c', b) # add_total c a tot)"

definition refund_totals :: "(uuid \<times> int) list \<Rightarrow> (uuid \<times> int) list" where
  "refund_totals ret = fold (\<lambda>(c, a) tot. add_total c a tot) ret []"

fun credit_refunds :: "gtime \<Rightarrow> (uuid \<times> int) list \<Rightarrow> db \<Rightarrow> error + db" where
  "credit_refunds now [] d = Inr d"
| "credit_refunds now ((c, a) # tot) d =
     (case add_balance now c a d of
        Inl err \<Rightarrow> Inl (DbErr ''credit refund'' err)
      | Inr (d', _) \<Rightarrow> credit_refunds now tot d')"

definition ApplyRefunds :: "env \<Rightarrow> refund list \<Rightarrow> db \<Rightarrow> error + db" where
  "ApplyRefunds e refunds d =
     (if refunds = [] then Inr d
      else case record_refunds e 0 refunds d of
          Inl err \<Rightarrow> Inl (DbErr ''record refunds'' err)
        | Inr (d1, ret) \<Rightarrow>
            credit_refunds (env_now e)
              (sort_key (\<lambda>(c, a). env_uuid_string e c) (refund_totals ret)) d1)"

subsection \<open>Queries\<close>

record balance_info =
  b_amount :: int
  b_updated_at :: gtime

definition GetBalance :: "uuid \<Rightarrow> db \<Rightarrow> error + balance_info" where
  "GetBalance cid d =
     (case row_of c_id cid (customers d) of
        None \<Rightarrow> Inl ErrCustomerNotFound
      | Some c \<Rightarrow> Inr \<lparr>b_amount = c_balance c, b_updated_at = c_updated_at c\<rparr>)"

record transaction_filter =
  tf_kind :: "kind option"
  tf_since :: gtime
  tf_until :: gtime
  tf_after :: uuid
  tf_limit :: nat

text \<open>\<^verbatim>\<open>($n::uuid IS NULL OR id >= $n)\<close> and its kin.\<close>

definition null_or :: "'a option \<Rightarrow> ('a \<Rightarrow> bool) \<Rightarrow> bool" where
  "null_or x p = (case x of None \<Rightarrow> True | Some a \<Rightarrow> p a)"

definition order_desc :: "('r \<Rightarrow> 'k :: linorder) \<Rightarrow> 'r list \<Rightarrow> 'r list" where
  "order_desc key rows = rev (sort_key key rows)"

text \<open>The tail every listing shares: \<^verbatim>\<open>LIMIT limit+1\<close>, and the extra row means more pages.\<close>

definition page :: "nat \<Rightarrow> 'r list \<Rightarrow> 'r list \<times> bool" where
  "page limit rows =
     (let fetched = take (limit + 1) rows; more = limit < length fetched
      in (if more then take limit fetched else fetched, more))"

definition ListTransactions :: "uuid \<Rightarrow> transaction_filter \<Rightarrow> db \<Rightarrow> transaction list \<times> bool" where
  "ListTransactions cid f d =
     page (tf_limit f) (order_desc t_id
       (filter (\<lambda>t. t_customer_id t = cid
          \<and> null_or (tf_kind f) (\<lambda>k. t_kind t = k)
          \<and> null_or (NullLowerBound (tf_since f)) (\<lambda>u. u \<le> t_id t)
          \<and> null_or (NullLowerBound (tf_until f)) (\<lambda>u. t_id t < u)
          \<and> null_or (NullID (tf_after f)) (\<lambda>u. t_id t < u)) (transactions d)))"


subsection \<open>The structural constraints under single statements\<close>

definition struct_ok :: "db \<Rightarrow> bool" where
  "struct_ok d \<longleftrightarrow> keys_ok d \<and> foreign_ok d \<and> rows_ok d \<and> refs_ok d"

lemma db_inv_struct: "db_inv now d \<Longrightarrow> struct_ok d"
  by (simp add: db_inv_def struct_ok_def)

lemma db_inv_split:
  "db_inv now d \<longleftrightarrow> struct_ok d \<and> ledger_ok d \<and> queued_ok d \<and> (\<forall>m\<in>set (messages d). stamps_ok now m)"
  by (auto simp: db_inv_def struct_ok_def)

lemma insert_transaction_frame [frame_simps]:
  assumes "insert_transaction t d = Inr d'"
  shows "customers d' = customers d" "messages d' = messages d" "queue d' = queue d"
    "workers d' = workers d" "transactions d' = transactions d @ [t]"
  using assms by (auto simp: insert_transaction_Inr_iff)

lemma insert_transaction_struct:
  assumes ok: "struct_ok d" and ins: "insert_transaction t d = Inr d'"
  shows "struct_ok d'"
proof -
  from ins have t: "transaction_check t" "\<not> has_key t_id (t_id t) (transactions d)"
    "\<not> (t_kind t = KindCharge \<and> charge_ref_taken (t_customer_id t) (t_client_ref t) (transactions d))"
    "has_key c_id (t_customer_id t) (customers d)"
    "\<forall>mid. t_message_id t = Some mid \<longrightarrow> has_key m_id mid (messages d)"
    and d': "d' = d\<lparr>transactions := transactions d @ [t]\<rparr>"
    by (simp_all add: insert_transaction_Inr_iff)
  have "keys_ok d'" using ok t(2) by (simp add: struct_ok_def keys_ok_def d' has_key_iff)
  moreover have "foreign_ok d'"
    using ok t(4,5) by (auto simp: struct_ok_def foreign_ok_def d' has_key_iff)
  moreover have "rows_ok d'" using ok t(1) by (simp add: struct_ok_def rows_ok_def d')
  moreover have "refs_ok d'"
    using ok t(1,3) by (auto simp: struct_ok_def refs_ok_def d' charge_ref_taken_def list_ex_iff
        transaction_check_def)
  ultimately show ?thesis by (simp add: struct_ok_def)
qed

lemma add_balance_frame [frame_simps]:
  assumes "add_balance now cid x d = Inr (d', r)"
  shows "messages d' = messages d" "transactions d' = transactions d" "queue d' = queue d"
    "workers d' = workers d" "map c_id (customers d') = map c_id (customers d)"
  using assms by (auto simp: add_balance_def Let_def key_simps split: option.splits if_splits)

lemma add_balance_customers:
  assumes "add_balance now cid x d = Inr (d', r)"
  shows "customers d' = map (\<lambda>c. if c_id c = cid
           then c\<lparr>c_balance := c_balance c + x, c_updated_at := now\<rparr> else c) (customers d)"
proof (cases "row_of c_id cid (customers d)")
  case None
  then have "\<forall>c\<in>set (customers d). c_id c \<noteq> cid" by (auto simp: row_of_None_iff)
  then have "map (\<lambda>c. if c_id c = cid
      then c\<lparr>c_balance := c_balance c + x, c_updated_at := now\<rparr> else c) (customers d) = customers d"
    by (intro map_idI) auto
  with None assms show ?thesis by (simp add: add_balance_def)
next
  case (Some c)
  with assms show ?thesis by (auto simp: add_balance_def Let_def update_where_def split: if_splits)
qed

lemma add_balance_struct:
  assumes ok: "struct_ok d" and upd: "add_balance now cid x d = Inr (d', r)"
  shows "struct_ok d'"
proof -
  note fr = add_balance_frame [OF upd] and cs = add_balance_customers [OF upd]
  have ids: "c_id ` set (customers d') = c_id ` set (customers d)" by (rule image_key_eq [OF fr(5)])
  have "\<forall>c\<in>set (customers d'). customer_check c"
  proof
    fix c' assume "c' \<in> set (customers d')"
    then obtain c where c: "c \<in> set (customers d)" and c': "c' = (if c_id c = cid
        then c\<lparr>c_balance := c_balance c + x, c_updated_at := now\<rparr> else c)" by (auto simp: cs)
    have cc: "customer_check c" using ok c by (simp add: struct_ok_def rows_ok_def)
    show "customer_check c'"
    proof (cases "c_id c = cid")
      case True
      then have "row_of c_id cid (customers d) = Some c"
        using c ok by (simp add: struct_ok_def keys_ok_def row_of_Some_iff)
      then have "0 \<le> c_balance c + x" "in_int64 (c_balance c + x)"
        using upd by (auto simp: add_balance_def Let_def split: if_splits)
      with cc c' True show ?thesis by (simp add: customer_check_def)
    qed (use cc c' in simp)
  qed
  then show ?thesis using ok by (simp add: struct_ok_def keys_ok_def foreign_ok_def rows_ok_def refs_ok_def fr ids)
qed

lemma balances_ok_step:
  assumes "balances_ok cs ts"
    and "\<And>c. c \<in> set cs \<Longrightarrow> c_id (f c) = c_id c \<and> c_balance (f c) = c_balance c + ledger_sum (c_id c) us"
  shows "balances_ok (map f cs) (ts @ us)"
  using assms by (auto simp: balances_ok_def)

subsection \<open>Charges\<close>

lemma message_ledger_ok_append:
  assumes "message_ledger_ok ts m" and "\<forall>t\<in>set us. t_message_id t \<noteq> Some (m_id m)"
  shows "message_ledger_ok (ts @ us) m"
proof -
  have "txns_of k (m_id m) us = []" for k
    using assms(2) by (auto simp: txns_of_def filter_empty_conv)
  with assms show ?thesis by (auto simp: message_ledger_ok_def)
qed

lemma Charge_cases:
  assumes "Charge e k cid amount ref d = Inr (d', r)"
  obtains (replay) "d' = d" "cr_replayed r" "replayCharge cid amount ref d = Inr r"
      "charge_ref_taken cid (Some ref) (transactions d)"
  | (new) d1 b where "insert_transaction (charge_transaction e k cid amount ref) d = Inr d1"
      "add_balance (env_now e) cid amount d1 = Inr (d', Some b)"
      "r = \<lparr>cr_transaction = charge_transaction e k cid amount ref, cr_balance = b, cr_replayed = False\<rparr>"
      "\<not> charge_ref_taken cid (Some ref) (transactions d)"
  using assms
  by (auto simp: Charge_def Let_def replayCharge_def
      split: if_splits sum.splits db_error.splits option.splits list.splits prod.splits)

lemma Charge_inv [db_intros]:
  assumes inv: "db_inv now d" and ch: "Charge e k cid amount ref d = Inr (d', r)"
  shows "db_inv now d'"
  using ch
proof (cases rule: Charge_cases)
  case replay
  with inv show ?thesis by simp
next
  case (new d1 b)
  let ?t = "charge_transaction e k cid amount ref"
  note fr1 = insert_transaction_frame [OF new(1)] and fr2 = add_balance_frame [OF new(2)]
  have "struct_ok d'"
    using insert_transaction_struct [OF db_inv_struct [OF inv] new(1)] add_balance_struct new(2) by blast
  moreover have "balances_ok (customers d') (transactions d')"
    unfolding fr2(2) fr1(5) add_balance_customers [OF new(2)] fr1(1)
    using inv by (intro balances_ok_step) (auto simp: db_inv_defs charge_transaction_def)
  moreover have "\<forall>m\<in>set (messages d'). message_ledger_ok (transactions d') m"
    using inv by (auto simp: fr1 fr2 db_inv_defs charge_transaction_def intro!: message_ledger_ok_append)
  ultimately show ?thesis
    using inv by (simp add: db_inv_split ledger_ok_def queued_ok_def fr1 fr2)
qed


subsection \<open>Refunds\<close>

definition pair_sum :: "uuid \<Rightarrow> (uuid \<times> int) list \<Rightarrow> int" where
  "pair_sum c ps = (\<Sum>p\<leftarrow>filter (\<lambda>p. fst p = c) ps. snd p)"

definition total_of :: "uuid \<Rightarrow> (uuid \<times> int) list \<Rightarrow> int" where
  "total_of c tot = (case map_of tot c of None \<Rightarrow> 0 | Some a \<Rightarrow> a)"

lemma pair_sum_simps [simp]:
  "pair_sum c [] = 0"
  "pair_sum c (p # ps) = (if fst p = c then snd p else 0) + pair_sum c ps"
  by (simp_all add: pair_sum_def)

lemma keys_add_total: "fst ` set (add_total c a tot) = insert c (fst ` set tot)"
  by (induction c a tot rule: add_total.induct) auto

lemma distinct_add_total: "distinct (map fst tot) \<Longrightarrow> distinct (map fst (add_total c a tot))"
  by (induction c a tot rule: add_total.induct) (auto simp: keys_add_total)

lemma map_of_add_total:
  "map_of (add_total c a tot) x = (if x = c then Some (total_of c tot + a) else map_of tot x)"
proof (induction c a tot rule: add_total.induct)
  case (2 c a c' b tot)
  show ?case
  proof (cases "c = c'")
    case False
    with 2 show ?thesis by (cases "x = c") (simp_all add: total_of_def)
  qed (simp add: total_of_def)
qed (simp add: total_of_def)

lemma total_of_add_total: "total_of x (add_total c a tot) = total_of x tot + (if c = x then a else 0)"
  by (simp add: total_of_def map_of_add_total)

lemma fold_totals_distinct:
  "distinct (map fst tot) \<Longrightarrow> distinct (map fst (fold (\<lambda>p. add_total (fst p) (snd p)) ret tot))"
  by (induction ret arbitrary: tot) (simp_all add: distinct_add_total)

lemma fold_totals_total:
  "total_of x (fold (\<lambda>p. add_total (fst p) (snd p)) ret tot) = total_of x tot + pair_sum x ret"
  by (induction ret arbitrary: tot) (simp_all add: total_of_add_total)

lemma refund_totals_fold: "refund_totals ret = fold (\<lambda>p. add_total (fst p) (snd p)) ret []"
  by (simp add: refund_totals_def case_prod_beta')

lemma distinct_refund_totals: "distinct (map fst (refund_totals ret))"
  and total_of_refund_totals: "total_of x (refund_totals ret) = pair_sum x ret"
  using fold_totals_distinct [of "[]" ret] fold_totals_total [of x ret "[]"]
  by (simp_all add: refund_totals_fold total_of_def)

lemma total_of_sort:
  assumes "distinct (map fst tot)"
  shows "total_of x (sort_key f tot) = total_of x tot"
proof -
  have "distinct (map fst (sort_key f tot))" using assms by (simp add: distinct_map)
  with assms have "map_of (sort_key f tot) = map_of tot"
    by (simp add: map_of_inject_set)
  then show ?thesis by (simp add: total_of_def)
qed

lemma distinct_sort_key_fst: "distinct (map fst tot) \<Longrightarrow> distinct (map fst (sort_key f tot))"
  by (simp add: distinct_map)

lemma credit_refunds_effect:
  assumes "distinct (map fst tot)" and "credit_refunds now tot d = Inr d'"
  shows "(\<exists>f. customers d' = map f (customers d) \<and>
            (\<forall>c. c_id (f c) = c_id c \<and> c_balance (f c) = c_balance c + total_of (c_id c) tot))
       \<and> messages d' = messages d \<and> transactions d' = transactions d
       \<and> queue d' = queue d \<and> workers d' = workers d \<and> (struct_ok d \<longrightarrow> struct_ok d')"
  using assms
proof (induction tot arbitrary: d)
  case Nil
  then show ?case by (auto simp: total_of_def intro!: exI [of _ "\<lambda>c. c"])
next
  case (Cons p tot)
  obtain cid a where p: "p = (cid, a)" by (cases p)
  from Cons.prems p obtain d1 r where upd: "add_balance now cid a d = Inr (d1, r)"
    and rest: "credit_refunds now tot d1 = Inr d'"
    by (auto split: sum.splits)
  from Cons.IH [OF _ rest] Cons.prems(1) obtain f where f: "customers d' = map f (customers d1)"
      "\<And>c. c_id (f c) = c_id c \<and> c_balance (f c) = c_balance c + total_of (c_id c) tot"
    and fr: "messages d' = messages d1" "transactions d' = transactions d1" "queue d' = queue d1"
      "workers d' = workers d1" "struct_ok d1 \<longrightarrow> struct_ok d'"
    by auto
  let ?g = "\<lambda>c. if c_id c = cid then c\<lparr>c_balance := c_balance c + a, c_updated_at := now\<rparr> else c"
  have "total_of cid tot = 0"
    using Cons.prems(1) p by (simp add: total_of_def map_of_eq_None_iff [THEN iffD2])
  then have "c_id (f (?g c)) = c_id c \<and>
      c_balance (f (?g c)) = c_balance c + total_of (c_id c) ((cid, a) # tot)" for c
    using f(2) [of "?g c"] by (auto simp: total_of_def)
  moreover have "customers d' = map (\<lambda>c. f (?g c)) (customers d)"
    using f(1) add_balance_customers [OF upd] by (simp add: comp_def)
  ultimately have "\<exists>f. customers d' = map f (customers d) \<and>
      (\<forall>c. c_id (f c) = c_id c \<and> c_balance (f c) = c_balance c + total_of (c_id c) ((cid, a) # tot))"
    by (intro exI [of _ "\<lambda>c. f (?g c)"]) blast
  then show ?case using fr add_balance_frame [OF upd] add_balance_struct [OF _ upd] p by auto
qed

text \<open>The rows one call of \<^verbatim>\<open>ApplyRefunds\<close> adds.\<close>

lemma record_refunds_effect:
  assumes "record_refunds e k rs d = Inr (d', ret)"
  shows "\<exists>us. transactions d' = transactions d @ us \<and>
      map (\<lambda>t. (t_customer_id t, t_amount t)) us = ret \<and>
      (\<forall>t\<in>set us. t_kind t = KindRefund \<and>
         (\<exists>r\<in>set rs. t_message_id t = Some (r_message_id r) \<and> t_customer_id t = r_customer_id r \<and> t_amount t = r_amount r)) \<and>
      customers d' = customers d \<and> messages d' = messages d \<and> queue d' = queue d \<and>
      workers d' = workers d \<and> (struct_ok d \<longrightarrow> struct_ok d')"
  using assms
proof (induction e k rs d arbitrary: ret rule: record_refunds.induct)
  case (1 e k d)
  then show ?case by simp
next
  case (2 e k r rs d)
  let ?t = "refund_transaction e (env_new_id e k) r"
  from 2(3) have chk: "transaction_check ?t" by (simp add: Let_def split: if_splits)
  show ?case
  proof (cases "message_kind_taken (Some (r_message_id r)) KindRefund (transactions d)")
    case True
    with 2(3) chk have "record_refunds e (Suc k) rs d = Inr (d', ret)" by (simp add: Let_def)
    from 2(1) [OF refl _ True this] chk show ?thesis by (auto simp: Let_def)
  next
    case False
    with 2(3) chk obtain d1 ret' where ins: "insert_transaction ?t d = Inr d1"
      and rest: "record_refunds e (Suc k) rs d1 = Inr (d', ret')"
      and ret: "ret = (r_customer_id r, r_amount r) # ret'"
      by (auto simp: Let_def split: sum.splits prod.splits)
    note fr = insert_transaction_frame [OF ins]
    from 2(2) [OF refl _ False ins rest] chk obtain us where us:
      "transactions d' = transactions d1 @ us" "map (\<lambda>t. (t_customer_id t, t_amount t)) us = ret'"
      "\<forall>t\<in>set us. t_kind t = KindRefund \<and>
         (\<exists>r\<in>set rs. t_message_id t = Some (r_message_id r) \<and> t_customer_id t = r_customer_id r \<and> t_amount t = r_amount r)"
      "customers d' = customers d1" "messages d' = messages d1" "queue d' = queue d1"
      "workers d' = workers d1" "struct_ok d1 \<longrightarrow> struct_ok d'"
      by auto
    show ?thesis
      using us fr insert_transaction_struct [OF _ ins] ret
      by (intro exI [of _ "?t # us"]) (auto simp: refund_transaction_def)
  qed
qed

text \<open>Refunds of messages that have none are all recorded, in order.\<close>

lemma record_refunds_fresh:
  assumes "record_refunds e k rs d = Inr (d', ret)"
    and "distinct (map r_message_id rs)"
    and "\<forall>r\<in>set rs. \<not> message_kind_taken (Some (r_message_id r)) KindRefund (transactions d)"
  shows "\<exists>us. transactions d' = transactions d @ us \<and>
      map (\<lambda>t. (t_kind t, t_message_id t, t_customer_id t, t_amount t)) us =
      map (\<lambda>r. (KindRefund, Some (r_message_id r), r_customer_id r, r_amount r)) rs"
  using assms
proof (induction e k rs d arbitrary: ret rule: record_refunds.induct)
  case (1 e k d)
  then show ?case by simp
next
  case (2 e k r rs d)
  let ?t = "refund_transaction e (env_new_id e k) r"
  from 2(3) have chk: "transaction_check ?t" by (simp add: Let_def split: if_splits)
  from 2(5) have nt: "\<not> message_kind_taken (Some (r_message_id r)) KindRefund (transactions d)" by simp
  with 2(3) chk obtain d1 ret' where ins: "insert_transaction ?t d = Inr d1"
    and rest: "record_refunds e (Suc k) rs d1 = Inr (d', ret')"
    by (auto simp: Let_def split: sum.splits prod.splits)
  note fr = insert_transaction_frame [OF ins]
  have "\<forall>r\<in>set rs. \<not> message_kind_taken (Some (r_message_id r)) KindRefund (transactions d1)"
    using 2(4,5) by (auto simp: fr message_kind_taken_def refund_transaction_def)
  with 2(2) [OF refl _ nt ins rest] 2(4) chk obtain us where
    "transactions d' = transactions d1 @ us"
    "map (\<lambda>t. (t_kind t, t_message_id t, t_customer_id t, t_amount t)) us =
      map (\<lambda>r. (KindRefund, Some (r_message_id r), r_customer_id r, r_amount r)) rs"
    by auto
  then show ?case
    by (intro exI [of _ "?t # us"]) (simp add: fr refund_transaction_def)
qed

lemma ledger_sum_pairs:
  "map (\<lambda>t. (t_customer_id t, t_amount t)) us = ret \<Longrightarrow> ledger_sum c us = pair_sum c ret"
  by (induction us arbitrary: ret) auto

lemma ApplyRefunds_effect:
  assumes "ApplyRefunds e rs d = Inr d'"
  shows "\<exists>us f. transactions d' = transactions d @ us \<and> customers d' = map f (customers d) \<and>
      (\<forall>c. c_id (f c) = c_id c \<and> c_balance (f c) = c_balance c + ledger_sum (c_id c) us) \<and>
      (\<forall>t\<in>set us. t_kind t = KindRefund \<and>
         (\<exists>r\<in>set rs. t_message_id t = Some (r_message_id r) \<and> t_customer_id t = r_customer_id r \<and> t_amount t = r_amount r)) \<and>
      messages d' = messages d \<and> queue d' = queue d \<and> workers d' = workers d \<and>
      (struct_ok d \<longrightarrow> struct_ok d') \<and>
      (distinct (map r_message_id rs) \<longrightarrow>
        (\<forall>r\<in>set rs. \<not> message_kind_taken (Some (r_message_id r)) KindRefund (transactions d)) \<longrightarrow>
        map (\<lambda>t. (t_kind t, t_message_id t, t_customer_id t, t_amount t)) us =
        map (\<lambda>r. (KindRefund, Some (r_message_id r), r_customer_id r, r_amount r)) rs)"
proof (cases "rs = []")
  case True
  with assms show ?thesis
    by (intro exI [of _ "[]"] exI [of _ "\<lambda>c. c"]) (auto simp: ApplyRefunds_def)
next
  case False
  let ?tot = "\<lambda>ret. sort_key (\<lambda>(c, a). env_uuid_string e c) (refund_totals ret)"
  from assms False obtain d1 ret where rec: "record_refunds e 0 rs d = Inr (d1, ret)"
    and cr: "credit_refunds (env_now e) (?tot ret) d1 = Inr d'"
    by (auto simp: ApplyRefunds_def split: sum.splits)
  from record_refunds_effect [OF rec] obtain us where us: "transactions d1 = transactions d @ us"
    "map (\<lambda>t. (t_customer_id t, t_amount t)) us = ret"
    and refunds: "\<forall>t\<in>set us. t_kind t = KindRefund \<and>
         (\<exists>r\<in>set rs. t_message_id t = Some (r_message_id r) \<and> t_customer_id t = r_customer_id r \<and> t_amount t = r_amount r)"
    and fr1: "customers d1 = customers d" "messages d1 = messages d" "queue d1 = queue d"
      "workers d1 = workers d" "struct_ok d \<longrightarrow> struct_ok d1"
    by (elim exE conjE)
  have dist: "distinct (map fst (?tot ret))"
    by (rule distinct_sort_key_fst [OF distinct_refund_totals])
  from credit_refunds_effect [OF dist cr] obtain f where f: "customers d' = map f (customers d1)"
    "\<forall>c. c_id (f c) = c_id c \<and> c_balance (f c) = c_balance c + total_of (c_id c) (?tot ret)"
    and fr: "messages d' = messages d1" "transactions d' = transactions d1" "queue d' = queue d1"
      "workers d' = workers d1" "struct_ok d1 \<longrightarrow> struct_ok d'"
    by blast
  have tot: "total_of c (?tot ret) = ledger_sum c us" for c
    by (simp add: total_of_sort [OF distinct_refund_totals] total_of_refund_totals ledger_sum_pairs [OF us(2)])
  have fresh: "map (\<lambda>t. (t_kind t, t_message_id t, t_customer_id t, t_amount t)) us =
      map (\<lambda>r. (KindRefund, Some (r_message_id r), r_customer_id r, r_amount r)) rs"
    if "distinct (map r_message_id rs)"
      "\<forall>r\<in>set rs. \<not> message_kind_taken (Some (r_message_id r)) KindRefund (transactions d)"
    using record_refunds_fresh [OF rec that] us(1) by auto
  show ?thesis
    using us(1) f fr fr1 refunds fresh unfolding tot
    by (intro exI [of _ us] exI [of _ f] conjI impI) simp_all
qed


text \<open>
  Ending messages: rows that were accepted become failed or expired and the refund of exactly
  these rows is applied in the same transaction. The completer and the sweeper both do this.
\<close>

definition refund_of :: "message \<Rightarrow> refund" where
  "refund_of m = \<lparr>r_customer_id = m_customer_id m, r_message_id = m_id m, r_amount = m_cost m\<rparr>"

lemma txns_of_tuples:
  "map t_amount (txns_of k mid us) =
   map (\<lambda>(k, m, c, a). a) (filter (\<lambda>(k', m', c, a). m' = Some mid \<and> k' = k)
     (map (\<lambda>t. (t_kind t, t_message_id t, t_customer_id t, t_amount t)) us))"
  by (induction us) (auto simp: txns_of_def)

lemma txns_of_refunds:
  assumes "map (\<lambda>t. (t_kind t, t_message_id t, t_customer_id t, t_amount t)) us =
      map (\<lambda>r. (KindRefund, Some (r_message_id r), r_customer_id r, r_amount r)) rs"
  shows "map t_amount (txns_of KindRefund mid us) = map r_amount (filter (\<lambda>r. r_message_id r = mid) rs)"
    and "k \<noteq> KindRefund \<Longrightarrow> map t_amount (txns_of k mid us) = []"
  unfolding txns_of_tuples assms by (induction rs) auto

lemma not_ended_not_taken:
  assumes "db_inv now d" "m \<in> set (messages d)" "\<not> ended (m_status m)"
  shows "\<not> message_kind_taken (Some (m_id m)) KindRefund (transactions d)"
  using assms by (auto simp: db_inv_defs message_ledger_ok_def simp flip: txns_of_eq_Nil_iff)

lemma struct_ok_update_messages:
  assumes ok: "struct_ok d" and core: "\<forall>m\<in>set (messages d). same_core m (f m)"
    and check: "\<forall>m\<in>set (messages d). message_check (f m)"
  shows "struct_ok (d\<lparr>messages := map f (messages d)\<rparr>)"
proof -
  note ids = map_same_core [OF core]
  have "foreign_ok (d\<lparr>messages := map f (messages d)\<rparr>)"
    using ok ids(2) same_coreD(2) core by (simp add: struct_ok_def foreign_ok_def) metis
  then show ?thesis
    using ok check ids(1,3)
    by (simp add: struct_ok_def keys_ok_def rows_ok_def refs_ok_def ids(1) del: map_map filter_map)
qed

lemma db_inv_finish [db_intros]:
  assumes inv: "db_inv now d"
    and core: "\<forall>m\<in>set (messages d). same_core m (f m)"
    and other: "\<And>m. \<not> P m \<Longrightarrow> f m = m"
    and picked: "\<And>m. m \<in> set (messages d) \<Longrightarrow> P m \<Longrightarrow>
      m_status m = StatusAccepted \<and> ended (m_status (f m)) \<and> message_check (f m) \<and> stamps_ok now (f m)"
    and app: "ApplyRefunds e (map refund_of (filter P (messages d)))
      (d\<lparr>messages := map f (messages d)\<rparr>) = Inr d'"
  shows "db_inv now d'"
proof -
  let ?d1 = "d\<lparr>messages := map f (messages d)\<rparr>" and ?rs = "map refund_of (filter P (messages d))"
  have ok: "struct_ok d" by (rule db_inv_struct [OF inv])
  have chk: "\<forall>m\<in>set (messages d). message_check (f m) \<and> stamps_ok now (f m)"
    using inv picked other by (metis db_inv_def rows_ok_def)
  have "struct_ok ?d1" using struct_ok_update_messages [OF ok core] chk by blast
  have dist: "distinct (map m_id (messages d))" using inv by (simp add: db_inv_defs)
  then have drs: "distinct (map r_message_id ?rs)"
    by (simp add: comp_def refund_of_def distinct_map_filterI)
  have fresh: "\<forall>r\<in>set ?rs. \<not> message_kind_taken (Some (r_message_id r)) KindRefund (transactions ?d1)"
    using not_ended_not_taken [OF inv] picked by (fastforce simp: refund_of_def ended_def)
  from ApplyRefunds_effect [OF app] obtain us g where us: "transactions d' = transactions d @ us"
    and cs: "customers d' = map g (customers d)"
    and g: "\<forall>c. c_id (g c) = c_id c \<and> c_balance (g c) = c_balance c + ledger_sum (c_id c) us"
    and fr: "messages d' = map f (messages d)" "queue d' = queue d" "struct_ok ?d1 \<longrightarrow> struct_ok d'"
    and rs: "map (\<lambda>t. (t_kind t, t_message_id t, t_customer_id t, t_amount t)) us =
      map (\<lambda>r. (KindRefund, Some (r_message_id r), r_customer_id r, r_amount r)) ?rs"
    and mem: "\<forall>t\<in>set us. t_kind t = KindRefund \<and> (\<exists>r\<in>set ?rs. t_message_id t = Some (r_message_id r) \<and>
         t_customer_id t = r_customer_id r \<and> t_amount t = r_amount r)"
    using drs fresh by auto
  have "message_ledger_ok (transactions d') (f m)" if m: "m \<in> set (messages d)" for m
  proof (cases "P m")
    case False
    have "t_message_id t \<noteq> Some (m_id m)" if t: "t \<in> set us" for t
    proof
      assume "t_message_id t = Some (m_id m)"
      with mem t obtain m' where m': "m' \<in> set (messages d)" "P m'" "m_id m' = m_id m"
        by (fastforce simp: refund_of_def)
      with m False show False using distinct_key_unique [OF dist] by blast
    qed
    with inv m False other show ?thesis
      unfolding us by (metis (no_types, lifting) db_inv_def ledger_ok_def message_ledger_ok_append)
  next
    case True
    have old: "message_ledger_ok (transactions d) m" using inv m by (simp add: db_inv_defs)
    have "filter (\<lambda>r. r_message_id r = m_id m) ?rs = [refund_of m]"
      using filter_key_single [of m_id "filter P (messages d)" m] m True dist
      by (simp add: filter_map comp_def refund_of_def distinct_map_filterI)
    then have new: "map t_amount (txns_of KindRefund (m_id m) us) = [m_cost m]"
      using txns_of_refunds(1) [OF rs] by (simp add: refund_of_def)
    have own: "t_customer_id t = m_customer_id m" if "t \<in> set us" "t_message_id t = Some (m_id m)" for t
      using mem that m distinct_key_unique [OF dist _ m] by (fastforce simp: refund_of_def)
    have deb: "map t_amount (txns_of KindDebit (m_id m) us) = []" by (rule txns_of_refunds(2) [OF rs]) simp
    show ?thesis
      using old new deb own picked [OF m True] core m
      by (auto simp: message_ledger_ok_def us same_core_def ended_def)
  qed
  moreover have "balances_ok (customers d') (transactions d')"
    unfolding us cs using inv g by (intro balances_ok_step) (auto simp: db_inv_defs)
  ultimately have "ledger_ok d'" by (auto simp: ledger_ok_def fr)
  moreover have "queued_ok d'"
    using inv picked other core
    by (auto simp: db_inv_defs fr queued_ok_def same_core_def ended_def) (metis status.distinct)+
  ultimately show ?thesis
    using \<open>struct_ok ?d1\<close> fr chk by (auto simp: db_inv_split)
qed

end
