(* ===== verification/Validate.thy ===== *)
theory Validate
  imports Schema
begin

text \<open>
  What acceptance decides before it touches the database: validation and pricing of requests
  (\<^verbatim>\<open>internal/message/validate.go\<close>, \<^verbatim>\<open>price.go\<close>) and the queue lane of a message
  (\<^verbatim>\<open>lane.go\<close>). Lane names are hashed with Go's \<^verbatim>\<open>hash/fnv\<close>, which is modelled on 32-bit
  words.
\<close>

unbundle bit_operations_syntax

subsection \<open>Prices\<close>

record prices =
  p_normal :: int
  p_express :: int

definition PerSegment :: "prices \<Rightarrow> mtype \<Rightarrow> int" where
  "PerSegment p t = (if t = Express then p_express p else p_normal p)"

definition Cost :: "prices \<Rightarrow> mtype \<Rightarrow> nat \<Rightarrow> int" where
  "Cost p t segs = wrap64 (int segs * PerSegment p t)"

subsection \<open>Configuration\<close>

record accept_config =
  cfg_prices :: prices
  cfg_max_segments :: nat
  cfg_normal_lanes :: nat
  cfg_normal_ttl :: duration
  cfg_express_ttl :: duration

text \<open>What \<^verbatim>\<open>config.LoadGateway\<close> accepts of these settings.\<close>

definition accept_config_ok :: "accept_config \<Rightarrow> bool" where
  "accept_config_ok cfg \<longleftrightarrow>
     1 \<le> p_normal (cfg_prices cfg) \<and> p_normal (cfg_prices cfg) \<le> 1000000 \<and>
     1 \<le> p_express (cfg_prices cfg) \<and> p_express (cfg_prices cfg) \<le> 1000000 \<and>
     1 \<le> cfg_max_segments cfg \<and> cfg_max_segments cfg \<le> 10 \<and>
     1 \<le> cfg_normal_lanes cfg \<and> cfg_normal_lanes cfg \<le> 1024 \<and>
     0 < cfg_normal_ttl cfg \<and> 0 < cfg_express_ttl cfg"

subsection \<open>Field formats\<close>

definition is_alnum :: "char \<Rightarrow> bool" where
  "is_alnum c \<longleftrightarrow> is_digit c \<or> (65 \<le> (of_char c :: nat) \<and> (of_char c :: nat) \<le> 90)
     \<or> (97 \<le> (of_char c :: nat) \<and> (of_char c :: nat) \<le> 122)"

text \<open>\<^verbatim>\<open>^\+[1-9][0-9]{7,14}$\<close>\<close>

definition ValidRecipient :: "string \<Rightarrow> bool" where
  "ValidRecipient s =
     (case s of
        p # d # ds \<Rightarrow> p = CHR ''+'' \<and> is_digit d \<and> d \<noteq> CHR ''0'' \<and> list_all is_digit ds
          \<and> 7 \<le> length ds \<and> length ds \<le> 14
      | _ \<Rightarrow> False)"

text \<open>\<^verbatim>\<open>^[A-Za-z0-9._:-]{1,64}$\<close>\<close>

definition is_ref_char :: "char \<Rightarrow> bool" where
  "is_ref_char c \<longleftrightarrow> is_alnum c \<or> List.member ''._:-'' c"

definition ValidClientRef :: "string \<Rightarrow> bool" where
  "ValidClientRef s \<longleftrightarrow> list_all is_ref_char s \<and> 1 \<le> length s \<and> length s \<le> 64"

subsection \<open>Requests and items\<close>

record request =
  req_to :: string
  req_text :: string
  req_type :: string
  req_client_ref :: "string option"

text \<open>A validated and priced request. \<^verbatim>\<open>it.ref\<close> is the client reference, or empty for none.\<close>

record item =
  it_to :: string
  it_text :: string
  it_type :: mtype
  it_ref :: string
  it_seg :: seg_result
  it_cost :: int

definition MaxBatchSize :: nat where "MaxBatchSize = 500"

definition fe :: "string \<Rightarrow> string \<Rightarrow> string \<Rightarrow> field_error" where
  "fe f c m = \<lparr>fe_field = f, fe_code = c, fe_message = m\<rparr>"

text \<open>In a batch, field names carry the item index.\<close>

definition field_name :: "bool \<Rightarrow> nat \<Rightarrow> string \<Rightarrow> string" where
  "field_name batch i f = (if batch then ''messages['' @ itoa (int i) @ ''].'' @ f else f)"

definition check_to :: "string \<Rightarrow> (string \<times> string) list" where
  "check_to s =
     (if s = [] then [(''required'', ''is required'')]
      else if \<not> ValidRecipient s
      then [(''invalid_format'', ''must be an E.164 phone number such as +989121234567'')]
      else [])"

definition check_type :: "string \<Rightarrow> (string \<times> string) list" where
  "check_type s = (if ParseType s = None then [(''invalid_format'', ''must be normal or express'')] else [])"

text \<open>The text check also yields the segment result; it stays zero for an unusable text.\<close>

definition zero_seg :: seg_result where
  "zero_seg = \<lparr>seg_encoding = GSM7, Units = 0, Segments = 0\<rparr>"

definition check_text :: "accept_config \<Rightarrow> string \<Rightarrow> (string \<times> string) list \<times> seg_result" where
  "check_text cfg s =
     (if s = [] then ([(''required'', ''is required'')], zero_seg)
      else if \<not> valid_utf8 s \<or> contains_nul s
      then ([(''invalid_text'', ''must be valid UTF-8 without NUL characters'')], zero_seg)
      else let seg = Count s
           in (if Segments seg > cfg_max_segments cfg
               then [(''text_too_long'', ''occupies '' @ itoa (int (Segments seg)) @
                      '' segments; the maximum is '' @ itoa (int (cfg_max_segments cfg)))]
               else [], seg))"

text \<open>The client reference: its format, and that it does not repeat an earlier item's. The
  map from references to item indices is an association list.\<close>

definition check_ref ::
    "nat \<Rightarrow> string option \<Rightarrow> (string \<times> nat) list \<Rightarrow> (string \<times> string) list \<times> string \<times> (string \<times> nat) list" where
  "check_ref i ref refs =
     (case ref of
        None \<Rightarrow> ([], [], refs)
      | Some s \<Rightarrow>
          if \<not> ValidClientRef s
          then ([(''invalid_format'', ''must be 1-64 characters from A-Z a-z 0-9 . _ : -'')], [], refs)
          else (case map_of refs s of
              Some first \<Rightarrow> ([(''duplicate'', ''repeats the client_ref of message '' @ itoa (int first))], [], refs)
            | None \<Rightarrow> ([], s, (s, i) # refs)))"

definition in_field :: "bool \<Rightarrow> nat \<Rightarrow> string \<Rightarrow> (string \<times> string) list \<Rightarrow> field_error list" where
  "in_field batch i f ps = map (\<lambda>(c, m). fe (field_name batch i f) c m) ps"

fun prepare_loop ::
    "accept_config \<Rightarrow> bool \<Rightarrow> nat \<Rightarrow> request list \<Rightarrow> (string \<times> nat) list \<Rightarrow> field_error list \<times> item list" where
  "prepare_loop cfg batch i [] refs = ([], [])"
| "prepare_loop cfg batch i (r # rs) refs =
     (let typ = (if req_type r = [] then ''normal'' else req_type r);
          (text_ps, seg) = check_text cfg (req_text r);
          (ref_ps, ref, refs') = check_ref i (req_client_ref r) refs;
          t = (case ParseType typ of Some t \<Rightarrow> t | None \<Rightarrow> Normal);
          it = \<lparr>it_to = req_to r, it_text = req_text r, it_type = t, it_ref = ref, it_seg = seg,
                it_cost = Cost (cfg_prices cfg) t (Segments seg)\<rparr>;
          problems = in_field batch i ''to'' (check_to (req_to r)) @ in_field batch i ''type'' (check_type typ)
            @ in_field batch i ''text'' text_ps @ in_field batch i ''client_ref'' ref_ps;
          (ps, its) = prepare_loop cfg batch (Suc i) rs refs'
      in (problems @ ps, it # its))"

definition prepare :: "accept_config \<Rightarrow> request list \<Rightarrow> bool \<Rightarrow> error + item list" where
  "prepare cfg reqs batch =
     (if batch \<and> reqs = []
      then Inl (ValidationError [fe ''messages'' ''required'' ''must contain at least one message''])
      else if batch \<and> MaxBatchSize < length reqs
      then Inl (ValidationError [fe ''messages'' ''too_many_items''
             (''must contain at most '' @ itoa (int MaxBatchSize) @ '' messages'')])
      else let (problems, items) = prepare_loop cfg batch 0 reqs []
           in if problems \<noteq> [] then Inl (ValidationError problems) else Inr items)"

subsection \<open>Lanes\<close>

definition ExpressLane :: string where "ExpressLane = ''express''"

definition NormalLane :: "int \<Rightarrow> string" where
  "NormalLane i = ''normal-'' @ itoa i"

definition fnv32a :: "byte list \<Rightarrow> 32 word" where
  "fnv32a bs = fold (\<lambda>b h. (h XOR ucast b) * 16777619) bs 2166136261"

text \<open>The lane count is at least one; \<^verbatim>\<open>config.LoadGateway\<close> rejects zero.\<close>

definition Lane :: "mtype \<Rightarrow> uuid \<Rightarrow> nat \<Rightarrow> string" where
  "Lane t cid normalLanes =
     (if t = Express then ExpressLane
      else NormalLane (uint (fnv32a (uuid_bytes cid) mod word_of_nat normalLanes)))"

subsection \<open>What a valid item is\<close>

text \<open>The reference for \<open>prepare\<close>: an item that satisfies every rule of the customer API.\<close>

definition item_ok :: "accept_config \<Rightarrow> item \<Rightarrow> bool" where
  "item_ok cfg it \<longleftrightarrow>
     ValidRecipient (it_to it) \<and> it_text it \<noteq> [] \<and> valid_utf8 (it_text it) \<and> \<not> contains_nul (it_text it) \<and>
     it_seg it = Count (it_text it) \<and> 1 \<le> Segments (it_seg it) \<and> Segments (it_seg it) \<le> cfg_max_segments cfg \<and>
     (it_ref it = [] \<or> ValidClientRef (it_ref it)) \<and>
     it_cost it = Cost (cfg_prices cfg) (it_type it) (Segments (it_seg it))"

definition item_of :: "request \<Rightarrow> item \<Rightarrow> bool" where
  "item_of r it \<longleftrightarrow> it_to it = req_to r \<and> it_text it = req_text r \<and>
     ParseType (if req_type r = [] then ''normal'' else req_type r) = Some (it_type it) \<and>
     req_client_ref r = (if it_ref it = [] then None else Some (it_ref it))"

lemma ValidClientRef_ne: "ValidClientRef s \<Longrightarrow> s \<noteq> []"
  by (auto simp: ValidClientRef_def)

lemma check_to_Nil: "check_to s = [] \<longleftrightarrow> ValidRecipient s"
  by (auto simp: check_to_def ValidRecipient_def)

lemma in_field_Nil [simp]: "in_field batch i f ps = [] \<longleftrightarrow> ps = []"
  by (simp add: in_field_def)

lemma check_text_Nil:
  "fst (check_text cfg s) = [] \<longleftrightarrow>
     s \<noteq> [] \<and> valid_utf8 s \<and> \<not> contains_nul s \<and> Segments (Count s) \<le> cfg_max_segments cfg"
  "fst (check_text cfg s) = [] \<Longrightarrow> snd (check_text cfg s) = Count s"
  by (auto simp: check_text_def Let_def)

lemma check_ref_Nil:
  assumes "check_ref i ref refs = ([], s, refs')"
  shows "ref = (if s = [] then None else Some s) \<and> (s = [] \<or> ValidClientRef s) \<and>
    (s \<noteq> [] \<longrightarrow> s \<notin> fst ` set refs) \<and> fst ` set refs' = (if s = [] then {} else {s}) \<union> fst ` set refs"
  using assms ValidClientRef_ne
  by (auto simp: check_ref_def map_of_eq_None_iff split: option.splits if_splits)

lemma prepare_loop_ok:
  assumes "prepare_loop cfg batch i reqs refs = ([], items)"
  shows "list_all2 item_of reqs items \<and> list_all (item_ok cfg) items \<and>
    distinct (filter (\<lambda>s. s \<noteq> []) (map it_ref items)) \<and>
    set (filter (\<lambda>s. s \<noteq> []) (map it_ref items)) \<inter> fst ` set refs = {}"
  using assms
proof (induction reqs arbitrary: i refs items)
  case Nil
  then show ?case by simp
next
  case (Cons r rs)
  let ?ty = "if req_type r = [] then ''normal'' else req_type r"
  obtain ps seg where ct: "check_text cfg (req_text r) = (ps, seg)" by (cases "check_text cfg (req_text r)")
  obtain qs ref refs' where cr: "check_ref i (req_client_ref r) refs = (qs, ref, refs')"
    by (cases "check_ref i (req_client_ref r) refs")
  obtain ps' its where rest: "prepare_loop cfg batch (Suc i) rs refs' = (ps', its)"
    by (cases "prepare_loop cfg batch (Suc i) rs refs'")
  from Cons.prems ct cr rest have nil: "check_to (req_to r) = []" "check_type ?ty = []" "ps = []" "qs = []" "ps' = []"
    and items: "items = \<lparr>it_to = req_to r, it_text = req_text r,
       it_type = (case ParseType ?ty of Some t \<Rightarrow> t | None \<Rightarrow> Normal), it_ref = ref, it_seg = seg,
       it_cost = Cost (cfg_prices cfg) (case ParseType ?ty of Some t \<Rightarrow> t | None \<Rightarrow> Normal) (Segments seg)\<rparr> # its"
    by (simp_all add: Let_def)
  from Cons.IH [OF rest [unfolded nil]] have IH: "list_all2 item_of rs its" "list_all (item_ok cfg) its"
    "distinct (filter (\<lambda>s. s \<noteq> []) (map it_ref its))"
    "set (filter (\<lambda>s. s \<noteq> []) (map it_ref its)) \<inter> fst ` set refs' = {}" by auto
  note ref = check_ref_Nil [OF cr [unfolded nil]]
  from nil(2) obtain t where t: "ParseType ?ty = Some t" by (auto simp: check_type_def split: if_splits)
  have body: "req_text r \<noteq> []" "valid_utf8 (req_text r)" "\<not> contains_nul (req_text r)"
      "Segments (Count (req_text r)) \<le> cfg_max_segments cfg" "seg = Count (req_text r)"
    using check_text_Nil [of cfg "req_text r"] ct nil(3) by auto
  then have "1 \<le> Segments seg" using Segments_pos_iff [of "req_text r"] by simp
  with nil(1) body ref t have "item_of r (hd items)" "item_ok cfg (hd items)"
    by (simp_all add: items item_of_def item_ok_def check_to_Nil)
  with ref IH show ?case unfolding items by (cases "ref = []") auto
qed

lemma prepare_InrD:
  assumes "prepare cfg reqs batch = Inr items"
  shows "list_all2 item_of reqs items" "list_all (item_ok cfg) items"
    "distinct (filter (\<lambda>s. s \<noteq> []) (map it_ref items))"
    "batch \<Longrightarrow> reqs \<noteq> [] \<and> length reqs \<le> MaxBatchSize"
proof -
  from assms have "prepare_loop cfg batch 0 reqs [] = ([], items)"
    and b: "batch \<Longrightarrow> reqs \<noteq> [] \<and> length reqs \<le> MaxBatchSize"
    by (auto simp: prepare_def split: if_splits prod.splits)
  from prepare_loop_ok [OF this(1)] b
  show "list_all2 item_of reqs items" "list_all (item_ok cfg) items"
    "distinct (filter (\<lambda>s. s \<noteq> []) (map it_ref items))"
    "batch \<Longrightarrow> reqs \<noteq> [] \<and> length reqs \<le> MaxBatchSize" by auto
qed

subsection \<open>Prices without overflow\<close>

lemma Cost_exact:
  assumes "accept_config_ok cfg" "Segments seg \<le> cfg_max_segments cfg"
  shows "Cost (cfg_prices cfg) t (Segments seg) = int (Segments seg) * PerSegment (cfg_prices cfg) t"
    "Cost (cfg_prices cfg) t (Segments seg) \<le> 10000000"
    "1 \<le> Segments seg \<Longrightarrow> 1 \<le> Cost (cfg_prices cfg) t (Segments seg)"
proof -
  let ?s = "int (Segments seg)" and ?p = "PerSegment (cfg_prices cfg) t"
  have s: "0 \<le> ?s" "?s \<le> 10" and p: "1 \<le> ?p" "?p \<le> 1000000"
    using assms by (auto simp: accept_config_ok_def PerSegment_def)
  have le: "?s * ?p \<le> 10 * 1000000" using s p by (intro mult_mono) auto
  have nn: "0 \<le> ?s * ?p" using s p by simp
  show eq: "Cost (cfg_prices cfg) t (Segments seg) = ?s * ?p"
    unfolding Cost_def by (rule wrap64_id [OF in_int64I]) (use le nn in \<open>auto simp: max_int64_def\<close>)
  show "Cost (cfg_prices cfg) t (Segments seg) \<le> 10000000" using le eq by simp
  assume "1 \<le> Segments seg"
  then have "1 * 1 \<le> ?s * ?p" using p by (intro mult_mono) auto
  then show "1 \<le> Cost (cfg_prices cfg) t (Segments seg)" using eq by simp
qed

subsection \<open>Lane names\<close>

lemma fnv_lane_bound:
  assumes "1 \<le> n" "n \<le> 1024"
  shows "0 \<le> uint (h mod (word_of_nat n :: 32 word))" "uint (h mod (word_of_nat n :: 32 word)) < int n"
proof -
  have "uint (word_of_nat n :: 32 word) = int n"
    using assms by (simp add: unsigned_of_nat take_bit_nat_eq_self)
  then show "0 \<le> uint (h mod (word_of_nat n :: 32 word))" "uint (h mod (word_of_nat n :: 32 word)) < int n"
    using assms by (simp_all add: uint_mod)
qed

lemma Lane_in_range:
  assumes "1 \<le> n" "n \<le> 1024"
  shows "\<exists>i. 0 \<le> i \<and> i < int n \<and> Lane Normal cid n = NormalLane i"
  using fnv_lane_bound [OF assms, of "fnv32a (uuid_bytes cid)"] by (auto simp: Lane_def)

end
