(* ===== verification/Accept.thy ===== *)
theory Accept
  imports Billing Validate
begin

text \<open>
  Message acceptance, \<^verbatim>\<open>internal/message/accept.go\<close>: the transaction that inserts the messages,
  records a debit for each, enqueues them and debits the balance; the resolution of repeated
  client references into a replay or a conflict; and the loop around both. The first part is
  the model, the second what it guarantees.
\<close>

subsection \<open>The accept transaction\<close>

record accepted =
  a_messages :: "message list"
  a_total_cost :: int
  a_replayed :: bool

definition ttl :: "accept_config \<Rightarrow> mtype \<Rightarrow> duration" where
  "ttl cfg t = (if t = Express then cfg_express_ttl cfg else cfg_normal_ttl cfg)"

text \<open>The row the insert builds from item \<open>it\<close>, with the column defaults of the table.\<close>

definition new_message :: "env \<Rightarrow> accept_config \<Rightarrow> uuid \<Rightarrow> uuid \<Rightarrow> item \<Rightarrow> message" where
  "new_message e cfg cid mid it =
     \<lparr>m_id = mid, m_customer_id = cid, m_type = it_type it, m_recipient = it_to it, m_body = it_text it,
      m_encoding = seg_encoding (it_seg it), m_segments = Segments (it_seg it), m_cost = it_cost it,
      m_status = StatusAccepted, m_attempts = 0, m_provider = None, m_provider_ref = None,
      m_last_error = None, m_failure_reason = None, m_sla_breached = False,
      m_client_ref = NullString (it_ref it), m_accepted_at = env_now e,
      m_expires_at = env_now e + interval_ms (milliseconds (ttl cfg (it_type it))),
      m_sent_at = None, m_completed_at = None, m_updated_at = env_now e\<rparr>"

text \<open>\<^verbatim>\<open>INSERT .. ON CONFLICT ON CONSTRAINT messages_customer_client_ref_key DO NOTHING RETURNING\<close>,
  row by row; the foreign key is checked at the end of the statement.\<close>

fun insert_message_rows :: "message list \<Rightarrow> db \<Rightarrow> db_error + db \<times> message list" where
  "insert_message_rows [] d = Inr (d, [])"
| "insert_message_rows (m # ms) d =
     (if \<not> message_check m then Inl (CheckViolation ''messages'')
      else if client_ref_taken (m_customer_id m) (m_client_ref m) (messages d)
      then insert_message_rows ms d
      else if has_key m_id (m_id m) (messages d) then Inl (UniqueViolation ''messages_pkey'')
      else case insert_message_rows ms (d\<lparr>messages := messages d @ [m]\<rparr>) of
          Inl err \<Rightarrow> Inl err
        | Inr (d', ins) \<Rightarrow> Inr (d', m # ins))"

definition insert_messages :: "uuid \<Rightarrow> message list \<Rightarrow> db \<Rightarrow> db_error + db \<times> message list" where
  "insert_messages cid ms d =
     (case insert_message_rows ms d of
        Inl err \<Rightarrow> Inl err
      | Inr (d', ins) \<Rightarrow>
          if ins \<noteq> [] \<and> \<not> has_key c_id cid (customers d)
          then Inl (ForeignKeyViolation ''messages_customer_id_fkey'')
          else Inr (d', ins))"

text \<open>\<^verbatim>\<open>INSERT INTO queue .. FROM unnest(..) JOIN messages\<close>.\<close>

definition new_queue_row :: "env \<Rightarrow> message \<Rightarrow> string \<Rightarrow> queue_row" where
  "new_queue_row e m lane =
     \<lparr>q_message_id = m_id m, q_lane = lane, q_next_attempt_at = env_now e, q_lease_owner = None,
      q_lease_version = 0, q_expires_at = m_expires_at m\<rparr>"

fun enqueue :: "env \<Rightarrow> (uuid \<times> string) list \<Rightarrow> db \<Rightarrow> db_error + db" where
  "enqueue e [] d = Inr d"
| "enqueue e ((mid, lane) # qs) d =
     (case row_of m_id mid (messages d) of
        None \<Rightarrow> enqueue e qs d
      | Some m \<Rightarrow>
          if has_key q_message_id mid (queue d) then Inl (UniqueViolation ''queue_pkey'')
          else enqueue e qs (d\<lparr>queue := queue d @ [new_queue_row e m lane]\<rparr>))"

definition accept_ids :: "env \<Rightarrow> nat \<Rightarrow> uuid list" where
  "accept_ids e n = map (env_new_id e) [0..<n]"

definition accept_rows :: "env \<Rightarrow> accept_config \<Rightarrow> uuid \<Rightarrow> item list \<Rightarrow> message list" where
  "accept_rows e cfg cid items = map2 (new_message e cfg cid) (accept_ids e (length items)) items"

definition accept_debits :: "env \<Rightarrow> item list \<Rightarrow> debit list" where
  "accept_debits e items =
     map2 (\<lambda>mid it. \<lparr>d_message_id = mid, d_amount = it_cost it\<rparr>) (accept_ids e (length items)) items"

definition accept_lanes :: "env \<Rightarrow> accept_config \<Rightarrow> uuid \<Rightarrow> item list \<Rightarrow> (uuid \<times> string) list" where
  "accept_lanes e cfg cid items =
     map2 (\<lambda>mid it. (mid, Lane (it_type it) cid (cfg_normal_lanes cfg))) (accept_ids e (length items)) items"

definition total_cost :: "item list \<Rightarrow> int" where
  "total_cost items = fold (\<lambda>it total. wrap64 (total + it_cost it)) items 0"

definition insert_body ::
    "env \<Rightarrow> accept_config \<Rightarrow> uuid \<Rightarrow> item list \<Rightarrow> db \<Rightarrow> error + db \<times> message list \<times> bool" where
  "insert_body e cfg cid items d =
     (case insert_messages cid (accept_rows e cfg cid items) d of
        Inl (ForeignKeyViolation c) \<Rightarrow> Inl ErrCustomerNotFound
      | Inl err \<Rightarrow> Inl (DbErr ''insert messages'' err)
      | Inr (d1, inserted) \<Rightarrow>
          if length inserted < length items then Inl ErrClientRefTaken
          else case RecordDebits e (length items) cid (accept_debits e items) d1 of
              Inl err \<Rightarrow> Inl err
            | Inr d2 \<Rightarrow>
                (case enqueue e (accept_lanes e cfg cid items) d2 of
                   Inl err \<Rightarrow> Inl (DbErr ''enqueue messages'' err)
                 | Inr d3 \<Rightarrow>
                     (case DebitBalance e cid (total_cost items) d3 of
                        Inl err \<Rightarrow> Inl err
                      | Inr (d4, balance) \<Rightarrow>
                          Inr (d4, inserted, list_ex (\<lambda>it. it_type it = Express) items))))"

text \<open>The zero \<^verbatim>\<open>Message{}\<close>, for an identifier \<^verbatim>\<open>byID\<close> would not hold; every identifier
  is there, since the insert returned as many rows.\<close>

definition zero_message :: message where
  "zero_message =
     \<lparr>m_id = uuid_nil, m_customer_id = uuid_nil, m_type = Normal, m_recipient = [], m_body = [],
      m_encoding = GSM7, m_segments = 0, m_cost = 0, m_status = StatusAccepted, m_attempts = 0,
      m_provider = None, m_provider_ref = None, m_last_error = None, m_failure_reason = None,
      m_sla_breached = False, m_client_ref = None, m_accepted_at = zero_time, m_expires_at = zero_time,
      m_sent_at = None, m_completed_at = None, m_updated_at = zero_time\<rparr>"

text \<open>\<^verbatim>\<open>insert\<close>. The flag says whether the commit delivers \<^verbatim>\<open>express_ready\<close> to its listeners.\<close>

definition insert_accept ::
    "tx_fault \<Rightarrow> env \<Rightarrow> accept_config \<Rightarrow> uuid \<Rightarrow> item list \<Rightarrow> db \<Rightarrow> db \<times> (error + accepted \<times> bool)" where
  "insert_accept fault e cfg cid items d =
     (case WithTx tx_error fault (insert_body e cfg cid items) d of
        (d', Inl err) \<Rightarrow> (d', Inl err)
      | (d', Inr (inserted, notify)) \<Rightarrow>
          (d', Inr (\<lparr>a_messages = map (\<lambda>mid. case row_of m_id mid (rev inserted) of
                          Some m \<Rightarrow> m | None \<Rightarrow> zero_message) (accept_ids e (length items)),
                     a_total_cost = total_cost items, a_replayed = False\<rparr>, notify)))"

subsection \<open>Repeated client references\<close>

definition sameRequest :: "message \<Rightarrow> item \<Rightarrow> bool" where
  "sameRequest m it \<longleftrightarrow> m_recipient m = it_to it \<and> m_body m = it_text it \<and> m_type m = it_type it"

text \<open>The loop over the items. \<open>msgs\<close> is \<^verbatim>\<open>replay.Messages\<close> up to the current index, or \<open>None\<close> once
  the code has set it to nil.\<close>

fun resolve_loop ::
    "bool \<Rightarrow> message list \<Rightarrow> nat \<Rightarrow> item list \<Rightarrow> message list option \<Rightarrow> int \<Rightarrow> field_error list
       \<Rightarrow> message list option \<times> int \<times> field_error list" where
  "resolve_loop batch existing i [] msgs sum_cost conflicts = (msgs, sum_cost, conflicts)"
| "resolve_loop batch existing i (it # its) msgs sum_cost conflicts =
     (case (if it_ref it = [] then None else row_of m_client_ref (Some (it_ref it)) (rev existing)) of
        None \<Rightarrow> resolve_loop batch existing (Suc i) its None sum_cost conflicts
      | Some m \<Rightarrow>
          if \<not> sameRequest m it
          then resolve_loop batch existing (Suc i) its None sum_cost
                 (conflicts @ [fe (field_name batch i ''client_ref'') ''conflict''
                   ''was already used for a message with a different recipient, text, or type''])
          else let conflicts' = conflicts @ [fe (field_name batch i ''client_ref'') ''conflict''
                     ''was already used by an earlier request that this batch only partly repeats'']
               in (case msgs of
                     None \<Rightarrow> resolve_loop batch existing (Suc i) its None sum_cost conflicts'
                   | Some ms \<Rightarrow> resolve_loop batch existing (Suc i) its (Some (ms @ [m]))
                                  (wrap64 (sum_cost + m_cost m)) conflicts'))"

definition resolveExisting ::
    "uuid \<Rightarrow> item list \<Rightarrow> bool \<Rightarrow> db \<Rightarrow> error + accepted option" where
  "resolveExisting cid items batch d =
     (let refs = filter (\<lambda>r. r \<noteq> []) (map it_ref items);
          existing = filter (\<lambda>m. m_customer_id m = cid \<and>
            (case m_client_ref m of None \<Rightarrow> False | Some r \<Rightarrow> r \<in> set refs)) (messages d)
      in if existing = [] then Inr None
         else case resolve_loop batch existing 0 items (Some []) 0 [] of
             (Some ms, sum_cost, conflicts) \<Rightarrow>
               Inr (Some \<lparr>a_messages = ms, a_total_cost = sum_cost, a_replayed = True\<rparr>)
           | (None, sum_cost, conflicts) \<Rightarrow> Inl (ConflictError conflicts))"

subsection \<open>The accept loop\<close>

text \<open>What happens around the statements of one call: the clock and identifiers of try \<open>k\<close>, the
  failures of its transaction and of its query, and what other transactions commit before
  its transaction (index \<open>2 * k\<close>) and before its query (\<open>2 * k + 1\<close>).\<close>

record accept_world =
  aw_env :: "nat \<Rightarrow> env"
  aw_fault :: "nat \<Rightarrow> tx_fault"
  aw_query_fails :: "nat \<Rightarrow> bool"
  aw_others :: "nat \<Rightarrow> db \<Rightarrow> db"

fun accept_loop ::
    "nat \<Rightarrow> nat \<Rightarrow> accept_world \<Rightarrow> accept_config \<Rightarrow> uuid \<Rightarrow> item list \<Rightarrow> bool \<Rightarrow> db
       \<Rightarrow> db \<times> (error + accepted \<times> bool)" where
  "accept_loop 0 k w cfg cid items batch d =
     (d, Inl (ErrText ''accept: client_ref conflict did not settle''))"
| "accept_loop (Suc n) k w cfg cid items batch d =
     (case insert_accept (aw_fault w k) (aw_env w k) cfg cid items (aw_others w (2 * k) d) of
        (d1, Inl ErrClientRefTaken) \<Rightarrow>
          (let d2 = aw_others w (2 * k + 1) d1
           in if aw_query_fails w k then (d2, Inl (DbErr ''load existing messages'' Unavailable))
              else case resolveExisting cid items batch d2 of
                  Inl err \<Rightarrow> (d2, Inl err)
                | Inr (Some a) \<Rightarrow> (d2, Inr (a, False))
                | Inr None \<Rightarrow> accept_loop n (Suc k) w cfg cid items batch d2)
      | res \<Rightarrow> res)"

definition accept ::
    "accept_world \<Rightarrow> accept_config \<Rightarrow> uuid \<Rightarrow> request list \<Rightarrow> bool \<Rightarrow> db
       \<Rightarrow> db \<times> (error + accepted \<times> bool)" where
  "accept w cfg cid reqs batch d =
     (case prepare cfg reqs batch of
        Inl err \<Rightarrow> (d, Inl err)
      | Inr items \<Rightarrow> accept_loop 3 0 w cfg cid items batch d)"

definition AcceptBatch ::
    "accept_world \<Rightarrow> accept_config \<Rightarrow> uuid \<Rightarrow> request list \<Rightarrow> db \<Rightarrow> db \<times> (error + accepted \<times> bool)" where
  "AcceptBatch w cfg cid reqs d = accept w cfg cid reqs True d"

text \<open>\<^verbatim>\<open>Accept\<close> returns the only message; an accepted request is never empty.\<close>

definition Accept ::
    "accept_world \<Rightarrow> accept_config \<Rightarrow> uuid \<Rightarrow> request \<Rightarrow> db \<Rightarrow> db \<times> (error + message \<times> bool)" where
  "Accept w cfg cid req d =
     (case accept w cfg cid [req] False d of
        (d', Inl err) \<Rightarrow> (d', Inl err)
      | (d', Inr (a, notify)) \<Rightarrow> (d', Inr (hd (a_messages a), a_replayed a)))"


subsection \<open>The statements of the transaction\<close>

abbreviation ref_keys :: "message list \<Rightarrow> (uuid \<times> string option) list" where
  "ref_keys ms \<equiv> map (\<lambda>m. (m_customer_id m, m_client_ref m)) (filter (\<lambda>m. m_client_ref m \<noteq> None) ms)"

lemma client_ref_taken_iff:
  "client_ref_taken cid ref ms \<longleftrightarrow> ref \<noteq> None \<and> (cid, ref) \<in> set (ref_keys ms)"
  by (auto simp: client_ref_taken_def list_ex_iff)

lemma insert_message_rows_length: "insert_message_rows ms d = Inr (d', ins) \<Longrightarrow> length ins \<le> length ms"
  by (induction ms d arbitrary: d' ins rule: insert_message_rows.induct)
    (auto split: if_splits sum.splits intro: le_SucI)

lemma insert_message_rows_all:
  assumes "insert_message_rows ms d = Inr (d', ins)" and "length ms \<le> length ins"
  shows "ins = ms \<and> d' = d\<lparr>messages := messages d @ ms\<rparr> \<and>
    (distinct (map m_id (messages d)) \<longrightarrow> distinct (map m_id (messages d @ ms))) \<and>
    (distinct (ref_keys (messages d)) \<longrightarrow> distinct (ref_keys (messages d @ ms)))"
  using assms
proof (induction ms d arbitrary: d' ins rule: insert_message_rows.induct)
  case (1 d)
  then show ?case by simp
next
  case (2 m ms d)
  from 2(3) have chk: "message_check m" by (simp split: if_splits)
  have nt: "\<not> client_ref_taken (m_customer_id m) (m_client_ref m) (messages d)"
  proof
    assume "client_ref_taken (m_customer_id m) (m_client_ref m) (messages d)"
    with 2(3) chk have "insert_message_rows ms d = Inr (d', ins)" by simp
    with insert_message_rows_length 2(4) show False by fastforce
  qed
  with 2(3) chk obtain ins' where nk: "\<not> has_key m_id (m_id m) (messages d)"
    and rest: "insert_message_rows ms (d\<lparr>messages := messages d @ [m]\<rparr>) = Inr (d', ins')"
    and ins: "ins = m # ins'"
    by (auto split: if_splits sum.splits)
  from 2(2) [OF _ nt nk rest] chk 2(4) ins have IH: "ins' = ms \<and> d' = d\<lparr>messages := messages d @ m # ms\<rparr> \<and>
    (distinct (map m_id (messages d @ [m])) \<longrightarrow> distinct (map m_id (messages d @ m # ms))) \<and>
    (distinct (ref_keys (messages d @ [m])) \<longrightarrow> distinct (ref_keys (messages d @ m # ms)))"
    by simp
  have "distinct (map m_id (messages d)) \<Longrightarrow> distinct (map m_id (messages d @ [m]))"
    using nk by (simp add: has_key_iff)
  moreover have "distinct (ref_keys (messages d)) \<Longrightarrow> distinct (ref_keys (messages d @ [m]))"
    using nt unfolding client_ref_taken_iff by (cases "m_client_ref m") simp_all
  ultimately show ?case using IH ins by blast
qed

lemma insert_message_rows_fresh:
  assumes "\<forall>m\<in>set ms. message_check m" "distinct (map m_id (messages d @ ms))"
    "distinct (ref_keys (messages d @ ms))"
  shows "insert_message_rows ms d = Inr (d\<lparr>messages := messages d @ ms\<rparr>, ms)"
  using assms
proof (induction ms arbitrary: d)
  case (Cons m ms)
  have "\<not> client_ref_taken (m_customer_id m) (m_client_ref m) (messages d)"
    unfolding client_ref_taken_iff using Cons.prems(3) by (cases "m_client_ref m") simp_all
  moreover have "\<not> has_key m_id (m_id m) (messages d)"
    using Cons.prems(2) by (simp add: has_key_iff)
  moreover have "insert_message_rows ms (d\<lparr>messages := messages d @ [m]\<rparr>) =
      Inr (d\<lparr>messages := messages d @ m # ms\<rparr>, ms)"
    using Cons.IH [of "d\<lparr>messages := messages d @ [m]\<rparr>"] Cons.prems by simp
  ultimately show ?case using Cons.prems(1) by simp
qed simp

text \<open>The debit rows of one call of \<^verbatim>\<open>RecordDebits\<close>.\<close>

definition debit_rows :: "env \<Rightarrow> nat \<Rightarrow> uuid \<Rightarrow> debit list \<Rightarrow> transaction list" where
  "debit_rows e k cid xs = map2 (\<lambda>j. debit_transaction e cid (env_new_id e j)) [k..<k + length xs] xs"

lemma debit_rows_simps [simp]:
  "debit_rows e k cid [] = []"
  "debit_rows e k cid (x # xs) = debit_transaction e cid (env_new_id e k) x # debit_rows e (Suc k) cid xs"
  by (simp_all add: debit_rows_def upt_conv_Cons del: upt_Suc)

lemma insert_debits_effect:
  assumes "insert_debits e k cid xs d = Inr d'"
  shows "d' = d\<lparr>transactions := transactions d @ debit_rows e k cid xs\<rparr> \<and> (struct_ok d \<longrightarrow> struct_ok d')"
  using assms
proof (induction e k cid xs d rule: insert_debits.induct)
  case (2 e k cid x xs d)
  from 2(2) obtain d1 where ins: "insert_transaction (debit_transaction e cid (env_new_id e k) x) d = Inr d1"
    and rest: "insert_debits e (Suc k) cid xs d1 = Inr d'"
    by (auto split: sum.splits)
  then have "d1 = d\<lparr>transactions := transactions d @ [debit_transaction e cid (env_new_id e k) x]\<rparr>"
    by (simp add: insert_transaction_Inr_iff)
  with 2(1) [OF ins rest] insert_transaction_struct [OF _ ins] show ?case by auto
qed simp

lemma insert_debits_fresh:
  assumes "\<forall>x\<in>set xs. 0 < d_amount x \<and> d_message_id x \<in> m_id ` set (messages d) \<and>
      \<not> message_kind_taken (Some (d_message_id x)) KindDebit (transactions d)"
    and "distinct (map d_message_id xs)"
    and "distinct (map t_id (transactions d) @ map (env_new_id e) [k..<k + length xs])"
    and "cid \<in> c_id ` set (customers d)"
  shows "insert_debits e k cid xs d = Inr (d\<lparr>transactions := transactions d @ debit_rows e k cid xs\<rparr>)"
  using assms
proof (induction xs arbitrary: k d)
  case (Cons x xs)
  let ?t = "debit_transaction e cid (env_new_id e k) x"
  let ?d = "d\<lparr>transactions := transactions d @ [?t]\<rparr>"
  have "[k..<k + length (x # xs)] = k # [Suc k..<Suc k + length xs]" by (simp add: upt_conv_Cons del: upt_Suc)
  then have ids: "distinct (map t_id (transactions d) @ env_new_id e k # map (env_new_id e) [Suc k..<Suc k + length xs])"
    using Cons.prems(3) by simp
  have "insert_transaction ?t d = Inr ?d"
    unfolding insert_transaction_Inr_iff using Cons.prems(1,4) ids
    by (auto simp: debit_transaction_def transaction_check_def has_key_iff)
  moreover have "insert_debits e (Suc k) cid xs ?d =
      Inr (?d\<lparr>transactions := transactions ?d @ debit_rows e (Suc k) cid xs\<rparr>)"
    by (rule Cons.IH) (use Cons.prems ids in \<open>auto simp: message_kind_taken_def debit_transaction_def\<close>)
  ultimately show ?case by simp
qed simp

lemma enqueue_rows:
  assumes "distinct (map m_id (messages d))" "set ms \<subseteq> set (messages d)" "length lanes = length ms"
    "distinct (map q_message_id (queue d) @ map m_id ms)"
  shows "enqueue e (zip (map m_id ms) lanes) d = Inr (d\<lparr>queue := queue d @ map2 (new_queue_row e) ms lanes\<rparr>)"
  using assms
proof (induction ms arbitrary: d lanes)
  case (Cons m ms)
  then obtain l ls where lanes: "lanes = l # ls" "length ls = length ms" by (cases lanes) auto
  let ?d = "d\<lparr>queue := queue d @ [new_queue_row e m l]\<rparr>"
  have "row_of m_id (m_id m) (messages d) = Some m"
    using Cons.prems by (simp add: row_of_Some_iff)
  moreover have "\<not> has_key q_message_id (m_id m) (queue d)"
    using Cons.prems(4) by (simp add: has_key_iff)
  moreover have "enqueue e (zip (map m_id ms) ls) ?d = Inr (?d\<lparr>queue := queue ?d @ map2 (new_queue_row e) ms ls\<rparr>)"
    by (rule Cons.IH) (use Cons.prems lanes in \<open>auto simp: new_queue_row_def\<close>)
  ultimately show ?case using lanes by simp
qed simp


subsection \<open>The net effect of an accept\<close>

text \<open>The specification: what a successful accept adds, and what has to be new for it.\<close>

definition accept_queue_rows :: "env \<Rightarrow> accept_config \<Rightarrow> uuid \<Rightarrow> item list \<Rightarrow> queue_row list" where
  "accept_queue_rows e cfg cid items = map2 (new_queue_row e) (accept_rows e cfg cid items)
     (map (\<lambda>it. Lane (it_type it) cid (cfg_normal_lanes cfg)) items)"

definition accept_effect :: "env \<Rightarrow> accept_config \<Rightarrow> uuid \<Rightarrow> item list \<Rightarrow> db \<Rightarrow> db" where
  "accept_effect e cfg cid items d =
     d\<lparr>customers := update_where (\<lambda>c. c_id c = cid)
         (\<lambda>c. c\<lparr>c_balance := c_balance c - (\<Sum>it\<leftarrow>items. it_cost it), c_updated_at := env_now e\<rparr>) (customers d),
       messages := messages d @ accept_rows e cfg cid items,
       transactions := transactions d @ debit_rows e (length items) cid (accept_debits e items),
       queue := queue d @ accept_queue_rows e cfg cid items\<rparr>"

definition accept_fresh :: "env \<Rightarrow> accept_config \<Rightarrow> uuid \<Rightarrow> item list \<Rightarrow> db \<Rightarrow> bool" where
  "accept_fresh e cfg cid items d \<longleftrightarrow>
     distinct (map m_id (messages d) @ accept_ids e (length items)) \<and>
     distinct (map t_id (transactions d) @ map (env_new_id e) [length items..<length items + length items]) \<and>
     distinct (ref_keys (messages d @ accept_rows e cfg cid items))"

text \<open>Items \<open>prepare\<close> lets through under a configuration the gateway loads.\<close>

definition items_ok :: "accept_config \<Rightarrow> item list \<Rightarrow> bool" where
  "items_ok cfg items \<longleftrightarrow> accept_config_ok cfg \<and> list_all (item_ok cfg) items \<and> length items \<le> MaxBatchSize"

lemma length_accept_ids [simp]: "length (accept_ids e n) = n"
  by (simp add: accept_ids_def)

lemma length_accept_rows [simp]: "length (accept_rows e cfg cid items) = length items"
  by (simp add: accept_rows_def)

lemma map_snd_zip_comp: "length xs = length ys \<Longrightarrow> map (\<lambda>p. f (snd p)) (zip xs ys) = map f ys"
  by (induction xs ys rule: list_induct2) auto

lemma map_m_id_accept_rows [simp]: "map m_id (accept_rows e cfg cid items) = accept_ids e (length items)"
  by (simp add: accept_rows_def comp_def case_prod_beta' new_message_def)

lemma map_d_message_id_accept_debits [simp]:
  "map d_message_id (accept_debits e items) = accept_ids e (length items)"
  by (simp add: accept_debits_def comp_def case_prod_beta')

lemma map_q_message_id_accept_queue_rows [simp]:
  "map q_message_id (accept_queue_rows e cfg cid items) = accept_ids e (length items)"
  by (rule nth_equalityI) (simp_all add: accept_queue_rows_def new_queue_row_def accept_rows_def new_message_def)

lemma accept_queue_ids: "q_message_id ` set (accept_queue_rows e cfg cid items) = m_id ` set (accept_rows e cfg cid items)"
  by (metis map_m_id_accept_rows map_q_message_id_accept_queue_rows set_map)

lemma length_accept_debits [simp]: "length (accept_debits e items) = length items"
  by (simp add: accept_debits_def)

lemma accept_lanes_zip:
  "accept_lanes e cfg cid items = zip (map m_id (accept_rows e cfg cid items))
     (map (\<lambda>it. Lane (it_type it) cid (cfg_normal_lanes cfg)) items)"
  by (simp add: accept_lanes_def zip_map2 case_prod_beta')

lemma item_cost:
  assumes "accept_config_ok cfg" "item_ok cfg it"
  shows "1 \<le> it_cost it" "it_cost it \<le> 10000000"
  using Cost_exact(2,3) [OF assms(1), of "it_seg it" "it_type it"] assms(2) unfolding item_ok_def by metis+

lemma sum_costs_bounds:
  assumes "accept_config_ok cfg" "list_all (item_ok cfg) items"
  shows "int (length items) \<le> (\<Sum>it\<leftarrow>items. it_cost it)"
    "(\<Sum>it\<leftarrow>items. it_cost it) \<le> 10000000 * int (length items)"
  using assms(2) item_cost [OF assms(1)] by (induction items) fastforce+

lemma fold_wrap_sum:
  assumes "\<forall>x\<in>set xs. 0 \<le> f x" "0 \<le> a" "a + (\<Sum>x\<leftarrow>xs. f x) \<le> max_int64"
  shows "fold (\<lambda>x s. wrap64 (s + f x)) xs a = a + (\<Sum>x\<leftarrow>xs. f x)"
  using assms
proof (induction xs arbitrary: a)
  case (Cons x xs)
  have "0 \<le> (\<Sum>x\<leftarrow>xs. f x)" using Cons.prems(1) by (intro sum_list_nonneg) auto
  then have "wrap64 (a + f x) = a + f x"
    using Cons.prems by (intro wrap64_id in_int64I) auto
  with Cons.IH [of "a + f x"] Cons.prems show ?case by (simp add: add.assoc)
qed simp

lemma total_cost_exact:
  assumes "items_ok cfg items"
  shows "total_cost items = (\<Sum>it\<leftarrow>items. it_cost it)"
    "0 \<le> (\<Sum>it\<leftarrow>items. it_cost it)" "(\<Sum>it\<leftarrow>items. it_cost it) \<le> 5000000000"
proof -
  have ok: "accept_config_ok cfg" "list_all (item_ok cfg) items" "length items \<le> 500"
    using assms by (simp_all add: items_ok_def MaxBatchSize_def)
  note b = sum_costs_bounds [OF ok(1,2)]
  show le: "(\<Sum>it\<leftarrow>items. it_cost it) \<le> 5000000000" and "0 \<le> (\<Sum>it\<leftarrow>items. it_cost it)"
    using b ok(3) by linarith+
  have "\<forall>it\<in>set items. 0 \<le> it_cost it"
    using item_cost(1) [OF ok(1)] ok(2) by (fastforce simp: list_all_iff)
  then show "total_cost items = (\<Sum>it\<leftarrow>items. it_cost it)"
    using fold_wrap_sum [of items it_cost 0] le by (simp add: total_cost_def max_int64_def)
qed

lemma set_accept_rows:
  "m \<in> set (accept_rows e cfg cid items) \<Longrightarrow> \<exists>mid it. it \<in> set items \<and> m = new_message e cfg cid mid it"
  by (auto simp: accept_rows_def dest: set_zip_rightD)

lemma set_accept_debits:
  "x \<in> set (accept_debits e items) \<Longrightarrow> d_message_id x \<in> set (accept_ids e (length items)) \<and> (\<exists>it\<in>set items. d_amount x = it_cost it)"
  by (auto simp: accept_debits_def dest: set_zip_rightD set_zip_leftD)

lemma accept_rows_check:
  assumes "items_ok cfg items"
  shows "\<forall>m\<in>set (accept_rows e cfg cid items). message_check m"
proof
  fix m assume "m \<in> set (accept_rows e cfg cid items)"
  then obtain mid it where it: "it \<in> set items" "m = new_message e cfg cid mid it"
    using set_accept_rows by blast
  then have ok: "accept_config_ok cfg" "item_ok cfg it" using assms by (auto simp: items_ok_def list_all_iff)
  with item_cost [OF ok] it show "message_check m"
    by (auto simp: message_check_def new_message_def item_ok_def accept_config_ok_def ended_def)
qed


lemma fresh_not_taken:
  assumes inv: "db_inv now d" and "mid \<notin> m_id ` set (messages d)"
  shows "\<not> message_kind_taken (Some mid) k (transactions d)"
  using assms by (force simp: db_inv_defs message_kind_taken_def list_ex_iff)

lemma insert_body_eq:
  assumes inv: "db_inv now d" and ok: "items_ok cfg items" and fresh: "accept_fresh e cfg cid items d"
    and c: "row_of c_id cid (customers d) = Some c"
  shows "insert_body e cfg cid items d =
    (if (\<Sum>it\<leftarrow>items. it_cost it) \<le> c_balance c
     then Inr (accept_effect e cfg cid items d, accept_rows e cfg cid items,
               list_ex (\<lambda>it. it_type it = Express) items)
     else Inl ErrInsufficientCredits)"
proof -
  let ?rows = "accept_rows e cfg cid items" and ?n = "length items" and ?sum = "\<Sum>it\<leftarrow>items. it_cost it"
  let ?d1 = "d\<lparr>messages := messages d @ ?rows\<rparr>"
  let ?d2 = "?d1\<lparr>transactions := transactions ?d1 @ debit_rows e ?n cid (accept_debits e items)\<rparr>"
  let ?d3 = "?d2\<lparr>queue := queue ?d2 @ accept_queue_rows e cfg cid items\<rparr>"
  have ids: "distinct (map m_id (messages d @ ?rows))" and refs: "distinct (ref_keys (messages d @ ?rows))"
    and tids: "distinct (map t_id (transactions d) @ map (env_new_id e) [?n..<?n + ?n])"
    using fresh by (simp_all add: accept_fresh_def)
  have new: "mid \<notin> m_id ` set (messages d)" if "mid \<in> set (accept_ids e ?n)" for mid
    using ids that by auto
  have "insert_messages cid ?rows d = Inr (?d1, ?rows)"
    using insert_message_rows_fresh [OF accept_rows_check [OF ok] ids refs] row_of_SomeD [OF c]
    by (auto simp: insert_messages_def has_key_iff)
  moreover have "RecordDebits e ?n cid (accept_debits e items) ?d1 = Inr ?d2"
  proof -
    have "0 < d_amount x \<and> d_message_id x \<in> m_id ` set (messages ?d1) \<and>
        \<not> message_kind_taken (Some (d_message_id x)) KindDebit (transactions ?d1)"
      if x: "x \<in> set (accept_debits e items)" for x
    proof -
      from set_accept_debits [OF x] obtain it where it: "it \<in> set items" "d_amount x = it_cost it"
        and mid: "d_message_id x \<in> set (accept_ids e ?n)" by blast
      have "1 \<le> it_cost it" using item_cost(1) ok it by (auto simp: items_ok_def list_all_iff)
      moreover have "d_message_id x \<in> m_id ` set ?rows"
        using mid by (metis map_m_id_accept_rows set_map)
      ultimately show ?thesis using it fresh_not_taken [OF inv new [OF mid]] by auto
    qed
    then have "insert_debits e ?n cid (accept_debits e items) ?d1 = Inr ?d2"
      using ids tids row_of_SomeD [OF c]
      by (intro insert_debits_fresh) auto
    then show ?thesis by (simp add: RecordDebits_def)
  qed
  moreover have "enqueue e (accept_lanes e cfg cid items) ?d2 = Inr ?d3"
  proof -
    have "q_message_id ` set (queue d) \<subseteq> m_id ` set (messages d)" using inv by (auto simp: db_inv_defs)
    then have "distinct (map q_message_id (queue ?d2) @ map m_id ?rows)"
      using inv ids new by (auto simp: db_inv_defs)
    then show ?thesis unfolding accept_lanes_zip accept_queue_rows_def using ids by (intro enqueue_rows) auto
  qed
  moreover have "DebitBalance e cid (total_cost items) ?d3 =
     (if ?sum \<le> c_balance c then Inr (accept_effect e cfg cid items d, c_balance c - ?sum) else Inl ErrInsufficientCredits)"
  proof (cases "?sum \<le> c_balance c")
    case True
    have "customer_check c" using inv row_of_SomeD [OF c] by (simp add: db_inv_defs)
    then have "in_int64 (c_balance c - ?sum)"
      using True total_cost_exact(2) [OF ok] by (auto simp: customer_check_def in_int64_def)
    with True c show ?thesis
      by (simp add: DebitBalance_def add_balance_def total_cost_exact(1) [OF ok] accept_effect_def)
  qed (use c in \<open>simp add: DebitBalance_def total_cost_exact(1) [OF ok]\<close>)
  ultimately show ?thesis by (simp add: insert_body_def)
qed


lemma map_t_id_debit_rows [simp]: "map t_id (debit_rows e k cid xs) = map (env_new_id e) [k..<k + length xs]"
  by (induction xs arbitrary: k) (simp_all add: debit_transaction_def upt_conv_Cons del: upt_Suc)

lemma insert_debits_keys:
  assumes "insert_debits e k cid xs d = Inr d'" "distinct (map t_id (transactions d))"
  shows "distinct (map t_id (transactions d'))"
  using assms
proof (induction e k cid xs d rule: insert_debits.induct)
  case (2 e k cid x xs d)
  then show ?case
    by (auto simp: insert_transaction_Inr_iff has_key_iff split: sum.splits)
qed simp

lemma enqueue_frame:
  "enqueue e qs d = Inr d' \<Longrightarrow> customers d' = customers d \<and> messages d' = messages d \<and> transactions d' = transactions d"
  by (induction e qs d rule: enqueue.induct) (auto split: option.splits if_splits)

lemma DebitBalance_InrD:
  "DebitBalance e cid a d = Inr (d', b) \<Longrightarrow> \<exists>c. row_of c_id cid (customers d) = Some c \<and> a \<le> c_balance c"
  by (auto simp: DebitBalance_def split: option.splits if_splits)

lemma insert_body_InrD:
  assumes inv: "db_inv now d" and ok: "items_ok cfg items"
    and ins: "insert_body e cfg cid items d = Inr (d', inserted, notify)"
  obtains c where "row_of c_id cid (customers d) = Some c" "(\<Sum>it\<leftarrow>items. it_cost it) \<le> c_balance c"
    "accept_fresh e cfg cid items d" "d' = accept_effect e cfg cid items d"
    "inserted = accept_rows e cfg cid items" "notify = list_ex (\<lambda>it. it_type it = Express) items"
proof -
  let ?rows = "accept_rows e cfg cid items" and ?n = "length items"
  from ins obtain d1 d2 d3 b where rows: "insert_messages cid ?rows d = Inr (d1, inserted)"
    and len: "\<not> length inserted < ?n"
    and deb: "RecordDebits e ?n cid (accept_debits e items) d1 = Inr d2"
    and enq: "enqueue e (accept_lanes e cfg cid items) d2 = Inr d3"
    and bal: "DebitBalance e cid (total_cost items) d3 = Inr (d', b)"
    by (auto simp: insert_body_def split: sum.splits db_error.splits if_splits)
  from rows have "insert_message_rows ?rows d = Inr (d1, inserted)"
    by (auto simp: insert_messages_def split: sum.splits if_splits)
  from insert_message_rows_all [OF this] len
  have d1: "d1 = d\<lparr>messages := messages d @ ?rows\<rparr>"
    and ids: "distinct (map m_id (messages d @ ?rows))" and refs: "distinct (ref_keys (messages d @ ?rows))"
    using inv by (auto simp: db_inv_defs)
  from deb have deb': "insert_debits e ?n cid (accept_debits e items) d1 = Inr d2"
    by (simp add: RecordDebits_def split: sum.splits)
  note d2 = insert_debits_effect [OF deb', THEN conjunct1]
  have tids: "distinct (map t_id (transactions d2))"
    using insert_debits_keys [OF deb'] inv by (simp add: d1 db_inv_defs)
  have fresh: "accept_fresh e cfg cid items d"
    using ids refs tids by (simp add: accept_fresh_def d2 d1 del: map_eq_conv)
  from DebitBalance_InrD [OF bal] enqueue_frame [OF enq] obtain c where
    c: "row_of c_id cid (customers d) = Some c" "total_cost items \<le> c_balance c" by (auto simp: d2 d1)
  then have le: "(\<Sum>it\<leftarrow>items. it_cost it) \<le> c_balance c" by (simp add: total_cost_exact(1) [OF ok])
  with insert_body_eq [OF inv ok fresh c(1)] ins that c(1) fresh show thesis by simp
qed

text \<open>The specification keeps the database consistent.\<close>

lemma ledger_sum_debit_rows:
  "ledger_sum c (debit_rows e k cid xs) = (if c = cid then - (\<Sum>x\<leftarrow>xs. d_amount x) else 0)"
  by (induction xs arbitrary: k) (auto simp: debit_transaction_def)

lemma sum_accept_debits: "(\<Sum>x\<leftarrow>accept_debits e items. d_amount x) = (\<Sum>it\<leftarrow>items. it_cost it)"
  by (simp add: accept_debits_def comp_def case_prod_beta' map_snd_zip_comp)

lemma set_debit_rows:
  "t \<in> set (debit_rows e k cid xs) \<Longrightarrow> \<exists>tid. \<exists>x\<in>set xs. t = debit_transaction e cid tid x"
  by (induction xs arbitrary: k) (simp, fastforce)

lemma txns_of_debit_rows:
  "map t_amount (txns_of k mid (debit_rows e j cid xs)) =
   (if k = KindDebit then map (\<lambda>x. - d_amount x) (filter (\<lambda>x. d_message_id x = mid) xs) else [])"
  by (induction xs arbitrary: j) (auto simp: txns_of_def debit_transaction_def)


lemma accept_row_debits:
  assumes "distinct (accept_ids e (length items))" "m \<in> set (accept_rows e cfg cid items)"
  shows "map (\<lambda>x. - d_amount x) (filter (\<lambda>x. d_message_id x = m_id m) (accept_debits e items)) = [- m_cost m]"
proof -
  from assms(2) obtain i where i: "i < length items" "m = accept_rows e cfg cid items ! i"
    by (metis in_set_conv_nth length_accept_rows)
  let ?x = "accept_debits e items ! i"
  have x: "?x \<in> set (accept_debits e items)" using i(1) by simp
  have "d_message_id ?x = m_id m" "d_amount ?x = m_cost m"
    using i by (simp_all add: accept_debits_def accept_rows_def new_message_def)
  then have "filter (\<lambda>x. d_message_id x = d_message_id ?x) (accept_debits e items) = [?x]"
    using x by (intro filter_key_single) (simp_all add: assms(1))
  with \<open>d_message_id ?x = m_id m\<close> \<open>d_amount ?x = m_cost m\<close> show ?thesis by simp
qed

lemma accept_effect_ledger:
  assumes inv: "db_inv now d" and fresh: "accept_fresh e cfg cid items d"
  shows "ledger_ok (accept_effect e cfg cid items d)"
proof -
  let ?ts = "debit_rows e (length items) cid (accept_debits e items)" and ?rows = "accept_rows e cfg cid items"
  have dist: "distinct (accept_ids e (length items))"
    and new: "m_id ` set (messages d) \<inter> set (accept_ids e (length items)) = {}"
    using fresh by (auto simp: accept_fresh_def)
  have mids: "t_message_id t \<in> Some ` set (accept_ids e (length items)) \<and> t_customer_id t = cid"
    if "t \<in> set ?ts" for t
    using set_debit_rows [OF that] set_accept_debits by (fastforce simp: debit_transaction_def)
  have old: "message_ledger_ok (transactions d @ ?ts) m" if m: "m \<in> set (messages d)" for m
    by (rule message_ledger_ok_append) (use inv m mids new in \<open>fastforce simp: db_inv_defs\<close>)+
  have "message_ledger_ok (transactions d @ ?ts) m" if m: "m \<in> set ?rows" for m
  proof -
    from m have mid: "m_id m \<in> set (accept_ids e (length items))" by (metis image_eqI map_m_id_accept_rows set_map)
    then have "m_id m \<notin> m_id ` set (messages d)" using new by blast
    then have no: "\<forall>t\<in>set (transactions d). t_message_id t \<noteq> Some (m_id m)"
      using inv by (auto simp: db_inv_defs)
    then have "txns_of k (m_id m) (transactions d) = []" for k by (simp add: txns_of_def filter_empty_conv)
    moreover have "m_status m = StatusAccepted" "m_customer_id m = cid"
      using set_accept_rows [OF m] by (auto simp: new_message_def)
    ultimately show ?thesis
      using accept_row_debits [OF dist m] no mids
      by (auto simp: message_ledger_ok_def txns_of_debit_rows ended_def)
  qed
  moreover have "balances_ok (customers (accept_effect e cfg cid items d)) (transactions d @ ?ts)"
    unfolding accept_effect_def update_where_def using inv
    by (simp, intro balances_ok_step) (auto simp: db_inv_defs ledger_sum_debit_rows sum_accept_debits)
  ultimately show ?thesis using old by (auto simp: ledger_ok_def accept_effect_def)
qed


lemma accept_debit_row:
  assumes ok: "items_ok cfg items" and t: "t \<in> set (debit_rows e (length items) cid (accept_debits e items))"
  shows "t_customer_id t = cid \<and> t_kind t = KindDebit \<and> t_message_id t \<in> Some ` m_id ` set (accept_rows e cfg cid items) \<and> transaction_check t"
proof -
  from set_debit_rows [OF t] obtain tid x where x: "x \<in> set (accept_debits e items)" "t = debit_transaction e cid tid x" by blast
  from set_accept_debits [OF x(1)] obtain it where it: "it \<in> set items" "d_amount x = it_cost it"
    "d_message_id x \<in> m_id ` set (accept_rows e cfg cid items)" by (metis map_m_id_accept_rows set_map)
  have "1 \<le> it_cost it" using item_cost(1) ok it(1) by (auto simp: items_ok_def list_all_iff)
  with x it show ?thesis by (auto simp: debit_transaction_def transaction_check_def)
qed

lemma accept_customer_check:
  assumes inv: "db_inv now d" and ok: "items_ok cfg items"
    and c: "row_of c_id cid (customers d) = Some c" and le: "(\<Sum>it\<leftarrow>items. it_cost it) \<le> c_balance c"
    and c': "c' \<in> set (customers (accept_effect e cfg cid items d))"
  shows "customer_check c'"
proof -
  from c' obtain c0 where c0: "c0 \<in> set (customers d)" "c' = (if c_id c0 = cid
      then c0\<lparr>c_balance := c_balance c0 - (\<Sum>it\<leftarrow>items. it_cost it), c_updated_at := env_now e\<rparr> else c0)"
    by (auto simp: accept_effect_def set_update_where)
  have "customer_check c0" using inv c0(1) by (simp add: db_inv_defs)
  moreover have "c_id c0 = cid \<Longrightarrow> c0 = c"
    using db_inv_keysD(1) [OF inv] c0(1) row_of_SomeD [OF c] by (auto dest: distinct_key_unique)
  ultimately show ?thesis using c0(2) le total_cost_exact(2) [OF ok] by (auto simp: customer_check_def in_int64_def)
qed

lemma accept_effect_struct:
  assumes inv: "db_inv now d" and ok: "items_ok cfg items" and fresh: "accept_fresh e cfg cid items d"
    and c: "row_of c_id cid (customers d) = Some c" and le: "(\<Sum>it\<leftarrow>items. it_cost it) \<le> c_balance c"
  shows "struct_ok (accept_effect e cfg cid items d)"
proof -
  let ?d = "accept_effect e cfg cid items d" and ?rows = "accept_rows e cfg cid items"
  let ?ts = "debit_rows e (length items) cid (accept_debits e items)"
  let ?qs = "accept_queue_rows e cfg cid items"
  have cids: "map c_id (customers ?d) = map c_id (customers d)"
    by (simp add: accept_effect_def map_key_update_where)
  have cset: "c_id ` set (customers ?d) = c_id ` set (customers d)" by (rule image_key_eq [OF cids])
  have cid: "cid \<in> c_id ` set (customers d)" using row_of_SomeD [OF c] by auto
  note qids = map_q_message_id_accept_queue_rows [of e cfg cid items]
  note ts = accept_debit_row [OF ok, of _ e cid]
  have "keys_ok ?d"
  proof -
    have "q_message_id ` set (queue d) \<subseteq> m_id ` set (messages d)" using inv by (auto simp: db_inv_defs)
    then have "distinct (map q_message_id (queue d) @ map q_message_id ?qs)"
      unfolding qids using inv fresh by (auto simp: db_inv_defs accept_fresh_def)
    then show ?thesis using inv fresh cids unfolding keys_ok_def
      by (simp add: accept_effect_def accept_fresh_def db_inv_defs del: map_map)
  qed
  moreover have "foreign_ok ?d"
  proof -
    note accept_queue_ids [of e cfg cid items]
    moreover have "\<forall>m\<in>set ?rows. m_customer_id m = cid"
      using set_accept_rows by (fastforce simp: new_message_def)
    moreover have "mid \<in> m_id ` set ?rows" if "t \<in> set ?ts" "t_message_id t = Some mid" for t mid
      using ts [OF that(1)] that(2) by auto
    moreover have "foreign_ok d" using inv by (simp add: db_inv_def)
    ultimately show ?thesis
      using ts cid unfolding foreign_ok_def cset by (auto simp: accept_effect_def image_Un)
  qed
  moreover have "rows_ok ?d"
  proof -
    have "\<forall>c'\<in>set (customers ?d). customer_check c'" using accept_customer_check [OF inv ok c le] by blast
    then show ?thesis using inv accept_rows_check [OF ok] ts unfolding rows_ok_def
      by (auto simp: accept_effect_def db_inv_defs)
  qed
  moreover have "refs_ok ?d"
  proof -
    have "filter (\<lambda>t. t_kind t = KindCharge) ?ts = []" using ts by (auto simp: filter_empty_conv)
    then show ?thesis using inv fresh unfolding refs_ok_def
      by (simp add: accept_effect_def accept_fresh_def db_inv_defs)
  qed
  ultimately show ?thesis by (simp add: struct_ok_def)
qed


lemma accept_effect_inv:
  assumes inv: "db_inv (env_now e) d" and ok: "items_ok cfg items" and fresh: "accept_fresh e cfg cid items d"
    and c: "row_of c_id cid (customers d) = Some c" "(\<Sum>it\<leftarrow>items. it_cost it) \<le> c_balance c"
  shows "db_inv (env_now e) (accept_effect e cfg cid items d)"
proof -
  let ?d = "accept_effect e cfg cid items d" and ?rows = "accept_rows e cfg cid items"
  let ?qs = "accept_queue_rows e cfg cid items"
  have "m_id m \<in> q_message_id ` set ?qs" if m: "m \<in> set ?rows" for m
    unfolding accept_queue_ids using m by blast
  then have "queued_ok ?d" using inv by (auto simp: db_inv_defs accept_effect_def image_Un)
  moreover have "stamps_ok (env_now e) m" if m: "m \<in> set ?rows" for m
    using set_accept_rows [OF m] by (auto simp: new_message_def stamps_ok_def terminal_def ended_def)
  ultimately show ?thesis
    using accept_effect_struct [OF inv ok fresh c] accept_effect_ledger [OF inv fresh] inv
    by (auto simp: db_inv_split accept_effect_def)
qed

lemma row_of_accept_rows:
  assumes "distinct (accept_ids e (length items))"
  shows "map (\<lambda>mid. case row_of m_id mid (rev (accept_rows e cfg cid items)) of Some m \<Rightarrow> m | None \<Rightarrow> zero_message)
    (accept_ids e (length items)) = accept_rows e cfg cid items"
proof -
  let ?rows = "accept_rows e cfg cid items"
  have "row_of m_id (m_id m) (rev ?rows) = Some m" if "m \<in> set ?rows" for m
    using assms that by (subst row_of_Some_iff) (simp_all flip: rev_map)
  then have "map (\<lambda>m. case row_of m_id (m_id m) (rev ?rows) of Some m \<Rightarrow> m | None \<Rightarrow> zero_message) ?rows = ?rows"
    by (intro map_idI) simp
  then have "map (\<lambda>mid. case row_of m_id mid (rev ?rows) of Some m \<Rightarrow> m | None \<Rightarrow> zero_message)
      (map m_id ?rows) = ?rows"
    by (simp add: comp_def del: map_m_id_accept_rows)
  then show ?thesis unfolding map_m_id_accept_rows .
qed

lemma insert_accept_InrD:
  assumes inv: "db_inv (env_now e) d" and ok: "items_ok cfg items"
    and ins: "insert_accept fault e cfg cid items d = (d', Inr (a, notify))"
  shows "d' = accept_effect e cfg cid items d" "db_inv (env_now e) d'"
    "a = \<lparr>a_messages = accept_rows e cfg cid items, a_total_cost = (\<Sum>it\<leftarrow>items. it_cost it), a_replayed = False\<rparr>"
    "\<exists>c. row_of c_id cid (customers d) = Some c \<and> (\<Sum>it\<leftarrow>items. it_cost it) \<le> c_balance c"
    "notify = list_ex (\<lambda>it. it_type it = Express) items" "accept_fresh e cfg cid items d"
proof -
  from ins obtain inserted where tx: "WithTx tx_error fault (insert_body e cfg cid items) d = (d', Inr (inserted, notify))"
    and a: "a = \<lparr>a_messages = map (\<lambda>mid. case row_of m_id mid (rev inserted) of Some m \<Rightarrow> m | None \<Rightarrow> zero_message)
              (accept_ids e (length items)), a_total_cost = total_cost items, a_replayed = False\<rparr>"
    by (auto simp: insert_accept_def split: prod.splits sum.splits)
  from insert_body_InrD [OF inv ok WithTx_Inr [OF tx]] obtain c where
    c: "row_of c_id cid (customers d) = Some c" "(\<Sum>it\<leftarrow>items. it_cost it) \<le> c_balance c"
    and fresh: "accept_fresh e cfg cid items d" and d': "d' = accept_effect e cfg cid items d"
    and rows: "inserted = accept_rows e cfg cid items"
    and n: "notify = list_ex (\<lambda>it. it_type it = Express) items" .
  show "d' = accept_effect e cfg cid items d" "notify = list_ex (\<lambda>it. it_type it = Express) items"
    "accept_fresh e cfg cid items d"
    "\<exists>c. row_of c_id cid (customers d) = Some c \<and> (\<Sum>it\<leftarrow>items. it_cost it) \<le> c_balance c"
    by (fact d' n fresh | use c in blast)+
  show "db_inv (env_now e) d'" unfolding d' by (rule accept_effect_inv [OF inv ok fresh c])
  have "distinct (accept_ids e (length items))" using fresh by (simp add: accept_fresh_def)
  then show "a = \<lparr>a_messages = accept_rows e cfg cid items, a_total_cost = (\<Sum>it\<leftarrow>items. it_cost it), a_replayed = False\<rparr>"
    using a by (simp add: rows row_of_accept_rows total_cost_exact(1) [OF ok])
qed

lemma insert_accept_InlD: "insert_accept fault e cfg cid items d = (d', Inl err) \<Longrightarrow> d' = d"
  by (auto simp: insert_accept_def split: prod.splits sum.splits dest: WithTx_Inl)

end
