(* ===== verification/Demo.thy ===== *)
theory Demo
  imports Consistency
begin

text \<open>
  One small consistent database, shared by the concrete instances of the theorems: a customer
  with a charge of 1000 credits and one accepted message that cost 10 of them.
\<close>

definition demo_customer :: customer where
  "demo_customer = \<lparr>c_id = 1, c_name = ''Acme'', c_api_key_hash = ''h'', c_api_key_prefix = ''sk_abc'',
     c_balance = 990, c_rate_limit_rps = 100, c_created_at = 0, c_updated_at = 0\<rparr>"

definition demo_message :: message where
  "demo_message = \<lparr>m_id = 2, m_customer_id = 1, m_type = Normal, m_recipient = ''+989121234567'',
     m_body = ''Hi'', m_encoding = GSM7, m_segments = 1, m_cost = 10, m_status = StatusAccepted,
     m_attempts = 0, m_provider = None, m_provider_ref = None, m_last_error = None,
     m_failure_reason = None, m_sla_breached = False, m_client_ref = Some ''a1'', m_accepted_at = 0,
     m_expires_at = 3600000000000, m_sent_at = None, m_completed_at = None, m_updated_at = 0\<rparr>"

definition demo_charge :: transaction where
  "demo_charge = \<lparr>t_id = 3, t_customer_id = 1, t_kind = KindCharge, t_amount = 1000,
     t_message_id = None, t_client_ref = Some ''c1'', t_created_at = 0\<rparr>"

definition demo_debit :: transaction where
  "demo_debit = \<lparr>t_id = 4, t_customer_id = 1, t_kind = KindDebit, t_amount = - 10,
     t_message_id = Some 2, t_client_ref = None, t_created_at = 0\<rparr>"

definition demo_queue_row :: queue_row where
  "demo_queue_row = \<lparr>q_message_id = 2, q_lane = ''normal-0'', q_next_attempt_at = 0, q_lease_owner = None,
     q_lease_version = 0, q_expires_at = 3600000000000\<rparr>"

definition demo_db :: db where
  "demo_db = \<lparr>customers = [demo_customer], messages = [demo_message],
     transactions = [demo_charge, demo_debit], queue = [demo_queue_row], workers = []\<rparr>"

definition demo_env :: env where
  "demo_env = \<lparr>env_now = 1000, env_new_id = (\<lambda>k. word_of_nat (100 + k)), env_uuid_string = (\<lambda>u. nat_digits (unat u))\<rparr>"

lemmas demo_defs = demo_customer_def demo_message_def demo_charge_def demo_debit_def demo_queue_row_def
  demo_db_def demo_env_def

lemma demo_customer_check: "customer_check demo_customer"
  by (simp add: customer_check_def demo_customer_def runes_ascii in_int64_def max_int64_def)

lemma demo_db_inv: "db_inv 1000 demo_db"
proof -
  have "ledger_ok demo_db"
    by (simp add: demo_db_def demo_customer_def demo_message_def demo_charge_def demo_debit_def
        ledger_ok_def balances_ok_def message_ledger_ok_def txns_of_def ended_def)
  moreover have "rows_ok demo_db"
    by (simp add: rows_ok_def demo_db_def demo_customer_check demo_message_def demo_charge_def demo_debit_def
        message_check_def transaction_check_def ended_def)
  moreover have "\<forall>m\<in>set (messages demo_db). stamps_ok 1000 m"
    by (simp add: demo_db_def demo_message_def stamps_ok_def terminal_def ended_def)
  ultimately show ?thesis
    by (simp add: db_inv_def keys_ok_def foreign_ok_def refs_ok_def queued_ok_def demo_db_def
        demo_customer_def demo_message_def demo_charge_def demo_debit_def demo_queue_row_def)
qed

end
