(* ===== verification/Replay.thy ===== *)
theory Replay
  imports Accept Demo
begin

text \<open>
  What acceptance promises its callers: a successful call has exactly the specified effect, a
  failed one has none, a repeated submission is answered with the original messages, and any
  other reuse of a client reference is a conflict that names the fields.
\<close>

subsection \<open>Resolving repeated references\<close>

definition item_row :: "message list \<Rightarrow> item \<Rightarrow> message option" where
  "item_row existing it =
     (if it_ref it = [] then None else row_of m_client_ref (Some (it_ref it)) (rev existing))"

lemma resolve_loop_step:
  "resolve_loop batch existing i (it # its) msgs s cs =
     (case item_row existing it of
        None \<Rightarrow> resolve_loop batch existing (Suc i) its None s cs
      | Some m \<Rightarrow>
          if \<not> sameRequest m it
          then resolve_loop batch existing (Suc i) its None s
                 (cs @ [fe (field_name batch i ''client_ref'') ''conflict''
                   ''was already used for a message with a different recipient, text, or type''])
          else let cs' = cs @ [fe (field_name batch i ''client_ref'') ''conflict''
                     ''was already used by an earlier request that this batch only partly repeats'']
               in (case msgs of
                     None \<Rightarrow> resolve_loop batch existing (Suc i) its None s cs'
                   | Some ms \<Rightarrow> resolve_loop batch existing (Suc i) its (Some (ms @ [m]))
                                  (wrap64 (s + m_cost m)) cs'))"
  by (simp add: item_row_def)

declare resolve_loop.simps(2) [simp del]

lemma resolve_loop_None: "fst (resolve_loop batch existing i its None s cs) = None"
  by (induction its arbitrary: i s cs) (simp_all add: resolve_loop_step Let_def split: option.splits)

lemma resolve_loop_fields:
  "map fe_field (snd (snd (resolve_loop batch existing i its msgs s cs))) =
     map fe_field cs @ map (\<lambda>(j, it). field_name batch j ''client_ref'')
       (filter (\<lambda>(j, it). item_row existing it \<noteq> None) (enumerate i its))"
  by (induction its arbitrary: i msgs s cs)
    (auto simp: resolve_loop_step Let_def fe_def split: option.splits)

definition repeats :: "message list \<Rightarrow> item \<Rightarrow> bool" where
  "repeats existing it = (case item_row existing it of None \<Rightarrow> False | Some m \<Rightarrow> sameRequest m it)"

lemma resolve_loop_Some:
  "fst (resolve_loop batch existing i its (Some ms) s cs) =
     (if list_all (repeats existing) its then Some (ms @ map (\<lambda>it. the (item_row existing it)) its) else None)"
  by (induction its arbitrary: i ms s cs)
    (auto simp: resolve_loop_step Let_def repeats_def resolve_loop_None split: option.splits)

lemma resolve_loop_total:
  "list_all (repeats existing) its \<Longrightarrow> fst (snd (resolve_loop batch existing i its (Some ms) s cs)) =
     fold (\<lambda>m s. wrap64 (s + m_cost m)) (map (\<lambda>it. the (item_row existing it)) its) s"
  by (induction its arbitrary: i ms s cs)
    (auto simp: resolve_loop_step Let_def repeats_def split: option.splits)

text \<open>The message that holds an item's client reference; with consistent references there is at most one.\<close>

definition holds_ref :: "uuid \<Rightarrow> db \<Rightarrow> item \<Rightarrow> message \<Rightarrow> bool" where
  "holds_ref cid d it m \<longleftrightarrow> it_ref it \<noteq> [] \<and> m \<in> set (messages d) \<and> m_customer_id m = cid \<and>
     m_client_ref m = Some (it_ref it)"

definition existing_rows :: "uuid \<Rightarrow> item list \<Rightarrow> db \<Rightarrow> message list" where
  "existing_rows cid items d = filter (\<lambda>m. m_customer_id m = cid \<and>
     (case m_client_ref m of None \<Rightarrow> False | Some r \<Rightarrow> r \<in> set (filter (\<lambda>r. r \<noteq> []) (map it_ref items))))
     (messages d)"

lemma distinct_existing_rows:
  assumes "refs_ok d"
  shows "distinct (map m_client_ref (rev (existing_rows cid items d)))"
proof -
  let ?xs = "existing_rows cid items d"
  have "?xs = filter (\<lambda>m. m_customer_id m = cid \<and> (case m_client_ref m of None \<Rightarrow> False
      | Some r \<Rightarrow> r \<in> set (filter (\<lambda>r. r \<noteq> []) (map it_ref items)))) (filter (\<lambda>m. m_client_ref m \<noteq> None) (messages d))"
    by (auto simp: existing_rows_def intro: filter_cong split: option.splits)
  then have "distinct (map (\<lambda>m. (m_customer_id m, m_client_ref m)) ?xs)"
    using assms by (metis (no_types, lifting) distinct_map_filterI refs_ok_def)
  then have "distinct (map m_client_ref ?xs)"
    by (auto simp: existing_rows_def distinct_map inj_on_def)
  then show ?thesis by (simp add: rev_map [symmetric])
qed

lemma item_row_iff:
  assumes "refs_ok d" "it \<in> set items"
  shows "item_row (existing_rows cid items d) it = Some m \<longleftrightarrow> holds_ref cid d it m"
  unfolding item_row_def using row_of_Some_iff [OF distinct_existing_rows [OF assms(1), of cid items]] assms(2)
  by (auto simp: holds_ref_def existing_rows_def)

lemma item_row_ne_None_iff:
  assumes "refs_ok d" "it \<in> set items"
  shows "item_row (existing_rows cid items d) it \<noteq> None \<longleftrightarrow> (\<exists>m. holds_ref cid d it m)"
  using item_row_iff [OF assms, of cid] by (metis not_None_eq)

lemma existing_rows_Nil_iff:
  "existing_rows cid items d = [] \<longleftrightarrow> \<not> (\<exists>it\<in>set items. \<exists>m. holds_ref cid d it m)"
  by (fastforce simp: existing_rows_def filter_empty_conv holds_ref_def split: option.splits)

lemma repeats_iff:
  assumes "refs_ok d" "it \<in> set items"
  shows "repeats (existing_rows cid items d) it \<longleftrightarrow> (\<exists>m. holds_ref cid d it m \<and> sameRequest m it)"
  unfolding repeats_def using item_row_iff [OF assms, of cid]
  by (cases "item_row (existing_rows cid items d) it") (metis option.distinct(1) option.simps(4), metis option.inject option.simps(5))

lemma resolveExisting_replay:
  assumes refs: "refs_ok d" and ne: "items \<noteq> []"
    and all: "list_all2 (\<lambda>it m. holds_ref cid d it m \<and> sameRequest m it) items ms"
  shows "resolveExisting cid items batch d =
    Inr (Some \<lparr>a_messages = ms, a_total_cost = fold (\<lambda>m s. wrap64 (s + m_cost m)) ms 0, a_replayed = True\<rparr>)"
proof -
  let ?ex = "existing_rows cid items d" and ?f = "\<lambda>it. the (item_row (existing_rows cid items d) it)"
  let ?r = "resolve_loop batch ?ex 0 items (Some []) 0 []"
  have nil: "?ex \<noteq> []"
    using ne all unfolding existing_rows_Nil_iff by (cases items) (auto simp: list_all2_Cons1)
  have ms: "ms = map ?f items"
  proof (rule nth_equalityI)
    show "length ms = length (map ?f items)" using all by (simp add: list_all2_lengthD)
    fix i assume "i < length ms"
    then have "holds_ref cid d (items ! i) (ms ! i)" "items ! i \<in> set items"
      using all by (simp_all add: list_all2_conv_all_nth)
    then have "item_row ?ex (items ! i) = Some (ms ! i)" using item_row_iff [OF refs] by blast
    with \<open>i < length ms\<close> list_all2_lengthD [OF all] show "ms ! i = map ?f items ! i" by simp
  qed
  have rep: "list_all (repeats ?ex) items"
    unfolding list_all_iff
  proof
    fix it assume it: "it \<in> set items"
    then obtain m where "holds_ref cid d it m \<and> sameRequest m it"
      using all by (auto simp: in_set_conv_nth list_all2_conv_all_nth)
    then show "repeats ?ex it" unfolding repeats_iff [OF refs it] by blast
  qed
  have "fst ?r = Some ms" using rep ms by (simp add: resolve_loop_Some)
  moreover have "fst (snd ?r) = fold (\<lambda>m s. wrap64 (s + m_cost m)) ms 0"
    unfolding ms by (rule resolve_loop_total [OF rep])
  ultimately show ?thesis
    using nil by (cases ?r) (simp add: resolveExisting_def Let_def flip: existing_rows_def)
qed


lemma resolveExisting_conflict:
  assumes refs: "refs_ok d" and some: "it \<in> set items" "holds_ref cid d it m"
    and "it' \<in> set items" "\<not> (\<exists>m. holds_ref cid d it' m \<and> sameRequest m it')"
  shows "\<exists>cs. resolveExisting cid items batch d = Inl (ConflictError cs) \<and>
    map fe_field cs = map (\<lambda>(j, it). field_name batch j ''client_ref'')
      (filter (\<lambda>(j, it). \<exists>m. holds_ref cid d it m) (enumerate 0 items))"
proof -
  let ?ex = "existing_rows cid items d"
  let ?r = "resolve_loop batch ?ex 0 items (Some []) 0 []"
  have "?ex \<noteq> []" using some existing_rows_Nil_iff by blast
  moreover have "\<not> repeats ?ex it'" using assms repeats_iff by blast
  then have "fst ?r = None" using assms by (auto simp: resolve_loop_Some list_all_iff)
  moreover have "filter (\<lambda>(j, it). item_row ?ex it \<noteq> None) (enumerate 0 items) =
      filter (\<lambda>(j, it). \<exists>m. holds_ref cid d it m) (enumerate 0 items)"
  proof (intro filter_cong refl)
    fix p assume "p \<in> set (enumerate 0 items)"
    then have "snd p \<in> set items" by (metis imageI list.set_map map_snd_enumerate)
    then show "(case p of (j, it) \<Rightarrow> item_row ?ex it \<noteq> None) = (case p of (j, it) \<Rightarrow> \<exists>m. holds_ref cid d it m)"
      using item_row_ne_None_iff [OF refs] by (simp add: case_prod_beta')
  qed
  ultimately show ?thesis
    using resolve_loop_fields [of batch ?ex 0 items "Some []" 0 "[]"]
    by (cases ?r) (simp add: resolveExisting_def Let_def flip: existing_rows_def)
qed

lemma resolveExisting_None_iff:
  "resolveExisting cid items batch d = Inr None \<longleftrightarrow> \<not> (\<exists>it\<in>set items. \<exists>m. holds_ref cid d it m)"
  unfolding existing_rows_Nil_iff [symmetric] resolveExisting_def Let_def existing_rows_def [symmetric]
  by (auto split: prod.splits option.splits)

subsection \<open>When the insert reports a taken reference\<close>

lemma ref_keys_accept_rows:
  "ref_keys (accept_rows e cfg cid items) = map (\<lambda>r. (cid, Some r)) (filter (\<lambda>r. r \<noteq> []) (map it_ref items))"
proof -
  have "length ids = length items \<Longrightarrow> ref_keys (map2 (new_message e cfg cid) ids items) =
    map (\<lambda>r. (cid, Some r)) (filter (\<lambda>r. r \<noteq> []) (map it_ref items))" for ids
    by (induction ids items rule: list_induct2) (auto simp: new_message_def NullString_def)
  then show ?thesis by (simp add: accept_rows_def)
qed

text \<open>An insert that found a taken reference means that a message of the customer held it before.\<close>

lemma client_ref_taken_snoc:
  "client_ref_taken c r (ms @ [m]) \<longleftrightarrow>
     client_ref_taken c r ms \<or> r \<noteq> None \<and> m_customer_id m = c \<and> m_client_ref m = r"
  by (auto simp: client_ref_taken_def)

lemma ref_keys_Cons_new:
  assumes "distinct (ref_keys (m # ms))" "m' \<in> set ms" "m_client_ref m' \<noteq> None"
  shows "\<not> (m_customer_id m = m_customer_id m' \<and> m_client_ref m = m_client_ref m')"
  using assms by (cases "m_client_ref m") (auto simp: image_iff)

lemma skipped_row:
  assumes "insert_message_rows ms d = Inr (d', ins)" "length ins < length ms" "distinct (ref_keys ms)"
  shows "\<exists>m\<in>set ms. client_ref_taken (m_customer_id m) (m_client_ref m) (messages d)"
proof (rule ccontr)
  assume no: "\<not> (\<exists>m\<in>set ms. client_ref_taken (m_customer_id m) (m_client_ref m) (messages d))"
  have "length ins = length ms" using assms(1,3) no
  proof (induction ms d arbitrary: ins rule: insert_message_rows.induct)
    case (2 m ms d)
    let ?d = "d\<lparr>messages := messages d @ [m]\<rparr>"
    from 2(3,5) obtain ins' where ck: "message_check m" "\<not> has_key m_id (m_id m) (messages d)"
      and nt: "\<not> client_ref_taken (m_customer_id m) (m_client_ref m) (messages d)"
      and rest: "insert_message_rows ms ?d = Inr (d', ins')" and ins: "ins = m # ins'"
      by (auto split: if_splits sum.splits)
    have "\<not> (\<exists>m\<in>set ms. client_ref_taken (m_customer_id m) (m_client_ref m) (messages ?d))"
    proof
      assume "\<exists>m'\<in>set ms. client_ref_taken (m_customer_id m') (m_client_ref m') (messages ?d)"
      then obtain m' where "m' \<in> set ms" "client_ref_taken (m_customer_id m') (m_client_ref m') (messages d @ [m])"
        by auto
      with 2(5) ref_keys_Cons_new [OF 2(4)] show False unfolding client_ref_taken_snoc
        by (meson list.set_intros(2))
    qed
    then have "length ins' = length ms"
      using 2(2) [OF _ nt ck(2) rest] ck(1) 2(4) by (auto split: if_splits)
    then show ?case by (simp add: ins)
  qed simp
  with assms(2) show False by simp
qed

lemma insert_body_taken:
  assumes "insert_body e cfg cid items d = Inl ErrClientRefTaken"
    and refs: "distinct (filter (\<lambda>r. r \<noteq> []) (map it_ref items))"
  shows "\<exists>it\<in>set items. \<exists>m. holds_ref cid d it m"
proof -
  let ?rows = "accept_rows e cfg cid items"
  have no: "RecordDebits e k cid xs d1 \<noteq> Inl ErrClientRefTaken" for k xs d1
    by (simp add: RecordDebits_def split: sum.splits)
  have no': "DebitBalance e cid x d1 \<noteq> Inl ErrClientRefTaken" for x d1
    by (auto simp: DebitBalance_def split: sum.splits option.splits)
  from assms(1) no no' obtain d1 ins where "insert_messages cid ?rows d = Inr (d1, ins)" "length ins < length items"
    by (auto simp: insert_body_def split: sum.splits db_error.splits if_splits)
  then have ins: "insert_message_rows ?rows d = Inr (d1, ins)" "length ins < length ?rows"
    by (auto simp: insert_messages_def split: sum.splits if_splits)
  have "ref_keys ?rows = map (\<lambda>r. (cid, Some r)) (filter (\<lambda>r. r \<noteq> []) (map it_ref items))"
    by (rule ref_keys_accept_rows)
  then have "distinct (ref_keys ?rows)" using refs by (simp add: distinct_map inj_on_def)
  from skipped_row [OF ins this] obtain m where m: "m \<in> set ?rows"
    "client_ref_taken (m_customer_id m) (m_client_ref m) (messages d)" by blast
  from set_accept_rows [OF m(1)] obtain mid it where it: "it \<in> set items" "m = new_message e cfg cid mid it" by blast
  with m(2) have "\<exists>m'. holds_ref cid d it m'"
    by (auto simp: new_message_def client_ref_taken_def list_ex_iff holds_ref_def NullString_def split: if_splits)
  with it show ?thesis by blast
qed


subsection \<open>Whole calls\<close>

text \<open>A world in which nobody else writes and every statement reaches the database.\<close>

definition quiet :: "accept_world \<Rightarrow> bool" where
  "quiet w \<longleftrightarrow> (\<forall>k d. aw_others w k d = d) \<and> (\<forall>k. aw_fault w k = NoFault \<and> \<not> aw_query_fails w k)"

text \<open>A world in which the clock shows \<open>now\<close> and others keep the database consistent.\<close>

definition consistent_world :: "gtime \<Rightarrow> accept_world \<Rightarrow> bool" where
  "consistent_world now w \<longleftrightarrow> (\<forall>k. env_now (aw_env w k) = now) \<and>
     (\<forall>k d. db_inv now d \<longrightarrow> db_inv now (aw_others w k d))"

lemma prepare_items_ok:
  assumes "accept_config_ok cfg" "prepare cfg reqs batch = Inr items" "batch \<or> length reqs = 1"
  shows "items_ok cfg items" "items \<noteq> []" "length items = length reqs"
proof -
  note p = prepare_InrD [OF assms(2)]
  show len: "length items = length reqs" using list_all2_lengthD [OF p(1)] by simp
  show "items_ok cfg items" using assms(1,3) p(2,4) len by (auto simp: items_ok_def MaxBatchSize_def)
  show "items \<noteq> []" using assms(3) p(4) len by auto
qed

lemma insert_accept_taken:
  assumes "insert_accept fault e cfg cid items d = (d', Inl ErrClientRefTaken)"
  shows "insert_body e cfg cid items d = Inl ErrClientRefTaken"
  using assms by (auto simp: insert_accept_def WithTx_def tx_error_def split: prod.splits sum.splits if_splits)

text \<open>The results of the loop: a new insert, a replay, or an error.\<close>

lemma accept_loop_Inr:
  assumes "accept_loop n k w cfg cid items batch d = (d', Inr (a, notify))"
    and "consistent_world now w" "db_inv now d"
  shows "\<exists>d0 j. db_inv now d0 \<and>
     (insert_accept (aw_fault w j) (aw_env w j) cfg cid items d0 = (d', Inr (a, notify)) \<or>
      d' = d0 \<and> \<not> notify \<and> resolveExisting cid items batch d0 = Inr (Some a))"
  using assms
proof (induction n arbitrary: k d)
  case (Suc n)
  let ?d0 = "aw_others w (2 * k) d"
  have inv0: "db_inv now ?d0" using Suc.prems by (simp add: consistent_world_def)
  obtain d1 r where ins: "insert_accept (aw_fault w k) (aw_env w k) cfg cid items ?d0 = (d1, r)" by fastforce
  show ?case
  proof (cases "r = Inl ErrClientRefTaken")
    case False
    then have "(d1, r) = (d', Inr (a, notify))"
      using Suc.prems(1) ins by (auto split: sum.splits error.splits)
    then show ?thesis using ins inv0 by blast
  next
    case True
    let ?d2 = "aw_others w (2 * k + 1) d1"
    have inv2: "db_inv now ?d2"
      using insert_accept_InlD ins True inv0 Suc.prems(2) by (fastforce simp: consistent_world_def)
    show ?thesis
    proof (cases "resolveExisting cid items batch ?d2 = Inr None")
      case True
      with Suc.prems(1) ins \<open>r = _\<close> have "accept_loop n (Suc k) w cfg cid items batch ?d2 = (d', Inr (a, notify))"
        by (simp add: Let_def split: if_splits)
      from Suc.IH [OF this Suc.prems(2) inv2] show ?thesis .
    next
      case False
      with Suc.prems(1) ins \<open>r = _\<close> have "d' = ?d2 \<and> \<not> notify \<and> resolveExisting cid items batch ?d2 = Inr (Some a)"
        by (auto simp: Let_def split: if_splits sum.splits option.splits)
      with inv2 show ?thesis by blast
    qed
  qed
qed simp


lemma accept_loop_unchanged:
  assumes "accept_loop n k w cfg cid items batch d = (d', r)" "\<forall>k d. aw_others w k d = d"
    and "\<forall>a notify. r = Inr (a, notify) \<longrightarrow> a_replayed a"
  shows "d' = d"
  using assms
proof (induction n arbitrary: k)
  case (Suc n)
  obtain d1 r1 where ins: "insert_accept (aw_fault w k) (aw_env w k) cfg cid items d = (d1, r1)" by fastforce
  show ?case
  proof (cases r1)
    case (Inl err)
    then have d1: "d1 = d" using ins insert_accept_InlD by blast
    show ?thesis
    proof (cases "err = ErrClientRefTaken \<and> \<not> aw_query_fails w k \<and> resolveExisting cid items batch d = Inr None")
      case True
      then have "accept_loop n (Suc k) w cfg cid items batch d = (d', r)"
        using Suc.prems(1,2) ins Inl d1 by (simp add: Let_def)
      from Suc.IH [OF this Suc.prems(2,3)] show ?thesis .
    next
      case False
      then show ?thesis using Suc.prems(1,2) ins Inl d1
        by (auto simp: Let_def split: error.splits if_splits sum.splits option.splits)
    qed
  next
    case (Inr p)
    obtain a notify where p: "p = (a, notify)" by (cases p)
    then have "\<not> a_replayed a"
      using ins Inr by (auto simp: insert_accept_def split: prod.splits sum.splits)
    then show ?thesis using Suc.prems ins Inr p by auto
  qed
qed simp

lemma insert_message_rows_total:
  assumes "\<forall>m\<in>set ms. message_check m" "distinct (map m_id (messages d @ ms))"
  shows "\<exists>d' ins. insert_message_rows ms d = Inr (d', ins) \<and>
    ((\<exists>m\<in>set ms. client_ref_taken (m_customer_id m) (m_client_ref m) (messages d)) \<longrightarrow> length ins < length ms)"
  using assms
proof (induction ms arbitrary: d)
  case (Cons m ms)
  let ?d = "d\<lparr>messages := messages d @ [m]\<rparr>"
  show ?case
  proof (cases "client_ref_taken (m_customer_id m) (m_client_ref m) (messages d)")
    case True
    from Cons.IH [of d] Cons.prems obtain d' ins where rest: "insert_message_rows ms d = Inr (d', ins)" by auto
    with True Cons.prems insert_message_rows_length [OF rest] show ?thesis by auto
  next
    case False
    from Cons.IH [of ?d] Cons.prems obtain d' ins where rest: "insert_message_rows ms ?d = Inr (d', ins)"
      and less: "(\<exists>m\<in>set ms. client_ref_taken (m_customer_id m) (m_client_ref m) (messages ?d)) \<longrightarrow> length ins < length ms"
      by auto
    have "insert_message_rows (m # ms) d = Inr (d', m # ins)"
      using False Cons.prems rest by (simp add: has_key_iff)
    then show ?thesis using less False by (auto simp: client_ref_taken_snoc)
  qed
qed simp

lemma insert_accept_reused:
  assumes inv: "db_inv now d" and ok: "items_ok cfg items"
    and ids: "distinct (map m_id (messages d) @ accept_ids e (length items))"
    and it: "it \<in> set items" "holds_ref cid d it m"
  shows "insert_accept NoFault e cfg cid items d = (d, Inl ErrClientRefTaken)"
proof -
  let ?rows = "accept_rows e cfg cid items"
  have "distinct (map m_id (messages d @ ?rows))" using ids by simp
  from insert_message_rows_total [OF accept_rows_check [OF ok] this] obtain d' ins where
    rows: "insert_message_rows ?rows d = Inr (d', ins)"
    and less: "(\<exists>m\<in>set ?rows. client_ref_taken (m_customer_id m) (m_client_ref m) (messages d)) \<longrightarrow> length ins < length ?rows"
    by blast
  have "(cid, Some (it_ref it)) \<in> set (ref_keys ?rows)"
    unfolding ref_keys_accept_rows using it by (auto simp: holds_ref_def)
  then obtain m' where "m' \<in> set ?rows" "m_customer_id m' = cid" "m_client_ref m' = Some (it_ref it)" by auto
  moreover have "client_ref_taken cid (Some (it_ref it)) (messages d)"
    using it(2) by (auto simp: holds_ref_def client_ref_taken_def list_ex_iff)
  ultimately have "length ins < length items" using less by (metis length_accept_rows)
  moreover have "has_key c_id cid (customers d)"
    using inv it(2) by (auto simp: db_inv_def foreign_ok_def holds_ref_def has_key_iff)
  ultimately have "insert_body e cfg cid items d = Inl ErrClientRefTaken"
    using rows by (simp add: insert_body_def insert_messages_def)
  then show ?thesis by (simp add: insert_accept_def WithTx_def)
qed

lemma insert_message_rows_skip:
  "\<forall>m\<in>set ms. message_check m \<and> client_ref_taken (m_customer_id m) (m_client_ref m) (messages d) \<Longrightarrow>
   insert_message_rows ms d = Inr (d, [])"
  by (induction ms) auto

lemma insert_accept_repeated:
  assumes ok: "items_ok cfg items" "items \<noteq> []" and all: "\<forall>it\<in>set items. \<exists>m. holds_ref cid d it m"
  shows "insert_accept NoFault e cfg cid items d = (d, Inl ErrClientRefTaken)"
proof -
  have "client_ref_taken (m_customer_id m) (m_client_ref m) (messages d)"
    if "m \<in> set (accept_rows e cfg cid items)" for m
  proof -
    from set_accept_rows [OF that] obtain mid it where "it \<in> set items" "m = new_message e cfg cid mid it" by blast
    with all show ?thesis
      by (auto simp: holds_ref_def new_message_def NullString_def client_ref_taken_def list_ex_iff)
  qed
  then have "insert_message_rows (accept_rows e cfg cid items) d = Inr (d, [])"
    using accept_rows_check [OF ok(1)] by (intro insert_message_rows_skip) blast
  then show ?thesis
    using ok(2) by (simp add: insert_accept_def insert_body_def insert_messages_def WithTx_def)
qed

lemma resolveExisting_SomeD:
  assumes refs: "refs_ok d" and r: "resolveExisting cid items batch d = Inr (Some a)"
  shows "a_replayed a" "\<forall>it\<in>set items. \<exists>m. holds_ref cid d it m"
proof -
  let ?ex = "existing_rows cid items d"
  from r have "fst (resolve_loop batch ?ex 0 items (Some []) 0 []) \<noteq> None" and "a_replayed a"
    by (auto simp: resolveExisting_def Let_def existing_rows_def split: if_splits prod.splits option.splits)
  then show "a_replayed a" "\<forall>it\<in>set items. \<exists>m. holds_ref cid d it m"
    using repeats_iff [OF refs] by (auto simp: resolve_loop_Some list_all_iff split: if_splits)
qed

lemma accept_rows_hold_refs:
  assumes "\<forall>it\<in>set items. it_ref it \<noteq> []"
  shows "list_all2 (\<lambda>it m. holds_ref cid (accept_effect e cfg cid items d) it m \<and> sameRequest m it)
    items (accept_rows e cfg cid items)"
proof (rule list_all2I)
  show "\<forall>p\<in>set (zip items (accept_rows e cfg cid items)). case p of (it, m) \<Rightarrow>
      holds_ref cid (accept_effect e cfg cid items d) it m \<and> sameRequest m it"
  proof
    fix p assume "p \<in> set (zip items (accept_rows e cfg cid items))"
    then obtain i where i: "i < length items" "p = (items ! i, accept_rows e cfg cid items ! i)"
      by (auto simp: set_zip)
    have "accept_rows e cfg cid items ! i \<in> set (accept_rows e cfg cid items)" using i(1) by simp
    then have "accept_rows e cfg cid items ! i \<in> set (messages (accept_effect e cfg cid items d))"
      by (simp add: accept_effect_def)
    moreover have "accept_rows e cfg cid items ! i = new_message e cfg cid (accept_ids e (length items) ! i) (items ! i)"
      using i(1) by (simp add: accept_rows_def)
    ultimately show "case p of (it, m) \<Rightarrow> holds_ref cid (accept_effect e cfg cid items d) it m \<and> sameRequest m it"
      using i assms by (simp add: holds_ref_def sameRequest_def new_message_def NullString_def)
  qed
qed simp

lemma fold_costs_accept_rows:
  assumes "items_ok cfg items"
  shows "fold (\<lambda>m s. wrap64 (s + m_cost m)) (accept_rows e cfg cid items) 0 = (\<Sum>it\<leftarrow>items. it_cost it)"
proof -
  have costs: "map m_cost (accept_rows e cfg cid items) = map it_cost items"
    by (rule nth_equalityI) (simp_all add: accept_rows_def new_message_def)
  have "\<forall>m\<in>set (accept_rows e cfg cid items). 0 \<le> m_cost m"
    using accept_rows_check [OF assms, of e cid] by (auto simp: message_check_def)
  then show ?thesis
    using fold_wrap_sum [of "accept_rows e cfg cid items" m_cost 0] total_cost_exact(3) [OF assms]
    by (simp add: costs max_int64_def)
qed

lemma accept_quiet_reused:
  assumes w: "quiet w" and ins: "insert_accept NoFault (aw_env w 0) cfg cid items d = (d, Inl ErrClientRefTaken)"
    and p: "prepare cfg reqs batch = Inr items"
  shows "resolveExisting cid items batch d = Inr (Some a) \<Longrightarrow> accept w cfg cid reqs batch d = (d, Inr (a, False))"
    "resolveExisting cid items batch d = Inl err \<Longrightarrow> accept w cfg cid reqs batch d = (d, Inl err)"
  using w ins by (simp_all add: accept_def p eval_nat_numeral quiet_def)

lemma accept_quiet_fresh:
  assumes cfg: "accept_config_ok cfg" "batch \<or> length reqs = 1"
    and w: "quiet w" and inv: "db_inv now d" and p: "prepare cfg reqs batch = Inr items"
    and fresh: "accept_fresh (aw_env w 0) cfg cid items d" and c: "row_of c_id cid (customers d) = Some c"
  shows "accept w cfg cid reqs batch d =
    (if (\<Sum>it\<leftarrow>items. it_cost it) \<le> c_balance c
     then (accept_effect (aw_env w 0) cfg cid items d,
       Inr (\<lparr>a_messages = accept_rows (aw_env w 0) cfg cid items,
             a_total_cost = (\<Sum>it\<leftarrow>items. it_cost it), a_replayed = False\<rparr>,
            list_ex (\<lambda>it. it_type it = Express) items))
     else (d, Inl ErrInsufficientCredits))"
proof -
  note ok = prepare_items_ok [OF cfg(1) p cfg(2)]
  have dist: "distinct (accept_ids (aw_env w 0) (length items))" using fresh by (simp add: accept_fresh_def)
  show ?thesis
    using insert_body_eq [OF inv ok(1) fresh c] w
    by (simp add: accept_def p eval_nat_numeral quiet_def insert_accept_def WithTx_def
        row_of_accept_rows [OF dist] total_cost_exact(1) [OF ok(1)])
qed


subsection \<open>A concrete submission\<close>

definition demo_config :: accept_config where
  "demo_config = \<lparr>cfg_prices = \<lparr>p_normal = 10, p_express = 20\<rparr>, cfg_max_segments = 3, cfg_normal_lanes = 4,
     cfg_normal_ttl = 24 * hour, cfg_express_ttl = 10 * second\<rparr>"

definition demo_request :: "string \<Rightarrow> string \<Rightarrow> request" where
  "demo_request body ref = \<lparr>req_to = ''+989121234567'', req_text = body, req_type = [], req_client_ref = Some ref\<rparr>"

definition demo_item :: "string \<Rightarrow> string \<Rightarrow> item" where
  "demo_item body ref = \<lparr>it_to = ''+989121234567'', it_text = body, it_type = Normal, it_ref = ref,
     it_seg = \<lparr>seg_encoding = GSM7, Units = length body, Segments = 1\<rparr>, it_cost = 10\<rparr>"

definition demo_world :: accept_world where
  "demo_world = \<lparr>aw_env = (\<lambda>k. demo_env), aw_fault = (\<lambda>k. NoFault), aw_query_fails = (\<lambda>k. False),
     aw_others = (\<lambda>k d. d)\<rparr>"

lemma demo_world_ok: "quiet demo_world" "consistent_world 1000 demo_world"
  by (simp_all add: quiet_def consistent_world_def demo_world_def demo_env_def)

lemma demo_config_ok: "accept_config_ok demo_config"
  by (simp add: accept_config_ok_def demo_config_def hour_def minute_def second_def millisecond_def)

lemma demo_texts:
  "Count ''Hi'' = \<lparr>seg_encoding = GSM7, Units = 2, Segments = 1\<rparr>" "valid_utf8 ''Hi''" "\<not> contains_nul ''Hi''"
  "Count ''Yo'' = \<lparr>seg_encoding = GSM7, Units = 2, Segments = 1\<rparr>" "valid_utf8 ''Yo''" "\<not> contains_nul ''Yo''"
proof -
  have r: "runes ''Hi'' = [72, 105]" "runes ''Yo'' = [89, 111]" by (simp_all add: runes_ascii)
  show "Count ''Hi'' = \<lparr>seg_encoding = GSM7, Units = 2, Segments = 1\<rparr>"
    "Count ''Yo'' = \<lparr>seg_encoding = GSM7, Units = 2, Segments = 1\<rparr>"
    by (simp_all add: Count_def Count_runes_def r gsm7Basic_def gsm7Extension_def rune_width_def Let_def
        GSM7Single_def)
  show "valid_utf8 ''Hi''" "valid_utf8 ''Yo''"
    by (simp_all add: valid_utf8_def string_bytes_def decode_all.simps decode_rune_def Let_def)
  show "\<not> contains_nul ''Hi''" "\<not> contains_nul ''Yo''" by (simp_all add: contains_nul_def string_bytes_def)
qed

lemma demo_prepare:
  "prepare demo_config [demo_request ''Hi'' ''a1''] batch = Inr [demo_item ''Hi'' ''a1'']"
  "prepare demo_config [demo_request ''Yo'' ''b1''] batch = Inr [demo_item ''Yo'' ''b1'']"
  "prepare demo_config [demo_request ''Yo'' ''a1''] batch = Inr [demo_item ''Yo'' ''a1'']"
  by (simp_all add: prepare_def demo_request_def demo_item_def demo_config_def check_to_def check_type_def
      check_text_def check_ref_def in_field_def ValidRecipient_def ValidClientRef_def is_ref_char_def is_alnum_def
      is_digit_def ParseType_def demo_texts Cost_def PerSegment_def MaxBatchSize_def in_int64_def max_int64_def)

subsection \<open>Properties\<close>


text \<open>When nobody else writes meanwhile, a call that fails, and a call that answers with a replay,
  leave the database exactly as it was, whatever fails and whenever.\<close>

theorem accept_failure_unchanged:
  assumes "\<forall>k d. aw_others w k d = d" and "accept w cfg cid reqs batch d = (d', r)"
    and "\<forall>a notify. r = Inr (a, notify) \<longrightarrow> a_replayed a"
  shows "d' = d"
  using assms accept_loop_unchanged [of 3 0 w cfg cid _ batch d d' r]
  by (auto simp: accept_def split: sum.splits)

text \<open>C13: Acceptance is decided by the balance alone once the request is valid, its references are
  new and the drawn identifiers are unused: it succeeds if the balance covers the cost of all
  items, and otherwise nothing is written and the caller gets the insufficient-credits error.\<close>

theorem accept_decides:
  assumes cfg: "accept_config_ok cfg" "batch \<or> length reqs = 1"
    and w: "quiet w" and inv: "db_inv now d" and p: "prepare cfg reqs batch = Inr items"
    and fresh: "accept_fresh (aw_env w 0) cfg cid items d" and c: "row_of c_id cid (customers d) = Some c"
  shows "accept w cfg cid reqs batch d =
    (if (\<Sum>it\<leftarrow>items. it_cost it) \<le> c_balance c
     then (accept_effect (aw_env w 0) cfg cid items d,
       Inr (\<lparr>a_messages = accept_rows (aw_env w 0) cfg cid items,
             a_total_cost = (\<Sum>it\<leftarrow>items. it_cost it), a_replayed = False\<rparr>,
            list_ex (\<lambda>it. it_type it = Express) items))
     else (d, Inl ErrInsufficientCredits))"
  by (rule accept_quiet_fresh [OF assms])

text \<open>C5: Repeating a submission whose items all carry a client reference is idempotent: right after
  a call succeeded, the same call answers with the same messages and the same total, marked as
  a replay, writes nothing and notifies nobody.\<close>

theorem accept_idempotent:
  assumes cfg: "accept_config_ok cfg" "batch \<or> length reqs = 1" and refs: "\<forall>r\<in>set reqs. req_client_ref r \<noteq> None"
    and w: "consistent_world now w" and inv: "db_inv now d"
    and acc: "accept w cfg cid reqs batch d = (d', Inr (a, notify))" and w': "quiet w'"
  shows "accept w' cfg cid reqs batch d' = (d', Inr (a\<lparr>a_replayed := True\<rparr>, False))"
proof -
  from acc obtain items where p: "prepare cfg reqs batch = Inr items"
    and loop: "accept_loop 3 0 w cfg cid items batch d = (d', Inr (a, notify))"
    by (auto simp: accept_def split: sum.splits)
  note ok = prepare_items_ok [OF cfg(1) p cfg(2)]
  have irefs: "\<forall>it\<in>set items. it_ref it \<noteq> []"
  proof
    fix it assume "it \<in> set items"
    then obtain i where i: "i < length items" "it = items ! i" by (auto simp: in_set_conv_nth)
    then have "item_of (reqs ! i) it" "reqs ! i \<in> set reqs"
      using list_all2_nthD2 [OF prepare_InrD(1) [OF p]] ok(3) by simp_all
    then show "it_ref it \<noteq> []" using refs by (auto simp: item_of_def)
  qed
  from accept_loop_Inr [OF loop w inv] obtain d0 j where inv0: "db_inv now d0"
    and r: "insert_accept (aw_fault w j) (aw_env w j) cfg cid items d0 = (d', Inr (a, notify)) \<or>
      d' = d0 \<and> \<not> notify \<and> resolveExisting cid items batch d0 = Inr (Some a)" by blast
  from r have "db_inv now d' \<and> (\<forall>it\<in>set items. \<exists>m. holds_ref cid d' it m) \<and>
      resolveExisting cid items batch d' = Inr (Some (a\<lparr>a_replayed := True\<rparr>))"
  proof
    assume ins: "insert_accept (aw_fault w j) (aw_env w j) cfg cid items d0 = (d', Inr (a, notify))"
    have now: "env_now (aw_env w j) = now" using w by (simp add: consistent_world_def)
    note i = insert_accept_InrD [OF inv0 [folded now] ok(1) ins]
    have all: "list_all2 (\<lambda>it m. holds_ref cid d' it m \<and> sameRequest m it) items (a_messages a)"
      unfolding i(1) i(3) using accept_rows_hold_refs [OF irefs] by simp
    moreover have "refs_ok d'" using i(2) by (simp add: db_inv_def)
    ultimately have "resolveExisting cid items batch d' = Inr (Some (a\<lparr>a_replayed := True\<rparr>))"
      using resolveExisting_replay [OF _ ok(2)] by (simp add: i(3) fold_costs_accept_rows [OF ok(1)])
    moreover have "\<forall>it\<in>set items. \<exists>m. holds_ref cid d' it m"
      using all by (fastforce simp: list_all2_conv_all_nth in_set_conv_nth)
    ultimately show ?thesis using i(2) now by simp
  next
    assume res: "d' = d0 \<and> \<not> notify \<and> resolveExisting cid items batch d0 = Inr (Some a)"
    have "refs_ok d0" using inv0 by (simp add: db_inv_def)
    from resolveExisting_SomeD [OF this] res have "a_replayed a" "\<forall>it\<in>set items. \<exists>m. holds_ref cid d0 it m" by blast+
    moreover from this(1) have "a\<lparr>a_replayed := True\<rparr> = a" by (cases a) simp
    ultimately show ?thesis using res inv0 by simp
  qed
  then show ?thesis
    using accept_quiet_reused(1) [OF w' _ p] insert_accept_repeated [OF ok(1,2)] by blast
qed

text \<open>C15: Any other reuse of a client reference is refused without a trace: if some item's reference
  belongs to an earlier message and some item is not a repetition of one, the answer is a
  conflict that names the reference field of exactly the items whose references are taken.\<close>

theorem accept_conflict:
  assumes cfg: "accept_config_ok cfg" "batch \<or> length reqs = 1"
    and w: "quiet w" and inv: "db_inv now d" and p: "prepare cfg reqs batch = Inr items"
    and ids: "distinct (map m_id (messages d) @ accept_ids (aw_env w 0) (length items))"
    and it: "it \<in> set items" "holds_ref cid d it m"
    and it': "it' \<in> set items" "\<not> (\<exists>m. holds_ref cid d it' m \<and> sameRequest m it')"
  shows "\<exists>cs. accept w cfg cid reqs batch d = (d, Inl (ConflictError cs)) \<and>
    map fe_field cs = map (\<lambda>(j, it). field_name batch j ''client_ref'')
      (filter (\<lambda>(j, it). \<exists>m. holds_ref cid d it m) (enumerate 0 items))"
proof -
  note ok = prepare_items_ok [OF cfg(1) p cfg(2)]
  have "refs_ok d" using inv by (simp add: db_inv_def)
  from resolveExisting_conflict [OF this it it'] accept_quiet_reused(2) [OF w insert_accept_reused [OF inv ok(1) ids it] p]
  show ?thesis by blast
qed


subsection \<open>Instances\<close>

lemma demo_accept_fresh: "accept_fresh demo_env demo_config 1 [demo_item ''Yo'' ''b1''] demo_db"
  by (simp add: accept_fresh_def accept_ids_def accept_rows_def demo_defs new_message_def demo_item_def NullString_def)

lemma demo_customer_row: "row_of c_id 1 (customers demo_db) = Some demo_customer"
  by (simp add: row_of_def demo_db_def demo_customer_def)

lemma demo_accept:
  "accept demo_world demo_config 1 [demo_request ''Yo'' ''b1''] False demo_db =
     (accept_effect demo_env demo_config 1 [demo_item ''Yo'' ''b1''] demo_db,
      Inr (\<lparr>a_messages = accept_rows demo_env demo_config 1 [demo_item ''Yo'' ''b1''],
            a_total_cost = 10, a_replayed = False\<rparr>, False))"
  using accept_quiet_fresh [where batch = False and cid = 1 and c = demo_customer, OF demo_config_ok _
      demo_world_ok(1) demo_db_inv demo_prepare(2)] demo_accept_fresh demo_customer_row
  by (simp add: demo_world_def demo_item_def demo_customer_def)


theorem accept_failure_unchanged_witness:
  "fst (accept (demo_world\<lparr>aw_fault := (\<lambda>k. CommitFails)\<rparr>) demo_config 1 [demo_request ''Yo'' ''b1''] False demo_db) = demo_db"
proof -
  let ?w = "demo_world\<lparr>aw_fault := (\<lambda>k. CommitFails)\<rparr>"
  have fresh: "insert_body demo_env demo_config 1 [demo_item ''Yo'' ''b1''] demo_db =
     Inr (accept_effect demo_env demo_config 1 [demo_item ''Yo'' ''b1''] demo_db,
       accept_rows demo_env demo_config 1 [demo_item ''Yo'' ''b1''], False)"
    using insert_body_eq [OF demo_db_inv prepare_items_ok(1) [OF demo_config_ok demo_prepare(2) [of False]]
        demo_accept_fresh demo_customer_row]
    by (simp add: demo_item_def demo_customer_def)
  have "accept ?w demo_config 1 [demo_request ''Yo'' ''b1''] False demo_db =
      (demo_db, Inl (tx_error ''commit transaction''))"
    by (simp add: accept_def demo_prepare eval_nat_numeral insert_accept_def WithTx_def demo_world_def fresh tx_error_def)
  from accept_failure_unchanged [OF _ this] this show ?thesis by (simp add: demo_world_def)
qed

theorem accept_decides_witness:
  "snd (accept demo_world demo_config 1 [demo_request ''Yo'' ''b1''] False demo_db) =
     Inr (\<lparr>a_messages = accept_rows demo_env demo_config 1 [demo_item ''Yo'' ''b1''],
            a_total_cost = 10, a_replayed = False\<rparr>, False)"
  using accept_decides [where batch = False and cid = 1 and c = demo_customer, OF demo_config_ok _
      demo_world_ok(1) demo_db_inv demo_prepare(2)] demo_accept_fresh demo_customer_row
  by (simp add: demo_world_def demo_item_def demo_customer_def)

theorem accept_idempotent_witness:
  "let d' = accept_effect demo_env demo_config 1 [demo_item ''Yo'' ''b1''] demo_db in
   accept demo_world demo_config 1 [demo_request ''Yo'' ''b1''] False d' =
     (d', Inr (\<lparr>a_messages = accept_rows demo_env demo_config 1 [demo_item ''Yo'' ''b1''],
            a_total_cost = 10, a_replayed = True\<rparr>, False))"
  using accept_idempotent [OF demo_config_ok _ _ demo_world_ok(2) demo_db_inv demo_accept demo_world_ok(1)]
  by (simp add: demo_request_def)

theorem accept_conflict_witness:
  "\<exists>cs. accept demo_world demo_config 1 [demo_request ''Yo'' ''a1''] False demo_db = (demo_db, Inl (ConflictError cs)) \<and>
     map fe_field cs = [''client_ref'']"
proof -
  let ?it = "demo_item ''Yo'' ''a1''"
  have holds: "holds_ref 1 demo_db ?it m \<longleftrightarrow> m = demo_message" for m
    by (auto simp: holds_ref_def demo_defs demo_item_def)
  then have "Ex (holds_ref 1 demo_db ?it)" by blast
  have other: "\<not> sameRequest demo_message ?it" by (simp add: sameRequest_def demo_message_def demo_item_def)
  have ids: "distinct (map m_id (messages demo_db) @ accept_ids (aw_env demo_world 0) (length [?it]))"
    by (simp add: accept_ids_def demo_world_def demo_defs)
  from accept_conflict [OF demo_config_ok _ demo_world_ok(1) demo_db_inv demo_prepare(3) [of False] ids,
      of ?it 1 demo_message ?it] holds other
    \<open>Ex (holds_ref 1 demo_db ?it)\<close> show ?thesis by (simp add: field_name_def)
qed

end
