(* ===== verification/Customer.thy ===== *)
theory Customer
  imports Billing
begin

text \<open>
  Customers: \<^verbatim>\<open>internal/customer/customer.go\<close>, with the API keys of \<^verbatim>\<open>internal/auth/key.go\<close>. SHA-256 is a
  parameter \<open>sha\<close>, and so are the 32 bytes \<^verbatim>\<open>crypto/rand\<close> yields for a new key.
\<close>

subsection \<open>API keys\<close>

definition keyPrefix :: string where "keyPrefix = ''sk_''"
definition keyBodyLength :: nat where "keyBodyLength = 43"
definition DisplayPrefixLength :: nat where "DisplayPrefixLength = 12"

text \<open>\<^verbatim>\<open>big.Int.Text(62)\<close>: digits, then lower-case, then upper-case letters.\<close>

definition base62_digit :: "nat \<Rightarrow> char" where
  "base62_digit n = ''0123456789abcdefghijklmnopqrstuvwxyzABCDEFGHIJKLMNOPQRSTUVWXYZ'' ! n"

fun base62_text :: "nat \<Rightarrow> string" where
  "base62_text n = (if n < 62 then [base62_digit n] else base62_text (n div 62) @ [base62_digit (n mod 62)])"

declare base62_text.simps [simp del]

definition GenerateKey :: "byte list \<Rightarrow> string" where
  "GenerateKey b =
     (let body = base62_text (be_nat b)
      in keyPrefix @ replicate (keyBodyLength - length body) (CHR ''0'') @ body)"

text \<open>\<^verbatim>\<open>^sk_[0-9A-Za-z]{43}$\<close>\<close>

definition is_key_char :: "char \<Rightarrow> bool" where
  "is_key_char c \<longleftrightarrow> is_digit c \<or> (65 \<le> (of_char c :: nat) \<and> (of_char c :: nat) \<le> 90) \<or>
     (97 \<le> (of_char c :: nat) \<and> (of_char c :: nat) \<le> 122)"

definition ValidKeyFormat :: "string \<Rightarrow> bool" where
  "ValidKeyFormat key \<longleftrightarrow> take 3 key = ''sk_'' \<and> length (drop 3 key) = 43 \<and> list_all is_key_char (drop 3 key)"

definition DisplayPrefix :: "string \<Rightarrow> string" where
  "DisplayPrefix key = (if length key < DisplayPrefixLength then key else take DisplayPrefixLength key)"

subsection \<open>Operations\<close>

record new_customer =
  n_name :: string
  n_initial_credits :: int
  n_rate_limit_rps :: int

definition AdminChargeRef :: "env \<Rightarrow> nat \<Rightarrow> string" where
  "AdminChargeRef e k = ''admin-'' @ env_uuid_string e (env_new_id e k)"

definition customer_row :: "(string \<Rightarrow> string) \<Rightarrow> env \<Rightarrow> string \<Rightarrow> new_customer \<Rightarrow> customer" where
  "customer_row sha e key n =
     \<lparr>c_id = env_new_id e 0, c_name = n_name n, c_api_key_hash = sha key, c_api_key_prefix = DisplayPrefix key,
      c_balance = 0, c_rate_limit_rps = n_rate_limit_rps n, c_created_at = env_now e, c_updated_at = env_now e\<rparr>"

definition insert_customer :: "customer \<Rightarrow> db \<Rightarrow> db_error + db" where
  "insert_customer c d =
     (if \<not> customer_check c then Inl (CheckViolation ''customers'')
      else if has_key c_id (c_id c) (customers d) then Inl (UniqueViolation ''customers_pkey'')
      else if has_key c_api_key_hash (c_api_key_hash c) (customers d) then Inl (UniqueViolation ''customers_api_key_hash_key'')
      else Inr (d\<lparr>customers := customers d @ [c]\<rparr>))"

text \<open>\<^verbatim>\<open>Create\<close>: the identifiers drawn are the customer's, the one in the charge reference and the charge's own.
  The result carries the balance the charge returned.\<close>

definition create_body ::
    "(string \<Rightarrow> string) \<Rightarrow> env \<Rightarrow> string \<Rightarrow> new_customer \<Rightarrow> db \<Rightarrow> error + db \<times> customer" where
  "create_body sha e key n d =
     (let c = customer_row sha e key n
      in case insert_customer c d of
          Inl err \<Rightarrow> Inl (DbErr ''insert customer'' err)
        | Inr d1 \<Rightarrow>
            if 0 < n_initial_credits n
            then (case Charge e 2 (c_id c) (n_initial_credits n) (AdminChargeRef e 1) d1 of
                Inl err \<Rightarrow> Inl err
              | Inr (d2, r) \<Rightarrow> Inr (d2, c\<lparr>c_balance := cr_balance r\<rparr>))
            else Inr (d1, c))"

definition Create ::
    "tx_fault \<Rightarrow> (string \<Rightarrow> string) \<Rightarrow> env \<Rightarrow> byte list \<Rightarrow> new_customer \<Rightarrow> db \<Rightarrow> db \<times> (error + customer \<times> string)" where
  "Create fault sha e random n d =
     (let key = GenerateKey random
      in case WithTx tx_error fault (create_body sha e key n) d of
          (d', Inl err) \<Rightarrow> (d', Inl err)
        | (d', Inr c) \<Rightarrow> (d', Inr (c, key)))"

definition Get :: "uuid \<Rightarrow> db \<Rightarrow> error + customer" where
  "Get cid d = (case row_of c_id cid (customers d) of None \<Rightarrow> Inl ErrNotFound | Some c \<Rightarrow> Inr c)"

definition FindByName :: "string \<Rightarrow> db \<Rightarrow> error + customer" where
  "FindByName name d =
     (case sort_key c_id (filter (\<lambda>c. c_name c = name) (customers d)) of
        [] \<Rightarrow> Inl ErrNotFound
      | c # cs \<Rightarrow> Inr c)"

definition ListCustomers :: "uuid \<Rightarrow> nat \<Rightarrow> db \<Rightarrow> customer list \<times> bool" where
  "ListCustomers after limit d =
     page limit (order_desc c_id (filter (\<lambda>c. null_or (NullID after) (\<lambda>u. c_id c < u)) (customers d)))"

text \<open>\<^verbatim>\<open>Update\<close> and \<^verbatim>\<open>RotateKey\<close>: an update that breaks a constraint changes nothing and returns the violation.\<close>

definition update_customer :: "uuid \<Rightarrow> (customer \<Rightarrow> customer) \<Rightarrow> db \<Rightarrow> db \<times> (error + customer)" where
  "update_customer cid f d =
     (case row_of c_id cid (customers d) of
        None \<Rightarrow> (d, Inl ErrNotFound)
      | Some c \<Rightarrow>
          if \<not> customer_check (f c) then (d, Inl (DbErr [] (CheckViolation ''customers'')))
          else if list_ex (\<lambda>c'. c_id c' \<noteq> cid \<and> c_api_key_hash c' = c_api_key_hash (f c)) (customers d)
          then (d, Inl (DbErr [] (UniqueViolation ''customers_api_key_hash_key'')))
          else (d\<lparr>customers := update_where (\<lambda>c. c_id c = cid) f (customers d)\<rparr>, Inr (f c)))"

definition Update :: "gtime \<Rightarrow> uuid \<Rightarrow> string option \<Rightarrow> int option \<Rightarrow> db \<Rightarrow> db \<times> (error + customer)" where
  "Update now cid name rps d =
     update_customer cid (\<lambda>c. c\<lparr>c_name := (case name of None \<Rightarrow> c_name c | Some s \<Rightarrow> s),
       c_rate_limit_rps := (case rps of None \<Rightarrow> c_rate_limit_rps c | Some r \<Rightarrow> r), c_updated_at := now\<rparr>) d"

definition RotateKey ::
    "(string \<Rightarrow> string) \<Rightarrow> gtime \<Rightarrow> byte list \<Rightarrow> uuid \<Rightarrow> db \<Rightarrow> db \<times> (error + customer \<times> string)" where
  "RotateKey sha now random cid d =
     (let key = GenerateKey random
      in case update_customer cid (\<lambda>c. c\<lparr>c_api_key_hash := sha key, c_api_key_prefix := DisplayPrefix key,
               c_updated_at := now\<rparr>) d of
          (d', Inl err) \<Rightarrow> (d', Inl err)
        | (d', Inr c) \<Rightarrow> (d', Inr (c, key)))"

text \<open>\<^verbatim>\<open>Delete\<close>: the foreign keys cascade to messages and transactions of the customer, and from the messages to
  their transactions and queue rows.\<close>

definition delete_cascade :: "uuid \<Rightarrow> db \<Rightarrow> db" where
  "delete_cascade cid d =
     (let gone = map m_id (filter (\<lambda>m. m_customer_id m = cid) (messages d))
      in d\<lparr>customers := filter (\<lambda>c. c_id c \<noteq> cid) (customers d),
           messages := filter (\<lambda>m. m_customer_id m \<noteq> cid) (messages d),
           transactions := filter (\<lambda>t. t_customer_id t \<noteq> cid \<and>
             (case t_message_id t of None \<Rightarrow> True | Some u \<Rightarrow> u \<notin> set gone)) (transactions d),
           queue := filter (\<lambda>q. q_message_id q \<notin> set gone) (queue d)\<rparr>)"

definition Delete :: "uuid \<Rightarrow> db \<Rightarrow> db \<times> (error + unit)" where
  "Delete cid d =
     (if has_key c_id cid (customers d) then (delete_cascade cid d, Inr ()) else (d, Inl ErrNotFound))"


subsection \<open>Consistency\<close>

lemma db_inv_foreignD:
  assumes "db_inv now d"
  shows "m \<in> set (messages d) \<Longrightarrow> m_customer_id m \<in> c_id ` set (customers d)"
    "t \<in> set (transactions d) \<Longrightarrow> t_customer_id t \<in> c_id ` set (customers d)"
    "t \<in> set (transactions d) \<Longrightarrow> t_message_id t = Some mid \<Longrightarrow> mid \<in> m_id ` set (messages d)"
    "q \<in> set (queue d) \<Longrightarrow> q_message_id q \<in> m_id ` set (messages d)"
  using assms unfolding db_inv_def foreign_ok_def by blast+

lemma insert_customer_inv [db_intros]:
  assumes inv: "db_inv now d" and ins: "insert_customer c d = Inr d'" and zero: "c_balance c = 0"
  shows "db_inv now d'"
proof -
  from ins have c: "customer_check c" "c_id c \<notin> c_id ` set (customers d)" and d': "d' = d\<lparr>customers := customers d @ [c]\<rparr>"
    by (auto simp: insert_customer_def has_key_iff split: if_splits)
  have "\<forall>t\<in>set (transactions d). t_customer_id t \<noteq> c_id c"
    using db_inv_foreignD(2) [OF inv] c(2) by metis
  then have "ledger_sum (c_id c) (transactions d) = 0" by (simp add: ledger_sum_def)
  with zero have "ledger_ok d'" using inv by (auto simp: d' db_inv_def ledger_ok_def balances_ok_def)
  moreover have "keys_ok d'" "foreign_ok d'" "rows_ok d'" "refs_ok d'" "queued_ok d'"
    using inv c by (auto simp: d' db_inv_def keys_ok_def foreign_ok_def rows_ok_def refs_ok_def queued_ok_def)
  ultimately show ?thesis using inv by (simp add: db_inv_def d')
qed

lemma create_body_inv [db_intros]:
  assumes inv: "db_inv now d" and cr: "create_body sha e key n d = Inr (d', c)"
  shows "db_inv now d'"
proof -
  from cr obtain d1 where ins: "insert_customer (customer_row sha e key n) d = Inr d1"
    and rest: "d' = d1 \<or> (\<exists>r. Charge e 2 (c_id (customer_row sha e key n)) (n_initial_credits n) (AdminChargeRef e 1) d1 = Inr (d', r))"
    by (auto simp: create_body_def Let_def split: sum.splits if_splits)
  have "db_inv now d1" by (rule insert_customer_inv [OF inv ins]) (simp add: customer_row_def)
  with rest Charge_inv show ?thesis by blast
qed

lemma db_inv_update_customers:
  assumes inv: "db_inv now d"
    and f: "\<And>c. c \<in> set (customers d) \<Longrightarrow> same_account c (f c) \<and> customer_check (f c)"
  shows "db_inv now (d\<lparr>customers := map f (customers d)\<rparr>)"
proof -
  have ids: "map c_id (map f (customers d)) = map c_id (customers d)" using f by (simp add: same_account_def)
  have cset: "c_id ` f ` set (customers d) = c_id ` set (customers d)" by (metis ids set_map)
  have "balances_ok (map f (customers d)) (transactions d)"
    using inv f by (auto simp: db_inv_def ledger_ok_def balances_ok_def same_account_def)
  then have "ledger_ok (d\<lparr>customers := map f (customers d)\<rparr>)" using inv by (simp add: db_inv_def ledger_ok_def)
  moreover have "keys_ok (d\<lparr>customers := map f (customers d)\<rparr>)" using inv ids by (simp add: db_inv_def keys_ok_def del: map_map)
  moreover have "foreign_ok (d\<lparr>customers := map f (customers d)\<rparr>)" using inv cset by (simp add: db_inv_def foreign_ok_def)
  moreover have "rows_ok (d\<lparr>customers := map f (customers d)\<rparr>)" using inv f by (simp add: db_inv_def rows_ok_def)
  ultimately show ?thesis using inv by (simp add: db_inv_def refs_ok_def queued_ok_def)
qed

lemma update_customer_inv [db_intros]:
  assumes inv: "db_inv now d" and f: "\<And>c. same_account c (f c)"
  shows "db_inv now (fst (update_customer cid f d))"
proof (cases "row_of c_id cid (customers d)")
  case (Some c)
  have "db_inv now (d\<lparr>customers := update_where (\<lambda>c. c_id c = cid) f (customers d)\<rparr>)" if "customer_check (f c)"
    unfolding update_where_def
  proof (rule db_inv_update_customers [OF inv])
    fix c' assume c': "c' \<in> set (customers d)"
    have "c_id c' = cid \<Longrightarrow> c' = c"
      using distinct_key_unique [OF db_inv_keysD(1) [OF inv] c'] row_of_SomeD [OF Some] by auto
    then show "same_account c' (if c_id c' = cid then f c' else c') \<and> customer_check (if c_id c' = cid then f c' else c')"
      using f that db_inv_rowsD(1) [OF inv c'] by (auto simp: same_account_def)
  qed
  then show ?thesis using inv by (simp add: update_customer_def Some)
qed (simp add: update_customer_def inv)

lemma Update_inv [db_intros]: "db_inv now d \<Longrightarrow> db_inv now (fst (Update now' cid name rps d))"
  unfolding Update_def by (rule update_customer_inv) (simp_all add: same_account_def)

lemma RotateKey_inv [db_intros]:
  assumes "db_inv now d"
  shows "db_inv now (fst (RotateKey sha now' random cid d))"
proof -
  let ?f = "\<lambda>c. c\<lparr>c_api_key_hash := sha (GenerateKey random), c_api_key_prefix := DisplayPrefix (GenerateKey random),
    c_updated_at := now'\<rparr>"
  have "fst (RotateKey sha now' random cid d) = fst (update_customer cid ?f d)"
    by (simp add: RotateKey_def Let_def split: prod.splits sum.splits)
  with update_customer_inv [OF assms, of ?f] show ?thesis by (simp add: same_account_def)
qed

lemma Create_inv [db_intros]:
  assumes "db_inv now d"
  shows "db_inv now (fst (Create fault sha e random n d))"
proof -
  have "fst (Create fault sha e random n d) = fst (WithTx tx_error fault (create_body sha e (GenerateKey random) n) d)"
    by (simp add: Create_def Let_def split: prod.splits sum.splits)
  moreover have "db_inv now \<dots>"
    by (rule WithTx_preserves [where P = "db_inv now", OF assms]) (rule create_body_inv [OF assms])
  ultimately show ?thesis by simp
qed

text \<open>Deleting a customer removes exactly what belongs to it.\<close>

lemma distinct_key_filter:
  assumes "distinct (map k xs)" "x \<in> set xs"
  shows "k x \<in> k ` set (filter P xs) \<longleftrightarrow> P x"
proof
  assume "k x \<in> k ` set (filter P xs)"
  then obtain y where y: "y \<in> set xs" "P y" "k y = k x" by (auto simp: image_iff)
  with distinct_key_unique [OF assms(1) y(1) assms(2) y(3)] show "P x" by simp
qed (use assms(2) in auto)

lemma delete_cascade_effect:
  assumes inv: "db_inv now d"
  shows "transactions (delete_cascade cid d) = filter (\<lambda>t. t_customer_id t \<noteq> cid) (transactions d)"
    "queue (delete_cascade cid d) =
      filter (\<lambda>q. q_message_id q \<in> m_id ` set (messages (delete_cascade cid d))) (queue d)"
proof -
  note k = db_inv_keysD(2) [OF inv]
  have own: "t_customer_id t = m_customer_id m"
    if "t \<in> set (transactions d)" "m \<in> set (messages d)" "t_message_id t = Some (m_id m)" for t m
    using db_inv_rowsD(4) [OF inv that(2)] that by (simp add: message_ledger_ok_def)
  then have "t_customer_id t \<noteq> cid \<Longrightarrow> t_message_id t = Some u \<Longrightarrow>
      u \<notin> m_id ` set (filter (\<lambda>m. m_customer_id m = cid) (messages d))" if "t \<in> set (transactions d)" for t u
    using that by fastforce
  then show "transactions (delete_cascade cid d) = filter (\<lambda>t. t_customer_id t \<noteq> cid) (transactions d)"
    unfolding delete_cascade_def Let_def by (auto intro!: filter_cong split: option.splits)
  have "q_message_id q \<notin> m_id ` set (filter (\<lambda>m. m_customer_id m = cid) (messages d)) \<longleftrightarrow>
      q_message_id q \<in> m_id ` set (filter (\<lambda>m. m_customer_id m \<noteq> cid) (messages d))" if q: "q \<in> set (queue d)" for q
  proof -
    from db_inv_foreignD(4) [OF inv q] obtain m where m: "m \<in> set (messages d)" "m_id m = q_message_id q" by (metis imageE)
    have "q_message_id q \<in> m_id ` set (filter P (messages d)) \<longleftrightarrow> P m" for P
      using distinct_key_filter [OF k m(1)] m(2) by metis
    then show ?thesis by simp
  qed
  then show "queue (delete_cascade cid d) =
      filter (\<lambda>q. q_message_id q \<in> m_id ` set (messages (delete_cascade cid d))) (queue d)"
    unfolding delete_cascade_def Let_def by (auto intro!: filter_cong)
qed

lemma delete_cascade_tables:
  "customers (delete_cascade cid d) = filter (\<lambda>c. c_id c \<noteq> cid) (customers d)"
  "messages (delete_cascade cid d) = filter (\<lambda>m. m_customer_id m \<noteq> cid) (messages d)"
  by (simp_all add: delete_cascade_def Let_def)

lemma transaction_owner:
  assumes "db_inv now d" "t \<in> set (transactions d)" "m \<in> set (messages d)" "t_message_id t = Some (m_id m)"
  shows "t_customer_id t = m_customer_id m"
  using db_inv_rowsD(4) [OF assms(1,3)] assms(2,4) by (simp add: message_ledger_ok_def)

lemma delete_cascade_foreign:
  assumes inv: "db_inv now d"
  shows "foreign_ok (delete_cascade cid d)"
proof -
  let ?d = "delete_cascade cid d"
  note tables = delete_cascade_tables [of cid d] and eff = delete_cascade_effect [OF inv, of cid]
  have link: "u \<in> m_id ` set (messages ?d)" if "t \<in> set (transactions d)" "t_customer_id t \<noteq> cid" "t_message_id t = Some u" for t u
  proof -
    from db_inv_foreignD(3) [OF inv that(1,3)] obtain m where "m \<in> set (messages d)" "m_id m = u" by (metis imageE)
    with transaction_owner [OF inv that(1), of m] that show ?thesis by (auto simp: tables)
  qed
  have owner: "x \<in> c_id ` set (customers ?d)" if "x \<in> c_id ` set (customers d)" "x \<noteq> cid" for x
    using that by (auto simp: tables)
  show ?thesis unfolding foreign_ok_def
  proof (intro conjI ballI allI impI)
    fix m assume "m \<in> set (messages ?d)"
    then show "m_customer_id m \<in> c_id ` set (customers ?d)" using db_inv_foreignD(1) [OF inv] owner by (simp add: tables)
  next
    fix t assume "t \<in> set (transactions ?d)"
    then show "t_customer_id t \<in> c_id ` set (customers ?d)" using db_inv_foreignD(2) [OF inv] owner by (simp add: eff)
  qed (use link in \<open>auto simp: eff\<close>)
qed

lemma delete_cascade_ledger:
  assumes inv: "db_inv now d"
  shows "ledger_ok (delete_cascade cid d)"
proof -
  let ?d = "delete_cascade cid d"
  note tables = delete_cascade_tables [of cid d] and eff = delete_cascade_effect [OF inv, of cid]
  have "balances_ok (customers ?d) (transactions ?d)"
    using inv by (auto simp: balances_ok_def db_inv_def ledger_ok_def tables eff(1) ledger_sum_filter)
  moreover have "message_ledger_ok (transactions ?d) m" if m: "m \<in> set (messages ?d)" for m
  proof -
    have m': "m \<in> set (messages d)" "m_customer_id m \<noteq> cid" using m by (simp_all add: tables)
    have "txns_of k (m_id m) (transactions ?d) = txns_of k (m_id m) (transactions d)" for k
      unfolding eff(1) by (rule txns_of_filter) (use transaction_owner [OF inv] m' in auto)
    then show ?thesis using db_inv_rowsD(4) [OF inv m'(1)] by (simp add: message_ledger_ok_def eff(1))
  qed
  ultimately show ?thesis by (simp add: ledger_ok_def)
qed

lemma delete_cascade_inv [db_intros]:
  assumes inv: "db_inv now d"
  shows "db_inv now (delete_cascade cid d)"
proof -
  let ?d = "delete_cascade cid d"
  note tables = delete_cascade_tables [of cid d] and eff = delete_cascade_effect [OF inv, of cid]
  have "keys_ok ?d" using db_inv_keysD [OF inv] by (simp add: keys_ok_def tables eff distinct_map_filterI)
  moreover have "rows_ok ?d" using inv by (auto simp: db_inv_def rows_ok_def tables eff(1))
  moreover have "refs_ok ?d"
  proof -
    have swap: "filter P (filter Q xs) = filter Q (filter P xs)" for P Q and xs :: "'a list" by (induction xs) auto
    show ?thesis using inv unfolding db_inv_def refs_ok_def tables eff(1)
      by (metis (no_types, lifting) distinct_map_filterI swap)
  qed
  moreover have "queued_ok ?d" unfolding queued_ok_def
  proof (intro ballI impI)
    fix m assume m: "m \<in> set (messages ?d)" "m_status m = StatusAccepted"
    have "m \<in> set (messages d)" using m(1) by (simp add: tables)
    with inv m(2) obtain q where q: "q \<in> set (queue d)" "q_message_id q = m_id m"
      unfolding db_inv_def queued_ok_def by (metis imageE)
    have "q \<in> set (queue ?d)" using q m(1) by (auto simp: eff(2))
    then show "m_id m \<in> q_message_id ` set (queue ?d)" using q(2) by (metis imageI)
  qed
  moreover have "\<forall>m\<in>set (messages ?d). stamps_ok now m" using db_inv_rowsD(5) [OF inv] by (simp add: tables)
  ultimately show ?thesis using delete_cascade_foreign [OF inv] delete_cascade_ledger [OF inv] by (simp add: db_inv_def)
qed

lemma Delete_inv [db_intros]: "db_inv now d \<Longrightarrow> db_inv now (fst (Delete cid d))"
  by (simp add: Delete_def delete_cascade_inv)

end
