(* ===== verification/Lease.thy ===== *)
theory Lease
  imports Billing Demo
begin

text \<open>
  Jobs, outcomes and leases: \<^verbatim>\<open>internal/dispatch/claim.go\<close> and the outcome type of
  \<^verbatim>\<open>send.go\<close>. A claim is one statement. \<^verbatim>\<open>FOR UPDATE SKIP LOCKED\<close> leaves out the rows other
  transactions hold at that moment; \<open>locked\<close> says which these are.
\<close>

subsection \<open>Jobs and outcomes\<close>

record job =
  j_id :: uuid
  j_customer_id :: uuid
  j_type :: mtype
  j_recipient :: string
  j_body :: string
  j_attempts :: int
  j_accepted_at :: gtime
  j_expires_at :: gtime
  j_lease_version :: int
  j_db_now :: gtime
  j_claimed_at :: gtime

text \<open>\<^verbatim>\<open>dbNow\<close>; \<open>clock\<close> is the worker's own clock, which \<^verbatim>\<open>time.Since\<close> reads.\<close>

definition dbNow :: "gtime \<Rightarrow> job \<Rightarrow> gtime" where
  "dbNow clock j = j_db_now j + (clock - j_claimed_at j)"

datatype outcome_kind = outcomeSent | outcomeRetry | outcomeDeferred | outcomeFailed | outcomeExpired

text \<open>\<open>o_reason\<close> is \<open>None\<close> for Go's empty reason of outcomes that do not end a message.\<close>

record outcome =
  o_kind :: outcome_kind
  o_job :: job
  o_provider :: string
  o_provider_ref :: string
  o_err :: string
  o_delay :: duration
  o_reason :: "failure_reason option"
  o_attempted :: bool

abbreviation o_id :: "outcome \<Rightarrow> uuid" where
  "o_id out \<equiv> j_id (o_job out)"

abbreviation o_version :: "outcome \<Rightarrow> int" where
  "o_version out \<equiv> j_lease_version (o_job out)"

subsection \<open>Claiming\<close>

definition ready :: "gtime \<Rightarrow> string \<Rightarrow> message list \<Rightarrow> queue_row \<Rightarrow> bool" where
  "ready now lane ms q \<longleftrightarrow> q_lane q = lane \<and> q_next_attempt_at q \<le> now \<and>
     (case row_of m_id (q_message_id q) ms of None \<Rightarrow> False | Some m \<Rightarrow> m_status m = StatusAccepted)"

definition picked :: "gtime \<Rightarrow> string \<Rightarrow> nat \<Rightarrow> (uuid \<Rightarrow> bool) \<Rightarrow> db \<Rightarrow> queue_row list" where
  "picked now lane n locked d =
     take n (sort_key q_next_attempt_at
       (filter (\<lambda>q. ready now lane (messages d) q \<and> \<not> locked (q_message_id q)) (queue d)))"

definition lease_row :: "gtime \<Rightarrow> string \<Rightarrow> duration \<Rightarrow> queue_row \<Rightarrow> queue_row" where
  "lease_row now wid lease q =
     q\<lparr>q_lease_owner := Some wid, q_lease_version := q_lease_version q + 1,
       q_next_attempt_at := now + interval_ms (milliseconds lease)\<rparr>"

definition job_of :: "gtime \<Rightarrow> gtime \<Rightarrow> message \<Rightarrow> queue_row \<Rightarrow> job" where
  "job_of now clock m q =
     \<lparr>j_id = m_id m, j_customer_id = m_customer_id m, j_type = m_type m, j_recipient = m_recipient m,
      j_body = m_body m, j_attempts = m_attempts m, j_accepted_at = m_accepted_at m,
      j_expires_at = m_expires_at m, j_lease_version = q_lease_version q, j_db_now = now,
      j_claimed_at = clock\<rparr>"

definition claim ::
    "gtime \<Rightarrow> gtime \<Rightarrow> string \<Rightarrow> duration \<Rightarrow> (uuid \<Rightarrow> bool) \<Rightarrow> string \<Rightarrow> nat \<Rightarrow> db \<Rightarrow> db \<times> job list" where
  "claim now clock wid lease locked lane n d =
     (let ids = map q_message_id (picked now lane n locked d);
          rows = update_where (\<lambda>q. q_message_id q \<in> set ids) (lease_row now wid lease) (queue d)
      in (d\<lparr>queue := rows\<rparr>,
          List.map_filter (\<lambda>q. map_option (\<lambda>m. job_of now clock m q) (row_of m_id (q_message_id q) (messages d)))
            (filter (\<lambda>q. q_message_id q \<in> set ids) rows)))"

subsection \<open>What a claim guarantees\<close>

lemma claim_frame [frame_simps]:
  assumes "claim now clock wid lease locked lane n d = (d', jobs)"
  shows "customers d' = customers d" "messages d' = messages d" "transactions d' = transactions d"
    "workers d' = workers d" "map q_message_id (queue d') = map q_message_id (queue d)"
  using assms by (auto simp: claim_def Let_def lease_row_def key_simps)

lemma claim_inv [db_intros]:
  assumes "db_inv now' d" "claim now clock wid lease locked lane n d = (d', jobs)"
  shows "db_inv now' d'"
proof -
  have "d' = d\<lparr>queue := map (\<lambda>q. if q_message_id q \<in> set (map q_message_id (picked now lane n locked d))
      then lease_row now wid lease q else q) (queue d)\<rparr>"
    using assms(2) by (auto simp: claim_def Let_def update_where_def)
  then show ?thesis using assms(1) by (auto intro!: db_inv_update_queue simp: lease_row_def)
qed

lemma picked_ready:
  "q \<in> set (picked now lane n locked d) \<Longrightarrow>
     q \<in> set (queue d) \<and> ready now lane (messages d) q \<and> \<not> locked (q_message_id q)"
  by (auto simp: picked_def dest: in_set_takeD)

lemma length_picked: "length (picked now lane n locked d) \<le> n"
  by (simp add: picked_def)

text \<open>A claimed job stands for a row that was ready, and the row now carries its lease.\<close>

lemma claim_jobD:
  assumes keys: "distinct (map q_message_id (queue d))"
    and cl: "claim now clock wid lease locked lane n d = (d', jobs)" and j: "j \<in> set jobs"
  obtains q m where "q \<in> set (queue d)" "ready now lane (messages d) q" "\<not> locked (q_message_id q)"
    "m \<in> set (messages d)" "m_id m = q_message_id q" "m_status m = StatusAccepted"
    "lease_row now wid lease q \<in> set (queue d')" "j = job_of now clock m (lease_row now wid lease q)"
proof -
  let ?ids = "map q_message_id (picked now lane n locked d)"
  from cl j obtain q' m where q': "q' \<in> set (queue d')" "q_message_id q' \<in> set ?ids"
    and m: "row_of m_id (q_message_id q') (messages d) = Some m" "j = job_of now clock m q'"
    and d': "queue d' = update_where (\<lambda>q. q_message_id q \<in> set ?ids) (lease_row now wid lease) (queue d)"
    by (auto simp: claim_def Let_def map_filter_def)
  from q' d' obtain q where q: "q \<in> set (queue d)" "q' = lease_row now wid lease q" "q_message_id q \<in> set ?ids"
    by (auto simp: set_update_where lease_row_def split: if_splits)
  from q(3) obtain p where p: "p \<in> set (picked now lane n locked d)" "q_message_id p = q_message_id q" by auto
  with picked_ready [OF p(1)] have "p = q" using distinct_key_unique [OF keys] q(1) by blast
  with picked_ready [OF p(1)] have r: "ready now lane (messages d) q" "\<not> locked (q_message_id q)" by auto
  have same: "q_message_id q' = q_message_id q" using q(2) by (simp add: lease_row_def)
  then have "m \<in> set (messages d)" "m_id m = q_message_id q" "m_status m = StatusAccepted"
    using r(1) m(1) row_of_SomeD [OF m(1)] by (simp_all add: ready_def)
  with that [of q m] q r m q' show thesis by simp
qed



subsection \<open>A concrete claim\<close>

definition demo_job :: job where
  "demo_job = \<lparr>j_id = 2, j_customer_id = 1, j_type = Normal, j_recipient = ''+989121234567'', j_body = ''Hi'',
     j_attempts = 0, j_accepted_at = 0, j_expires_at = 3600000000000, j_lease_version = 1, j_db_now = 1000,
     j_claimed_at = 0\<rparr>"

definition demo_leased :: db where
  "demo_leased = demo_db\<lparr>queue := [lease_row 1000 ''w1'' (30 * second) demo_queue_row]\<rparr>"

lemma demo_claim:
  "claim 1000 0 ''w1'' (30 * second) (\<lambda>u. False) ''normal-0'' 5 demo_db = (demo_leased, [demo_job])"
  by (simp add: claim_def picked_def ready_def row_of_def update_where_def demo_leased_def demo_job_def job_of_def
      lease_row_def demo_db_def demo_message_def demo_queue_row_def map_filter_def)

lemma demo_leased_inv: "db_inv 1000 demo_leased"
  by (rule claim_inv [OF demo_db_inv demo_claim])


end
