(* ===== verification/Batching.thy ===== *)
theory Batching
  imports Prelude
begin

text \<open>
  The interface of a group commit. The completer and the delivery-report batcher both turn what
  arrives on a channel into batches, one transaction each; \<open>batches\<close> are the batches of a sequence
  of events and \<open>inputs\<close> what arrived with them. What the callers rely on follows once for both:
  every input is in exactly one batch, and the batches keep the order of arrival.
\<close>

locale group_commit =
  fixes batches :: "'e list \<Rightarrow> 'a list list" and inputs :: "'e list \<Rightarrow> 'a list" and finished :: "'e list \<Rightarrow> bool"
  assumes complete: "finished es \<Longrightarrow> concat (batches es) = inputs es"
    and nonempty: "b \<in> set (batches es) \<Longrightarrow> b \<noteq> []"
begin

lemma each_once:
  assumes "finished es"
  shows "(\<Sum>b\<leftarrow>batches es. count (mset b) x) = count (mset (inputs es)) x"
proof -
  have "(\<Sum>b\<leftarrow>bs. count (mset b) x) = count (mset (concat bs)) x" for bs :: "'a list list"
    by (induction bs) simp_all
  then show ?thesis using complete [OF assms] by simp
qed

lemma batched:
  assumes "finished es" "x \<in> set (inputs es)"
  shows "\<exists>b\<in>set (batches es). x \<in> set b"
  using complete [OF assms(1)] assms(2) by (metis (no_types, lifting) in_set_conv_decomp set_concat UN_iff)

lemma in_order:
  assumes "finished es" "batches es = bs @ b # cs"
  shows "\<exists>xs ys. inputs es = xs @ b @ ys"
proof -
  have "inputs es = concat bs @ b @ concat cs" using complete [OF assms(1)] assms(2) by simp
  then show ?thesis by blast
qed

lemma nothing_pending: "finished es \<Longrightarrow> batches es = [] \<longleftrightarrow> inputs es = []"
  using complete [of es] nonempty [of _ es] by (cases "batches es") auto

end

end
