(* ===== verification/Completer.thy ===== *)
theory Completer
  imports Lease Batching
begin

text \<open>
  The completer, \<^verbatim>\<open>internal/dispatch/completer.go\<close>: it commits dispatch outcomes in batches,
  one transaction per batch. The operations come first, then that each keeps the database
  consistent, and that outcomes whose lease is lost have no effect.

  When several outcomes of a batch name the same message, an \<^verbatim>\<open>UPDATE .. FROM\<close> uses one of them;
  the model uses the first.
\<close>

subsection \<open>Operations\<close>

text \<open>\<^verbatim>\<open>lockOwned\<close>: the outcomes whose queue row still has this worker's lease of the same version.\<close>

definition lockOwned :: "string \<Rightarrow> outcome list \<Rightarrow> db \<Rightarrow> outcome list" where
  "lockOwned wid batch d =
     (let current = map (\<lambda>q. (q_message_id q, q_lease_version q))
            (filter (\<lambda>q. q_lease_owner q = Some wid \<and>
               list_ex (\<lambda>out. o_id out = q_message_id q \<and> o_version out = q_lease_version q) batch) (queue d))
      in filter (\<lambda>out. map_of (rev current) (o_id out) = Some (o_version out)) batch)"

definition deleteQueueRows :: "string \<Rightarrow> uuid list \<Rightarrow> db \<Rightarrow> db" where
  "deleteQueueRows wid ids d =
     (if ids = [] then d
      else d\<lparr>queue := filter (\<lambda>q. \<not> (q_message_id q \<in> set ids \<and> q_lease_owner q = Some wid)) (queue d)\<rparr>)"

text \<open>\<^verbatim>\<open>recordApplied\<close>: the outcomes counted for the rows a statement returned, one per row.\<close>

fun recordApplied :: "outcome list \<Rightarrow> uuid list \<Rightarrow> outcome list" where
  "recordApplied [] changed = []"
| "recordApplied (out # outs) changed =
     (if o_id out \<in> set changed then out # recordApplied outs (removeAll (o_id out) changed)
      else recordApplied outs changed)"

definition sent_row :: "gtime \<Rightarrow> duration \<Rightarrow> outcome \<Rightarrow> message \<Rightarrow> message" where
  "sent_row now sla out m =
     m\<lparr>m_status := (if m_status m = StatusAccepted then StatusSent else m_status m),
       m_sent_at := (case m_sent_at m of None \<Rightarrow> Some now | Some t \<Rightarrow> Some t),
       m_provider := (if m_status m = StatusAccepted then Some (o_provider out) else m_provider m),
       m_provider_ref := (if m_status m = StatusAccepted then Some (o_provider_ref out) else m_provider_ref m),
       m_attempts := m_attempts m + (if m_attempts m = j_attempts (o_job out) then 1 else 0),
       m_sla_breached := (m_sla_breached m \<or>
         m_type m = Express \<and> now - m_accepted_at m > interval_ms (milliseconds sla)),
       m_updated_at := now\<rparr>"

definition commitSent :: "gtime \<Rightarrow> string \<Rightarrow> duration \<Rightarrow> outcome list \<Rightarrow> db \<Rightarrow> db \<times> outcome list" where
  "commitSent now wid sla outs d =
     (let p = (\<lambda>m. \<not> ended (m_status m) \<and> m_sent_at m = None);
          changed = map m_id (returning_join m_id o_id p outs (messages d));
          d1 = d\<lparr>messages := update_join m_id o_id p (sent_row now sla) outs (messages d)\<rparr>
      in (deleteQueueRows wid (map o_id outs) d1, recordApplied outs changed))"

definition retry_row :: "gtime \<Rightarrow> outcome \<Rightarrow> message \<Rightarrow> message" where
  "retry_row now out m =
     m\<lparr>m_attempts := m_attempts m + (if m_attempts m = j_attempts (o_job out) then 1 else 0),
       m_provider := Some (o_provider out), m_last_error := Some (o_err out), m_updated_at := now\<rparr>"

definition release_row :: "gtime \<Rightarrow> int \<Rightarrow> queue_row \<Rightarrow> queue_row" where
  "release_row now delay_ms q =
     q\<lparr>q_lease_owner := None, q_next_attempt_at := now + interval_ms delay_ms\<rparr>"

text \<open>The map from identifiers to delays keeps the last delay of an identifier.\<close>

definition delay_of :: "outcome list \<Rightarrow> uuid \<Rightarrow> int" where
  "delay_of outs u = (case row_of o_id u (rev outs) of None \<Rightarrow> 0 | Some out \<Rightarrow> milliseconds (o_delay out))"

definition commitRetry :: "gtime \<Rightarrow> string \<Rightarrow> outcome list \<Rightarrow> db \<Rightarrow> db \<times> outcome list" where
  "commitRetry now wid outs d =
     (let p = (\<lambda>m. m_status m = StatusAccepted);
          pending = map m_id (returning_join m_id o_id p outs (messages d));
          finished = filter (\<lambda>u. u \<notin> set pending) (map o_id outs);
          d1 = d\<lparr>messages := update_join m_id o_id p (retry_row now) outs (messages d)\<rparr>;
          d2 = d1\<lparr>queue := update_where (\<lambda>q. q_message_id q \<in> set pending \<and> q_lease_owner q = Some wid)
                 (\<lambda>q. release_row now (delay_of outs (q_message_id q)) q) (queue d1)\<rparr>
      in (deleteQueueRows wid finished d2, recordApplied outs pending))"

definition commitDeferred :: "gtime \<Rightarrow> string \<Rightarrow> outcome list \<Rightarrow> db \<Rightarrow> db \<times> outcome list" where
  "commitDeferred now wid outs d =
     (let p = (\<lambda>q. q_lease_owner q = Some wid);
          changed = map q_message_id (returning_join q_message_id o_id p outs (queue d))
      in (d\<lparr>queue := update_join q_message_id o_id p
              (\<lambda>out. release_row now (milliseconds (o_delay out))) outs (queue d)\<rparr>,
          recordApplied outs changed))"

definition finish_row :: "gtime \<Rightarrow> outcome \<Rightarrow> message \<Rightarrow> message" where
  "finish_row now out m =
     m\<lparr>m_status := (if o_kind out = outcomeExpired then StatusExpired else StatusFailed),
       m_failure_reason := o_reason out,
       m_completed_at := Some now,
       m_attempts := m_attempts m + (if o_attempted out then 1 else 0),
       m_provider := (case NullString (o_provider out) of None \<Rightarrow> m_provider m | Some s \<Rightarrow> Some s),
       m_last_error := (case NullString (o_err out) of None \<Rightarrow> m_last_error m | Some s \<Rightarrow> Some s),
       m_sla_breached := (m_sla_breached m \<or> m_type m = Express),
       m_updated_at := now\<rparr>"

text \<open>\<^verbatim>\<open>commitTerminal\<close>: an update that breaks a check of the table fails the transaction; the refunds are
  those of the rows the update returned.\<close>

definition commitTerminal :: "env \<Rightarrow> string \<Rightarrow> outcome list \<Rightarrow> db \<Rightarrow> error + db \<times> outcome list \<times> int" where
  "commitTerminal e wid outs d =
     (let p = (\<lambda>m. m_status m = StatusAccepted);
          changed = returning_join m_id o_id p outs (messages d);
          ms = update_join m_id o_id p (finish_row (env_now e)) outs (messages d)
      in if \<not> list_all message_check ms then Inl (DbErr ''finish messages'' (CheckViolation ''messages''))
         else case ApplyRefunds e (map refund_of changed) (d\<lparr>messages := ms\<rparr>) of
             Inl err \<Rightarrow> Inl err
           | Inr d1 \<Rightarrow>
               Inr (deleteQueueRows wid (map o_id outs) d1, recordApplied outs (map m_id changed),
                    fold (\<lambda>m s. wrap64 (s + m_cost m)) changed 0))"

record commit_result =
  res_applied :: "outcome list"
  res_refunded :: int

text \<open>\<^verbatim>\<open>commit\<close>: sort, fence, split by kind, and apply the non-empty groups in order.\<close>

definition commit ::
    "env \<Rightarrow> string \<Rightarrow> duration \<Rightarrow> outcome list \<Rightarrow> db \<Rightarrow> error + db \<times> commit_result" where
  "commit e wid sla batch d =
     (let owned = lockOwned wid (sort_key o_id batch) d;
          sent = filter (\<lambda>out. o_kind out = outcomeSent) owned;
          retry = filter (\<lambda>out. o_kind out = outcomeRetry) owned;
          deferred = filter (\<lambda>out. o_kind out = outcomeDeferred) owned;
          terminals = filter (\<lambda>out. o_kind out = outcomeFailed \<or> o_kind out = outcomeExpired) owned;
          (d1, a1) = (if sent = [] then (d, []) else commitSent (env_now e) wid sla sent d);
          (d2, a2) = (if retry = [] then (d1, []) else commitRetry (env_now e) wid retry d1);
          (d3, a3) = (if deferred = [] then (d2, []) else commitDeferred (env_now e) wid deferred d2)
      in if terminals = [] then Inr (d3, \<lparr>res_applied = a1 @ a2 @ a3, res_refunded = 0\<rparr>)
         else case commitTerminal e wid terminals d3 of
             Inl err \<Rightarrow> Inl err
           | Inr (d4, a4, refunded) \<Rightarrow>
               Inr (d4, \<lparr>res_applied = a1 @ a2 @ a3 @ a4, res_refunded = refunded\<rparr>))"

text \<open>\<^verbatim>\<open>flush\<close>: up to three tries. Try \<open>k\<close> has its own environment and fault, other transactions
  commit before it, and the pause after it may be cut short by the context.\<close>

record flush_world =
  fw_env :: "nat \<Rightarrow> env"
  fw_fault :: "nat \<Rightarrow> tx_fault"
  fw_cancelled :: "nat \<Rightarrow> bool"
  fw_others :: "nat \<Rightarrow> db \<Rightarrow> db"

fun flush_loop ::
    "nat \<Rightarrow> nat \<Rightarrow> flush_world \<Rightarrow> string \<Rightarrow> duration \<Rightarrow> outcome list \<Rightarrow> db \<Rightarrow> db \<times> commit_result option" where
  "flush_loop 0 k w wid sla batch d = (d, None)"
| "flush_loop (Suc n) k w wid sla batch d =
     (case WithTx tx_error (fw_fault w k) (commit (fw_env w k) wid sla batch) (fw_others w k d) of
        (d', Inr r) \<Rightarrow> (d', Some r)
      | (d', Inl err) \<Rightarrow> if fw_cancelled w k then (d', None) else flush_loop n (Suc k) w wid sla batch d')"

definition flush :: "flush_world \<Rightarrow> string \<Rightarrow> duration \<Rightarrow> outcome list \<Rightarrow> db \<Rightarrow> db \<times> commit_result option" where
  "flush w wid sla batch d = flush_loop 3 0 w wid sla batch d"

text \<open>\<^verbatim>\<open>run\<close>: what the select loop receives, and the batches it flushes. \<open>Quit\<close> comes with what is still
  in the channel; a cancelled context drops the batch.\<close>

datatype run_event = Recv outcome | Timer | Quit "outcome list" | Cancelled

fun drain :: "nat \<Rightarrow> outcome list \<Rightarrow> outcome list \<Rightarrow> outcome list list" where
  "drain sz batch [] = (if batch = [] then [] else [batch])"
| "drain sz batch (out # outs) =
     (let b = batch @ [out] in if sz \<le> length b then b # drain sz [] outs else drain sz b outs)"

fun run :: "nat \<Rightarrow> outcome list \<Rightarrow> run_event list \<Rightarrow> outcome list list" where
  "run sz batch [] = []"
| "run sz batch (Recv out # es) =
     (let b = batch @ [out] in if sz \<le> length b then b # run sz [] es else run sz b es)"
| "run sz batch (Timer # es) = (if batch = [] then run sz [] es else batch # run sz [] es)"
| "run sz batch (Quit outs # es) = drain sz batch outs"
| "run sz batch (Cancelled # es) = []"


subsection \<open>Each statement keeps the database consistent\<close>

lemma deleteQueueRows_frame [simp]:
  "customers (deleteQueueRows wid ids d) = customers d" "messages (deleteQueueRows wid ids d) = messages d"
  "transactions (deleteQueueRows wid ids d) = transactions d" "workers (deleteQueueRows wid ids d) = workers d"
  "queue (deleteQueueRows wid ids d) =
     filter (\<lambda>q. \<not> (q_message_id q \<in> set ids \<and> q_lease_owner q = Some wid)) (queue d)"
  by (auto simp: deleteQueueRows_def)

lemma deleteQueueRows_inv:
  assumes "db_inv now d" "\<And>m. m \<in> set (messages d) \<Longrightarrow> m_id m \<in> set ids \<Longrightarrow> m_status m \<noteq> StatusAccepted"
  shows "db_inv now (deleteQueueRows wid ids d)"
  unfolding deleteQueueRows_def using assms by (auto intro!: db_inv_filter_queue)

lemma joined_row:
  assumes "m \<in> set (update_join m_id o_id p upd outs ms)" "\<And>r m. m_id (upd r m) = m_id m"
  obtains m0 where "m0 \<in> set ms" "m_id m0 = m_id m" "m = m0" "\<not> (m_id m \<in> o_id ` set outs \<and> p m0)"
  | m0 out where "m0 \<in> set ms" "m_id m0 = m_id m" "out \<in> set outs" "o_id out = m_id m" "p m0" "m = upd out m0"
proof -
  from assms(1) obtain m0 where m0: "m0 \<in> set ms"
    and m: "m = (case row_of o_id (m_id m0) outs of None \<Rightarrow> m0 | Some r \<Rightarrow> if p m0 then upd r m0 else m0)"
    by (auto simp: set_update_join)
  show thesis
  proof (cases "m_id m0 \<in> o_id ` set outs \<and> p m0")
    case False
    then have "m = m0" using m by (cases "p m0") (auto simp flip: row_of_None_iff split: option.splits)
    with False m0 that(1) show ?thesis by blast
  next
    case True
    then obtain out where out: "row_of o_id (m_id m0) outs = Some out"
      by (cases "row_of o_id (m_id m0) outs") (auto simp: row_of_None_iff)
    then have "m = upd out m0" using m True by simp
    with row_of_SomeD [OF out] True m0 assms(2) that(2) show ?thesis by metis
  qed
qed

lemma sent_row_id [simp]: "m_id (sent_row now sla out m) = m_id m"
  by (simp add: sent_row_def)

lemma sent_row_ok:
  assumes "stamps_ok now m" "message_check m" "\<not> ended (m_status m)" "m_sent_at m = None"
  shows "same_core m (sent_row now sla out m) \<and> ended (m_status (sent_row now sla out m)) = ended (m_status m) \<and>
    message_check (sent_row now sla out m) \<and> stamps_ok now (sent_row now sla out m) \<and>
    m_status (sent_row now sla out m) \<noteq> StatusAccepted"
  using assms by (cases "m_status m")
    (auto simp: sent_row_def same_core_def message_check_def stamps_ok_def ended_def terminal_def)

lemma commitSent_inv [db_intros]:
  assumes inv: "db_inv now d"
  shows "db_inv now (fst (commitSent now wid sla outs d))"
proof -
  let ?p = "\<lambda>m. \<not> ended (m_status m) \<and> m_sent_at m = None"
  let ?d = "d\<lparr>messages := update_join m_id o_id ?p (sent_row now sla) outs (messages d)\<rparr>"
  have "db_inv now ?d"
    by (rule db_inv_update_join [OF inv]) (use db_inv_rowsD [OF inv] sent_row_ok in blast)
  moreover have "m_status m \<noteq> StatusAccepted" if m: "m \<in> set (messages ?d)" "m_id m \<in> set (map o_id outs)" for m
  proof (rule joined_row [of m ?p "sent_row now sla" outs "messages d"])
    show "m \<in> set (update_join m_id o_id ?p (sent_row now sla) outs (messages d))" using m(1) by simp
  next
    fix m0 assume "m0 \<in> set (messages d)" "m = m0" "\<not> (m_id m \<in> o_id ` set outs \<and> ?p m0)"
    with m(2) db_inv_rowsD(5) [OF inv] show ?thesis by (auto simp: stamps_ok_def ended_def)
  next
    fix m0 out assume "m0 \<in> set (messages d)" "?p m0" "m = sent_row now sla out m0"
    with db_inv_rowsD [OF inv] sent_row_ok show ?thesis by blast
  qed simp
  ultimately show ?thesis
    unfolding commitSent_def Let_def fst_conv by (intro deleteQueueRows_inv)
qed

lemma retry_row_ok:
  assumes "stamps_ok now m" "message_check m" "m_status m = StatusAccepted"
  shows "same_core m (retry_row now out m) \<and> ended (m_status (retry_row now out m)) = ended (m_status m) \<and>
    message_check (retry_row now out m) \<and> stamps_ok now (retry_row now out m)"
  using assms by (simp add: retry_row_def same_core_def message_check_def stamps_ok_def)

lemma commitRetry_inv [db_intros]:
  assumes inv: "db_inv now d"
  shows "db_inv now (fst (commitRetry now wid outs d))"
proof -
  let ?p = "\<lambda>m. m_status m = StatusAccepted"
  let ?pend = "map m_id (returning_join m_id o_id ?p outs (messages d))"
  let ?d1 = "d\<lparr>messages := update_join m_id o_id ?p (retry_row now) outs (messages d)\<rparr>"
  let ?d2 = "?d1\<lparr>queue := update_where (\<lambda>q. q_message_id q \<in> set ?pend \<and> q_lease_owner q = Some wid)
                 (\<lambda>q. release_row now (delay_of outs (q_message_id q)) q) (queue ?d1)\<rparr>"
  have "db_inv now ?d1"
    by (rule db_inv_update_join [OF inv])
      (use db_inv_rowsD [OF inv] retry_row_ok in blast)
  then have "db_inv now ?d2"
    unfolding update_where_def by (rule db_inv_update_queue) (simp add: release_row_def)
  moreover have "m_status m \<noteq> StatusAccepted"
    if m: "m \<in> set (messages ?d2)" "m_id m \<in> set (filter (\<lambda>u. u \<notin> set ?pend) (map o_id outs))" for m
  proof (rule joined_row [of m ?p "retry_row now" outs "messages d"])
    show "m \<in> set (update_join m_id o_id ?p (retry_row now) outs (messages d))" using m(1) by simp
  next
    fix m0 assume "m0 \<in> set (messages d)" "m = m0" "\<not> (m_id m \<in> o_id ` set outs \<and> ?p m0)"
    with m(2) show ?thesis by auto
  next
    fix m0 out assume "m0 \<in> set (messages d)" "m_id m0 = m_id m" "out \<in> set outs" "o_id out = m_id m" "?p m0"
    then have "m_id m \<in> m_id ` {m \<in> set (messages d). m_id m \<in> o_id ` set outs \<and> ?p m}"
      by (metis (mono_tags, lifting) image_eqI mem_Collect_eq)
    then have "m_id m \<in> set ?pend" by (simp add: returning_join_def has_key_iff)
    with m(2) show ?thesis by auto
  qed (simp add: retry_row_def)
  ultimately show ?thesis
    unfolding commitRetry_def Let_def fst_conv by (intro deleteQueueRows_inv)
qed

lemma commitDeferred_inv [db_intros]:
  assumes "db_inv now d"
  shows "db_inv now (fst (commitDeferred now wid outs d))"
  unfolding commitDeferred_def Let_def fst_conv update_join_map
  by (rule db_inv_update_queue [OF assms]) (simp add: release_row_def split: option.splits)


lemma has_key_row_of: "has_key key k rows \<longleftrightarrow> row_of key k rows \<noteq> None"
  by (simp add: has_key_iff row_of_None_iff)

lemma joined_is_picked:
  assumes "distinct (map m_id ms)" "m \<in> set ms"
  shows "m_id m \<in> set (map m_id (returning_join m_id o_id p outs ms)) \<longleftrightarrow> m_id m \<in> o_id ` set outs \<and> p m"
proof
  assume "m_id m \<in> set (map m_id (returning_join m_id o_id p outs ms))"
  then obtain m' where "m' \<in> set ms" "m_id m' = m_id m" "m_id m' \<in> o_id ` set outs" "p m'"
    by (auto simp: returning_join_def has_key_iff)
  with distinct_key_unique [OF assms(1) _ assms(2)] show "m_id m \<in> o_id ` set outs \<and> p m" by metis
qed (use assms(2) in \<open>auto simp: returning_join_def has_key_iff\<close>)

lemma commitTerminal_inv [db_intros]:
  assumes inv: "db_inv (env_now e) d" and ct: "commitTerminal e wid outs d = Inr (d', applied, refunded)"
  shows "db_inv (env_now e) d'"
proof -
  let ?p = "\<lambda>m. m_status m = StatusAccepted" and ?now = "env_now e"
  let ?f = "\<lambda>m. case row_of o_id (m_id m) outs of None \<Rightarrow> m | Some r \<Rightarrow> if ?p m then finish_row ?now r m else m"
  let ?P = "\<lambda>m. has_key o_id (m_id m) outs \<and> ?p m"
  let ?ms = "update_join m_id o_id ?p (finish_row ?now) outs (messages d)"
  have ms: "?ms = map ?f (messages d)" by (rule update_join_map)
  from ct obtain d1 where check: "list_all message_check ?ms"
    and app: "ApplyRefunds e (map refund_of (filter ?P (messages d))) (d\<lparr>messages := ?ms\<rparr>) = Inr d1"
    and d': "d' = deleteQueueRows wid (map o_id outs) d1"
    by (auto simp: commitTerminal_def Let_def returning_join_def split: if_splits sum.splits)
  have f: "?f m = (if ?P m then finish_row ?now (the (row_of o_id (m_id m) outs)) m else m)" for m
    by (auto simp: has_key_row_of split: option.splits)
  have core: "\<forall>m\<in>set (messages d). same_core m (?f m)"
    unfolding f by (simp add: finish_row_def same_core_def)
  have "db_inv ?now d1"
  proof (rule db_inv_finish [OF inv core _ _ app [unfolded ms]])
    fix m :: message assume "\<not> ?P m" then show "?f m = m" unfolding f by (rule if_not_P)
  next
    fix m assume m: "m \<in> set (messages d)" "?P m"
    then have fm: "?f m = finish_row ?now (the (row_of o_id (m_id m) outs)) m" unfolding f by (rule_tac if_P)
    have "message_check (?f m)" using check m(1) by (simp add: ms list_all_iff)
    moreover have "stamps_ok ?now (?f m)" "ended (m_status (?f m))"
      unfolding fm using db_inv_rowsD(5) [OF inv m(1)] m(2) by (simp_all add: finish_row_def stamps_ok_def)
    ultimately show "m_status m = StatusAccepted \<and> ended (m_status (?f m)) \<and> message_check (?f m) \<and> stamps_ok ?now (?f m)"
      using m(2) by blast
  qed
  moreover have "messages d1 = ?ms" using ApplyRefunds_effect [OF app] by auto
  then have "m_status m \<noteq> StatusAccepted" if "m \<in> set (messages d1)" "m_id m \<in> set (map o_id outs)" for m
    using that by (auto simp: ms f finish_row_def has_key_iff split: if_splits)
  ultimately show ?thesis unfolding d' by (rule deleteQueueRows_inv)
qed

text \<open>The steps of a commit, one after the other.\<close>

lemma commit_steps:
  assumes "commit e wid sla batch d = Inr (d', r)"
  obtains d1 d2 d3 owned where "owned = lockOwned wid (sort_key o_id batch) d"
    "d1 = fst (commitSent (env_now e) wid sla (filter (\<lambda>out. o_kind out = outcomeSent) owned) d)"
    "d2 = fst (commitRetry (env_now e) wid (filter (\<lambda>out. o_kind out = outcomeRetry) owned) d1)"
    "d3 = fst (commitDeferred (env_now e) wid (filter (\<lambda>out. o_kind out = outcomeDeferred) owned) d2)"
    "(let ts = filter (\<lambda>out. o_kind out = outcomeFailed \<or> o_kind out = outcomeExpired) owned in
      if ts = [] then d' = d3 else \<exists>a x. commitTerminal e wid ts d3 = Inr (d', a, x))"
proof -
  have nil: "update_join key rkey p upd [] rows = rows"
    for key :: "'b \<Rightarrow> 'k" and rkey :: "'c \<Rightarrow> 'k" and p upd and rows :: "'b list"
    by (simp add: update_join_def row_of_def)
  have "fst (commitSent (env_now e) wid sla [] x) = x" "fst (commitDeferred (env_now e) wid [] x) = x" for x
    by (simp_all add: commitSent_def commitDeferred_def Let_def nil deleteQueueRows_def)
  moreover have "fst (commitRetry (env_now e) wid [] x) = x" for x
    by (simp add: commitRetry_def Let_def nil deleteQueueRows_def returning_join_def has_key_def update_where_def)
  ultimately show thesis
    using assms that [OF refl refl refl refl]
    by (auto simp: commit_def Let_def case_prod_beta' split: if_splits sum.splits)
qed

lemma commit_inv [db_intros]:
  assumes "db_inv (env_now e) d" "commit e wid sla batch d = Inr (d', r)"
  shows "db_inv (env_now e) d'"
proof -
  from assms(2) obtain d1 d2 d3 owned where
    d1: "d1 = fst (commitSent (env_now e) wid sla (filter (\<lambda>out. o_kind out = outcomeSent) owned) d)"
    and d2: "d2 = fst (commitRetry (env_now e) wid (filter (\<lambda>out. o_kind out = outcomeRetry) owned) d1)"
    and d3: "d3 = fst (commitDeferred (env_now e) wid (filter (\<lambda>out. o_kind out = outcomeDeferred) owned) d2)"
    and t: "(let ts = filter (\<lambda>out. o_kind out = outcomeFailed \<or> o_kind out = outcomeExpired) owned in
      if ts = [] then d' = d3 else \<exists>a x. commitTerminal e wid ts d3 = Inr (d', a, x))"
    by (rule commit_steps)
  have "db_inv (env_now e) d3" unfolding d1 d2 d3 by (intro commitSent_inv commitRetry_inv commitDeferred_inv assms(1))
  then show ?thesis using t commitTerminal_inv by (metis (mono_tags, lifting))
qed

subsection \<open>Fencing\<close>

text \<open>Everything the database says about one message.\<close>

definition view_of :: "uuid \<Rightarrow> db \<Rightarrow> message list \<times> queue_row list \<times> transaction list" where
  "view_of u d = (filter (\<lambda>m. m_id m = u) (messages d), filter (\<lambda>q. q_message_id q = u) (queue d),
     filter (\<lambda>t. t_message_id t = Some u) (transactions d))"

lemma filter_key_map:
  "(\<And>x. key (f x) = key x) \<Longrightarrow> filter (\<lambda>x. key x = u) (map f xs) = map f (filter (\<lambda>x. key x = u) xs)"
  by (induction xs) auto

lemma filter_key_update_join:
  assumes "\<And>r x. key (upd r x) = key x"
  shows "filter (\<lambda>x. key x = u) (update_join key rkey p upd rs rows) =
    (case row_of rkey u rs of None \<Rightarrow> filter (\<lambda>x. key x = u) rows
     | Some r \<Rightarrow> map (\<lambda>x. if p x then upd r x else x) (filter (\<lambda>x. key x = u) rows))"
proof -
  have "filter (\<lambda>x. key x = u) (update_join key rkey p upd rs rows) =
    map (\<lambda>x. case row_of rkey (key x) rs of None \<Rightarrow> x | Some r \<Rightarrow> if p x then upd r x else x) (filter (\<lambda>x. key x = u) rows)"
    unfolding update_join_map by (rule filter_key_map) (simp add: assms split: option.splits)
  also have "\<dots> = map (\<lambda>x. case row_of rkey u rs of None \<Rightarrow> x | Some r \<Rightarrow> if p x then upd r x else x) (filter (\<lambda>x. key x = u) rows)"
    by (rule map_cong) auto
  finally show ?thesis by (simp split: option.splits)
qed

lemma filter_key_deleteQueueRows:
  "filter (\<lambda>q. q_message_id q = u) (queue (deleteQueueRows wid ids d)) =
     (if u \<in> set ids then filter (\<lambda>q. q_lease_owner q \<noteq> Some wid) (filter (\<lambda>q. q_message_id q = u) (queue d))
      else filter (\<lambda>q. q_message_id q = u) (queue d))"
  by (auto intro: filter_cong)

text \<open>What the four statements do to the view of one message.\<close>

lemma view_commitSent:
  "view_of u (fst (commitSent now wid sla outs d)) =
     (case row_of o_id u outs of None \<Rightarrow> view_of u d
      | Some out \<Rightarrow> (case view_of u d of (ms, qs, ts) \<Rightarrow>
          (map (\<lambda>m. if \<not> ended (m_status m) \<and> m_sent_at m = None then sent_row now sla out m else m) ms,
           filter (\<lambda>q. q_lease_owner q \<noteq> Some wid) qs, ts)))"
  by (auto simp: commitSent_def Let_def view_of_def filter_key_update_join filter_key_deleteQueueRows row_of_None_iff
      simp del: deleteQueueRows_frame(5) split: option.splits dest: row_of_SomeD)


lemma pending_iff:
  "u \<in> set (map key (returning_join key rkey p rs rows)) \<longleftrightarrow>
     u \<in> rkey ` set rs \<and> list_ex p (filter (\<lambda>x. key x = u) rows)"
proof -
  have "u \<in> set (map key (returning_join key rkey p rs rows)) \<longleftrightarrow>
      (\<exists>x. x \<in> set rows \<and> key x \<in> rkey ` set rs \<and> p x \<and> key x = u)"
    by (auto simp: returning_join_def has_key_iff)
  also have "\<dots> \<longleftrightarrow> u \<in> rkey ` set rs \<and> (\<exists>x. x \<in> set rows \<and> key x = u \<and> p x)" by blast
  also have "(\<exists>x. x \<in> set rows \<and> key x = u \<and> p x) \<longleftrightarrow> list_ex p (filter (\<lambda>x. key x = u) rows)"
    by (auto simp: list_ex_iff)
  finally show ?thesis .
qed

lemma ApplyRefunds_frame:
  assumes "ApplyRefunds e rs d = Inr d'"
  shows "messages d' = messages d \<and> queue d' = queue d \<and> (\<exists>us. transactions d' = transactions d @ us \<and>
    (\<forall>t\<in>set us. \<exists>r\<in>set rs. t_message_id t = Some (r_message_id r)))"
  using ApplyRefunds_effect [OF assms] by (elim exE conjE) blast

lemma view_commitRetry:
  "view_of u (fst (commitRetry now wid outs d)) =
     (case row_of o_id u outs of None \<Rightarrow> view_of u d
      | Some out \<Rightarrow> (case view_of u d of (ms, qs, ts) \<Rightarrow>
          (map (\<lambda>m. if m_status m = StatusAccepted then retry_row now out m else m) ms,
           if list_ex (\<lambda>m. m_status m = StatusAccepted) ms
           then map (\<lambda>q. if q_lease_owner q = Some wid then release_row now (delay_of outs u) q else q) qs
           else filter (\<lambda>q. q_lease_owner q \<noteq> Some wid) qs, ts)))"
proof -
  let ?pend = "map m_id (returning_join m_id o_id (\<lambda>m. m_status m = StatusAccepted) outs (messages d))"
  have q: "filter (\<lambda>q. q_message_id q = u) (update_where (\<lambda>q. q_message_id q \<in> set ?pend \<and> q_lease_owner q = Some wid)
      (\<lambda>q. release_row now (delay_of outs (q_message_id q)) q) (queue d)) =
     map (\<lambda>q. if u \<in> set ?pend \<and> q_lease_owner q = Some wid then release_row now (delay_of outs u) q else q)
      (filter (\<lambda>q. q_message_id q = u) (queue d))"
    unfolding update_where_def by (subst filter_key_map) (auto simp: release_row_def intro: map_cong)
  show ?thesis
  proof (cases "row_of o_id u outs")
    case None
    then have "u \<notin> o_id ` set outs" by (simp add: row_of_None_iff)
    then have "u \<notin> set ?pend" unfolding pending_iff by simp
    with None \<open>u \<notin> o_id ` set outs\<close> q show ?thesis
      by (auto simp add: commitRetry_def Let_def view_of_def filter_key_update_join filter_key_deleteQueueRows retry_row_def
          simp del: deleteQueueRows_frame(5))
  next
    case (Some out)
    then have "u \<in> o_id ` set outs" by (auto dest: row_of_SomeD)
    then have "u \<in> set ?pend \<longleftrightarrow> list_ex (\<lambda>m. m_status m = StatusAccepted) (filter (\<lambda>m. m_id m = u) (messages d))"
      unfolding pending_iff by simp
    with Some \<open>u \<in> o_id ` set outs\<close> q show ?thesis
      by (auto simp add: commitRetry_def Let_def view_of_def filter_key_update_join filter_key_deleteQueueRows retry_row_def
          simp del: deleteQueueRows_frame(5))
  qed
qed

lemma view_commitDeferred:
  "view_of u (fst (commitDeferred now wid outs d)) =
     (case row_of o_id u outs of None \<Rightarrow> view_of u d
      | Some out \<Rightarrow> (case view_of u d of (ms, qs, ts) \<Rightarrow>
          (ms, map (\<lambda>q. if q_lease_owner q = Some wid then release_row now (milliseconds (o_delay out)) q else q) qs, ts)))"
  by (simp add: commitDeferred_def Let_def view_of_def filter_key_update_join release_row_def split: option.splits)

lemma view_commitTerminal:
  assumes "commitTerminal e wid outs d = Inr (d', applied, refunded)"
  shows "row_of o_id u outs = None \<Longrightarrow> view_of u d' = view_of u d"
    "row_of o_id u outs = Some out \<Longrightarrow>
      fst (view_of u d') = map (\<lambda>m. if m_status m = StatusAccepted then finish_row (env_now e) out m else m) (fst (view_of u d)) \<and>
      fst (snd (view_of u d')) = filter (\<lambda>q. q_lease_owner q \<noteq> Some wid) (fst (snd (view_of u d)))"
proof -
  let ?p = "\<lambda>m. m_status m = StatusAccepted"
  let ?ms = "update_join m_id o_id ?p (finish_row (env_now e)) outs (messages d)"
  from assms obtain d1 where
    app: "ApplyRefunds e (map refund_of (returning_join m_id o_id ?p outs (messages d))) (d\<lparr>messages := ?ms\<rparr>) = Inr d1"
    and d': "d' = deleteQueueRows wid (map o_id outs) d1"
    by (auto simp: commitTerminal_def Let_def split: if_splits sum.splits)
  from ApplyRefunds_frame [OF app] obtain us where us: "transactions d1 = transactions d @ us"
    and mem: "\<forall>t\<in>set us. \<exists>m\<in>set (returning_join m_id o_id ?p outs (messages d)). t_message_id t = Some (m_id m)"
    and fr: "messages d1 = ?ms" "queue d1 = queue d"
    by (auto simp: refund_of_def)
  have fid: "m_id (finish_row (env_now e) r x) = m_id x" for r x by (simp add: finish_row_def)
  show "view_of u d' = view_of u d" if none: "row_of o_id u outs = None"
  proof -
    have u: "u \<notin> o_id ` set outs" using none by (simp add: row_of_None_iff)
    then have "filter (\<lambda>t. t_message_id t = Some u) us = []"
      using mem by (auto simp: filter_empty_conv returning_join_def has_key_iff) fastforce
    with none u show ?thesis
      by (auto simp add: view_of_def d' us fr filter_key_update_join fid filter_key_deleteQueueRows
          simp del: deleteQueueRows_frame(5))
  qed
  assume some: "row_of o_id u outs = Some out"
  then have "u \<in> o_id ` set outs" by (auto dest: row_of_SomeD)
  with some show "fst (view_of u d') = map (\<lambda>m. if ?p m then finish_row (env_now e) out m else m) (fst (view_of u d)) \<and>
      fst (snd (view_of u d')) = filter (\<lambda>q. q_lease_owner q \<noteq> Some wid) (fst (snd (view_of u d)))"
    by (auto simp add: view_of_def d' fr filter_key_update_join fid filter_key_deleteQueueRows
          simp del: deleteQueueRows_frame(5))
qed


text \<open>\<^verbatim>\<open>lockOwned\<close> keeps exactly the outcomes that still hold their lease.\<close>

definition holds_lease :: "string \<Rightarrow> db \<Rightarrow> outcome \<Rightarrow> bool" where
  "holds_lease wid d out \<longleftrightarrow> (\<exists>q\<in>set (queue d). q_message_id q = o_id out \<and> q_lease_owner q = Some wid \<and>
     q_lease_version q = o_version out)"

lemma lockOwned_eq:
  assumes keys: "distinct (map q_message_id (queue d))"
  shows "lockOwned wid batch d = filter (holds_lease wid d) batch"
proof -
  let ?P = "\<lambda>q. q_lease_owner q = Some wid \<and>
     list_ex (\<lambda>out. o_id out = q_message_id q \<and> o_version out = q_lease_version q) batch"
  let ?cur = "map (\<lambda>q. (q_message_id q, q_lease_version q)) (filter ?P (queue d))"
  have "distinct (map fst (rev ?cur))"
    using keys by (simp add: comp_def distinct_map_filterI flip: rev_map)
  then have cur: "map_of (rev ?cur) u = Some v \<longleftrightarrow> (\<exists>q\<in>set (queue d). ?P q \<and> q_message_id q = u \<and> q_lease_version q = v)" for u v
    by (subst map_of_eq_Some_iff) auto
  have "filter (\<lambda>out. map_of (rev ?cur) (o_id out) = Some (o_version out)) batch = filter (holds_lease wid d) batch"
  proof (rule filter_cong [OF refl])
    fix out assume "out \<in> set batch"
    then show "(map_of (rev ?cur) (o_id out) = Some (o_version out)) = holds_lease wid d out"
      unfolding cur holds_lease_def by (intro bex_cong [OF refl]) (auto simp: list_ex_iff)
  qed
  then show ?thesis by (simp add: lockOwned_def Let_def)
qed

lemma recordApplied_subset: "set (recordApplied outs changed) \<subseteq> set outs"
  by (induction outs changed rule: recordApplied.induct) auto

lemma commit_view:
  assumes keys: "distinct (map q_message_id (queue d))"
    and com: "commit e wid sla batch d = Inr (d', r)"
    and free: "\<forall>out\<in>set batch. o_id out = u \<longrightarrow> \<not> holds_lease wid d out"
  shows "view_of u d' = view_of u d"
proof -
  let ?of = "\<lambda>P. filter P (filter (holds_lease wid d) (sort_key o_id batch))"
  have none: "row_of o_id u (?of P) = None" for P
    using free by (auto simp: row_of_None_iff)
  from com obtain d1 d2 d3 owned where owned: "owned = filter (holds_lease wid d) (sort_key o_id batch)"
    and d1: "d1 = fst (commitSent (env_now e) wid sla (filter (\<lambda>out. o_kind out = outcomeSent) owned) d)"
    and d2: "d2 = fst (commitRetry (env_now e) wid (filter (\<lambda>out. o_kind out = outcomeRetry) owned) d1)"
    and d3: "d3 = fst (commitDeferred (env_now e) wid (filter (\<lambda>out. o_kind out = outcomeDeferred) owned) d2)"
    and t: "(let ts = filter (\<lambda>out. o_kind out = outcomeFailed \<or> o_kind out = outcomeExpired) owned in
      if ts = [] then d' = d3 else \<exists>a x. commitTerminal e wid ts d3 = Inr (d', a, x))"
    by (rule commit_steps) (simp add: lockOwned_eq [OF keys])
  have "view_of u d3 = view_of u d"
    unfolding d3 d2 d1 owned view_commitDeferred view_commitRetry view_commitSent none by simp
  with t view_commitTerminal(1) [of e wid _ d3 d' _ _ u] none show ?thesis
    unfolding owned Let_def by (metis (no_types, lifting))
qed


lemma view_of_single:
  assumes "db_inv now d" "m \<in> set (messages d)"
  shows "fst (view_of (m_id m) d) = [m]"
  using filter_key_single [OF db_inv_keysD(2) [OF assms(1)] assms(2)] by (simp add: view_of_def)

lemma view_of_queue_single:
  assumes "db_inv now d" "q \<in> set (queue d)"
  shows "fst (snd (view_of (q_message_id q) d)) = [q]"
  using filter_key_single [OF db_inv_keysD(4) [OF assms(1)] assms(2)] by (simp add: view_of_def)

text \<open>The rows one owned outcome of a batch with distinct messages leads to.\<close>

definition outcome_rows :: "gtime \<Rightarrow> duration \<Rightarrow> outcome \<Rightarrow> message \<Rightarrow> queue_row \<Rightarrow> message \<times> queue_row list" where
  "outcome_rows now sla out m q =
     (case o_kind out of
        outcomeSent \<Rightarrow> (sent_row now sla out m, [])
      | outcomeRetry \<Rightarrow> (retry_row now out m, [release_row now (milliseconds (o_delay out)) q])
      | outcomeDeferred \<Rightarrow> (m, [release_row now (milliseconds (o_delay out)) q])
      | _ \<Rightarrow> (finish_row now out m, []))"

lemma row_of_filter_kind:
  assumes "distinct (map o_id batch)" "out \<in> set batch" "holds_lease wid d out"
  shows "row_of o_id (o_id out) (filter P (filter (holds_lease wid d) (sort_key o_id batch))) =
    (if P out then Some out else None)"
proof -
  let ?xs = "filter P (filter (holds_lease wid d) (sort_key o_id batch))"
  have sort: "distinct (map o_id (sort_key o_id batch))"
    using assms(1) by (simp add: distinct_map)
  then have dist: "distinct (map o_id ?xs)" by (intro distinct_map_filterI)
  show ?thesis
  proof (cases "P out")
    case True
    then show ?thesis using row_of_Some_iff [OF dist] assms(2,3) by simp
  next
    case False
    have "o_id out \<notin> o_id ` set ?xs"
    proof
      assume "o_id out \<in> o_id ` set ?xs"
      then obtain x where "x \<in> set batch" "P x" "o_id x = o_id out" by auto
      with distinct_key_unique [OF assms(1) this(1) assms(2)] False show False by simp
    qed
    with False show ?thesis by (simp add: row_of_None_iff)
  qed
qed

lemma delay_of_single:
  assumes "distinct (map o_id outs)" "out \<in> set outs"
  shows "delay_of outs (o_id out) = milliseconds (o_delay out)"
proof -
  have "distinct (map o_id (rev outs))" using assms(1) by (simp flip: rev_map)
  from row_of_Some_iff [OF this] assms(2) have "row_of o_id (o_id out) (rev outs) = Some out" by simp
  then show ?thesis by (simp add: delay_of_def)
qed

lemma commit_outcome:
  assumes inv: "db_inv (env_now e) d" and dist: "distinct (map o_id batch)"
    and com: "commit e wid sla batch d = Inr (d', r)"
    and out: "out \<in> set batch" and m: "m \<in> set (messages d)" "m_id m = o_id out" "m_status m = StatusAccepted"
    and q: "q \<in> set (queue d)" "q_message_id q = o_id out" "q_lease_owner q = Some wid" "q_lease_version q = o_version out"
  shows "fst (view_of (o_id out) d') = [fst (outcome_rows (env_now e) sla out m q)]"
    "fst (snd (view_of (o_id out) d')) = snd (outcome_rows (env_now e) sla out m q)"
proof -
  let ?now = "env_now e" and ?u = "o_id out"
  have hl: "holds_lease wid d out" using q by (auto simp: holds_lease_def)
  note row = row_of_filter_kind [OF dist out hl]
  obtain ts where v: "view_of ?u d = ([m], [q], ts)"
    using view_of_single [OF inv m(1)] view_of_queue_single [OF inv q(1)] m(2) q(2) by (metis prod.collapse)
  have ns: "m_sent_at m = None" using db_inv_rowsD(5) [OF inv m(1)] m(3) by (simp add: stamps_ok_def)
  from com obtain d1 d2 d3 owned where owned: "owned = filter (holds_lease wid d) (sort_key o_id batch)"
    and d1: "d1 = fst (commitSent ?now wid sla (filter (\<lambda>out. o_kind out = outcomeSent) owned) d)"
    and d2: "d2 = fst (commitRetry ?now wid (filter (\<lambda>out. o_kind out = outcomeRetry) owned) d1)"
    and d3: "d3 = fst (commitDeferred ?now wid (filter (\<lambda>out. o_kind out = outcomeDeferred) owned) d2)"
    and t: "(let ts = filter (\<lambda>out. o_kind out = outcomeFailed \<or> o_kind out = outcomeExpired) owned in
      if ts = [] then d' = d3 else \<exists>a x. commitTerminal e wid ts d3 = Inr (d', a, x))"
    by (rule commit_steps) (simp add: lockOwned_eq [OF db_inv_keysD(4) [OF inv]])
  let ?rs = "filter (\<lambda>out. o_kind out = outcomeRetry) owned"
  let ?ts = "filter (\<lambda>out. o_kind out = outcomeFailed \<or> o_kind out = outcomeExpired) owned"
  have delay: "o_kind out = outcomeRetry \<Longrightarrow> delay_of ?rs ?u = milliseconds (o_delay out)"
    by (rule delay_of_single) (use dist out hl in \<open>auto simp: owned distinct_map inj_on_def\<close>)
  have v3: "view_of ?u d3 = (if o_kind out = outcomeSent then ([sent_row ?now sla out m], [], ts)
      else if o_kind out = outcomeRetry then ([retry_row ?now out m], [release_row ?now (milliseconds (o_delay out)) q], ts)
      else if o_kind out = outcomeDeferred then ([m], [release_row ?now (milliseconds (o_delay out)) q], ts)
      else ([m], [q], ts))"
    unfolding d3 d2 d1 view_commitDeferred view_commitRetry view_commitSent
    using v m(3) q(3) ns delay row by (auto simp: owned sent_row_def retry_row_def release_row_def)
  have last: "view_of ?u d' = view_of ?u d3" if "\<not> (o_kind out = outcomeFailed \<or> o_kind out = outcomeExpired)"
  proof -
    have "row_of o_id ?u ?ts = None" using row that unfolding owned by simp
    then show ?thesis using t view_commitTerminal(1) by (cases "?ts = []") (auto simp: Let_def)
  qed
  have fin: "fst (view_of ?u d') = [finish_row ?now out m] \<and> fst (snd (view_of ?u d')) = []"
    if k: "o_kind out = outcomeFailed \<or> o_kind out = outcomeExpired"
  proof -
    have r: "row_of o_id ?u ?ts = Some out" using row k unfolding owned by simp
    then have "?ts \<noteq> []" by (auto simp: row_of_def)
    then obtain a x where "commitTerminal e wid ?ts d3 = Inr (d', a, x)" using t by (auto simp: Let_def)
    from view_commitTerminal(2) [OF this r] v3 k m(3) q(3) show ?thesis by auto
  qed
  show "fst (view_of ?u d') = [fst (outcome_rows ?now sla out m q)]"
    "fst (snd (view_of ?u d')) = snd (outcome_rows ?now sla out m q)"
    using last fin v3 by (cases "o_kind out"; simp add: outcome_rows_def)+
qed


subsection \<open>Batches\<close>

fun received :: "run_event list \<Rightarrow> outcome list" where
  "received [] = []"
| "received (Recv out # es) = out # received es"
| "received (Timer # es) = received es"
| "received (Quit outs # es) = outs"
| "received (Cancelled # es) = []"

text \<open>A run that ends by \<^verbatim>\<open>stop\<close> and is not cancelled.\<close>

fun stopped :: "run_event list \<Rightarrow> bool" where
  "stopped [] = False"
| "stopped (Recv out # es) = stopped es"
| "stopped (Timer # es) = stopped es"
| "stopped (Quit outs # es) = True"
| "stopped (Cancelled # es) = False"

lemma drain_concat: "length batch < sz \<Longrightarrow> concat (drain sz batch outs) = batch @ outs"
  by (induction sz batch outs rule: drain.induct) (auto simp: Let_def)

lemma drain_sizes: "length batch < sz \<Longrightarrow> list_all (\<lambda>b. b \<noteq> [] \<and> length b \<le> sz) (drain sz batch outs)"
  by (induction sz batch outs rule: drain.induct) (auto simp: Let_def)

lemma run_concat: "length batch < sz \<Longrightarrow> stopped es \<Longrightarrow> concat (run sz batch es) = batch @ received es"
  by (induction sz batch es rule: run.induct) (simp_all add: Let_def drain_concat)

lemma run_sizes: "length batch < sz \<Longrightarrow> list_all (\<lambda>b. b \<noteq> [] \<and> length b \<le> sz) (run sz batch es)"
  by (induction sz batch es rule: run.induct) (simp_all add: Let_def drain_sizes)

interpretation completer_batches: group_commit "run (Suc n) []" received stopped for n
proof
  show "concat (run (Suc n) [] es) = received es" if "stopped es" for es
    using run_concat [of "[]" "Suc n" es] that by simp
  show "b \<noteq> []" if "b \<in> set (run (Suc n) [] es)" for b es
    using run_sizes [of "[]" "Suc n" es] that by (auto simp: list_all_iff)
qed

subsection \<open>Properties\<close>

lemma commit_owned:
  assumes inv: "db_inv (env_now e) d" and dist: "distinct (map o_id batch)"
    and com: "commit e wid sla batch d = Inr (d', r)"
    and out: "out \<in> set batch" and m: "m \<in> set (messages d)" "m_id m = o_id out" "m_status m = StatusAccepted"
    and q: "q \<in> set (queue d)" "q_message_id q = o_id out" "q_lease_owner q = Some wid" "q_lease_version q = o_version out"
  shows "filter (\<lambda>m. m_id m = o_id out) (messages d') = [fst (outcome_rows (env_now e) sla out m q)]"
    "filter (\<lambda>q. q_message_id q = o_id out) (queue d') = snd (outcome_rows (env_now e) sla out m q)"
    "map t_amount (txns_of KindRefund (o_id out) (transactions d')) =
      (if o_kind out = outcomeFailed \<or> o_kind out = outcomeExpired then [m_cost m] else [])"
proof -
  let ?m = "fst (outcome_rows (env_now e) sla out m q)"
  note eff = commit_outcome [OF assms]
  show ms: "filter (\<lambda>m. m_id m = o_id out) (messages d') = [?m]"
    and "filter (\<lambda>q. q_message_id q = o_id out) (queue d') = snd (outcome_rows (env_now e) sla out m q)"
    using eff by (simp_all add: view_of_def)
  have "?m \<in> set (filter (\<lambda>m. m_id m = o_id out) (messages d'))" unfolding ms by simp
  then have m': "?m \<in> set (messages d')" "m_id ?m = o_id out" by simp_all
  have "m_cost ?m = m_cost m"
    "ended (m_status ?m) \<longleftrightarrow> o_kind out = outcomeFailed \<or> o_kind out = outcomeExpired"
    using m(3) by (cases "o_kind out"; simp add: outcome_rows_def sent_row_def retry_row_def finish_row_def)+
  with m' db_inv_rowsD(4) [OF commit_inv [OF inv com] m'(1)]
  show "map t_amount (txns_of KindRefund (o_id out) (transactions d')) =
      (if o_kind out = outcomeFailed \<or> o_kind out = outcomeExpired then [m_cost m] else [])"
    by (simp add: message_ledger_ok_def)
qed


text \<open>C6: Outcomes whose lease is lost are fenced off: if no outcome of a batch for a message still holds the
  worker's lease of the same version, the commit leaves everything the database says about that
  message as it was: its row, its queue row and its ledger.\<close>

theorem commit_fenced:
  assumes "db_inv now d" "commit e wid sla batch d = Inr (d', r)"
    and "\<forall>out\<in>set batch. o_id out = u \<longrightarrow> \<not> holds_lease wid d out"
  shows "view_of u d' = view_of u d"
  by (rule commit_view [OF db_inv_keysD(4) [OF assms(1)] assms(2,3)])


text \<open>C19: The completer loses and reorders nothing: until it is stopped, the batches it flushes are the
  outcomes it received, in order, cut into non-empty batches of at most the configured size.\<close>

theorem run_complete:
  assumes "0 < sz" "stopped es"
  shows "concat (run sz [] es) = received es \<and> list_all (\<lambda>b. b \<noteq> [] \<and> length b \<le> sz) (run sz [] es) \<and>
    (\<Sum>b\<leftarrow>run sz [] es. count (mset b) out) = count (mset (received es)) out"
  using assms completer_batches.complete [where n = "sz - 1" and es = es]
    completer_batches.each_once [where n = "sz - 1" and es = es and x = out]
    run_sizes [of "[]" sz es] by simp


text \<open>C14: A lease that was claimed again is worthless: once a message has been reclaimed, by the same
  worker or another, committing the outcome of the earlier claim changes nothing at all.\<close>

theorem reclaim_fences:
  assumes inv: "db_inv now d"
    and first: "claim now1 clock1 wid1 lease1 locked1 lane1 n1 d = (d1, jobs1)" and j: "j \<in> set jobs1"
    and second: "claim now2 clock2 wid2 lease2 locked2 lane2 n2 d1 = (d2, jobs2)" and again: "j_id j \<in> j_id ` set jobs2"
    and out: "o_job out = j"
  shows "commit e wid1 sla [out] d2 = Inr (d2, \<lparr>res_applied = [], res_refunded = 0\<rparr>)"
proof -
  note k = db_inv_keysD(4) [OF inv]
  then have k1: "distinct (map q_message_id (queue d1))" by (simp add: claim_frame(5) [OF first])
  then have k2: "distinct (map q_message_id (queue d2))" by (simp add: claim_frame(5) [OF second])
  obtain q1 m1 where q1: "lease_row now1 wid1 lease1 q1 \<in> set (queue d1)" "m_id m1 = q_message_id q1"
      "j = job_of now1 clock1 m1 (lease_row now1 wid1 lease1 q1)"
    by (rule claim_jobD [OF k first j])
  from again obtain j2 where j2: "j2 \<in> set jobs2" "j_id j2 = j_id j" by auto
  obtain q2 m2 where q2: "q2 \<in> set (queue d1)" "lease_row now2 wid2 lease2 q2 \<in> set (queue d2)"
      "m_id m2 = q_message_id q2" "j2 = job_of now2 clock2 m2 (lease_row now2 wid2 lease2 q2)"
    by (rule claim_jobD [OF k1 second j2(1)])
  have id2: "q_message_id q2 = o_id out" using q2 j2 out by (simp add: job_of_def)
  then have "q2 = lease_row now1 wid1 lease1 q1"
    using q1 out by (intro distinct_key_unique [OF k1 q2(1) q1(1)]) (simp add: job_of_def lease_row_def)
  then have ver: "o_version out + 1 = q_lease_version (lease_row now2 wid2 lease2 q2)"
    using q1(3) out by (simp add: job_of_def lease_row_def)
  have "\<not> holds_lease wid1 d2 out"
  proof
    assume "holds_lease wid1 d2 out"
    then obtain q where q: "q \<in> set (queue d2)" "q_message_id q = o_id out" "q_lease_version q = o_version out"
      by (auto simp: holds_lease_def)
    have "q = lease_row now2 wid2 lease2 q2"
      using q(2) id2 by (intro distinct_key_unique [OF k2 q(1) q2(2)]) (simp add: lease_row_def)
    with q(3) ver show False by simp
  qed
  then show ?thesis by (simp add: commit_def lockOwned_eq [OF k2] Let_def)
qed

subsection \<open>Instances\<close>

definition demo_outcome :: outcome where
  "demo_outcome = \<lparr>o_kind = outcomeFailed, o_job = demo_job, o_provider = ''p1'', o_provider_ref = [], o_err = ''HTTP 400'',
     o_delay = 0, o_reason = Some ReasonRejected, o_attempted = True\<rparr>"

lemma demo_leased_rows:
  "demo_message \<in> set (messages demo_leased)" "lease_row 1000 ''w1'' (30 * second) demo_queue_row \<in> set (queue demo_leased)"
  by (simp_all add: demo_leased_def demo_db_def)

text \<open>The commit of a rejected message ends it and refunds its ten credits.\<close>

definition demo_refund :: transaction where
  "demo_refund = \<lparr>t_id = 100, t_customer_id = 1, t_kind = KindRefund, t_amount = 10, t_message_id = Some 2,
     t_client_ref = None, t_created_at = 1000\<rparr>"

definition demo_failed :: db where
  "demo_failed = \<lparr>customers = [demo_customer\<lparr>c_balance := 1000, c_updated_at := 1000\<rparr>],
     messages = [finish_row 1000 demo_outcome demo_message],
     transactions = [demo_charge, demo_debit, demo_refund], queue = [], workers = []\<rparr>"

lemma demo_commit:
  "commit demo_env ''w1'' (10 * second) [demo_outcome] demo_leased =
     Inr (demo_failed, \<lparr>res_applied = [demo_outcome], res_refunded = 10\<rparr>)"
proof -
  have "holds_lease ''w1'' demo_leased demo_outcome"
    by (simp add: holds_lease_def demo_leased_def demo_outcome_def demo_job_def demo_queue_row_def lease_row_def)
  then have own: "lockOwned ''w1'' [demo_outcome] demo_leased = [demo_outcome]"
    using lockOwned_eq [OF db_inv_keysD(4) [OF demo_leased_inv]] by simp
  have "commitTerminal demo_env ''w1'' [demo_outcome] demo_leased = Inr (demo_failed, [demo_outcome], 10)"
    by (simp add: commitTerminal_def Let_def update_join_def returning_join_def row_of_def has_key_def demo_leased_def
        demo_failed_def demo_outcome_def demo_job_def demo_defs demo_refund_def finish_row_def message_check_def
        ApplyRefunds_def refund_of_def refund_transaction_def transaction_check_def message_kind_taken_def
        insert_transaction_def refund_totals_def add_balance_def in_int64_def max_int64_def update_where_def
        deleteQueueRows_def lease_row_def NullString_def)
  moreover have "o_kind demo_outcome = outcomeFailed" by (simp add: demo_outcome_def)
  ultimately show ?thesis by (simp add: commit_def own Let_def)
qed



text \<open>The same outcome committed once more finds no lease and changes nothing.\<close>

lemma demo_failed_inv: "db_inv 1000 demo_failed"
  using commit_inv [OF _ demo_commit] demo_leased_inv by (simp add: demo_env_def)

lemma demo_not_held:
  "\<not> holds_lease ''w1'' demo_failed demo_outcome" "\<not> holds_lease ''w2'' demo_leased demo_outcome"
  by (simp_all add: holds_lease_def demo_failed_def demo_leased_def demo_queue_row_def lease_row_def)

lemma demo_commit_unowned:
  "commit demo_env ''w1'' (10 * second) [demo_outcome] demo_failed =
     Inr (demo_failed, \<lparr>res_applied = [], res_refunded = 0\<rparr>)"
  "commit demo_env ''w2'' (10 * second) [demo_outcome] demo_leased =
     Inr (demo_leased, \<lparr>res_applied = [], res_refunded = 0\<rparr>)"
  by (simp_all add: commit_def lockOwned_eq [OF db_inv_keysD(4) [OF demo_failed_inv]]
      lockOwned_eq [OF db_inv_keysD(4) [OF demo_leased_inv]] demo_not_held Let_def)

theorem commit_fenced_witness:
  "\<exists>d' r. commit demo_env ''w2'' (10 * second) [demo_outcome] demo_leased = Inr (d', r) \<and>
     view_of 2 d' = view_of 2 demo_leased"
  using commit_fenced [OF demo_leased_inv demo_commit_unowned(2), of 2] demo_not_held demo_commit_unowned(2) by simp


theorem run_complete_witness:
  "concat (run 2 [] [Recv demo_outcome, Timer, Quit [demo_outcome, demo_outcome, demo_outcome]]) =
     [demo_outcome, demo_outcome, demo_outcome, demo_outcome]"
  using run_complete [of 2 "[Recv demo_outcome, Timer, Quit [demo_outcome, demo_outcome, demo_outcome]]"] by simp

theorem reclaim_fences_witness:
  "commit demo_env ''w1'' (10 * second) [demo_outcome]
     (fst (claim 40000000000 0 ''w1'' (30 * second) (\<lambda>u. False) ''normal-0'' 5 demo_leased)) =
   Inr (fst (claim 40000000000 0 ''w1'' (30 * second) (\<lambda>u. False) ''normal-0'' 5 demo_leased),
     \<lparr>res_applied = [], res_refunded = 0\<rparr>)"
proof (rule reclaim_fences [OF demo_db_inv demo_claim _ surjective_pairing])
  show "j_id demo_job \<in> j_id ` set (snd (claim 40000000000 0 ''w1'' (30 * second) (\<lambda>u. False) ''normal-0'' 5 demo_leased))"
    by (simp add: claim_def picked_def ready_def row_of_def update_where_def demo_leased_def demo_job_def job_of_def
      lease_row_def demo_db_def demo_message_def demo_queue_row_def map_filter_def interval_ms_def milliseconds_def
      second_def millisecond_def)
qed (simp_all add: demo_outcome_def)

end
