(* ===== verification/Dlr.thy ===== *)
theory Dlr
  imports Completer Batching
begin

text \<open>
  Delivery reports: \<^verbatim>\<open>internal/dlr/apply.go\<close>, the transaction that applies a batch of reports and
  classifies each, and \<^verbatim>\<open>batcher.go\<close>, the group commit that releases every caller with the result
  of its own report. A report's status is one of the column's statuses; the handler only lets
  delivered and undelivered through.
\<close>

subsection \<open>Applying reports\<close>

record report =
  rp_message_id :: uuid
  rp_provider :: string
  rp_provider_ref :: string
  rp_status :: status

datatype dlr_outcome = Applied | Duplicate | IgnoredTerminal | Unknown

text \<open>The first index of every message, and the first report of every message in order.\<close>

fun first_reports :: "nat \<Rightarrow> (uuid \<times> nat) list \<Rightarrow> report list \<Rightarrow> (uuid \<times> nat) list \<times> report list" where
  "first_reports i first [] = (first, [])"
| "first_reports i first (r # rs) =
     (case map_of first (rp_message_id r) of
        Some j \<Rightarrow> first_reports (Suc i) first rs
      | None \<Rightarrow> (let (first', us) = first_reports (Suc i) ((rp_message_id r, i) # first) rs in (first', r # us)))"

definition open_status :: "status \<Rightarrow> bool" where
  "open_status st \<longleftrightarrow> st = StatusAccepted \<or> st = StatusSent"

definition report_row :: "gtime \<Rightarrow> report \<Rightarrow> message \<Rightarrow> message" where
  "report_row now r m =
     m\<lparr>m_status := rp_status r, m_completed_at := Some now,
       m_provider := (case m_provider m of None \<Rightarrow> Some (rp_provider r) | Some s \<Rightarrow> Some s),
       m_provider_ref := (case m_provider_ref m of None \<Rightarrow> Some (rp_provider_ref r) | Some s \<Rightarrow> Some s),
       m_updated_at := now\<rparr>"

text \<open>The transaction: the update, and the statuses of the messages it did not change.\<close>

definition apply_body ::
    "gtime \<Rightarrow> report list \<Rightarrow> db \<Rightarrow> error + db \<times> uuid list \<times> (uuid \<times> status) list" where
  "apply_body now uniq d =
     (let sorted = sort_key rp_message_id uniq;
          p = (\<lambda>m. open_status (m_status m));
          ms = update_join m_id rp_message_id p (report_row now) sorted (messages d);
          updated = map m_id (returning_join m_id rp_message_id p sorted (messages d));
          rest = filter (\<lambda>u. u \<notin> set updated) (map rp_message_id sorted);
          current = (if length updated = length sorted then []
                     else map (\<lambda>m. (m_id m, m_status m)) (filter (\<lambda>m. m_id m \<in> set rest) ms))
      in if \<not> list_all message_check ms
         then Inl (DbErr ''apply delivery reports'' (CheckViolation ''messages''))
         else Inr (d\<lparr>messages := ms\<rparr>, updated, current))"

definition report_outcome ::
    "(uuid \<times> nat) list \<Rightarrow> uuid list \<Rightarrow> (uuid \<times> status) list \<Rightarrow> nat \<Rightarrow> report \<Rightarrow> dlr_outcome" where
  "report_outcome first applied current i r =
     (let u = rp_message_id r
      in if u \<in> set applied \<and> map_of first u = Some i then Applied
         else if u \<in> set applied then Duplicate
         else case map_of (rev current) u of
             None \<Rightarrow> Unknown
           | Some st \<Rightarrow> if st = rp_status r then Duplicate else IgnoredTerminal)"

definition Apply :: "tx_fault \<Rightarrow> gtime \<Rightarrow> report list \<Rightarrow> db \<Rightarrow> db \<times> (error + dlr_outcome list)" where
  "Apply fault now reports d =
     (let (first, uniq) = first_reports 0 [] reports
      in case WithTx tx_error fault (apply_body now uniq) d of
          (d', Inl err) \<Rightarrow> (d', Inl err)
        | (d', Inr (applied, current)) \<Rightarrow>
            (d', Inr (map (\<lambda>(i, r). report_outcome first applied current i r) (enumerate 0 reports))))"

subsection \<open>The batcher\<close>

text \<open>\<^verbatim>\<open>commit\<close>: one result per pending report, in order.\<close>

definition batch_commit :: "tx_fault \<Rightarrow> gtime \<Rightarrow> report list \<Rightarrow> db \<Rightarrow> db \<times> (error + dlr_outcome) list" where
  "batch_commit fault now batch d =
     (case Apply fault now batch d of
        (d', Inl err) \<Rightarrow> (d', map (\<lambda>r. Inl err) batch)
      | (d', Inr outs) \<Rightarrow> (d', map Inr outs))"

text \<open>\<^verbatim>\<open>Run\<close>: what the select loop receives, and the batches it commits. When the context ends, all that
  is left in the channel joins the last batch.\<close>

datatype batcher_event = Submitted report | Tick | Done "report list"

fun batcher_run :: "nat \<Rightarrow> report list \<Rightarrow> batcher_event list \<Rightarrow> report list list" where
  "batcher_run sz batch [] = []"
| "batcher_run sz batch (Submitted r # es) =
     (let b = batch @ [r] in if sz \<le> length b then b # batcher_run sz [] es else batcher_run sz b es)"
| "batcher_run sz batch (Tick # es) = (if batch = [] then batcher_run sz [] es else batch # batcher_run sz [] es)"
| "batcher_run sz batch (Done rs # es) = (if batch @ rs = [] then [] else [batch @ rs])"


subsection \<open>First reports\<close>

definition first_at :: "report list \<Rightarrow> uuid \<Rightarrow> nat \<Rightarrow> bool" where
  "first_at rs u i \<longleftrightarrow> i < length rs \<and> rp_message_id (rs ! i) = u \<and> (\<forall>j<i. rp_message_id (rs ! j) \<noteq> u)"

lemma first_at_Cons:
  "first_at (r # rs) u i \<longleftrightarrow> (if rp_message_id r = u then i = 0 else 0 < i \<and> first_at rs u (i - 1))"
proof (cases i)
  case (Suc k)
  have "(\<forall>j<Suc k. rp_message_id ((r # rs) ! j) \<noteq> u) \<longleftrightarrow> rp_message_id r \<noteq> u \<and> (\<forall>j<k. rp_message_id (rs ! j) \<noteq> u)"
    by (auto simp: All_less_Suc2)
  then show ?thesis by (auto simp: first_at_def Suc)
qed (auto simp: first_at_def)

lemma first_reports_index:
  "map_of (fst (first_reports i first rs)) u = Some k \<longleftrightarrow>
     map_of first u = Some k \<or> map_of first u = None \<and> i \<le> k \<and> first_at rs u (k - i)"
proof (induction i first rs rule: first_reports.induct)
  case (1 i first)
  then show ?case by (simp add: first_at_def)
next
  case (2 i first r rs)
  show ?case
  proof (cases "map_of first (rp_message_id r)")
    case None
    with 2(1) [OF None] show ?thesis
      by (auto simp: first_at_Cons split_beta Let_def Suc_le_eq)
  next
    case (Some j)
    with 2(2) [OF Some] show ?thesis
      by (auto simp: first_at_Cons Suc_le_eq)
  qed
qed

lemma first_reports_row:
  "row_of rp_message_id u (snd (first_reports i first rs)) =
     (if map_of first u = None then row_of rp_message_id u rs else None)"
proof (induction i first rs rule: first_reports.induct)
  case (2 i first r rs)
  then show ?case
    by (cases "map_of first (rp_message_id r)") (auto simp: row_of_def split_beta Let_def)
qed (simp add: row_of_def)

lemma first_reports_distinct:
  "distinct (map rp_message_id (snd (first_reports i first rs))) \<and>
   (\<forall>r\<in>set (snd (first_reports i first rs)). map_of first (rp_message_id r) = None)"
proof (induction i first rs rule: first_reports.induct)
  case (2 i first r rs)
  then show ?case
    by (cases "map_of first (rp_message_id r)") (auto simp: split_beta Let_def split: if_splits)
qed simp

lemma row_of_sort_key:
  assumes "distinct (map key rs)"
  shows "row_of key u (sort_key f rs) = row_of key u rs"
proof -
  have "distinct (map key (sort_key f rs))" using assms by (simp add: distinct_map)
  from row_of_Some_iff [OF this] row_of_Some_iff [OF assms] show ?thesis
    by (metis not_Some_eq set_sort)
qed

subsection \<open>The specification of a batch\<close>

definition deliver :: "gtime \<Rightarrow> report list \<Rightarrow> message \<Rightarrow> message" where
  "deliver now reports m =
     (case row_of rp_message_id (m_id m) reports of
        None \<Rightarrow> m
      | Some r \<Rightarrow> if open_status (m_status m) then report_row now r m else m)"

definition outcome_spec :: "report list \<Rightarrow> db \<Rightarrow> nat \<Rightarrow> dlr_outcome" where
  "outcome_spec reports d i =
     (let r = reports ! i
      in case row_of m_id (rp_message_id r) (messages d) of
          None \<Rightarrow> Unknown
        | Some m \<Rightarrow>
            if open_status (m_status m)
            then (if \<forall>j<i. rp_message_id (reports ! j) \<noteq> rp_message_id r then Applied else Duplicate)
            else if m_status m = rp_status r then Duplicate
            else IgnoredTerminal)"

definition reports_ok :: "report list \<Rightarrow> bool" where
  "reports_ok reports \<longleftrightarrow> list_all (\<lambda>r. rp_status r = StatusDelivered \<or> rp_status r = StatusUndelivered) reports"

lemma report_row_ok:
  assumes "stamps_ok now m" "message_check m" "open_status (m_status m)"
    "rp_status r = StatusDelivered \<or> rp_status r = StatusUndelivered"
  shows "same_core m (report_row now r m) \<and> ended (m_status (report_row now r m)) = ended (m_status m) \<and>
    message_check (report_row now r m) \<and> stamps_ok now (report_row now r m) \<and>
    m_status (report_row now r m) \<noteq> StatusAccepted"
  using assms by (auto simp: report_row_def same_core_def message_check_def stamps_ok_def open_status_def)

lemma deliver_inv:
  assumes inv: "db_inv now d" and ok: "reports_ok reports"
  shows "db_inv now (d\<lparr>messages := map (deliver now reports) (messages d)\<rparr>)"
proof -
  have "d\<lparr>messages := map (deliver now reports) (messages d)\<rparr> =
      d\<lparr>messages := update_join m_id rp_message_id (\<lambda>m. open_status (m_status m)) (report_row now) reports (messages d)\<rparr>"
    by (simp add: update_join_def deliver_def cong: map_cong)
  also have "db_inv now \<dots>"
  proof (rule db_inv_update_join [OF inv])
    fix r m assume "r \<in> set reports" "m \<in> set (messages d)" "open_status (m_status m)"
    with report_row_ok [of now m r] db_inv_rowsD [OF inv] ok
    show "same_core m (report_row now r m) \<and> ended (m_status (report_row now r m)) = ended (m_status m) \<and>
        message_check (report_row now r m) \<and> stamps_ok now (report_row now r m) \<and>
        (m_status (report_row now r m) = StatusAccepted \<longrightarrow> m_status m = StatusAccepted)"
      by (auto simp: reports_ok_def list_all_iff)
  qed
  finally show ?thesis .
qed


lemma row_of_filter_key:
  "distinct (map key rows) \<Longrightarrow> filter (\<lambda>x. key x = u) rows = (case row_of key u rows of None \<Rightarrow> [] | Some x \<Rightarrow> [x])"
proof (cases "row_of key u rows")
  case None
  then have "\<forall>x\<in>set rows. key x \<noteq> u" by (auto simp: row_of_None_iff)
  then show ?thesis by (simp add: None filter_empty_conv)
next
  case (Some x)
  then show "distinct (map key rows) \<Longrightarrow> ?thesis" using filter_key_single [of key rows x] row_of_SomeD [OF Some] by simp
qed

lemma map_enumerate_eq:
  "(\<And>i. i < length xs \<Longrightarrow> f i (xs ! i) = g i) \<Longrightarrow> map (\<lambda>(i, x). f i x) (enumerate 0 xs) = map g [0..<length xs]"
  by (rule nth_equalityI) (simp_all add: nth_enumerate_eq)

lemma deliver_id [simp]: "m_id (deliver now reports m) = m_id m"
  by (simp add: deliver_def report_row_def split: option.splits)

lemma row_of_map: "(\<And>x. key (f x) = key x) \<Longrightarrow> row_of key k (map f xs) = map_option f (row_of key k xs)"
  by (induction xs) (simp_all add: row_of_def)

text \<open>The second query looks up what the update left out, and only if it left out something.\<close>

lemma remaining_lookup:
  fixes key :: "'r \<Rightarrow> uuid" and f :: "'a \<Rightarrow> 'b"
  assumes keys: "distinct (map k ms)" and dist: "distinct upd" "distinct (map key srt)" "set upd \<subseteq> key ` set srt" and u: "u \<in> key ` set srt"
  shows "map_of (rev (if length upd = length srt then []
      else map (\<lambda>m. (k m, f m)) (filter (\<lambda>m. k m \<in> set (filter (\<lambda>u. u \<notin> set upd) (map key srt))) ms))) u =
    (if u \<in> set upd then None else map_option f (row_of k u ms))"
    (is "map_of (rev (if _ then [] else ?cur)) u = _")
proof (cases "u \<in> set upd")
  case True
  then have "u \<notin> fst ` set ?cur" by auto
  then show ?thesis using True by (simp add: map_of_eq_None_iff del: set_map set_filter)
next
  case False
  have len: "length upd \<noteq> length srt"
  proof
    assume eq: "length upd = length srt"
    have "card (set upd) = card (key ` set srt)" using distinct_card [OF dist(1)] distinct_card [OF dist(2)] eq by simp
    then have "set upd = key ` set srt" by (intro card_subset_eq) (use dist(3) in auto)
    with False u show False by simp
  qed
  have "distinct (map fst (rev ?cur))" using keys by (simp add: comp_def distinct_map_filterI flip: rev_map)
  then have found: "map_of (rev ?cur) u = Some v \<longleftrightarrow> (u, v) \<in> set ?cur" for v by (simp only: map_of_eq_Some_iff set_rev)
  have left: "(u, v) \<in> set ?cur \<longleftrightarrow> map_option f (row_of k u ms) = Some v" for v
  proof -
    have "(u, v) \<in> set ?cur \<longleftrightarrow> (\<exists>m. m \<in> set ms \<and> k m = u \<and> f m = v)" using False u by force
    then have "(u, v) \<in> set ?cur \<longleftrightarrow> (\<exists>m. row_of k u ms = Some m \<and> f m = v)" unfolding row_of_Some_iff [OF keys] by blast
    then show ?thesis by (simp only: map_option_eq_Some)
  qed
  have same: "x = y" if "\<And>v. x = Some v \<longleftrightarrow> y = Some v" for x y :: "'b option" using that [of "the x"] that [of "the y"] by (cases x; cases y) auto
  have "map_of (rev ?cur) u = map_option f (row_of k u ms)" by (rule same) (simp only: found left)
  then show ?thesis using False len by simp
qed

lemma Apply_eq:
  assumes inv: "db_inv now d" and ok: "reports_ok reports"
  shows "Apply NoFault now reports d =
    (d\<lparr>messages := map (deliver now reports) (messages d)\<rparr>, Inr (map (outcome_spec reports d) [0..<length reports]))"
proof -
  let ?fr = "first_reports 0 [] reports" and ?p = "\<lambda>m. open_status (m_status m)"
  let ?srt = "sort_key rp_message_id (snd ?fr)"
  let ?ms = "update_join m_id rp_message_id ?p (report_row now) ?srt (messages d)"
  let ?upd = "map m_id (returning_join m_id rp_message_id ?p ?srt (messages d))"
  let ?rest = "filter (\<lambda>u. u \<notin> set ?upd) (map rp_message_id ?srt)"
  let ?cur = "if length ?upd = length ?srt then [] else map (\<lambda>m. (m_id m, m_status m)) (filter (\<lambda>m. m_id m \<in> set ?rest) ?ms)"
  have keys: "distinct (map m_id (messages d))" by (rule db_inv_keysD(2) [OF inv])
  have dist: "distinct (map rp_message_id (snd ?fr))" using first_reports_distinct by blast
  have row: "row_of rp_message_id u ?srt = row_of rp_message_id u reports" for u
    by (simp add: row_of_sort_key [OF dist] first_reports_row)
  have ids: "rp_message_id ` set ?srt = rp_message_id ` set reports"
    using row by (metis row_of_None_iff subsetI subset_antisym)
  have ms: "?ms = map (deliver now reports) (messages d)"
    by (simp add: update_join_def deliver_def row cong: map_cong)
  have chk: "list_all message_check ?ms"
    using db_inv_rowsD(2) [OF deliver_inv [OF inv ok]] by (auto simp: ms list_all_iff)
  have upd: "u \<in> set ?upd \<longleftrightarrow> u \<in> rp_message_id ` set reports \<and>
      (\<exists>m. row_of m_id u (messages d) = Some m \<and> ?p m)" for u
    unfolding pending_iff ids row_of_filter_key [OF keys] by (auto split: option.splits)
  have body: "apply_body now (snd ?fr) d = Inr (d\<lparr>messages := ?ms\<rparr>, ?upd, ?cur)"
    using chk by (simp add: apply_body_def Let_def del: set_map)
  have kept: "row_of m_id u ?ms = row_of m_id u (messages d)" if "u \<in> rp_message_id ` set reports" "u \<notin> set ?upd" for u
  proof (cases "row_of m_id u (messages d)")
    case (Some m)
    then have "\<not> ?p m" using upd [of u] that by auto
    then show ?thesis using Some by (simp add: ms row_of_map [where f = "deliver now reports" and key = m_id, OF deliver_id]) (simp add: deliver_def split: option.splits)
  qed (simp add: ms row_of_map)
  have cur: "map_of (rev ?cur) u = (if u \<in> set ?upd then None else map_option m_status (row_of m_id u (messages d)))"
    if u: "u \<in> rp_message_id ` set reports" for u
  proof -
    have "distinct (map m_id ?ms)" using keys by (simp add: ms comp_def)
    moreover have "distinct ?upd" using keys by (simp add: returning_join_def distinct_map_filterI)
    moreover have "distinct (map rp_message_id ?srt)" using dist by (simp add: distinct_map)
    moreover have "set ?upd \<subseteq> rp_message_id ` set ?srt" using upd ids by blast
    moreover have "u \<in> rp_message_id ` set ?srt" unfolding ids by (rule u)
    ultimately have "map_of (rev ?cur) u = (if u \<in> set ?upd then None else map_option m_status (row_of m_id u ?ms))" by (rule remaining_lookup)
    then show ?thesis using kept [OF u] by (cases "u \<in> set ?upd") (simp_all only: if_True if_False not_False_eq_True)
  qed
  have out: "report_outcome (fst ?fr) ?upd ?cur i (reports ! i) = outcome_spec reports d i"
    if i: "i < length reports" for i
  proof -
    let ?u = "rp_message_id (reports ! i)"
    have u: "?u \<in> rp_message_id ` set reports" using i by simp
    have "map_of (fst ?fr) ?u = Some i \<longleftrightarrow> (\<forall>j<i. rp_message_id (reports ! j) \<noteq> ?u)"
      using i by (simp add: first_reports_index first_at_def)
    then show ?thesis
      unfolding report_outcome_def outcome_spec_def Let_def cur [OF u] upd [of ?u] using u
      by (cases "row_of m_id ?u (messages d)") auto
  qed
  have "map (\<lambda>(i, r). report_outcome (fst ?fr) ?upd ?cur i r) (enumerate 0 reports) =
      map (outcome_spec reports d) [0..<length reports]"
    by (rule map_enumerate_eq) (rule out)
  then show ?thesis
    using body unfolding ms Apply_def split_beta WithTx_def by simp
qed


text \<open>After a batch, the messages it named are closed, so a second run of the same batch finds nothing to do.\<close>

lemma deliver_twice:
  assumes "reports_ok reports"
  shows "deliver now' reports (deliver now reports m) = deliver now reports m"
proof (cases "row_of rp_message_id (m_id m) reports")
  case (Some r)
  then have "rp_status r = StatusDelivered \<or> rp_status r = StatusUndelivered"
    using assms by (auto simp: reports_ok_def list_all_iff dest!: row_of_SomeD)
  then have "\<not> open_status (rp_status r)" by (auto simp: open_status_def)
  then have "\<not> open_status (m_status (deliver now reports m))"
    by (simp add: deliver_def Some report_row_def)
  then show ?thesis by (simp add: deliver_def [of now'] Some)
qed (simp add: deliver_def)

subsection \<open>Batches\<close>

fun submitted :: "batcher_event list \<Rightarrow> report list" where
  "submitted [] = []"
| "submitted (Submitted r # es) = r # submitted es"
| "submitted (Tick # es) = submitted es"
| "submitted (Done rs # es) = rs"

fun batcher_done :: "batcher_event list \<Rightarrow> bool" where
  "batcher_done [] = False"
| "batcher_done (Done rs # es) = True"
| "batcher_done (_ # es) = batcher_done es"

lemma batcher_concat: "batcher_done es \<Longrightarrow> concat (batcher_run sz batch es) = batch @ submitted es"
  by (induction sz batch es rule: batcher_run.induct) (simp_all add: Let_def)

lemma batcher_nonempty: "list_all (\<lambda>b. b \<noteq> []) (batcher_run sz batch es)"
  by (induction sz batch es rule: batcher_run.induct) (simp_all add: Let_def)

interpretation dlr_batches: group_commit "batcher_run sz []" submitted batcher_done for sz
proof
  show "concat (batcher_run sz [] es) = submitted es" if "batcher_done es" for es
    using batcher_concat [OF that, of sz "[]"] by simp
  show "b \<noteq> []" if "b \<in> set (batcher_run sz [] es)" for b es
    using batcher_nonempty [of sz "[]" es] that by (auto simp: list_all_iff)
qed

subsection \<open>Properties\<close>


text \<open>Delivery reports are idempotent: applying the same batch again, at any later time, changes
  nothing and reports no report as newly applied.\<close>

theorem Apply_idempotent:
  assumes inv: "db_inv now d" and ok: "reports_ok reports" and later: "now \<le> now'"
  shows "\<exists>outs. Apply NoFault now' reports (fst (Apply NoFault now reports d)) =
      (fst (Apply NoFault now reports d), Inr outs) \<and> Applied \<notin> set outs"
proof -
  let ?d = "d\<lparr>messages := map (deliver now reports) (messages d)\<rparr>"
  have inv': "db_inv now' ?d" by (rule db_inv_mono [OF deliver_inv [OF inv ok] later])
  have same: "?d\<lparr>messages := map (deliver now' reports) (messages ?d)\<rparr> = ?d"
    by (simp add: comp_def deliver_twice [OF ok])
  have closed: "\<not> open_status (m_status m)"
    if i: "i < length reports" "row_of m_id (rp_message_id (reports ! i)) (messages ?d) = Some m" for i m
  proof -
    from row_of_SomeD [OF i(2)] obtain m0 where m0: "m = deliver now reports m0" "m_id m = rp_message_id (reports ! i)"
      by auto
    have "rp_message_id (reports ! i) \<in> rp_message_id ` set reports" using i(1) by simp
    then obtain r where r: "row_of rp_message_id (m_id m0) reports = Some r"
      using m0 by (cases "row_of rp_message_id (m_id m0) reports") (auto simp: row_of_None_iff)
    then have "rp_status r = StatusDelivered \<or> rp_status r = StatusUndelivered"
      using ok by (auto simp: reports_ok_def list_all_iff dest!: row_of_SomeD)
    then show ?thesis using m0(1) r by (auto simp: deliver_def report_row_def open_status_def)
  qed
  have "outcome_spec reports ?d i \<noteq> Applied" if "i < length reports" for i
    using closed [OF that] by (auto simp: outcome_spec_def Let_def split: option.splits)
  then have "Applied \<notin> set (map (outcome_spec reports ?d) [0..<length reports])"
    unfolding set_map set_upt by (intro notI) (elim imageE, drule sym, simp)
  then show ?thesis
    unfolding Apply_eq [OF inv ok] fst_conv Apply_eq [OF inv' ok] same by blast
qed

lemma batch_commit_eq:
  assumes inv: "db_inv now d" and ok: "reports_ok batch"
  shows "batch_commit fault now batch d =
    (if fault = NoFault
     then (d\<lparr>messages := map (deliver now batch) (messages d)\<rparr>, map (\<lambda>i. Inr (outcome_spec batch d i)) [0..<length batch])
     else (d, map (\<lambda>r. Inl (tx_error (if fault = BeginFails then ''begin transaction'' else ''commit transaction''))) batch))"
proof (cases fault)
  case NoFault
  then show ?thesis by (simp add: batch_commit_def Apply_eq [OF inv ok])
next
  case BeginFails
  then show ?thesis by (simp add: batch_commit_def Apply_def WithTx_def split_beta)
next
  case CommitFails
  obtain r where "apply_body now (snd (first_reports 0 [] batch)) d = Inr r"
    using Apply_eq [OF inv ok] by (cases "apply_body now (snd (first_reports 0 [] batch)) d")
      (auto simp: Apply_def WithTx_def split_beta)
  with CommitFails show ?thesis by (cases r) (simp add: batch_commit_def Apply_def WithTx_def split_beta)
qed

text \<open>A caller is told that its report was handled only after the batch with the report has committed:
  if the commit of a batch answers some report with an outcome, the database is the committed one
  and every report has the answer of its own position; otherwise all get the error and nothing changed.\<close>

theorem batch_commit_acknowledges:
  assumes inv: "db_inv now d" and ok: "reports_ok batch"
  shows "batch_commit fault now batch d =
    (if fault = NoFault
     then (d\<lparr>messages := map (deliver now batch) (messages d)\<rparr>, map (\<lambda>i. Inr (outcome_spec batch d i)) [0..<length batch])
     else (d, map (\<lambda>r. Inl (tx_error (if fault = BeginFails then ''begin transaction'' else ''commit transaction''))) batch))"
  by (rule batch_commit_eq [OF inv ok])

text \<open>No delivery report is lost or committed twice by the batcher: once it has shut down, every
  report it took in is in exactly as many batches as it was submitted, up to order and batch sizes.\<close>

theorem batcher_each_once:
  assumes "batcher_done es"
  shows "(\<Sum>b\<leftarrow>batcher_run sz [] es. count (mset b) r) = count (mset (submitted es)) r"
  by (rule dlr_batches.each_once [OF assms])

subsection \<open>Instances\<close>

definition demo_report :: "status \<Rightarrow> report" where
  "demo_report st = \<lparr>rp_message_id = 2, rp_provider = ''p1'', rp_provider_ref = ''x9'', rp_status = st\<rparr>"

lemma demo_reports_ok: "reports_ok [demo_report StatusDelivered, demo_report StatusUndelivered]"
  by (simp add: reports_ok_def demo_report_def)

lemma demo_outcomes:
  "map (outcome_spec [demo_report StatusDelivered, demo_report StatusUndelivered] demo_db) [0..<2] = [Applied, Duplicate]"
  by (simp add: outcome_spec_def eval_nat_numeral demo_report_def demo_db_def demo_message_def row_of_def open_status_def)


theorem Apply_idempotent_witness:
  "\<exists>outs. Apply NoFault 5000 [demo_report StatusDelivered]
      (fst (Apply NoFault 1000 [demo_report StatusDelivered] demo_db)) =
    (fst (Apply NoFault 1000 [demo_report StatusDelivered] demo_db), Inr outs) \<and> Applied \<notin> set outs"
  by (rule Apply_idempotent [OF demo_db_inv]) (simp_all add: reports_ok_def demo_report_def)

theorem batch_commit_acknowledges_witness:
  "batch_commit CommitFails 1000 [demo_report StatusDelivered, demo_report StatusUndelivered] demo_db =
     (demo_db, [Inl (tx_error ''commit transaction''), Inl (tx_error ''commit transaction'')])"
  using batch_commit_acknowledges [OF demo_db_inv demo_reports_ok, of CommitFails] by simp

theorem batcher_each_once_witness:
  "(\<Sum>b\<leftarrow>batcher_run 2 [] [Submitted (demo_report StatusDelivered), Tick, Done [demo_report StatusDelivered]].
      count (mset b) (demo_report StatusDelivered)) = 2"
  using batcher_each_once [where es = "[Submitted (demo_report StatusDelivered), Tick, Done [demo_report StatusDelivered]]"
      and sz = 2 and r = "demo_report StatusDelivered"] by simp

end
