(* ===== verification/Sweeper.thy ===== *)
theory Sweeper
  imports Completer Validate
begin

text \<open>
  Queue maintenance: \<^verbatim>\<open>internal/sweeper/tasks.go\<close> and the \<^verbatim>\<open>Sweep\<close> of \<^verbatim>\<open>sweeper.go\<close>. Each task is one
  transaction under its advisory lock; \<open>lock_free\<close> says whether the task gets it. \<^verbatim>\<open>SKIP LOCKED\<close> is a
  parameter as in claiming, and a \<^verbatim>\<open>LIMIT\<close> without an order takes the rows in table order.
\<close>

subsection \<open>Tasks\<close>

text \<open>\<^verbatim>\<open>expire\<close>: the due rows, the messages among them that are still accepted, their refunds and
  their queue rows.\<close>

definition due :: "gtime \<Rightarrow> nat \<Rightarrow> (uuid \<Rightarrow> bool) \<Rightarrow> db \<Rightarrow> queue_row list" where
  "due now limit locked d =
     take limit (sort_key q_message_id (filter (\<lambda>q. q_expires_at q \<le> now \<and>
       (q_lease_owner q = None \<or> q_next_attempt_at q \<le> now) \<and> \<not> locked (q_message_id q)) (queue d)))"

definition expire_row :: "gtime \<Rightarrow> message \<Rightarrow> message" where
  "expire_row now m =
     m\<lparr>m_status := StatusExpired, m_failure_reason := Some ReasonExpired, m_completed_at := Some now,
       m_sla_breached := (m_sla_breached m \<or> m_type m = Express), m_updated_at := now\<rparr>"

definition expire :: "env \<Rightarrow> nat \<Rightarrow> (uuid \<Rightarrow> bool) \<Rightarrow> db \<Rightarrow> error + db \<times> nat" where
  "expire e limit locked d =
     (let ids = map q_message_id (due (env_now e) limit locked d);
          p = (\<lambda>m. m_id m \<in> set ids \<and> m_status m = StatusAccepted);
          expired = filter p (messages d)
      in case ApplyRefunds e (map refund_of expired)
               (d\<lparr>messages := update_where p (expire_row (env_now e)) (messages d)\<rparr>) of
          Inl err \<Rightarrow> Inl err
        | Inr d1 \<Rightarrow>
            Inr (d1\<lparr>queue := filter (\<lambda>q. q_message_id q \<notin> set (map m_id expired)) (queue d1)\<rparr>, length expired))"

text \<open>\<^verbatim>\<open>flagSLA\<close>.\<close>

definition breaching :: "gtime \<Rightarrow> duration \<Rightarrow> nat \<Rightarrow> db \<Rightarrow> queue_row list" where
  "breaching now sla limit d =
     take limit (filter (\<lambda>q. q_lane q = ExpressLane \<and>
       (case row_of m_id (q_message_id q) (messages d) of
          None \<Rightarrow> False
        | Some m \<Rightarrow> m_status m = StatusAccepted \<and> \<not> m_sla_breached m \<and>
            m_accepted_at m < now - interval_ms (milliseconds sla))) (queue d))"

definition flagSLA :: "gtime \<Rightarrow> duration \<Rightarrow> nat \<Rightarrow> db \<Rightarrow> db \<times> nat" where
  "flagSLA now sla limit d =
     (let ids = map q_message_id (breaching now sla limit d);
          p = (\<lambda>m. m_id m \<in> set ids)
      in (d\<lparr>messages := update_where p (\<lambda>m. m\<lparr>m_sla_breached := True, m_updated_at := now\<rparr>) (messages d)\<rparr>,
          length (filter p (messages d))))"

text \<open>\<^verbatim>\<open>removeOrphans\<close>.\<close>

definition orphans :: "gtime \<Rightarrow> nat \<Rightarrow> (uuid \<Rightarrow> bool) \<Rightarrow> db \<Rightarrow> queue_row list" where
  "orphans now limit locked d =
     take limit (filter (\<lambda>q. (case row_of m_id (q_message_id q) (messages d) of
          None \<Rightarrow> False | Some m \<Rightarrow> m_status m \<noteq> StatusAccepted) \<and>
        (q_lease_owner q = None \<or> q_next_attempt_at q \<le> now) \<and> \<not> locked (q_message_id q)) (queue d))"

definition removeOrphans :: "gtime \<Rightarrow> nat \<Rightarrow> (uuid \<Rightarrow> bool) \<Rightarrow> db \<Rightarrow> db \<times> nat" where
  "removeOrphans now limit locked d =
     (let ids = map q_message_id (orphans now limit locked d)
      in (d\<lparr>queue := filter (\<lambda>q. q_message_id q \<notin> set ids) (queue d)\<rparr>,
          length (filter (\<lambda>q. q_message_id q \<in> set ids) (queue d))))"

text \<open>\<^verbatim>\<open>laneIndex\<close>, and PostgreSQL's \<^verbatim>\<open>substring(lane FROM 8)::int\<close>: a cast of text that is not a
  number in the range of \<^verbatim>\<open>int4\<close> fails the statement.\<close>

definition laneIndex :: "string \<Rightarrow> int" where
  "laneIndex lane =
     (if take 7 lane = ''normal-'' then (case atoi (drop 7 lane) of None \<Rightarrow> - 1 | Some n \<Rightarrow> n) else - 1)"

definition lane_number :: "string \<Rightarrow> int option" where
  "lane_number s = (case atoi s of None \<Rightarrow> None | Some n \<Rightarrow> if - (2 ^ 31) \<le> n \<and> n < 2 ^ 31 then Some n else None)"

definition bad_lane :: "queue_row \<Rightarrow> bool" where
  "bad_lane q \<longleftrightarrow> take 7 (q_lane q) = ''normal-'' \<and> lane_number (drop 7 (q_lane q)) = None"

definition removed_lane :: "nat \<Rightarrow> queue_row \<Rightarrow> bool" where
  "removed_lane lanes q \<longleftrightarrow> take 7 (q_lane q) = ''normal-'' \<and>
     (case lane_number (drop 7 (q_lane q)) of None \<Rightarrow> False | Some n \<Rightarrow> int lanes \<le> n)"

definition reassignLanes :: "nat \<Rightarrow> nat \<Rightarrow> (uuid \<Rightarrow> bool) \<Rightarrow> db \<Rightarrow> error + db \<times> nat" where
  "reassignLanes lanes limit locked d =
     (if list_ex (\<lambda>q. bad_lane q \<and> has_key m_id (q_message_id q) (messages d)) (queue d)
      then Inl (DbErr ''find rows in removed lanes'' NumericOutOfRange)
      else let found = take limit (filter (\<lambda>q. removed_lane lanes q \<and> has_key m_id (q_message_id q) (messages d) \<and>
                 \<not> locked (q_message_id q)) (queue d));
               moved = filter (\<lambda>q. int lanes \<le> laneIndex (q_lane q)) found;
               lane_of = (\<lambda>q. case row_of m_id (q_message_id q) (messages d) of
                 None \<Rightarrow> q_lane q | Some m \<Rightarrow> Lane Normal (m_customer_id m) lanes);
               pairs = map (\<lambda>q. (q_message_id q, lane_of q)) moved
           in if pairs = [] then Inr (d, 0)
              else Inr (d\<lparr>queue := update_join q_message_id fst (\<lambda>q. True) (\<lambda>r q. q\<lparr>q_lane := snd r\<rparr>) pairs (queue d)\<rparr>,
                        length pairs))"

definition staleWorkerAge :: duration where "staleWorkerAge = hour"

definition removeStaleWorkers :: "gtime \<Rightarrow> db \<Rightarrow> db \<times> nat" where
  "removeStaleWorkers now d =
     (let stale = (\<lambda>w. w_last_seen w < now - interval_ms (milliseconds staleWorkerAge))
      in (d\<lparr>workers := filter (\<lambda>w. \<not> stale w) (workers d)\<rparr>, length (filter stale (workers d))))"

subsection \<open>A sweep\<close>

record sweeper_config =
  sw_express_sla :: duration
  sw_normal_lanes :: nat
  sw_batch_size :: nat

definition DefaultBatchSize :: nat where "DefaultBatchSize = 1000"

text \<open>\<^verbatim>\<open>New\<close> replaces a batch size that is not positive.\<close>

definition new_sweeper :: "sweeper_config \<Rightarrow> sweeper_config" where
  "new_sweeper cfg = (if sw_batch_size cfg = 0 then cfg\<lparr>sw_batch_size := DefaultBatchSize\<rparr> else cfg)"

datatype task = taskExpire | taskFlagSLA | taskOrphans | taskLanes | taskWorkers

definition sweep_tasks :: "task list" where
  "sweep_tasks = [taskExpire, taskFlagSLA, taskOrphans, taskLanes, taskWorkers]"

definition run_task :: "sweeper_config \<Rightarrow> env \<Rightarrow> (uuid \<Rightarrow> bool) \<Rightarrow> task \<Rightarrow> db \<Rightarrow> error + db \<times> nat" where
  "run_task cfg e locked t d =
     (case t of
        taskExpire \<Rightarrow> expire e (sw_batch_size cfg) locked d
      | taskFlagSLA \<Rightarrow> Inr (flagSLA (env_now e) (sw_express_sla cfg) (sw_batch_size cfg) d)
      | taskOrphans \<Rightarrow> Inr (removeOrphans (env_now e) (sw_batch_size cfg) locked d)
      | taskLanes \<Rightarrow> reassignLanes (sw_normal_lanes cfg) (sw_batch_size cfg) locked d
      | taskWorkers \<Rightarrow> Inr (removeStaleWorkers (env_now e) d))"

definition locked_task :: "tx_fault \<Rightarrow> bool \<Rightarrow> (db \<Rightarrow> error + db \<times> nat) \<Rightarrow> db \<Rightarrow> db \<times> (error + nat)" where
  "locked_task fault acquired fn d =
     WithTx tx_error fault (\<lambda>d. if acquired then fn d else Inr (d, 0)) d"

text \<open>What surrounds each task of a sweep.\<close>

record sweep_world =
  sv_env :: "task \<Rightarrow> env"
  sv_fault :: "task \<Rightarrow> tx_fault"
  sv_acquired :: "task \<Rightarrow> bool"
  sv_locked :: "task \<Rightarrow> uuid \<Rightarrow> bool"

fun sweep_loop ::
    "sweeper_config \<Rightarrow> sweep_world \<Rightarrow> task list \<Rightarrow> (task \<times> nat) list \<Rightarrow> db \<Rightarrow> db \<times> (task \<times> nat) list \<times> (task \<times> error) option" where
  "sweep_loop cfg w [] res d = (d, res, None)"
| "sweep_loop cfg w (t # ts) res d =
     (case locked_task (sv_fault w t) (sv_acquired w t) (run_task cfg (sv_env w t) (sv_locked w t) t) d of
        (d', Inl err) \<Rightarrow> (d', res, Some (t, err))
      | (d', Inr n) \<Rightarrow> sweep_loop cfg w ts (res @ [(t, n)]) d')"

definition Sweep :: "sweeper_config \<Rightarrow> sweep_world \<Rightarrow> db \<Rightarrow> db \<times> (task \<times> nat) list \<times> (task \<times> error) option" where
  "Sweep cfg w d = sweep_loop cfg w sweep_tasks [] d"


subsection \<open>Every task keeps the database consistent\<close>

definition expiring :: "gtime \<Rightarrow> nat \<Rightarrow> (uuid \<Rightarrow> bool) \<Rightarrow> db \<Rightarrow> message \<Rightarrow> bool" where
  "expiring now limit locked d m \<longleftrightarrow>
     m_id m \<in> set (map q_message_id (due now limit locked d)) \<and> m_status m = StatusAccepted"

lemma expire_InrD:
  assumes "expire e limit locked d = Inr (d', n)"
  obtains d1 where "ApplyRefunds e (map refund_of (filter (expiring (env_now e) limit locked d) (messages d)))
      (d\<lparr>messages := map (\<lambda>m. if expiring (env_now e) limit locked d m then expire_row (env_now e) m else m) (messages d)\<rparr>)
      = Inr d1"
    "d' = d1\<lparr>queue := filter (\<lambda>q. q_message_id q \<notin> m_id ` set (filter (expiring (env_now e) limit locked d) (messages d))) (queue d1)\<rparr>"
    "n = length (filter (expiring (env_now e) limit locked d) (messages d))"
  using assms unfolding expire_def Let_def expiring_def [symmetric] update_where_def
  by (auto split: sum.splits)

lemma expire_row_ok:
  assumes "stamps_ok now m" "message_check m" "m_status m = StatusAccepted"
  shows "same_core m (expire_row now m)" "ended (m_status (expire_row now m))"
    "message_check (expire_row now m)" "stamps_ok now (expire_row now m)"
  using assms by (simp_all add: expire_row_def same_core_def message_check_def stamps_ok_def)

lemma same_core_refl: "same_core m m"
  by (simp add: same_core_def)

lemma expire_inv [db_intros]:
  assumes inv: "db_inv (env_now e) d" and ex: "expire e limit locked d = Inr (d', n)"
  shows "db_inv (env_now e) d'"
proof -
  let ?P = "expiring (env_now e) limit locked d" and ?now = "env_now e"
  let ?f = "\<lambda>m. if ?P m then expire_row ?now m else m"
  obtain d1 where app: "ApplyRefunds e (map refund_of (filter ?P (messages d))) (d\<lparr>messages := map ?f (messages d)\<rparr>) = Inr d1"
    and d': "d' = d1\<lparr>queue := filter (\<lambda>q. q_message_id q \<notin> m_id ` set (filter ?P (messages d))) (queue d1)\<rparr>"
    by (rule expire_InrD [OF ex])
  have acc: "?P m \<Longrightarrow> m_status m = StatusAccepted" for m by (simp add: expiring_def)
  have inv1: "db_inv ?now d1"
  proof (rule db_inv_finish [OF inv _ _ _ app])
    show "\<forall>m\<in>set (messages d). same_core m (?f m)"
      using db_inv_rowsD [OF inv] acc expire_row_ok(1) same_core_refl by simp
    fix m assume m: "m \<in> set (messages d)" "?P m"
    with expire_row_ok [OF db_inv_rowsD(5) [OF inv m(1)] db_inv_rowsD(2) [OF inv m(1)] acc [OF m(2)]] acc
    show "m_status m = StatusAccepted \<and> ended (m_status (?f m)) \<and> message_check (?f m) \<and> stamps_ok ?now (?f m)" by simp
  qed simp
  have ms: "messages d1 = map ?f (messages d)" using ApplyRefunds_frame [OF app] by simp
  show ?thesis unfolding d'
  proof (rule db_inv_filter_queue [OF inv1])
    fix q m assume m: "m \<in> set (messages d1)" "m_id m = q_message_id q" "m_status m = StatusAccepted"
    show "q_message_id q \<notin> m_id ` set (filter ?P (messages d))"
    proof
      assume "q_message_id q \<in> m_id ` set (filter ?P (messages d))"
      then obtain m0 where m0: "m0 \<in> set (messages d)" "?P m0" "m_id m0 = q_message_id q" by auto
      from m(1) ms obtain m1 where m1: "m1 \<in> set (messages d)" "m = ?f m1" by auto
      then have "m_id m1 = m_id m0" using m(2) m0(3) by (simp add: expire_row_def split: if_splits)
      with distinct_key_unique [OF db_inv_keysD(2) [OF inv] m1(1) m0(1)] have "m1 = m0" by simp
      with m1 m0(2) m(3) show False by (simp add: expire_row_def)
    qed
  qed
qed

lemma flagSLA_inv [db_intros]:
  assumes inv: "db_inv now d"
  shows "db_inv now (fst (flagSLA now sla limit d))"
  unfolding flagSLA_def Let_def fst_conv update_where_def
  by (rule db_inv_update_messages [OF inv])
    (use db_inv_rowsD [OF inv] in \<open>auto simp: same_core_def message_check_def stamps_ok_def\<close>)

lemma removeOrphans_inv [db_intros]:
  assumes inv: "db_inv now' d"
  shows "db_inv now' (fst (removeOrphans now limit locked d))"
  unfolding removeOrphans_def Let_def fst_conv
proof (rule db_inv_filter_queue [OF inv])
  fix q m assume m: "m \<in> set (messages d)" "m_id m = q_message_id q" "m_status m = StatusAccepted"
  then have "row_of m_id (q_message_id q) (messages d) = Some m"
    by (simp add: row_of_Some_iff [OF db_inv_keysD(2) [OF inv]])
  with m(3) show "q_message_id q \<notin> set (map q_message_id (orphans now limit locked d))"
    by (auto simp: orphans_def dest!: in_set_takeD)
qed

lemma reassignLanes_inv [db_intros]:
  assumes "db_inv now d" "reassignLanes lanes limit locked d = Inr (d', n)"
  shows "db_inv now d'"
  using assms unfolding reassignLanes_def Let_def update_join_map
  by (auto intro!: db_inv_update_queue split: if_splits option.splits)

lemma removeStaleWorkers_inv [db_intros]:
  "db_inv now d \<Longrightarrow> db_inv now (fst (removeStaleWorkers now' d))"
  by (simp add: removeStaleWorkers_def Let_def db_inv_update_workers)

lemma run_task_inv [db_intros]:
  assumes "db_inv (env_now e) d" "run_task cfg e locked t d = Inr (d', n)"
  shows "db_inv (env_now e) d'"
proof (cases t)
  case taskExpire
  with assms expire_inv show ?thesis by (simp add: run_task_def)
next
  case taskFlagSLA
  with assms flagSLA_inv [OF assms(1)] show ?thesis by (simp add: run_task_def) (metis fst_conv)
next
  case taskOrphans
  with assms removeOrphans_inv [OF assms(1)] show ?thesis by (simp add: run_task_def) (metis fst_conv)
next
  case taskLanes
  with assms reassignLanes_inv show ?thesis by (simp add: run_task_def)
next
  case taskWorkers
  with assms removeStaleWorkers_inv [OF assms(1)] show ?thesis by (simp add: run_task_def) (metis fst_conv)
qed

lemma sweep_loop_inv:
  assumes "\<forall>t. env_now (sv_env w t) = now" "db_inv now d"
  shows "db_inv now (fst (sweep_loop cfg w ts res d))"
  using assms(2)
proof (induction ts arbitrary: res d)
  case (Cons t ts)
  let ?r = "locked_task (sv_fault w t) (sv_acquired w t) (run_task cfg (sv_env w t) (sv_locked w t) t) d"
  have "db_inv now (fst ?r)"
    unfolding locked_task_def
  proof (rule WithTx_preserves [where P = "db_inv now", OF Cons.prems])
    fix d' n assume "(if sv_acquired w t then run_task cfg (sv_env w t) (sv_locked w t) t d else Inr (d, 0)) = Inr (d', n)"
    with run_task_inv [of "sv_env w t"] Cons.prems assms(1) show "db_inv now d'" by (auto split: if_splits)
  qed
  then show ?case using Cons.IH by (auto split: prod.splits sum.splits)
qed simp


subsection \<open>Lanes\<close>

lemma take_drop_NormalLane [simp]: "take 7 (NormalLane i) = ''normal-''" "drop 7 (NormalLane i) = itoa i"
  by (simp_all add: NormalLane_def)

lemma laneIndex_NormalLane: "in_int64 i \<Longrightarrow> laneIndex (NormalLane i) = i"
  by (simp add: laneIndex_def atoi_itoa)

lemma lane_number_itoa: "0 \<le> i \<Longrightarrow> i < 2 ^ 31 \<Longrightarrow> lane_number (itoa i) = Some i"
  by (simp add: lane_number_def atoi_itoa in_int64_def max_int64_def)

lemma ExpressLane_not_normal [simp]: "take 7 ExpressLane \<noteq> ''normal-''"
  by (simp add: ExpressLane_def)

text \<open>The lanes acceptance writes under a lane count of at most \<open>n\<close>.\<close>

definition lanes_ok :: "int \<Rightarrow> queue_row list \<Rightarrow> bool" where
  "lanes_ok n qs \<longleftrightarrow> (\<forall>q\<in>set qs. q_lane q = ExpressLane \<or> (\<exists>i. 0 \<le> i \<and> i < n \<and> q_lane q = NormalLane i))"

lemma removed_lane_iff:
  assumes "lanes_ok (2 ^ 31) qs" "q \<in> set qs"
  shows "\<not> bad_lane q" "removed_lane n q \<longleftrightarrow> (\<exists>i. int n \<le> i \<and> i < 2 ^ 31 \<and> q_lane q = NormalLane i)"
    "removed_lane n q \<Longrightarrow> int n \<le> laneIndex (q_lane q)"
    "\<not> removed_lane n q \<Longrightarrow> q_lane q = ExpressLane \<or> (\<exists>i. 0 \<le> i \<and> i < int n \<and> q_lane q = NormalLane i)"
proof -
  from assms consider (ex) "q_lane q = ExpressLane" | (no) i where "0 \<le> i" "i < 2 ^ 31" "q_lane q = NormalLane i"
    unfolding lanes_ok_def by blast
  then have "\<not> bad_lane q \<and> (removed_lane n q \<longleftrightarrow> (\<exists>i. int n \<le> i \<and> i < 2 ^ 31 \<and> q_lane q = NormalLane i)) \<and>
      (removed_lane n q \<longrightarrow> int n \<le> laneIndex (q_lane q)) \<and>
      (\<not> removed_lane n q \<longrightarrow> q_lane q = ExpressLane \<or> (\<exists>i. 0 \<le> i \<and> i < int n \<and> q_lane q = NormalLane i))"
  proof cases
    case ex
    then have "q_lane q \<noteq> NormalLane i" for i by (metis ExpressLane_not_normal take_drop_NormalLane(1))
    with ex show ?thesis by (simp add: bad_lane_def removed_lane_def)
  next
    case no
    have num: "lane_number (itoa i) = Some i" by (rule lane_number_itoa [OF no(1,2)])
    have idx: "laneIndex (NormalLane i) = i" by (rule laneIndex_NormalLane) (use no in \<open>simp add: in_int64_def max_int64_def\<close>)
    have "NormalLane j = NormalLane i \<Longrightarrow> 0 \<le> j \<Longrightarrow> j < 2 ^ 31 \<Longrightarrow> j = i" for j
      using lane_number_itoa [of j] num by (metis option.inject take_drop_NormalLane(2))
    with no num idx show ?thesis unfolding bad_lane_def removed_lane_def by fastforce
  qed
  then show "\<not> bad_lane q" "removed_lane n q \<longleftrightarrow> (\<exists>i. int n \<le> i \<and> i < 2 ^ 31 \<and> q_lane q = NormalLane i)"
    "removed_lane n q \<Longrightarrow> int n \<le> laneIndex (q_lane q)"
    "\<not> removed_lane n q \<Longrightarrow> q_lane q = ExpressLane \<or> (\<exists>i. 0 \<le> i \<and> i < int n \<and> q_lane q = NormalLane i)" by blast+
qed

subsection \<open>Properties\<close>

lemma expire_facts:
  assumes inv: "db_inv (env_now e) d" and ex: "expire e limit locked d = Inr (d', n)"
  shows "messages d' = map (\<lambda>m. if expiring (env_now e) limit locked d m then expire_row (env_now e) m else m) (messages d)"
    "n = length (filter (expiring (env_now e) limit locked d) (messages d))"
    "m \<in> set (messages d) \<Longrightarrow> expiring (env_now e) limit locked d m \<Longrightarrow>
      m_id m \<notin> q_message_id ` set (queue d') \<and> map t_amount (txns_of KindRefund (m_id m) (transactions d')) = [m_cost m]"
    "length (queue d) \<le> limit \<Longrightarrow> \<forall>u. \<not> locked u \<Longrightarrow> m \<in> set (messages d) \<Longrightarrow> m_status m = StatusAccepted \<Longrightarrow>
      q \<in> set (queue d) \<Longrightarrow> q_message_id q = m_id m \<Longrightarrow> q_expires_at q \<le> env_now e \<Longrightarrow>
      q_lease_owner q = None \<or> q_next_attempt_at q \<le> env_now e \<Longrightarrow> expiring (env_now e) limit locked d m"
proof -
  let ?P = "expiring (env_now e) limit locked d" and ?now = "env_now e"
  let ?f = "\<lambda>m. if ?P m then expire_row ?now m else m"
  obtain d1 where app: "ApplyRefunds e (map refund_of (filter ?P (messages d))) (d\<lparr>messages := map ?f (messages d)\<rparr>) = Inr d1"
    and d': "d' = d1\<lparr>queue := filter (\<lambda>q. q_message_id q \<notin> m_id ` set (filter ?P (messages d))) (queue d1)\<rparr>"
    and n: "n = length (filter ?P (messages d))"
    by (rule expire_InrD [OF ex])
  show ms: "messages d' = map ?f (messages d)" using ApplyRefunds_frame [OF app] d' by simp
  show "n = length (filter ?P (messages d))" by (rule n)
  show "m_id m \<notin> q_message_id ` set (queue d') \<and> map t_amount (txns_of KindRefund (m_id m) (transactions d')) = [m_cost m]"
    if m: "m \<in> set (messages d)" "?P m"
  proof -
    have "?f m \<in> set (messages d')" unfolding ms set_map using m(1) by (rule imageI)
    then have "message_ledger_ok (transactions d') (expire_row ?now m)"
      using db_inv_rowsD(4) [OF expire_inv [OF inv ex]] m(2) by simp
    moreover have "m_id m \<in> m_id ` set (filter ?P (messages d))" using m by simp
    then have "m_id m \<notin> q_message_id ` set (queue d')" unfolding d' by force
    ultimately show ?thesis by (simp add: message_ledger_ok_def expire_row_def)
  qed
  show "?P m" if room: "length (queue d) \<le> limit" "\<forall>u. \<not> locked u"
    and m: "m_status m = StatusAccepted" and q: "q \<in> set (queue d)" "q_message_id q = m_id m" "q_expires_at q \<le> ?now"
      "q_lease_owner q = None \<or> q_next_attempt_at q \<le> ?now"
  proof -
    let ?xs = "filter (\<lambda>q. q_expires_at q \<le> ?now \<and> (q_lease_owner q = None \<or> q_next_attempt_at q \<le> ?now) \<and>
      \<not> locked (q_message_id q)) (queue d)"
    have "length ?xs \<le> limit" using room(1) length_filter_le [of _ "queue d"] le_trans by blast
    then have "due ?now limit locked d = sort_key q_message_id ?xs" by (simp add: due_def)
    moreover have "q \<in> set ?xs" using q room(2) by auto
    ultimately have "q \<in> set (due ?now limit locked d)" by simp
    with q(2) m show ?thesis by (force simp: expiring_def)
  qed
qed


text \<open>After lowering the number of lanes, one pass with room in the batch moves every row out of the lanes
  that no longer exist: afterwards each row is in the Express lane or in a normal lane that is served.\<close>

theorem reassignLanes_complete:
  assumes inv: "db_inv now d" and n: "1 \<le> n" "n \<le> 1024" and ok: "lanes_ok (2 ^ 31) (queue d)"
    and room: "length (queue d) \<le> limit" "\<forall>u. \<not> locked u"
  shows "\<exists>d' k. reassignLanes n limit locked d = Inr (d', k) \<and> lanes_ok (int n) (queue d') \<and>
    map q_message_id (queue d') = map q_message_id (queue d)"
proof -
  let ?xs = "filter (\<lambda>q. removed_lane n q) (queue d)"
  let ?lane = "\<lambda>q. case row_of m_id (q_message_id q) (messages d) of None \<Rightarrow> q_lane q | Some m \<Rightarrow> Lane Normal (m_customer_id m) n"
  let ?pairs = "map (\<lambda>q. (q_message_id q, ?lane q)) ?xs"
  let ?qs = "update_join q_message_id fst (\<lambda>q. True) (\<lambda>r q. q\<lparr>q_lane := snd r\<rparr>) ?pairs (queue d)"
  note rl = removed_lane_iff [OF ok]
  have msg: "has_key m_id (q_message_id q) (messages d)" if "q \<in> set (queue d)" for q
    using inv that by (simp add: db_inv_def foreign_ok_def has_key_iff)
  have found: "filter (\<lambda>q. removed_lane n q \<and> has_key m_id (q_message_id q) (messages d) \<and> \<not> locked (q_message_id q)) (queue d) = ?xs"
    using msg room(2) by (intro filter_cong) auto
  have all: "filter (\<lambda>q. int n \<le> laneIndex (q_lane q)) (take limit ?xs) = ?xs"
  proof -
    have "length ?xs \<le> limit" using room(1) length_filter_le [of "removed_lane n" "queue d"] by (rule le_trans [rotated])
    then show ?thesis using rl(3) by (simp del: filter_filter)
  qed
  have res: "reassignLanes n limit locked d = (if ?pairs = [] then Inr (d, 0) else Inr (d\<lparr>queue := ?qs\<rparr>, length ?pairs))"
    using rl(1) unfolding reassignLanes_def Let_def found all by (auto simp: list_ex_iff)
  have pairs: "row_of fst (q_message_id q) ?pairs = (if removed_lane n q then Some (q_message_id q, ?lane q) else None)"
    if q: "q \<in> set (queue d)" for q
  proof -
    note k = db_inv_keysD(4) [OF inv]
    have kp: "distinct (map fst ?pairs)" using k by (simp add: comp_def distinct_map_filterI)
    show ?thesis
    proof (cases "removed_lane n q")
      case True
      then show ?thesis using q by (simp add: row_of_Some_iff [OF kp])
    next
      case False
      have "q_message_id q \<notin> fst ` set ?pairs"
        using False q distinct_key_unique [OF k] by (auto dest: distinct_key_unique [OF k])
      then show ?thesis using False by (simp add: row_of_None_iff)
    qed
  qed
  have lane: "\<exists>i. 0 \<le> i \<and> i < int n \<and> ?lane q = NormalLane i" if "q \<in> set (queue d)" for q
    using msg [OF that] Lane_in_range [OF n] by (auto simp: has_key_row_of split: option.splits)
  have "lanes_ok (int n) ?qs"
    unfolding lanes_ok_def set_update_join using pairs rl(4) lane by (auto split: option.splits)
  moreover have "map q_message_id ?qs = map q_message_id (queue d)" by (rule map_key_update_join) simp
  moreover have "?pairs = [] \<Longrightarrow> lanes_ok (int n) (queue d)"
    using rl(4) unfolding lanes_ok_def by (auto simp: filter_empty_conv)
  ultimately show ?thesis unfolding res by (cases "?pairs = []") simp_all
qed

text \<open>A sweep keeps the database consistent whatever happens to its tasks: locks held elsewhere, rows
  skipped, and failures of any transaction in between.\<close>

theorem Sweep_invariant:
  assumes "\<forall>t. env_now (sv_env w t) = now" "db_inv now d"
  shows "db_inv now (fst (Sweep cfg w d))"
  unfolding Sweep_def by (rule sweep_loop_inv [OF assms])


subsection \<open>Instances\<close>

definition late_env :: env where
  "late_env = demo_env\<lparr>env_now := 3600000000000\<rparr>"

lemma late_inv: "db_inv (env_now late_env) demo_db"
  using db_inv_mono [OF demo_db_inv] by (simp add: late_env_def)

definition demo_expired :: db where
  "demo_expired = \<lparr>customers = [demo_customer\<lparr>c_balance := 1000, c_updated_at := 3600000000000\<rparr>],
     messages = [expire_row 3600000000000 demo_message],
     transactions = [demo_charge, demo_debit, demo_refund\<lparr>t_created_at := 3600000000000\<rparr>], queue = [], workers = []\<rparr>"

lemma demo_expire: "expire late_env 10 (\<lambda>u. False) demo_db = Inr (demo_expired, 1)"
  by (simp add: expire_def Let_def due_def late_env_def demo_expired_def demo_defs demo_refund_def update_where_def
      ApplyRefunds_def refund_of_def refund_transaction_def transaction_check_def message_kind_taken_def row_of_def
      insert_transaction_def refund_totals_def add_balance_def in_int64_def max_int64_def has_key_def expire_row_def)


theorem reassignLanes_complete_witness:
  "\<exists>d' k. reassignLanes 4 10 (\<lambda>u. False) demo_db = Inr (d', k) \<and> lanes_ok 4 (queue d') \<and>
    map q_message_id (queue d') = map q_message_id (queue demo_db)"
proof -
  have "lanes_ok (2 ^ 31) (queue demo_db)"
  proof -
    have "digit_char 0 = CHR ''0''" by (simp add: digit_char_def char_of_eq_iff)
    then have "''normal-0'' = NormalLane 0" by (simp add: NormalLane_def itoa_def nat_digits.simps)
    then show ?thesis unfolding lanes_ok_def by (auto simp: demo_db_def demo_queue_row_def intro!: exI [of _ 0])
  qed
  from reassignLanes_complete [OF demo_db_inv _ _ this, of 4 10 "\<lambda>u. False"] show ?thesis by (simp add: demo_db_def)
qed

theorem Sweep_invariant_witness:
  "db_inv 1000 (fst (Sweep \<lparr>sw_express_sla = 10 * second, sw_normal_lanes = 4, sw_batch_size = 10\<rparr>
     \<lparr>sv_env = (\<lambda>t. demo_env), sv_fault = (\<lambda>t. if t = taskLanes then CommitFails else NoFault), sv_acquired = (\<lambda>t. True),
      sv_locked = (\<lambda>t u. False)\<rparr> demo_db))"
  by (rule Sweep_invariant) (simp_all add: demo_env_def demo_db_inv)

end
