(* ===== verification/Checker.thy ===== *)
theory Checker
  imports Consistency
begin

text \<open>
  The invariant checker, \<^verbatim>\<open>internal/invariant/invariant.go\<close>: seven queries that return the
  identifiers violating a check, run in one snapshot. A \<^verbatim>\<open>LEFT JOIN\<close> with a table pairs a row
  with each matching row, or with \<open>None\<close> when there is none.
\<close>

subsection \<open>The checks\<close>

record check_config =
  ck_lease_duration :: duration
  ck_sweep_interval :: duration

definition sampleSize :: nat where "sampleSize = 10"

record check =
  ck_name :: string
  ck_ok :: bool
  ck_violations :: nat
  ck_sample :: "string list"

record check_report =
  rep_ok :: bool
  rep_checked_at :: gtime
  rep_checks :: "check list"

definition left_join :: "('a \<Rightarrow> 'b \<Rightarrow> bool) \<Rightarrow> 'a list \<Rightarrow> 'b list \<Rightarrow> ('a \<times> 'b option) list" where
  "left_join on xs ys =
     concat (map (\<lambda>x. case filter (on x) ys of [] \<Rightarrow> [(x, None)] | zs \<Rightarrow> map (\<lambda>z. (x, Some z)) zs) xs)"

text \<open>Identifiers are 128-bit; \<open>uid\<close> are the message and customer identifiers the queries return.\<close>

definition balance_matches_transactions :: "db \<Rightarrow> uuid list" where
  "balance_matches_transactions d =
     map c_id (filter (\<lambda>c. c_balance c \<noteq> (\<Sum>t\<leftarrow>filter (\<lambda>t. t_customer_id t = c_id c) (transactions d). t_amount t))
       (customers d))"

definition one_debit_per_message :: "db \<Rightarrow> uuid list" where
  "one_debit_per_message d =
     map (m_id \<circ> fst) (filter (\<lambda>(m, t). case t of None \<Rightarrow> True | Some t \<Rightarrow> t_amount t \<noteq> - m_cost m)
       (left_join (\<lambda>m t. t_message_id t = Some (m_id m) \<and> t_kind t = KindDebit) (messages d) (transactions d)))"

definition refund_iff_failed_or_expired :: "db \<Rightarrow> uuid list" where
  "refund_iff_failed_or_expired d =
     map (m_id \<circ> fst) (filter (\<lambda>(m, t). ended (m_status m) \<noteq> (t \<noteq> None) \<or>
         (case t of None \<Rightarrow> False | Some t \<Rightarrow> t_amount t \<noteq> m_cost m))
       (left_join (\<lambda>m t. t_message_id t = Some (m_id m) \<and> t_kind t = KindRefund) (messages d) (transactions d)))"

definition accepted_messages_are_queued :: "db \<Rightarrow> uuid list" where
  "accepted_messages_are_queued d =
     map (m_id \<circ> fst) (filter (\<lambda>(m, q). m_status m = StatusAccepted \<and> q = None)
       (left_join (\<lambda>m q. q_message_id q = m_id m) (messages d) (queue d)))"

text \<open>\<^verbatim>\<open>2 * (lease + sweep).Milliseconds()\<close>: the sum of the durations is truncated to milliseconds and doubled.\<close>

definition finished_messages_leave_the_queue :: "check_config \<Rightarrow> gtime \<Rightarrow> db \<Rightarrow> uuid list" where
  "finished_messages_leave_the_queue cfg now d =
     map q_message_id (filter (\<lambda>q. case row_of m_id (q_message_id q) (messages d) of
         None \<Rightarrow> False
       | Some m \<Rightarrow> m_status m \<noteq> StatusAccepted \<and>
           m_updated_at m < now - interval_ms (2 * milliseconds (ck_lease_duration cfg + ck_sweep_interval cfg)))
       (queue d))"

definition no_abandoned_leases :: "gtime \<Rightarrow> db \<Rightarrow> uuid list" where
  "no_abandoned_leases now d =
     map q_message_id (filter (\<lambda>q. q_lease_owner q \<noteq> None \<and> q_next_attempt_at q < now - minute) (queue d))"

definition timestamps_consistent :: "db \<Rightarrow> uuid list" where
  "timestamps_consistent d =
     map m_id (filter (\<lambda>m. m_status m = StatusSent \<and> m_sent_at m = None \<or>
         terminal (m_status m) \<and> m_completed_at m = None \<or>
         (case m_sent_at m of None \<Rightarrow> False | Some t \<Rightarrow> t < m_accepted_at m) \<or>
         (case m_completed_at m of None \<Rightarrow> False | Some t \<Rightarrow> t < m_accepted_at m)) (messages d))"

definition definitions :: "check_config \<Rightarrow> gtime \<Rightarrow> (string \<times> (db \<Rightarrow> uuid list)) list" where
  "definitions cfg now =
     [(''balance_matches_transactions'', balance_matches_transactions),
      (''one_debit_per_message'', one_debit_per_message),
      (''refund_iff_failed_or_expired'', refund_iff_failed_or_expired),
      (''accepted_messages_are_queued'', accepted_messages_are_queued),
      (''finished_messages_leave_the_queue'', finished_messages_leave_the_queue cfg now),
      (''no_abandoned_leases'', no_abandoned_leases now),
      (''timestamps_consistent'', timestamps_consistent)]"

text \<open>\<^verbatim>\<open>run\<close>: the violations in order of their identifiers, at most ten of them as a sample, and their number.\<close>

definition run_check :: "(uuid \<Rightarrow> string) \<Rightarrow> string \<Rightarrow> uuid list \<Rightarrow> check" where
  "run_check uuid_string name violations =
     (let rows = take sampleSize (map (\<lambda>u. (uuid_string u, length violations)) (sort violations));
          n = (if rows = [] then 0 else snd (last rows))
      in \<lparr>ck_name = name, ck_ok = (n = 0), ck_violations = n, ck_sample = map fst rows\<rparr>)"

definition Run :: "(uuid \<Rightarrow> string) \<Rightarrow> check_config \<Rightarrow> gtime \<Rightarrow> db \<Rightarrow> check_report" where
  "Run uuid_string cfg now d =
     (let checks = map (\<lambda>(name, query). run_check uuid_string name (query d)) (definitions cfg now)
      in \<lparr>rep_ok = fold (\<lambda>c ok. ok \<and> ck_ok c) checks True, rep_checked_at = now, rep_checks = checks\<rparr>)"

subsection \<open>What the checks mean\<close>

lemma run_check_violations:
  "ck_violations (run_check us name vs) = length vs" "length (ck_sample (run_check us name vs)) = min 10 (length vs)"
proof -
  let ?xs = "take sampleSize (map (\<lambda>u. (us u, length vs)) (sort vs))"
  have len: "length ?xs = min 10 (length vs)" by (simp add: sampleSize_def)
  have "snd (last ?xs) = length vs" if "?xs \<noteq> []"
    using last_in_set [OF that] by (auto dest!: in_set_takeD)
  moreover have "?xs = [] \<longleftrightarrow> vs = []"
    using len by (cases vs) (simp_all add: sampleSize_def flip: length_0_conv)
  ultimately show "ck_violations (run_check us name vs) = length vs"
    by (cases "vs = []") (simp_all add: run_check_def Let_def)
  show "length (ck_sample (run_check us name vs)) = min 10 (length vs)"
    using len by (simp add: run_check_def Let_def)
qed

lemma run_check_ok: "ck_ok (run_check us name vs) \<longleftrightarrow> vs = []"
  using run_check_violations(1) [of us name vs] by (simp add: run_check_def Let_def)

lemma left_join_set:
  "(x, y) \<in> set (left_join on xs ys) \<longleftrightarrow>
     x \<in> set xs \<and> (case y of None \<Rightarrow> \<forall>z\<in>set ys. \<not> on x z | Some z \<Rightarrow> z \<in> set ys \<and> on x z)"
proof -
  have "(x, y) \<in> set (case filter (on x') ys of [] \<Rightarrow> [(x', None)] | zs \<Rightarrow> map (\<lambda>z. (x', Some z)) zs) \<longleftrightarrow>
      x = x' \<and> (case y of None \<Rightarrow> \<forall>z\<in>set ys. \<not> on x z | Some z \<Rightarrow> z \<in> set ys \<and> on x z)" for x'
  proof (cases "filter (on x') ys")
    case Nil
    then show ?thesis by (auto simp: filter_empty_conv split: option.splits)
  next
    case (Cons z zs)
    have set: "{z \<in> set ys. on x' z} = insert z (set zs)" using Cons by (metis list.simps(15) set_filter)
    then have "\<exists>z\<in>set ys. on x' z" by blast
    moreover have "z' \<in> set ys \<and> on x' z' \<longleftrightarrow> z' = z \<or> z' \<in> set zs" for z' using set by blast
    ultimately show ?thesis by (auto simp: Cons split: option.splits)
  qed
  then show ?thesis by (simp add: left_join_def)
qed

lemma fold_conj: "fold (\<lambda>c ok. ok \<and> P c) xs b \<longleftrightarrow> b \<and> list_all P xs"
  by (induction xs arbitrary: b) auto

text \<open>A single transaction of a kind, as the ledger rule says it.\<close>

lemma txns_of_single:
  assumes "map t_amount (txns_of k mid ts) = [a]"
  shows "\<exists>t\<in>set ts. t_message_id t = Some mid \<and> t_kind t = k"
    "t \<in> set ts \<Longrightarrow> t_message_id t = Some mid \<Longrightarrow> t_kind t = k \<Longrightarrow> t_amount t = a"
proof -
  from assms obtain t0 where t0: "txns_of k mid ts = [t0]" "t_amount t0 = a" by auto
  then have set: "{t \<in> set ts. t_message_id t = Some mid \<and> t_kind t = k} = {t0}"
    unfolding txns_of_def by (metis list.set(1) list.set(2) set_filter)
  then show "\<exists>t\<in>set ts. t_message_id t = Some mid \<and> t_kind t = k" by blast
  show "t \<in> set ts \<Longrightarrow> t_message_id t = Some mid \<Longrightarrow> t_kind t = k \<Longrightarrow> t_amount t = a" using set t0(2) by auto
qed

lemma txns_of_none:
  "txns_of k mid ts = [] \<Longrightarrow> t \<in> set ts \<Longrightarrow> \<not> (t_message_id t = Some mid \<and> t_kind t = k)"
  by (auto simp: txns_of_def filter_empty_conv)

lemma checks_pass:
  assumes inv: "db_inv now d"
  shows "balance_matches_transactions d = []" "one_debit_per_message d = []" "refund_iff_failed_or_expired d = []"
    "accepted_messages_are_queued d = []" "timestamps_consistent d = []"
proof -
  show "balance_matches_transactions d = []"
    using inv by (auto simp: balance_matches_transactions_def filter_empty_conv db_inv_def ledger_ok_def
        balances_ok_def ledger_sum_def)
  have led: "message_ledger_ok (transactions d) m" if "m \<in> set (messages d)" for m by (rule db_inv_rowsD(4) [OF inv that])
  show "one_debit_per_message d = []"
    unfolding one_debit_per_message_def map_is_Nil_conv filter_empty_conv
  proof (intro ballI, clarify)
    fix m t assume mt: "(m, t) \<in> set (left_join (\<lambda>m t. t_message_id t = Some (m_id m) \<and> t_kind t = KindDebit) (messages d) (transactions d))"
      and bad: "case t of None \<Rightarrow> True | Some t \<Rightarrow> t_amount t \<noteq> - m_cost m"
    from mt led have "map t_amount (txns_of KindDebit (m_id m) (transactions d)) = [- m_cost m]"
      by (auto simp: left_join_set message_ledger_ok_def)
    from txns_of_single [OF this] mt bad show False by (auto simp: left_join_set split: option.splits)
  qed
  show "refund_iff_failed_or_expired d = []"
    unfolding refund_iff_failed_or_expired_def map_is_Nil_conv filter_empty_conv
  proof (intro ballI, clarify)
    fix m t assume mt: "(m, t) \<in> set (left_join (\<lambda>m t. t_message_id t = Some (m_id m) \<and> t_kind t = KindRefund) (messages d) (transactions d))"
      and bad: "ended (m_status m) \<noteq> (t \<noteq> None) \<or> (case t of None \<Rightarrow> False | Some t \<Rightarrow> t_amount t \<noteq> m_cost m)"
    from mt led have l: "map t_amount (txns_of KindRefund (m_id m) (transactions d)) = (if ended (m_status m) then [m_cost m] else [])"
      by (auto simp: left_join_set message_ledger_ok_def)
    show False
    proof (cases "ended (m_status m)")
      case True
      with l have "map t_amount (txns_of KindRefund (m_id m) (transactions d)) = [m_cost m]" by simp
      from txns_of_single [OF this] mt bad True show False by (auto simp: left_join_set split: option.splits)
    next
      case False
      with l have "txns_of KindRefund (m_id m) (transactions d) = []" by simp
      from txns_of_none [OF this] mt bad False show False by (auto simp: left_join_set split: option.splits)
    qed
  qed
  show "accepted_messages_are_queued d = []"
    unfolding accepted_messages_are_queued_def map_is_Nil_conv filter_empty_conv
    using inv by (force simp: left_join_set db_inv_def queued_ok_def)
  show "timestamps_consistent d = []"
    unfolding timestamps_consistent_def map_is_Nil_conv filter_empty_conv
    using db_inv_rowsD(5) [OF inv] by (fastforce simp: stamps_ok_def split: option.splits)
qed

end
