(* ===== verification/Monitor.thy ===== *)
theory Monitor
  imports Complex_Main Consistency Demo
begin

text \<open>
  Worker records and operational queries: \<^verbatim>\<open>internal/heartbeat/heartbeat.go\<close> and
  \<^verbatim>\<open>internal/monitor/monitor.go\<close>. The age of the oldest ready row is kept as a
  duration; the code converts it to floating-point seconds when it scans the row. Rates and latencies
  are rationals where the code has floating-point numbers.
\<close>

subsection \<open>Heartbeat\<close>

definition beat :: "gtime \<Rightarrow> string \<Rightarrow> string \<Rightarrow> gtime \<Rightarrow> string \<Rightarrow> db \<Rightarrow> db" where
  "beat now wid role started stats d =
     (if has_key w_id wid (workers d)
      then d\<lparr>workers := update_where (\<lambda>w. w_id w = wid) (\<lambda>w. w\<lparr>w_last_seen := now, w_stats := stats\<rparr>) (workers d)\<rparr>
      else d\<lparr>workers := workers d @ [\<lparr>w_id = wid, w_role = role, w_started_at = started, w_last_seen = now,
             w_stats = stats\<rparr>]\<rparr>)"

definition leave :: "string \<Rightarrow> db \<Rightarrow> db" where
  "leave wid d = d\<lparr>workers := filter (\<lambda>w. w_id w \<noteq> wid) (workers d)\<rparr>"

text \<open>\<^verbatim>\<open>heartbeat.Run\<close>: a beat at once and at every tick, and the row is deleted at the end. A beat whose
  snapshot cannot be encoded or whose statement fails is skipped.\<close>

datatype heart_event = Beat gtime "string option" bool | Stop bool

fun heartbeat_run :: "string \<Rightarrow> string \<Rightarrow> gtime \<Rightarrow> heart_event list \<Rightarrow> db \<Rightarrow> db" where
  "heartbeat_run wid role started [] d = d"
| "heartbeat_run wid role started (Beat now stats ok # es) d =
     heartbeat_run wid role started es
       (case stats of None \<Rightarrow> d | Some s \<Rightarrow> if ok then beat now wid role started s d else d)"
| "heartbeat_run wid role started (Stop ok # es) d = (if ok then leave wid d else d)"

lemma beat_inv [db_intros]: "db_inv now d \<Longrightarrow> db_inv now (beat t wid role started stats d)"
  by (simp add: beat_def db_inv_update_workers)

lemma leave_inv [db_intros]: "db_inv now d \<Longrightarrow> db_inv now (leave wid d)"
  by (simp add: leave_def db_inv_update_workers)

subsection \<open>Queue statistics\<close>

record lane_stats =
  ls_lane :: string
  ls_ready :: nat
  ls_delayed :: nat
  ls_in_flight :: nat
  ls_oldest_ready_age :: duration

definition zero_stats :: lane_stats where
  "zero_stats = \<lparr>ls_lane = [], ls_ready = 0, ls_delayed = 0, ls_in_flight = 0, ls_oldest_ready_age = 0\<rparr>"

text \<open>One row of the grouped query.\<close>

definition lane_row :: "gtime \<Rightarrow> string \<Rightarrow> queue_row list \<Rightarrow> lane_stats" where
  "lane_row now lane qs =
     (let rows = filter (\<lambda>q. q_lane q = lane) qs;
          ready = filter (\<lambda>q. q_next_attempt_at q \<le> now) rows
      in \<lparr>ls_lane = lane, ls_ready = length ready,
          ls_delayed = length (filter (\<lambda>q. q_lease_owner q = None \<and> q_next_attempt_at q > now) rows),
          ls_in_flight = length (filter (\<lambda>q. q_lease_owner q \<noteq> None \<and> q_next_attempt_at q > now) rows),
          ls_oldest_ready_age = (if ready = [] then 0 else now - Min (set (map q_next_attempt_at ready)))\<rparr>)"

definition found_lanes :: "gtime \<Rightarrow> queue_row list \<Rightarrow> (string \<times> lane_stats) list" where
  "found_lanes now qs = map (\<lambda>lane. (lane, lane_row now lane qs)) (remdups (map q_lane qs))"

text \<open>The configured lanes take their entry out of the map; what is left is appended in order.\<close>

fun take_lanes :: "string list \<Rightarrow> (string \<times> lane_stats) list \<Rightarrow> lane_stats list \<times> (string \<times> lane_stats) list" where
  "take_lanes [] found = ([], found)"
| "take_lanes (lane # lanes) found =
     (let st = (case map_of found lane of None \<Rightarrow> zero_stats | Some s \<Rightarrow> s)\<lparr>ls_lane := lane\<rparr>;
          (out, rest) = take_lanes lanes (filter (\<lambda>p. fst p \<noteq> lane) found)
      in (st # out, rest))"

definition QueueStats :: "gtime \<Rightarrow> string list \<Rightarrow> db \<Rightarrow> lane_stats list" where
  "QueueStats now lanes d =
     (let (out, rest) = take_lanes lanes (found_lanes now (queue d))
      in out @ map (\<lambda>lane. case map_of rest lane of None \<Rightarrow> zero_stats | Some s \<Rightarrow> s) (sort (map fst rest)))"

subsection \<open>Workers\<close>

definition StaleAfter :: duration where "StaleAfter = 15 * second"

record worker_view =
  wv_row :: worker_row
  wv_stale :: bool

definition Workers :: "gtime \<Rightarrow> db \<Rightarrow> worker_view list" where
  "Workers now d =
     map (\<lambda>w. \<lparr>wv_row = w, wv_stale = (now - w_last_seen w > interval_ms (milliseconds StaleAfter))\<rparr>)
       (rev (sort_key w_started_at (workers d)))"

subsection \<open>Throughput and latency\<close>

definition AcceptedPerSecond :: "gtime \<Rightarrow> db \<Rightarrow> rat" where
  "AcceptedPerSecond now d =
     of_nat (length (filter (\<lambda>m. LowerBound (now - minute) \<le> m_id m) (messages d))) / 60"

record express_latency =
  el_window :: duration
  el_p50 :: rat
  el_p95 :: rat
  el_p99 :: rat
  el_sla_breaches :: nat

text \<open>PostgreSQL's \<^verbatim>\<open>percentile_cont\<close>: the value at the fraction of the way through the sorted rows, interpolated
  between neighbours; null when there are no rows.\<close>

definition percentile_cont :: "rat \<Rightarrow> rat list \<Rightarrow> rat option" where
  "percentile_cont p xs =
     (let s = sort xs; rn = p * of_nat (length s - 1)
      in if s = [] then None
         else Some (s ! nat \<lfloor>rn\<rfloor> + (rn - of_int \<lfloor>rn\<rfloor>) * (s ! nat \<lceil>rn\<rceil> - s ! nat \<lfloor>rn\<rfloor>)))"

definition express_rows :: "gtime \<Rightarrow> duration \<Rightarrow> db \<Rightarrow> message list" where
  "express_rows now window d = filter (\<lambda>m. LowerBound (now - window) \<le> m_id m \<and> m_type m = Express) (messages d)"

definition latencies :: "message list \<Rightarrow> rat list" where
  "latencies ms = List.map_filter (\<lambda>m. map_option (\<lambda>t. of_int (t - m_accepted_at m) / of_int second) (m_sent_at m)) ms"

definition monitor_Express :: "gtime \<Rightarrow> duration \<Rightarrow> db \<Rightarrow> express_latency" where
  "monitor_Express now window d =
     (let ms = express_rows now window d; pc = (\<lambda>p. case percentile_cont p (latencies ms) of None \<Rightarrow> 0 | Some x \<Rightarrow> x)
      in \<lparr>el_window = window, el_p50 = pc (50 / 100), el_p95 = pc (95 / 100), el_p99 = pc (99 / 100),
          el_sla_breaches = length (filter m_sla_breached ms)\<rparr>)"

subsection \<open>Percentiles\<close>

lemma percentile_between:
  assumes "0 \<le> p" "p \<le> 1" "xs \<noteq> []" "percentile_cont p xs = Some v"
  shows "sort xs ! nat \<lfloor>p * of_nat (length xs - 1)\<rfloor> \<le> v" "v \<le> sort xs ! nat \<lceil>p * of_nat (length xs - 1)\<rceil>"
proof -
  let ?rn = "p * of_nat (length xs - 1) :: rat" and ?s = "sort xs"
  have rn: "0 \<le> ?rn" "?rn \<le> of_nat (length xs - 1)" using assms(1,2) by (simp_all add: mult_left_le_one_le)
  then have "\<lceil>?rn\<rceil> \<le> int (length xs - 1)" by (simp add: ceiling_le_iff)
  then have hi: "nat \<lceil>?rn\<rceil> < length ?s" using assms(3) by (cases xs) auto
  have "\<lfloor>?rn\<rfloor> \<le> \<lceil>?rn\<rceil>" by (rule floor_le_ceiling)
  then have le: "?s ! nat \<lfloor>?rn\<rfloor> \<le> ?s ! nat \<lceil>?rn\<rceil>" by (intro sorted_nth_mono nat_mono hi sorted_sort)
  have frac: "0 \<le> ?rn - of_int \<lfloor>?rn\<rfloor>" "?rn - of_int \<lfloor>?rn\<rfloor> \<le> 1" using of_int_floor_le [of ?rn] floor_correct [of ?rn] by linarith+
  have v: "v = ?s ! nat \<lfloor>?rn\<rfloor> + (?rn - of_int \<lfloor>?rn\<rfloor>) * (?s ! nat \<lceil>?rn\<rceil> - ?s ! nat \<lfloor>?rn\<rfloor>)"
    using assms(3,4) by (auto simp: percentile_cont_def Let_def split: if_splits)
  show "?s ! nat \<lfloor>?rn\<rfloor> \<le> v" using frac(1) le by (simp add: v)
  have "(?rn - of_int \<lfloor>?rn\<rfloor>) * (?s ! nat \<lceil>?rn\<rceil> - ?s ! nat \<lfloor>?rn\<rfloor>) \<le> 1 * (?s ! nat \<lceil>?rn\<rceil> - ?s ! nat \<lfloor>?rn\<rfloor>)"
    using frac(2) le by (intro mult_right_mono) simp_all
  then show "v \<le> ?s ! nat \<lceil>?rn\<rceil>" by (simp add: v)
qed

lemma percentile_mono:
  assumes "0 \<le> p" "p \<le> q" "q \<le> 1" "percentile_cont p xs = Some v" "percentile_cont q xs = Some w"
  shows "v \<le> w"
proof -
  let ?n = "of_nat (length xs - 1) :: rat" and ?s = "sort xs"
  have ne: "xs \<noteq> []" using assms(4) by (auto simp: percentile_cont_def)
  have le: "p * ?n \<le> q * ?n" using assms(2) by (intro mult_right_mono) simp_all
  have q0: "0 \<le> q" "p \<le> 1" using assms by linarith+
  show ?thesis
  proof (cases "\<lceil>p * ?n\<rceil> \<le> \<lfloor>q * ?n\<rfloor>")
    case True
    have "q * ?n \<le> ?n" using q0(1) assms(3) by (simp add: mult_left_le_one_le)
    then have "\<lfloor>q * ?n\<rfloor> \<le> int (length xs - 1)" by linarith
    then have "nat \<lfloor>q * ?n\<rfloor> < length ?s" using ne by (cases xs) auto
    then have "?s ! nat \<lceil>p * ?n\<rceil> \<le> ?s ! nat \<lfloor>q * ?n\<rfloor>" by (intro sorted_nth_mono nat_mono True sorted_sort)
    with percentile_between(2) [OF assms(1) q0(2) ne assms(4)] percentile_between(1) [OF q0(1) assms(3) ne assms(5)] show ?thesis by linarith
  next
    case False
    then have fl: "\<lfloor>p * ?n\<rfloor> = \<lfloor>q * ?n\<rfloor>" "\<lceil>p * ?n\<rceil> = \<lceil>q * ?n\<rceil>"
      using le floor_mono [OF le] ceiling_mono [OF le] by (linarith | (simp add: ceiling_altdef split: if_splits; linarith))+
    have "0 \<le> ?s ! nat \<lceil>q * ?n\<rceil> - ?s ! nat \<lfloor>q * ?n\<rfloor>"
      using percentile_between [OF q0(1) assms(3) ne assms(5)] by linarith
    then have "(p * ?n) * (?s ! nat \<lceil>q * ?n\<rceil> - ?s ! nat \<lfloor>q * ?n\<rfloor>) \<le> (q * ?n) * (?s ! nat \<lceil>q * ?n\<rceil> - ?s ! nat \<lfloor>q * ?n\<rfloor>)"
      using le by (rule mult_right_mono [rotated])
    with assms(4,5) ne fl show ?thesis by (auto simp: percentile_cont_def Let_def left_diff_distrib split: if_splits)
  qed
qed

text \<open>The percentiles shown are in order.\<close>

lemma Express_ordered: "el_p50 (monitor_Express now window d) \<le> el_p95 (monitor_Express now window d) \<and>
    el_p95 (monitor_Express now window d) \<le> el_p99 (monitor_Express now window d)"
proof (cases "latencies (express_rows now window d) = []")
  case False
  let ?xs = "latencies (express_rows now window d)"
  have "sort ?xs \<noteq> []" using False by (metis length_0_conv length_sort)
  then have "\<exists>v. percentile_cont p ?xs = Some v" for p by (simp add: percentile_cont_def Let_def)
  then obtain a b c where "percentile_cont (50 / 100) ?xs = Some a" "percentile_cont (95 / 100) ?xs = Some b"
    "percentile_cont (99 / 100) ?xs = Some c" by metis
  then show ?thesis
    using percentile_mono [of "50 / 100" "95 / 100" ?xs a b] percentile_mono [of "95 / 100" "99 / 100" ?xs b c]
    by (simp add: monitor_Express_def Let_def)
qed (simp add: monitor_Express_def Let_def percentile_cont_def)

subsection \<open>Lemmas\<close>

definition counted :: "lane_stats \<Rightarrow> nat" where
  "counted s = ls_ready s + ls_delayed s + ls_in_flight s"

lemma counted_lane_row: "counted (lane_row now lane qs) = length (filter (\<lambda>q. q_lane q = lane) qs)"
proof -
  have split: "length rows = length (filter (\<lambda>q. q_next_attempt_at q \<le> now) rows) +
      length (filter (\<lambda>q. q_lease_owner q = None \<and> q_next_attempt_at q > now) rows) +
      length (filter (\<lambda>q. q_lease_owner q \<noteq> None \<and> q_next_attempt_at q > now) rows)" for rows :: "queue_row list"
    by (induction rows) auto
  show ?thesis using split [of "filter (\<lambda>q. q_lane q = lane) qs"] by (simp add: counted_def lane_row_def Let_def)
qed

lemma sum_list_filter_fst:
  fixes f :: "'b \<Rightarrow> nat"
  shows "distinct (map fst xs) \<Longrightarrow>
    (case map_of xs k of None \<Rightarrow> 0 | Some y \<Rightarrow> f y) + (\<Sum>p\<leftarrow>filter (\<lambda>p. fst p \<noteq> k) xs. f (snd p)) = (\<Sum>p\<leftarrow>xs. f (snd p))"
proof (induction xs)
  case (Cons x xs)
  have "fst p \<noteq> fst x" if "p \<in> set xs" for p
    using Cons.prems that by (metis distinct.simps(2) image_eqI list.simps(9) list.set_map)
  then have "filter (\<lambda>p. fst p \<noteq> fst x) xs = xs" by simp
  moreover have "map_of xs (fst x) = None" using Cons.prems by (simp add: map_of_eq_None_iff)
  ultimately show ?case using Cons by (cases "fst x = k") auto
qed simp

lemma take_lanes_sum:
  assumes "take_lanes lanes found = (out, rest)" "distinct (map fst found)"
  shows "(\<Sum>s\<leftarrow>out. counted s) + (\<Sum>p\<leftarrow>rest. counted (snd p)) = (\<Sum>p\<leftarrow>found. counted (snd p))"
    "distinct (map fst rest)" "map ls_lane out = lanes" "set rest \<subseteq> set found" "fst ` set rest = fst ` set found - set lanes"
proof -
  have "(\<Sum>s\<leftarrow>out. counted s) + (\<Sum>p\<leftarrow>rest. counted (snd p)) = (\<Sum>p\<leftarrow>found. counted (snd p)) \<and>
    distinct (map fst rest) \<and> map ls_lane out = lanes \<and> set rest \<subseteq> set found \<and> fst ` set rest = fst ` set found - set lanes"
    using assms
  proof (induction lanes arbitrary: found out)
    case (Cons lane lanes)
    let ?found = "filter (\<lambda>p. fst p \<noteq> lane) found"
    let ?st = "(case map_of found lane of None \<Rightarrow> zero_stats | Some s \<Rightarrow> s)\<lparr>ls_lane := lane\<rparr>"
    obtain out' where out': "take_lanes lanes ?found = (out', rest)" "out = ?st # out'"
      using Cons.prems(1) by (auto simp: Let_def split: prod.splits)
    have "counted ?st = (case map_of found lane of None \<Rightarrow> 0 | Some s \<Rightarrow> counted s)"
      by (simp add: counted_def zero_stats_def split: option.splits)
    with sum_list_filter_fst [OF Cons.prems(2), where k = lane and f = counted]
      Cons.IH [OF out'(1) distinct_map_filterI [OF Cons.prems(2)]] out'(2) show ?case by auto
  qed auto
  then show "(\<Sum>s\<leftarrow>out. counted s) + (\<Sum>p\<leftarrow>rest. counted (snd p)) = (\<Sum>p\<leftarrow>found. counted (snd p))"
    "distinct (map fst rest)" "map ls_lane out = lanes" "set rest \<subseteq> set found" "fst ` set rest = fst ` set found - set lanes"
    by simp_all
qed

lemma map_lookup_sorted:
  assumes "distinct (map fst xs)"
  shows "mset (map (\<lambda>k. case map_of xs k of None \<Rightarrow> z | Some s \<Rightarrow> s) (sort (map fst xs))) = mset (map snd xs)"
proof -
  have "mset (map (\<lambda>k. case map_of xs k of None \<Rightarrow> z | Some s \<Rightarrow> s) (sort (map fst xs))) =
      mset (map (\<lambda>k. case map_of xs k of None \<Rightarrow> z | Some s \<Rightarrow> s) (map fst xs))" by (simp add: image_mset.compositionality)
  also have "map (\<lambda>k. case map_of xs k of None \<Rightarrow> z | Some s \<Rightarrow> s) (map fst xs) = map snd xs"
    using assms by (auto simp: map_of_is_SomeI)
  finally show ?thesis .
qed

lemma sum_lengths_by_key:
  "(\<Sum>k\<leftarrow>remdups (map key xs). length (filter (\<lambda>x. key x = k) xs)) = length xs"
proof -
  have "(\<Sum>k\<in>S. length (filter (\<lambda>x. key x = k) xs)) = length xs" if "finite S" "key ` set xs \<subseteq> S" for S
    using that(2)
  proof (induction xs)
    case (Cons x xs)
    have "(\<Sum>k\<in>S. length (filter (\<lambda>y. key y = k) (x # xs))) =
        (\<Sum>k\<in>S. (if key x = k then 1 else 0) + length (filter (\<lambda>y. key y = k) xs))" by (intro sum.cong) auto
    also have "\<dots> = Suc (length xs)" using Cons that(1) by (simp add: sum.distrib)
    finally show ?case by simp
  qed simp
  then show ?thesis by (simp add: sum_list_distinct_conv_sum_set)
qed

subsection \<open>Properties\<close>

text \<open>The queue statistics account for every queue row exactly once: whatever lanes are configured, the
  configured ones come first, in order and with zeros for the empty ones, the other lanes in use follow,
  and the ready, delayed and in-flight counts add up to the length of the queue.\<close>

theorem QueueStats_complete:
  "(\<Sum>s\<leftarrow>QueueStats now lanes d. counted s) = length (queue d) \<and>
   (\<exists>extra. map ls_lane (QueueStats now lanes d) = lanes @ extra \<and> sorted extra \<and> distinct extra \<and>
      set extra = q_lane ` set (queue d) - set lanes)"
proof -
  let ?found = "found_lanes now (queue d)" and ?z = "\<lambda>rest k. case map_of rest k of None \<Rightarrow> zero_stats | Some s \<Rightarrow> s"
  obtain out rest where or: "take_lanes lanes ?found = (out, rest)" by fastforce
  have dist: "distinct (map fst ?found)" by (simp add: found_lanes_def comp_def)
  note tl = take_lanes_sum [OF or dist]
  have q: "QueueStats now lanes d = out @ map (?z rest) (sort (map fst rest))" by (simp add: QueueStats_def or)
  have "(\<Sum>s\<leftarrow>map (?z rest) (sort (map fst rest)). counted s) = (\<Sum>s\<leftarrow>map snd rest. counted s)"
    using arg_cong [OF map_lookup_sorted [OF tl(2)], of "\<lambda>M. sum_mset (image_mset counted M)"]
    by (simp add: sum_mset_sum_list flip: mset_map)
  then have "(\<Sum>s\<leftarrow>QueueStats now lanes d. counted s) = (\<Sum>p\<leftarrow>?found. counted (snd p))" using tl(1) q by (simp add: comp_def)
  also have "\<dots> = length (queue d)"
    using sum_lengths_by_key [of q_lane "queue d"] by (simp add: found_lanes_def comp_def counted_lane_row)
  finally have total: "(\<Sum>s\<leftarrow>QueueStats now lanes d. counted s) = length (queue d)" .
  have "ls_lane (?z rest lane) = lane" if "lane \<in> set (map fst rest)" for lane
  proof -
    from that obtain s where s: "map_of rest lane = Some s" by (metis map_of_eq_None_iff not_Some_eq set_map)
    then have "(lane, s) \<in> set ?found" using tl(4) map_of_SomeD by (metis subsetD)
    with s show ?thesis by (auto simp: found_lanes_def lane_row_def Let_def)
  qed
  then have "map ls_lane (map (?z rest) (sort (map fst rest))) = sort (map fst rest)"
    unfolding map_map by (intro map_idI) simp
  then have "map ls_lane (QueueStats now lanes d) = lanes @ sort (map fst rest)" using q tl(3) by simp
  moreover have "fst ` set rest = q_lane ` set (queue d) - set lanes" using tl(5) by (simp add: found_lanes_def image_image)
  ultimately show ?thesis using total tl(2) by (intro conjI exI [of _ "sort (map fst rest)"]) simp_all
qed

fun is_beat :: "heart_event \<Rightarrow> bool" where
  "is_beat (Beat now stats ok) = True"
| "is_beat (Stop ok) = False"

text \<open>A worker's heartbeat leaves no trace after a clean shutdown: whatever it recorded before, once its row
  is deleted at the end, the workers are those there were without it.\<close>

theorem heartbeat_cleans_up:
  assumes "\<not> has_key w_id wid (workers d)" "list_all is_beat es"
  shows "workers (heartbeat_run wid role started (es @ [Stop True]) d) = workers d"
proof -
  have beat: "filter (\<lambda>w. w_id w \<noteq> wid) (workers (beat now wid role started s d)) = filter (\<lambda>w. w_id w \<noteq> wid) (workers d)" for now s d
    by (auto simp: beat_def update_where_def filter_map comp_def intro!: map_idI cong: filter_cong)
  have "workers (heartbeat_run wid role started (es @ [Stop True]) d) = filter (\<lambda>w. w_id w \<noteq> wid) (workers d)" for d
    using assms(2)
  proof (induction es arbitrary: d)
    case (Cons e es)
    with beat show ?case by (cases e) (auto split: option.splits)
  qed (simp add: leave_def)
  moreover have "filter (\<lambda>w. w_id w \<noteq> wid) (workers d) = workers d"
    using assms(1) by (auto simp: has_key_iff filter_id_conv image_iff)
  ultimately show ?thesis by simp
qed

theorem heartbeat_cleans_up_witness:
  "workers (heartbeat_run ''w1'' ''worker'' 0 ([Beat 5 (Some ''a'') True, Beat 9 None True, Beat 12 (Some ''b'') False] @ [Stop True]) demo_db) = []"
  using heartbeat_cleans_up [of "''w1''" demo_db "[Beat 5 (Some ''a'') True, Beat 9 None True, Beat 12 (Some ''b'') False]" "''worker''" 0]
  by (simp add: demo_db_def has_key_def)

end
