(* ===== verification/Transitions.thy ===== *)
theory Transitions
  imports Prelude
begin

text \<open>
  State machines: the states a step relation reaches from its initial states, and the contract an
  invariant has to meet. Each component with a state of its own (the circuit breaker, the key
  cache, the providers' stores, the database as a whole) interprets the locale on its own steps.
\<close>

inductive reachable :: "('s \<Rightarrow> bool) \<Rightarrow> ('s \<Rightarrow> 's \<Rightarrow> bool) \<Rightarrow> 's \<Rightarrow> bool"
  for init :: "'s \<Rightarrow> bool" and step :: "'s \<Rightarrow> 's \<Rightarrow> bool" where
  reachable_init: "init s \<Longrightarrow> reachable init step s"
| reachable_step: "reachable init step s \<Longrightarrow> step s t \<Longrightarrow> reachable init step t"

lemma reachable_steps:
  assumes "step\<^sup>*\<^sup>* s t" and "reachable init step s"
  shows "reachable init step t"
  using assms by (induction rule: rtranclp_induct) (auto intro: reachable_step)

locale invariant_system =
  fixes init :: "'s \<Rightarrow> bool" and step :: "'s \<Rightarrow> 's \<Rightarrow> bool" and invariant :: "'s \<Rightarrow> bool"
  assumes init_invariant: "init s \<Longrightarrow> invariant s"
    and step_invariant: "invariant s \<Longrightarrow> step s t \<Longrightarrow> invariant t"
begin

lemma reachable_invariant: "reachable init step s \<Longrightarrow> invariant s"
  by (induction rule: reachable.induct) (auto intro: init_invariant step_invariant)

lemma steps_invariant:
  assumes "step\<^sup>*\<^sup>* s t" "invariant s"
  shows "invariant t"
  using assms by (induction rule: rtranclp_induct) (auto intro: step_invariant)

end

text \<open>A measured system is one in which, besides, every step of a kind keeps a state-dependent fact once
  it holds: what is settled stays settled.\<close>

locale settled_system = invariant_system +
  fixes settled :: "'s \<Rightarrow> bool"
  assumes step_settled: "invariant s \<Longrightarrow> settled s \<Longrightarrow> step s t \<Longrightarrow> settled t"
begin

lemma steps_settled:
  assumes "step\<^sup>*\<^sup>* s t" "invariant s" "settled s"
  shows "settled t"
proof -
  have "invariant t \<and> settled t"
    using assms by (induction rule: rtranclp_induct) (auto intro: step_invariant step_settled)
  then show ?thesis by simp
qed

end

end
