(* ===== verification/System.thy ===== *)
theory System
  imports Replay Customer Completer Dlr Sweeper Checker Monitor Transitions
begin

text \<open>
  The gateway as a whole: the database with its clock, and one step for every transaction any
  process of the gateway commits: the API (\<^verbatim>\<open>insert\<close> of accepted messages, charges), the admin
  API (customers), the workers (claims, commits of outcomes, heartbeats), the delivery report
  endpoint and the sweeper. Processes interleave freely between transactions. Every invariant of
  \<open>Consistency\<close> holds in every state reachable this way.
\<close>

subsection \<open>Steps\<close>

record system =
  sys_now :: gtime
  sys_db :: db

definition system_init :: "system \<Rightarrow> bool" where
  "system_init s \<longleftrightarrow> sys_db s = empty_db"

text \<open>The transactions that keep every customer.\<close>

inductive work_step :: "system \<Rightarrow> system \<Rightarrow> bool" where
  time_passes: "sys_now s \<le> now \<Longrightarrow> work_step s (s\<lparr>sys_now := now\<rparr>)"
| accepted_insert: "accept_config_ok cfg \<Longrightarrow> prepare cfg reqs batch = Inr items \<Longrightarrow> batch \<or> length reqs = 1 \<Longrightarrow>
    env_now e = sys_now s \<Longrightarrow> work_step s (s\<lparr>sys_db := fst (insert_accept fault e cfg cid items (sys_db s))\<rparr>)"
| charged: "env_now e = sys_now s \<Longrightarrow> work_step s (s\<lparr>sys_db := fst (ChargeCustomer fault e cid amount ref (sys_db s))\<rparr>)"
| customer_created: "env_now e = sys_now s \<Longrightarrow> work_step s (s\<lparr>sys_db := fst (Create fault sha e random n (sys_db s))\<rparr>)"
| customer_updated: "work_step s (s\<lparr>sys_db := fst (Update (sys_now s) cid name rps (sys_db s))\<rparr>)"
| key_rotated: "work_step s (s\<lparr>sys_db := fst (RotateKey sha (sys_now s) random cid (sys_db s))\<rparr>)"
| claimed: "work_step s (s\<lparr>sys_db := fst (claim (sys_now s) clock wid lease locked lane n (sys_db s))\<rparr>)"
| committed: "env_now e = sys_now s \<Longrightarrow>
    work_step s (s\<lparr>sys_db := fst (WithTx tx_error fault (commit e wid sla batch) (sys_db s))\<rparr>)"
| reported: "reports_ok reports \<Longrightarrow> work_step s (s\<lparr>sys_db := fst (Apply fault (sys_now s) reports (sys_db s))\<rparr>)"
| swept: "env_now e = sys_now s \<Longrightarrow>
    work_step s (s\<lparr>sys_db := fst (locked_task fault acquired (run_task cfg e locked t) (sys_db s))\<rparr>)"
| alive: "work_step s (s\<lparr>sys_db := beat (sys_now s) wid role started stats (sys_db s)\<rparr>)"
| gone: "work_step s (s\<lparr>sys_db := leave wid (sys_db s)\<rparr>)"

inductive system_step :: "system \<Rightarrow> system \<Rightarrow> bool" where
  work: "work_step s t \<Longrightarrow> system_step s t"
| customer_deleted: "system_step s (s\<lparr>sys_db := fst (Delete cid (sys_db s))\<rparr>)"

inductive_cases work_stepE: "work_step s t"
inductive_cases system_stepE: "system_step s t"

definition system_inv :: "system \<Rightarrow> bool" where
  "system_inv s \<longleftrightarrow> db_inv (sys_now s) (sys_db s)"

subsection \<open>The invariant\<close>

lemma ChargeCustomer_inv: "db_inv now d \<Longrightarrow> db_inv now (fst (ChargeCustomer fault e cid amount ref d))"
  unfolding ChargeCustomer_def by (rule WithTx_preserves [where P = "db_inv now"]) (auto dest: Charge_inv)

lemma insert_accept_inv:
  assumes "db_inv (env_now e) d" "items_ok cfg items"
  shows "db_inv (env_now e) (fst (insert_accept fault e cfg cid items d))"
proof (cases "insert_accept fault e cfg cid items d")
  case (Pair d' r)
  then show ?thesis using insert_accept_InrD(2) [OF assms, of fault cid d'] insert_accept_InlD [of fault e cfg cid items d d'] assms(1)
    by (cases r) auto
qed

lemma Apply_inv:
  assumes "db_inv now d" "reports_ok reports"
  shows "db_inv now (fst (Apply fault now reports d))"
proof (cases fault)
  case NoFault
  with Apply_eq [OF assms] deliver_inv [OF assms] show ?thesis by simp
qed (use assms in \<open>simp_all add: Apply_def WithTx_def split: prod.splits sum.splits\<close>)

lemma locked_task_inv:
  assumes "db_inv (env_now e) d"
  shows "db_inv (env_now e) (fst (locked_task fault acquired (run_task cfg e locked t) d))"
  unfolding locked_task_def
  by (rule WithTx_preserves [where P = "db_inv (env_now e)", OF assms])
    (use assms run_task_inv in \<open>auto split: if_splits\<close>)

lemma work_step_inv:
  assumes "system_inv s" "work_step s t"
  shows "system_inv t"
  using assms(2)
proof cases
  case (time_passes now)
  with assms(1) show ?thesis by (auto simp: system_inv_def intro: db_inv_mono)
next
  case (accepted_insert cfg reqs batch items e fault cid)
  with assms(1) insert_accept_inv [of e "sys_db s" cfg items fault cid] prepare_items_ok show ?thesis
    by (auto simp: system_inv_def)
next
  case (committed e fault wid sla batch)
  have inv: "db_inv (env_now e) (sys_db s)" using assms(1) committed by (simp add: system_inv_def)
  have "db_inv (env_now e) (fst (WithTx tx_error fault (commit e wid sla batch) (sys_db s)))"
    by (rule WithTx_preserves [where P = "db_inv (env_now e)", OF inv]) (erule commit_inv [OF inv])
  with committed show ?thesis by (simp add: system_inv_def)
next
  case (swept e fault acquired cfg locked tk)
  with assms(1) locked_task_inv [of e "sys_db s"] show ?thesis by (simp add: system_inv_def)
next
  case (claimed clock wid lease locked lane n)
  with assms(1) claim_inv [of "sys_now s" "sys_db s"] show ?thesis
    by (cases "claim (sys_now s) clock wid lease locked lane n (sys_db s)") (simp add: system_inv_def)
qed (use assms(1) in \<open>simp_all add: system_inv_def ChargeCustomer_inv Create_inv Update_inv RotateKey_inv Apply_inv beat_inv leave_inv\<close>)

interpretation gateway: invariant_system system_init system_step system_inv
proof
  show "system_init s \<Longrightarrow> system_inv s" for s
    by (simp add: system_init_def system_inv_def db_inv_empty)
  show "system_inv s \<Longrightarrow> system_step s t \<Longrightarrow> system_inv t" for s t
    by (erule system_stepE) (blast intro: work_step_inv, simp add: system_inv_def Delete_inv)
qed

subsection \<open>The life of a message\<close>

text \<open>The status graph: accepted messages may become anything, sent ones are closed by a delivery report, and the
  four terminal statuses are final.\<close>

definition may_become :: "status \<Rightarrow> status \<Rightarrow> bool" where
  "may_become st st' \<longleftrightarrow> st' = st \<or> st = StatusAccepted \<or>
     st = StatusSent \<and> (st' = StatusDelivered \<or> st' = StatusUndelivered)"

definition evolved :: "message \<Rightarrow> message \<Rightarrow> bool" where
  "evolved m m' \<longleftrightarrow> m_id m' = m_id m \<and> m_customer_id m' = m_customer_id m \<and> m_recipient m' = m_recipient m \<and>
     m_body m' = m_body m \<and> m_cost m' = m_cost m \<and> m_accepted_at m' = m_accepted_at m \<and>
     may_become (m_status m) (m_status m') \<and>
     (terminal (m_status m) \<longrightarrow> m_completed_at m' = m_completed_at m \<and> m_failure_reason m' = m_failure_reason m)"

definition evolves :: "message list \<Rightarrow> message list \<Rightarrow> bool" where
  "evolves ms ms' \<longleftrightarrow> (\<forall>m\<in>set ms. \<exists>m'\<in>set ms'. evolved m m')"

lemma evolved_refl [simp]: "evolved m m"
  by (simp add: evolved_def may_become_def)

lemma may_become_trans: "may_become st st' \<Longrightarrow> may_become st' st'' \<Longrightarrow> may_become st st''"
  by (cases st; cases st'; simp add: may_become_def)

lemma may_become_terminal: "terminal st \<Longrightarrow> may_become st st' \<Longrightarrow> st' = st"
  by (cases st) (simp_all add: may_become_def)

lemma evolved_trans:
  assumes "evolved m m'" "evolved m' m''"
  shows "evolved m m''"
proof -
  have "m_status m' = m_status m" if "terminal (m_status m)"
    using assms(1) may_become_terminal [OF that] by (simp add: evolved_def)
  with assms may_become_trans show ?thesis by (simp add: evolved_def) blast
qed

lemma evolves_refl [simp]: "evolves ms ms"
  by (auto simp: evolves_def intro: evolved_refl)

lemma evolves_trans: "evolves ms ms' \<Longrightarrow> evolves ms' ms'' \<Longrightarrow> evolves ms ms''"
  unfolding evolves_def by (meson evolved_trans)

lemma evolves_append [simp]: "evolves ms (ms @ new)"
  by (auto simp: evolves_def intro: evolved_refl)

lemma evolves_map: "(\<And>m. m \<in> set ms \<Longrightarrow> evolved m (f m)) \<Longrightarrow> evolves ms (map f ms)"
  by (auto simp: evolves_def)

lemma evolves_update_join:
  assumes "\<And>r m. p m \<Longrightarrow> evolved m (upd r m)"
  shows "evolves ms (update_join m_id rkey p upd rs ms)"
  unfolding update_join_map by (rule evolves_map) (auto simp: assms split: option.splits)

lemma evolves_update_where: "(\<And>m. p m \<Longrightarrow> evolved m (f m)) \<Longrightarrow> evolves ms (update_where p f ms)"
  unfolding update_where_def by (rule evolves_map) auto

lemma commit_evolves:
  assumes "commit e wid sla batch d = Inr (d', r)"
  shows "evolves (messages d) (messages d')"
proof -
  from assms obtain d1 d2 d3 owned where
    d1: "d1 = fst (commitSent (env_now e) wid sla (filter (\<lambda>out. o_kind out = outcomeSent) owned) d)"
    and d2: "d2 = fst (commitRetry (env_now e) wid (filter (\<lambda>out. o_kind out = outcomeRetry) owned) d1)"
    and d3: "d3 = fst (commitDeferred (env_now e) wid (filter (\<lambda>out. o_kind out = outcomeDeferred) owned) d2)"
    and t: "(let ts = filter (\<lambda>out. o_kind out = outcomeFailed \<or> o_kind out = outcomeExpired) owned in
      if ts = [] then d' = d3 else \<exists>a x. commitTerminal e wid ts d3 = Inr (d', a, x))"
    by (rule commit_steps)
  have "evolves (messages d) (messages d1)"
    unfolding d1 commitSent_def Let_def
    by (simp add: evolves_update_join evolved_def sent_row_def may_become_def)
  moreover have "evolves (messages d1) (messages d2)"
    unfolding d2 commitRetry_def Let_def
    by (simp add: evolves_update_join evolved_def retry_row_def may_become_def)
  moreover have "messages d3 = messages d2" unfolding d3 commitDeferred_def Let_def by simp
  ultimately have ev: "evolves (messages d) (messages d3)" by (simp add: evolves_trans)
  have terminal: "evolves (messages d3) (messages d')" if "commitTerminal e wid ts d3 = Inr (d', a, x)" for ts a x
  proof -
    let ?ms = "update_join m_id o_id (\<lambda>m. m_status m = StatusAccepted) (finish_row (env_now e)) ts (messages d3)"
    from that obtain d4 where app: "ApplyRefunds e (map refund_of (filter (\<lambda>m. has_key o_id (m_id m) ts \<and> m_status m = StatusAccepted)
        (messages d3))) (d3\<lparr>messages := ?ms\<rparr>) = Inr d4" and d': "d' = deleteQueueRows wid (map o_id ts) d4"
      by (auto simp: commitTerminal_def Let_def returning_join_def split: if_splits sum.splits)
    have "messages d' = ?ms" using ApplyRefunds_frame [OF app] d' by simp
    moreover have "evolves (messages d3) ?ms" by (rule evolves_update_join) (simp add: evolved_def finish_row_def may_become_def)
    ultimately show ?thesis by simp
  qed
  show ?thesis
  proof (cases "filter (\<lambda>out. o_kind out = outcomeFailed \<or> o_kind out = outcomeExpired) owned = []")
    case True
    with t ev show ?thesis by (simp only: Let_def if_True)
  next
    case False
    with t obtain a x where "commitTerminal e wid (filter (\<lambda>out. o_kind out = outcomeFailed \<or> o_kind out = outcomeExpired) owned) d3
      = Inr (d', a, x)" by (auto simp only: Let_def if_False)
    from evolves_trans [OF ev terminal [OF this]] show ?thesis .
  qed
qed

lemma expire_evolves:
  assumes "expire e limit locked d = Inr (d', n)"
  shows "evolves (messages d) (messages d')"
proof -
  let ?f = "\<lambda>m. if expiring (env_now e) limit locked d m then expire_row (env_now e) m else m"
  obtain d1 where app: "ApplyRefunds e (map refund_of (filter (expiring (env_now e) limit locked d) (messages d)))
      (d\<lparr>messages := map ?f (messages d)\<rparr>) = Inr d1"
    and "d' = d1\<lparr>queue := filter (\<lambda>q. q_message_id q \<notin> m_id ` set (filter (expiring (env_now e) limit locked d) (messages d))) (queue d1)\<rparr>"
    by (rule expire_InrD [OF assms])
  then have "messages d' = map ?f (messages d)" using ApplyRefunds_frame [OF app] by simp
  moreover have "evolves (messages d) (map ?f (messages d))"
    by (rule evolves_map) (simp add: evolved_def expire_row_def may_become_def expiring_def)
  ultimately show ?thesis by simp
qed

lemma run_task_evolves:
  assumes "run_task cfg e locked t d = Inr (d', n)"
  shows "evolves (messages d) (messages d')"
proof (cases t)
  case taskFlagSLA
  with assms show ?thesis
    by (auto simp: run_task_def flagSLA_def Let_def evolved_def may_become_def intro!: evolves_update_where)
qed (use assms expire_evolves in \<open>auto simp: run_task_def removeOrphans_def reassignLanes_def removeStaleWorkers_def Let_def
    split: if_splits\<close>)

lemma WithTx_evolves:
  assumes "\<And>d' a. fn d = Inr (d', a) \<Longrightarrow> evolves (messages d) (messages d')"
  shows "evolves (messages d) (messages (fst (WithTx wrap fault fn d)))"
  by (rule WithTx_preserves [where P = "\<lambda>d'. evolves (messages d) (messages d')"]) (simp_all add: assms)

lemma Apply_evolves:
  assumes "reports_ok reports"
  shows "evolves (messages d) (messages (fst (Apply fault now reports d)))"
proof -
  obtain first uniq where fu: "first_reports 0 [] reports = (first, uniq)" by fastforce
  have "fst (Apply fault now reports d) = fst (WithTx tx_error fault (apply_body now uniq) d)"
    by (simp add: Apply_def fu split: prod.splits sum.splits)
  moreover have "evolves (messages d) (messages (fst (WithTx tx_error fault (apply_body now uniq) d)))"
  proof (rule WithTx_evolves)
    fix d' a assume "apply_body now uniq d = Inr (d', a)"
    then have "messages d' = update_join m_id rp_message_id (\<lambda>m. open_status (m_status m)) (report_row now)
        (sort_key rp_message_id uniq) (messages d)"
      by (auto simp: apply_body_def Let_def split: if_splits)
    moreover have "set uniq \<subseteq> set reports"
    proof -
      have "set (snd (first_reports i f rs)) \<subseteq> set rs" for i f rs
      proof (induction rs arbitrary: i f)
        case (Cons r rs)
        show ?case using Cons [of "Suc i" f] Cons [of "Suc i" "(rp_message_id r, i) # f"]
          by (auto simp: Let_def case_prod_beta split: option.splits)
      qed simp
      from this [of 0 "[]" reports] have "set (snd (first_reports 0 [] reports)) \<subseteq> set reports" .
      with fu show ?thesis by simp
    qed
    then have closing: "rp_status r = StatusDelivered \<or> rp_status r = StatusUndelivered" if "r \<in> set uniq" for r
      using assms that by (auto simp: reports_ok_def list_all_iff)
    have "evolved m (report_row now r m)" if "open_status (m_status m)" "row_of rp_message_id u (sort_key rp_message_id uniq) = Some r" for m r u
      using closing [of r] row_of_SomeD [OF that(2)] that(1)
      by (auto simp: evolved_def report_row_def may_become_def open_status_def)
    then have "evolves (messages d) (update_join m_id rp_message_id (\<lambda>m. open_status (m_status m)) (report_row now)
        (sort_key rp_message_id uniq) (messages d))"
      unfolding update_join_map by (intro evolves_map) (simp split: option.splits)
    ultimately show "evolves (messages d) (messages d')" by simp
  qed
  ultimately show ?thesis by simp
qed

lemma insert_accept_evolves:
  assumes "db_inv (env_now e) d" "items_ok cfg items"
  shows "evolves (messages d) (messages (fst (insert_accept fault e cfg cid items d)))"
proof (cases "insert_accept fault e cfg cid items d")
  case (Pair d' r)
  show ?thesis
  proof (cases r)
    case (Inl err)
    with Pair insert_accept_InlD [of fault e cfg cid items d d' err] show ?thesis by simp
  next
    case (Inr a)
    then obtain a' notify where "a = (a', notify)" by fastforce
    with Inr Pair insert_accept_InrD(1) [OF assms, of fault cid d' a' notify] show ?thesis by (simp add: accept_effect_def)
  qed
qed

lemma Charge_messages: "Charge e k cid amount ref d = Inr (d', r) \<Longrightarrow> messages d' = messages d"
  by (auto simp: Charge_def replayCharge_def insert_transaction_def add_balance_def Let_def
      split: if_splits option.splits sum.splits prod.splits db_error.splits)

lemma customer_messages:
  "messages (fst (ChargeCustomer fault e cid amount ref d)) = messages d"
  "messages (fst (Create fault sha e random n d)) = messages d"
  "messages (fst (Update now cid name rps d)) = messages d"
  "messages (fst (RotateKey sha now random cid d)) = messages d"
proof -
  show "messages (fst (ChargeCustomer fault e cid amount ref d)) = messages d"
    unfolding ChargeCustomer_def
    by (rule WithTx_preserves [where P = "\<lambda>d'. messages d' = messages d"]) (auto dest: Charge_messages)
  have up: "messages (fst (update_customer cid f d)) = messages d" for f
    by (simp add: update_customer_def split: option.splits)
  then show "messages (fst (Update now cid name rps d)) = messages d" by (simp add: Update_def)
  show "messages (fst (RotateKey sha now random cid d)) = messages d"
    using up by (simp add: RotateKey_def Let_def split: prod.splits sum.splits) (metis fst_conv)
  have "create_body sha e key n d = Inr (d', c) \<Longrightarrow> messages d' = messages d" for key d' c
    by (auto simp: create_body_def insert_customer_def Let_def dest!: Charge_messages split: if_splits sum.splits prod.splits)
  then have "messages (fst (WithTx tx_error fault (create_body sha e (GenerateKey random) n) d)) = messages d"
    by (intro WithTx_preserves [where P = "\<lambda>d'. messages d' = messages d"]) simp_all
  then show "messages (fst (Create fault sha e random n d)) = messages d"
    by (cases "WithTx tx_error fault (create_body sha e (GenerateKey random) n) d") (simp add: Create_def split: sum.splits)
qed

lemma work_step_evolves:
  assumes "system_inv s" "work_step s t"
  shows "evolves (messages (sys_db s)) (messages (sys_db t))"
  using assms(2)
proof cases
  case (accepted_insert cfg reqs batch items e fault cid)
  with assms(1) insert_accept_evolves [of e "sys_db s" cfg items fault cid] prepare_items_ok show ?thesis
    by (auto simp: system_inv_def)
next
  case (committed e fault wid sla batch)
  have "evolves (messages (sys_db s)) (messages (fst (WithTx tx_error fault (commit e wid sla batch) (sys_db s))))"
    by (rule WithTx_evolves) (rule commit_evolves)
  with committed show ?thesis by simp
next
  case (reported reports fault)
  then show ?thesis by (simp add: Apply_evolves)
next
  case (swept e fault acquired cfg locked tk)
  have "evolves (messages (sys_db s)) (messages (fst (locked_task fault acquired (run_task cfg e locked tk) (sys_db s))))"
    unfolding locked_task_def by (rule WithTx_evolves) (auto dest: run_task_evolves split: if_splits)
  with swept show ?thesis by simp
next
  case (claimed clock wid lease locked lane n)
  then show ?thesis by (simp add: claim_def Let_def)
qed (simp_all add: customer_messages beat_def leave_def)

subsection \<open>Conservation of credits\<close>

lemma sum_list_group:
  fixes f :: "'a \<Rightarrow> int"
  assumes "distinct ks"
  shows "(\<Sum>x\<leftarrow>filter (\<lambda>x. key x \<in> set ks) xs. f x) = (\<Sum>k\<leftarrow>ks. \<Sum>x\<leftarrow>filter (\<lambda>x. key x = k) xs. f x)"
  using assms
proof (induction ks)
  case (Cons k ks)
  have "(\<Sum>x\<leftarrow>filter (\<lambda>x. key x \<in> set (k # ks)) xs. f x) =
      (\<Sum>x\<leftarrow>filter (\<lambda>x. key x = k) xs. f x) + (\<Sum>x\<leftarrow>filter (\<lambda>x. key x \<in> set ks) xs. f x)"
    using Cons.prems by (induction xs) auto
  with Cons show ?case by simp
qed simp

lemma sum_list_split:
  fixes f :: "'a \<Rightarrow> int"
  shows "(\<Sum>x\<leftarrow>filter P xs. f x) = (\<Sum>x\<leftarrow>filter (\<lambda>x. P x \<and> Q x) xs. f x) + (\<Sum>x\<leftarrow>filter (\<lambda>x. P x \<and> \<not> Q x) xs. f x)"
  by (induction xs) auto

lemma sum_list_negated:
  fixes f :: "'a \<Rightarrow> int"
  shows "(\<Sum>x\<leftarrow>filter P xs. if Q x then 0 else - f x) = - (\<Sum>x\<leftarrow>filter (\<lambda>x. P x \<and> \<not> Q x) xs. f x)"
  by (induction xs) auto

text \<open>What the ledger holds about one message: the debit, and the refund if it ended.\<close>

lemma message_net:
  assumes inv: "db_inv now d" and m: "m \<in> set (messages d)"
  shows "(\<Sum>t\<leftarrow>filter (\<lambda>t. t_message_id t = Some (m_id m)) (transactions d). t_amount t) =
    (if ended (m_status m) then 0 else - m_cost m)"
proof -
  let ?ts = "transactions d" and ?mine = "\<lambda>t. t_message_id t = Some (m_id m)"
  have kinds: "t_kind t = KindDebit \<or> t_kind t = KindRefund" if "t \<in> set ?ts" "?mine t" for t
    using db_inv_rowsD(3) [OF inv that(1)] that(2) by (cases "t_kind t") (simp_all add: transaction_check_def)
  have "filter (\<lambda>t. ?mine t \<and> t_kind t \<noteq> KindDebit) ?ts = txns_of KindRefund (m_id m) ?ts"
    unfolding txns_of_def by (rule filter_cong [OF refl]) (use kinds in fastforce)
  then have "(\<Sum>t\<leftarrow>filter ?mine ?ts. t_amount t) =
      sum_list (map t_amount (txns_of KindDebit (m_id m) ?ts)) + sum_list (map t_amount (txns_of KindRefund (m_id m) ?ts))"
    using sum_list_split [of t_amount ?mine ?ts "\<lambda>t. t_kind t = KindDebit"] by (simp add: txns_of_def)
  with db_inv_rowsD(4) [OF inv m] show ?thesis by (simp add: message_ledger_ok_def)
qed

lemma credits_conserved:
  assumes inv: "db_inv now d" and c: "c \<in> set (customers d)"
  shows "(\<Sum>t\<leftarrow>filter (\<lambda>t. t_customer_id t = c_id c \<and> t_kind t = KindCharge) (transactions d). t_amount t) =
    c_balance c + (\<Sum>m\<leftarrow>filter (\<lambda>m. m_customer_id m = c_id c \<and> \<not> ended (m_status m)) (messages d). m_cost m)"
proof -
  let ?ts = "transactions d" and ?own = "\<lambda>t. t_customer_id t = c_id c"
  let ?ms = "filter (\<lambda>m. m_customer_id m = c_id c) (messages d)"
  let ?ids = "map (\<lambda>m. Some (m_id m)) ?ms"
  have same: "?own t \<and> t_kind t \<noteq> KindCharge \<longleftrightarrow> t_message_id t \<in> set ?ids" if t: "t \<in> set ?ts" for t
  proof
    assume own: "?own t \<and> t_kind t \<noteq> KindCharge"
    with db_inv_rowsD(3) [OF inv t] obtain u where u: "t_message_id t = Some u" by (cases "t_message_id t") (auto simp: transaction_check_def)
    from db_inv_foreignD(3) [OF inv t u] obtain m where m: "m \<in> set (messages d)" "m_id m = u" by (metis imageE)
    with db_inv_rowsD(4) [OF inv m(1)] t u own have "m_customer_id m = c_id c" by (auto simp: message_ledger_ok_def)
    with m u show "t_message_id t \<in> set ?ids" by auto
  next
    assume "t_message_id t \<in> set ?ids"
    then obtain m where m: "m \<in> set (messages d)" "m_customer_id m = c_id c" "t_message_id t = Some (m_id m)" by auto
    with db_inv_rowsD(4) [OF inv m(1)] db_inv_rowsD(3) [OF inv t] t show "?own t \<and> t_kind t \<noteq> KindCharge"
      by (auto simp: message_ledger_ok_def transaction_check_def)
  qed
  have dist: "distinct ?ids"
    using db_inv_keysD(2) [OF inv] by (auto simp: distinct_map inj_on_def)
  have "(\<Sum>t\<leftarrow>filter (\<lambda>t. ?own t \<and> t_kind t \<noteq> KindCharge) ?ts. t_amount t) =
      (\<Sum>t\<leftarrow>filter (\<lambda>t. t_message_id t \<in> set ?ids) ?ts. t_amount t)"
    by (rule arg_cong [where f = "\<lambda>xs. sum_list (map t_amount xs)"], rule filter_cong [OF refl]) (rule same)
  also have "\<dots> = (\<Sum>m\<leftarrow>?ms. \<Sum>t\<leftarrow>filter (\<lambda>t. t_message_id t = Some (m_id m)) ?ts. t_amount t)"
    using sum_list_group [OF dist, of t_amount t_message_id ?ts] by (simp add: comp_def)
  also have "\<dots> = (\<Sum>m\<leftarrow>?ms. if ended (m_status m) then 0 else - m_cost m)"
    by (rule arg_cong [where f = sum_list], rule map_cong [OF refl], rule message_net [OF inv]) simp
  also have "\<dots> = - (\<Sum>m\<leftarrow>filter (\<lambda>m. m_customer_id m = c_id c \<and> \<not> ended (m_status m)) (messages d). m_cost m)"
    by (rule sum_list_negated)
  finally have "ledger_sum (c_id c) ?ts = (\<Sum>t\<leftarrow>filter (\<lambda>t. ?own t \<and> t_kind t = KindCharge) ?ts. t_amount t) -
      (\<Sum>m\<leftarrow>filter (\<lambda>m. m_customer_id m = c_id c \<and> \<not> ended (m_status m)) (messages d). m_cost m)"
    using sum_list_split [of t_amount ?own ?ts "\<lambda>t. t_kind t = KindCharge"] by (simp add: ledger_sum_def)
  moreover have "c_balance c = ledger_sum (c_id c) ?ts" using inv c by (simp add: db_inv_def ledger_ok_def balances_ok_def)
  ultimately show ?thesis by simp
qed

interpretation lifecycle: settled_system system_init work_step system_inv
    "\<lambda>s. \<exists>m'\<in>set (messages (sys_db s)). evolved m m'" for m
proof
  show "system_init s \<Longrightarrow> system_inv s" for s by (rule gateway.init_invariant)
  show "system_inv s \<Longrightarrow> work_step s t \<Longrightarrow> system_inv t" for s t by (rule work_step_inv)
  show "\<exists>m'\<in>set (messages (sys_db t)). evolved m m'"
    if "system_inv s" "\<exists>m'\<in>set (messages (sys_db s)). evolved m m'" "work_step s t" for s t
    using work_step_evolves [OF that(1,3)] that(2) unfolding evolves_def by (meson evolved_trans)
qed

subsection \<open>Properties\<close>


text \<open>C2: Every message a reachable database holds was paid for once and only once, was refunded once if it failed or
  expired and never otherwise, and is in the queue if it still waits to be sent.\<close>

theorem gateway_settles_messages:
  assumes "reachable system_init system_step s" "m \<in> set (messages (sys_db s))"
  shows "map t_amount (txns_of KindDebit (m_id m) (transactions (sys_db s))) = [- m_cost m] \<and>
    map t_amount (txns_of KindRefund (m_id m) (transactions (sys_db s))) = (if ended (m_status m) then [m_cost m] else []) \<and>
    (m_status m = StatusAccepted \<longrightarrow> (\<exists>q\<in>set (queue (sys_db s)). q_message_id q = m_id m)) \<and>
    (terminal (m_status m) \<longrightarrow> m_completed_at m \<noteq> None)"
proof -
  have inv: "db_inv (sys_now s) (sys_db s)" using gateway.reachable_invariant [OF assms(1)] by (simp add: system_inv_def)
  have "\<exists>q\<in>set (queue (sys_db s)). q_message_id q = m_id m" if "m_status m = StatusAccepted"
    using inv assms(2) that unfolding db_inv_def queued_ok_def by (metis imageE)
  with db_inv_rowsD(4,5) [OF inv assms(2)] show ?thesis by (simp add: message_ledger_ok_def stamps_ok_def)
qed



subsection \<open>Instances\<close>

text \<open>A gateway in which one customer was created with 1000 credits and has sent one message.\<close>

definition start_env :: env where
  "start_env = \<lparr>env_now = 0, env_new_id = (\<lambda>k. word_of_nat (k + 1)), env_uuid_string = (\<lambda>u. ''id'')\<rparr>"

definition demo_created :: db where
  "demo_created = empty_db\<lparr>
     customers := [\<lparr>c_id = 1, c_name = ''Acme'', c_api_key_hash = ''h'', c_api_key_prefix = DisplayPrefix (GenerateKey []),
       c_balance = 1000, c_rate_limit_rps = 100, c_created_at = 0, c_updated_at = 0\<rparr>],
     transactions := [\<lparr>t_id = 3, t_customer_id = 1, t_kind = KindCharge, t_amount = 1000, t_message_id = None,
       t_client_ref = Some ''admin-id'', t_created_at = 0\<rparr>]\<rparr>"

definition demo_system :: system where
  "demo_system = \<lparr>sys_now = 1000, sys_db = accept_effect demo_env demo_config 1 [demo_item ''Hi'' ''a1''] demo_created\<rparr>"

lemma demo_create:
  "fst (Create NoFault (\<lambda>k. ''h'') start_env [] \<lparr>n_name = ''Acme'', n_initial_credits = 1000, n_rate_limit_rps = 100\<rparr> empty_db)
   = demo_created"
  by (simp add: Create_def create_body_def insert_customer_def customer_row_def customer_check_def start_env_def demo_created_def
      empty_db_def runes_ascii in_int64_def max_int64_def has_key_def WithTx_def Charge_def charge_transaction_def
      transaction_check_def charge_ref_taken_def insert_transaction_def message_kind_taken_def add_balance_def row_of_def
      update_where_def AdminChargeRef_def Let_def)

lemma demo_system_reachable: "reachable system_init system_step demo_system"
proof -
  let ?s0 = "\<lparr>sys_now = 0, sys_db = empty_db\<rparr>" and ?s1 = "\<lparr>sys_now = 0, sys_db = demo_created\<rparr>"
  let ?s2 = "\<lparr>sys_now = 1000, sys_db = demo_created\<rparr>" and ?items = "[demo_item ''Hi'' ''a1'']"
  have "reachable system_init system_step ?s0" by (rule reachable_init) (simp add: system_init_def)
  moreover have "env_now start_env = sys_now ?s0" by (simp add: start_env_def)
  then have "system_step ?s0 ?s1"
    using work [OF customer_created [of start_env ?s0 NoFault "\<lambda>k. ''h''" "[]"
        "\<lparr>n_name = ''Acme'', n_initial_credits = 1000, n_rate_limit_rps = 100\<rparr>"]]
    by (simp add: demo_create)
  moreover have "system_step ?s1 ?s2" using work [OF time_passes [of ?s1 1000]] by simp
  ultimately have r2: "reachable system_init system_step ?s2" by (blast intro: reachable_step)
  then have inv: "db_inv 1000 demo_created" using gateway.reachable_invariant [OF r2] by (simp add: system_inv_def)
  have ok: "items_ok demo_config ?items" by (rule prepare_items_ok(1) [OF demo_config_ok demo_prepare(1) [of True]]) simp
  have "accept_fresh demo_env demo_config 1 ?items demo_created"
    by (simp add: accept_fresh_def accept_ids_def accept_rows_def demo_env_def demo_created_def empty_db_def new_message_def
        demo_item_def NullString_def)
  with insert_body_eq [OF inv ok, of demo_env 1]
  have "insert_body demo_env demo_config 1 ?items demo_created = Inr (sys_db demo_system, accept_rows demo_env demo_config 1 ?items, False)"
    by (simp add: demo_system_def row_of_def demo_created_def demo_item_def)
  then have "fst (insert_accept NoFault demo_env demo_config 1 ?items demo_created) = sys_db demo_system"
    by (simp add: insert_accept_def WithTx_def)
  then have "system_step ?s2 demo_system"
    using work [OF accepted_insert [OF demo_config_ok demo_prepare(1) [of True], of demo_env ?s2 NoFault 1]]
    by (simp add: demo_env_def demo_system_def)
  with r2 show ?thesis by (blast intro: reachable_step)
qed

definition demo_first :: message where
  "demo_first = new_message demo_env demo_config 1 100 (demo_item ''Hi'' ''a1'')"

lemma demo_first_in: "demo_first \<in> set (messages (sys_db demo_system))"
  by (simp add: demo_first_def demo_system_def accept_effect_def accept_rows_def accept_ids_def demo_env_def)


theorem gateway_settles_messages_witness:
  "map t_amount (txns_of KindDebit 100 (transactions (sys_db demo_system))) = [- 10] \<and>
   map t_amount (txns_of KindRefund 100 (transactions (sys_db demo_system))) = [] \<and>
   (\<exists>q\<in>set (queue (sys_db demo_system)). q_message_id q = 100)"
  using gateway_settles_messages [OF demo_system_reachable demo_first_in]
  by (simp add: demo_first_def new_message_def demo_item_def)



end
