(* ===== verification/Policy.thy ===== *)
theory Policy
  imports Lease
begin

text \<open>
  Retry policy and the reading of provider answers: \<^verbatim>\<open>internal/dispatch/policy.go\<close>,
  \<^verbatim>\<open>classify.go\<close> and the decisions of \<^verbatim>\<open>client.go\<close>. What the HTTP exchange yields is a value of
  type \<open>exchange\<close>; the decisions on it are those of \<^verbatim>\<open>client.send\<close>. A Go panic is \<open>None\<close>.
\<close>

subsection \<open>Backoff\<close>

record policy =
  pol_class :: mtype
  pol_max_attempts :: int
  pol_backoff_base :: duration
  pol_backoff_max :: duration
  pol_timeout :: duration
  pol_rotate :: bool

text \<open>\<^verbatim>\<open>Policy.Backoff\<close>. The shift is Go's on \<^verbatim>\<open>int64\<close>: it wraps around, and a negative count panics.
  \<open>scale x\<close> is \<^verbatim>\<open>time.Duration(random() * float64(x))\<close>, with \<^verbatim>\<open>random()\<close> in \<open>[0, 1)\<close>.\<close>

definition Backoff :: "policy \<Rightarrow> int \<Rightarrow> (duration \<Rightarrow> duration) \<Rightarrow> duration option" where
  "Backoff p attempt scale =
     (let full = pol_backoff_max p
      in if attempt - 1 < 32
         then if attempt - 1 < 0 then None
              else let ex = wrap64 (pol_backoff_base p * 2 ^ nat (attempt - 1));
                       d = (if 0 < ex \<and> ex < full then ex else full)
                   in Some (d sdiv 2 + scale (d sdiv 2))
         else Some (full sdiv 2 + scale (full sdiv 2)))"

text \<open>The documented delay: the base doubled per attempt, capped.\<close>

definition full_delay :: "policy \<Rightarrow> int \<Rightarrow> duration" where
  "full_delay p attempt = min (pol_backoff_base p * 2 ^ nat (attempt - 1)) (pol_backoff_max p)"

definition scales :: "(duration \<Rightarrow> duration) \<Rightarrow> bool" where
  "scales scale \<longleftrightarrow> (\<forall>x\<ge>0. 0 \<le> scale x \<and> scale x \<le> x)"

lemma Backoff_capped:
  assumes "1 \<le> attempt" "0 < pol_backoff_base p" "in_int64 (pol_backoff_max p)" "0 < pol_backoff_max p"
    and "32 < attempt \<Longrightarrow> pol_backoff_max p \<le> pol_backoff_base p * 2 ^ 32"
    and "attempt \<le> 32 \<Longrightarrow> in_int64 (pol_backoff_base p * 2 ^ nat (attempt - 1))"
  shows "Backoff p attempt scale = Some (full_delay p attempt sdiv 2 + scale (full_delay p attempt sdiv 2))"
proof (cases "attempt \<le> 32")
  case True
  then have "wrap64 (pol_backoff_base p * 2 ^ nat (attempt - 1)) = pol_backoff_base p * 2 ^ nat (attempt - 1)"
    by (intro wrap64_id assms(6))
  moreover have "0 < pol_backoff_base p * 2 ^ nat (attempt - 1)" using assms(2) by simp
  ultimately show ?thesis using True assms(1) by (simp add: Backoff_def full_delay_def min_def Let_def)
next
  case False
  have "pol_backoff_base p * 2 ^ 32 \<le> pol_backoff_base p * 2 ^ nat (attempt - 1)"
    using assms(2) False by (intro mult_left_mono power_increasing) auto
  with assms(5) False have "full_delay p attempt = pol_backoff_max p" by (simp add: full_delay_def)
  with False show ?thesis by (simp add: Backoff_def Let_def)
qed

lemma half_bounds:
  fixes d :: int
  assumes "0 \<le> d" "scales scale"
  shows "d div 2 \<le> d sdiv 2 + scale (d sdiv 2)" "d sdiv 2 + scale (d sdiv 2) \<le> d"
proof -
  have half: "d sdiv 2 = d div 2" using assms(1) by (cases "d = 0") (simp_all add: signed_divide_int_def)
  moreover have "0 \<le> scale (d div 2)" "scale (d div 2) \<le> d div 2" using assms by (simp_all add: scales_def)
  ultimately show "d div 2 \<le> d sdiv 2 + scale (d sdiv 2)" "d sdiv 2 + scale (d sdiv 2) \<le> d" by simp_all
qed

subsection \<open>Provider answers\<close>

record transport_error =
  te_text :: string
  te_deadline :: bool

record send_error =
  se_status :: int
  se_permanent :: bool
  se_provider_fault :: bool
  se_err :: "transport_error option"

datatype go_error = SendErr send_error | Plain transport_error

definition StatusTooManyRequests :: int where "StatusTooManyRequests = 429"
definition StatusOK :: int where "StatusOK = 200"

text \<open>\<^verbatim>\<open>http.StatusText\<close>\<close>

definition status_texts :: "(int \<times> string) list" where
  "status_texts =
    [(100, ''Continue''), (101, ''Switching Protocols''), (102, ''Processing''), (103, ''Early Hints''),
     (200, ''OK''), (201, ''Created''), (202, ''Accepted''), (203, ''Non-Authoritative Information''),
     (204, ''No Content''), (205, ''Reset Content''), (206, ''Partial Content''), (207, ''Multi-Status''),
     (208, ''Already Reported''), (226, ''IM Used''),
     (300, ''Multiple Choices''), (301, ''Moved Permanently''), (302, ''Found''), (303, ''See Other''),
     (304, ''Not Modified''), (305, ''Use Proxy''), (307, ''Temporary Redirect''), (308, ''Permanent Redirect''),
     (400, ''Bad Request''), (401, ''Unauthorized''), (402, ''Payment Required''), (403, ''Forbidden''),
     (404, ''Not Found''), (405, ''Method Not Allowed''), (406, ''Not Acceptable''),
     (407, ''Proxy Authentication Required''), (408, ''Request Timeout''), (409, ''Conflict''), (410, ''Gone''),
     (411, ''Length Required''), (412, ''Precondition Failed''), (413, ''Request Entity Too Large''),
     (414, ''Request URI Too Long''), (415, ''Unsupported Media Type''), (416, ''Requested Range Not Satisfiable''),
     (417, ''Expectation Failed''), (418, ''I'' @ [char_of (39 :: nat)] @ ''m a teapot''), (421, ''Misdirected Request''),
     (422, ''Unprocessable Entity''), (423, ''Locked''), (424, ''Failed Dependency''), (425, ''Too Early''),
     (426, ''Upgrade Required''), (428, ''Precondition Required''), (429, ''Too Many Requests''),
     (431, ''Request Header Fields Too Large''), (451, ''Unavailable For Legal Reasons''),
     (500, ''Internal Server Error''), (501, ''Not Implemented''), (502, ''Bad Gateway''),
     (503, ''Service Unavailable''), (504, ''Gateway Timeout''), (505, ''HTTP Version Not Supported''),
     (506, ''Variant Also Negotiates''), (507, ''Insufficient Storage''), (508, ''Loop Detected''),
     (510, ''Not Extended''), (511, ''Network Authentication Required'')]"

definition StatusText :: "int \<Rightarrow> string" where
  "StatusText code = (case map_of status_texts code of None \<Rightarrow> [] | Some s \<Rightarrow> s)"

definition send_error_text :: "send_error \<Rightarrow> string option" where
  "send_error_text e =
     (if se_status e = 0 then map_option te_text (se_err e)
      else Some (''HTTP '' @ itoa (se_status e) @ '' '' @ StatusText (se_status e)))"

definition classifyStatus :: "int \<Rightarrow> send_error" where
  "classifyStatus status =
     (let e = \<lparr>se_status = status, se_permanent = False, se_provider_fault = False, se_err = None\<rparr>
      in if status = StatusTooManyRequests then e
         else if 500 \<le> status then e\<lparr>se_provider_fault := True\<rparr>
         else e\<lparr>se_permanent := True\<rparr>)"

definition classifyTransportError :: "transport_error \<Rightarrow> send_error" where
  "classifyTransportError err = \<lparr>se_status = 0, se_permanent = False, se_provider_fault = True, se_err = Some err\<rparr>"

definition asSendError :: "go_error \<Rightarrow> send_error" where
  "asSendError err = (case err of SendErr se \<Rightarrow> se | Plain te \<Rightarrow> classifyTransportError te)"

text \<open>The outcome of the HTTP exchange: the request could not be built, the round trip failed, or a response
  arrived whose body decodes to a reference or not.\<close>

datatype decoded = Decoded string | Undecodable string

datatype exchange = BuildFailed transport_error | RoundTripFailed transport_error | Response int decoded

definition unreadable :: "int \<Rightarrow> string \<Rightarrow> send_error" where
  "unreadable status err =
     \<lparr>se_status = status, se_permanent = False, se_provider_fault = True,
      se_err = Some \<lparr>te_text = ''unreadable acceptance: '' @ err, te_deadline = False\<rparr>\<rparr>"

definition client_send :: "exchange \<Rightarrow> go_error + string" where
  "client_send x =
     (case x of
        BuildFailed te \<Rightarrow> Inl (Plain te)
      | RoundTripFailed te \<Rightarrow> Inl (SendErr (classifyTransportError te))
      | Response status body \<Rightarrow>
          if status \<noteq> StatusOK then Inl (SendErr (classifyStatus status))
          else (case body of
              Undecodable err \<Rightarrow> Inl (SendErr (unreadable status err))
            | Decoded ref \<Rightarrow> if ref = [] then Inl (SendErr (unreadable status ''<nil>'')) else Inr ref))"

text \<open>An HTTP status is never 0, so every error of an exchange has a text.\<close>

definition proper_exchange :: "exchange \<Rightarrow> bool" where
  "proper_exchange x = (case x of Response status body \<Rightarrow> 100 \<le> status | _ \<Rightarrow> True)"

lemma send_error_text_Some:
  assumes "proper_exchange x" "client_send x = Inl err"
  shows "\<exists>s. send_error_text (asSendError err) = Some s"
  using assms
  by (auto simp: client_send_def send_error_text_def asSendError_def classifyStatus_def classifyTransportError_def
      proper_exchange_def unreadable_def Let_def StatusOK_def split: exchange.splits decoded.splits if_splits)

definition attemptLabel :: "send_error \<Rightarrow> string" where
  "attemptLabel se =
     (if se_permanent se then ''rejected''
      else if (case se_err se of None \<Rightarrow> False | Some te \<Rightarrow> te_deadline te) then ''timeout'' else ''retry'')"

subsection \<open>Properties\<close>


text \<open>Without that bound the shift wraps around: with a base just above \<open>2\<^sup>3\<^sup>3\<close> nanoseconds the 32nd failed
  attempt is followed by a pause of about two seconds instead of the configured ten minutes.\<close>

theorem Backoff_wraps:
  "\<exists>p delay. 0 < pol_backoff_base p \<and> pol_backoff_base p \<le> pol_backoff_max p \<and> full_delay p 32 = 10 * minute \<and>
     Backoff p 32 (\<lambda>x. x) = Some delay \<and> delay < 3 * second"
proof -
  let ?p = "\<lparr>pol_class = Normal, pol_max_attempts = 100, pol_backoff_base = 2 ^ 33 + 1, pol_backoff_max = 10 * minute,
    pol_timeout = second, pol_rotate = False\<rparr>"
  have "wrap64 ((2 ^ 33 + 1) * 2 ^ 31) = 2 ^ 31" by (simp add: wrap64_def signed_take_bit_eq_take_bit_shift take_bit_eq_mod)
  then have "Backoff ?p 32 (\<lambda>x. x) = Some (2 ^ 31)" by (simp add: Backoff_def Let_def time_unit_defs)
  moreover have "full_delay ?p 32 = 10 * minute" by (simp add: full_delay_def time_unit_defs)
  ultimately show ?thesis by (intro exI [of _ ?p] exI [of _ "2 ^ 31"]) (simp add: time_unit_defs)
qed

lemma third_scales: "scales (\<lambda>x. x div 3)"
  unfolding scales_def by (auto simp: int_div_less_self intro: order.trans [OF zdiv_mono2 [of _ 1 3]])


end
