(* ===== verification/Breaker.thy ===== *)
theory Breaker
  imports Transitions
begin

text \<open>
  The circuit breaker of a provider: \<^verbatim>\<open>internal/dispatch/circuit.go\<close>. Every method runs under the
  breaker's mutex, so a method is one step; the time it reads is its argument \<open>now\<close>. As in the
  code, reading the state turns an open circuit half-open once its pause is over.
\<close>

subsection \<open>State and methods\<close>

datatype circuit_state = CircuitClosed | CircuitHalfOpen | CircuitOpen

definition circuit_string :: "circuit_state \<Rightarrow> string" where
  "circuit_string s = (case s of CircuitHalfOpen \<Rightarrow> ''half_open'' | CircuitOpen \<Rightarrow> ''open'' | CircuitClosed \<Rightarrow> ''closed'')"

record breaker =
  b_threshold :: int
  b_open_for :: duration
  b_state :: circuit_state
  b_failures :: int
  b_opened_at :: gtime
  b_probing :: bool

definition newBreaker :: "int \<Rightarrow> duration \<Rightarrow> breaker" where
  "newBreaker threshold openFor =
     \<lparr>b_threshold = threshold, b_open_for = openFor, b_state = CircuitClosed, b_failures = 0,
      b_opened_at = zero_time, b_probing = False\<rparr>"

definition currentLocked :: "gtime \<Rightarrow> breaker \<Rightarrow> breaker \<times> circuit_state" where
  "currentLocked now b =
     (let b' = (if b_state b = CircuitOpen \<and> \<not> now < b_opened_at b + b_open_for b
                then b\<lparr>b_state := CircuitHalfOpen\<rparr> else b)
      in (b', b_state b'))"

definition allow :: "gtime \<Rightarrow> breaker \<Rightarrow> breaker \<times> bool" where
  "allow now b =
     (case currentLocked now b of
        (b', CircuitClosed) \<Rightarrow> (b', True)
      | (b', CircuitHalfOpen) \<Rightarrow> if b_probing b' then (b', False) else (b'\<lparr>b_probing := True\<rparr>, True)
      | (b', CircuitOpen) \<Rightarrow> (b', False))"

definition usable :: "gtime \<Rightarrow> breaker \<Rightarrow> breaker \<times> bool" where
  "usable now b =
     (case currentLocked now b of
        (b', CircuitClosed) \<Rightarrow> (b', True)
      | (b', CircuitHalfOpen) \<Rightarrow> (b', \<not> b_probing b')
      | (b', CircuitOpen) \<Rightarrow> (b', False))"

definition nextProbe :: "breaker \<Rightarrow> gtime" where
  "nextProbe b = b_opened_at b + b_open_for b"

definition breaker_record :: "gtime \<Rightarrow> bool \<Rightarrow> bool \<Rightarrow> breaker \<Rightarrow> breaker" where
  "breaker_record now success counted b =
     (let wasProbe = b_probing b;
          b = b\<lparr>b_probing := False\<rparr>
      in if success then b\<lparr>b_state := CircuitClosed, b_failures := 0\<rparr>
         else if wasProbe \<and> counted then b\<lparr>b_state := CircuitOpen, b_opened_at := now\<rparr>
         else if counted
         then let b = b\<lparr>b_failures := b_failures b + 1\<rparr>
              in if b_failures b \<ge> b_threshold b
                 then b\<lparr>b_state := CircuitOpen, b_opened_at := now, b_failures := 0\<rparr> else b
         else b)"

definition State :: "gtime \<Rightarrow> breaker \<Rightarrow> breaker \<times> circuit_state" where
  "State now b = currentLocked now b"

lemmas breaker_defs = currentLocked_def allow_def usable_def breaker_record_def State_def Let_def

subsection \<open>Histories\<close>

text \<open>The calls a breaker receives, with the time each reads, and the answers \<^verbatim>\<open>allow\<close> gives.\<close>

datatype breaker_call = CallAllow | CallUsable | CallState | CallRecord bool bool

definition call :: "gtime \<Rightarrow> breaker_call \<Rightarrow> breaker \<Rightarrow> breaker" where
  "call now c b =
     (case c of CallAllow \<Rightarrow> fst (allow now b) | CallUsable \<Rightarrow> fst (usable now b) | CallState \<Rightarrow> fst (State now b)
      | CallRecord success counted \<Rightarrow> breaker_record now success counted b)"

fun granted :: "(gtime \<times> breaker_call) list \<Rightarrow> breaker \<Rightarrow> nat" where
  "granted [] b = 0"
| "granted ((now, c) # cs) b =
     (if c = CallAllow \<and> snd (allow now b) then 1 else 0) + granted cs (call now c b)"

fun records :: "breaker_call \<Rightarrow> bool" where
  "records (CallRecord success counted) = True"
| "records _ = False"

subsection \<open>Invariant\<close>

text \<open>A breaker in use, with the clock it reads.\<close>

inductive breaker_step :: "gtime \<times> breaker \<Rightarrow> gtime \<times> breaker \<Rightarrow> bool" where
  tick: "now \<le> now' \<Longrightarrow> breaker_step (now, b) (now', b)"
| called: "breaker_step (now, b) (now, call now c b)"

inductive_cases breaker_stepE: "breaker_step s t"

fun breaker_init :: "int \<Rightarrow> duration \<Rightarrow> gtime \<times> breaker \<Rightarrow> bool" where
  "breaker_init threshold openFor (now, b) \<longleftrightarrow> 1 \<le> threshold \<and> zero_time \<le> now \<and> b = newBreaker threshold openFor"

fun breaker_inv :: "int \<Rightarrow> duration \<Rightarrow> gtime \<times> breaker \<Rightarrow> bool" where
  "breaker_inv threshold openFor (now, b) \<longleftrightarrow>
     b_threshold b = threshold \<and> b_open_for b = openFor \<and> 0 \<le> b_failures b \<and> b_failures b < threshold \<and>
     b_opened_at b \<le> now \<and> (b_probing b \<longrightarrow> b_state b = CircuitHalfOpen)"

lemma call_inv: "breaker_inv threshold openFor (now, b) \<Longrightarrow> breaker_inv threshold openFor (now, call now c b)"
  by (cases c; cases "b_state b") (auto simp: call_def breaker_defs)

interpretation circuit: invariant_system "breaker_init threshold openFor" breaker_step "breaker_inv threshold openFor"
  for threshold openFor
proof
  show "breaker_init threshold openFor s \<Longrightarrow> breaker_inv threshold openFor s" for s
    by (cases s) (auto simp: newBreaker_def)
  show "breaker_inv threshold openFor s \<Longrightarrow> breaker_step s t \<Longrightarrow> breaker_inv threshold openFor t" for s t
    by (erule breaker_stepE) (auto simp del: breaker_inv.simps intro: call_inv, simp)
qed

subsection \<open>Probes\<close>

lemma call_waiting:
  assumes "b_probing b" "b_state b = CircuitHalfOpen" "\<not> records c"
  shows "b_probing (call now c b)" "b_state (call now c b) = CircuitHalfOpen" "\<not> snd (allow now b)" "\<not> snd (usable now b)"
  using assms by (cases c; auto simp: call_def breaker_defs)+

lemma granted_waiting:
  assumes "b_probing b" "b_state b = CircuitHalfOpen" "\<forall>c\<in>snd ` set cs. \<not> records c"
  shows "granted cs b = 0"
  using assms
proof (induction cs arbitrary: b)
  case (Cons tc cs)
  obtain now c where tc: "tc = (now, c)" by fastforce
  with Cons.prems call_waiting [OF Cons.prems(1,2), of c now] Cons.IH [of "call now c b"] show ?case by simp
qed simp

lemma granted_half_open:
  assumes "\<not> b_probing b" "b_state b = CircuitHalfOpen" "\<forall>c\<in>snd ` set cs. \<not> records c"
  shows "granted cs b = (if CallAllow \<in> snd ` set cs then 1 else 0)"
  using assms
proof (induction cs arbitrary: b)
  case (Cons tc cs)
  obtain now c where tc: "tc = (now, c)" by fastforce
  show ?case
  proof (cases "c = CallAllow")
    case True
    have "granted cs (call now CallAllow b) = 0"
      using Cons.prems by (intro granted_waiting) (simp_all add: call_def breaker_defs)
    with True Cons.prems(1,2) tc show ?thesis by (simp add: breaker_defs)
  next
    case False
    have "call now c b = b" using Cons.prems False tc by (cases c) (simp_all add: call_def breaker_defs)
    with Cons.IH [of b] Cons.prems False tc show ?thesis by (auto simp: image_iff)
  qed
qed simp

lemma granted_open:
  assumes "\<not> b_probing b" "b_state b = CircuitOpen" "\<forall>c\<in>snd ` set cs. \<not> records c" "sorted (map fst cs)"
  shows "granted cs b = (if \<exists>now. (now, CallAllow) \<in> set cs \<and> nextProbe b \<le> now then 1 else 0)"
  using assms
proof (induction cs)
  case (Cons tc cs)
  obtain now c where tc: "tc = (now, c)" by fastforce
  show ?case
  proof (cases "now < nextProbe b")
    case True
    have "call now c b = b" using Cons.prems True tc by (cases c) (simp_all add: call_def breaker_defs nextProbe_def)
    moreover have "\<not> snd (allow now b)" using Cons.prems True by (simp add: breaker_defs nextProbe_def)
    ultimately show ?thesis using Cons True tc by auto
  next
    case False
    let ?h = "b\<lparr>b_state := CircuitHalfOpen\<rparr>"
    have "granted (tc # cs) b = granted (tc # cs) ?h"
      using Cons.prems False tc by (cases c) (simp_all add: call_def breaker_defs nextProbe_def)
    also have "\<dots> = (if CallAllow \<in> snd ` set (tc # cs) then 1 else 0)"
      using Cons.prems by (intro granted_half_open) simp_all
    also have "CallAllow \<in> snd ` set (tc # cs) \<longleftrightarrow> (\<exists>now. (now, CallAllow) \<in> set (tc # cs) \<and> nextProbe b \<le> now)"
    proof -
      have "nextProbe b \<le> fst x" if "x \<in> set (tc # cs)" for x
        using that False Cons.prems(4) tc by (auto simp: image_iff)
      then show ?thesis unfolding image_iff by (metis fst_conv prod.collapse snd_conv)
    qed
    finally show ?thesis .
  qed
qed simp

subsection \<open>Tripping\<close>

text \<open>What the failure count is meant to be: the counted failures since the last success.\<close>

fun streak :: "(bool \<times> bool) list \<Rightarrow> nat" where
  "streak [] = 0"
| "streak ((success, counted) # rs) = (if success then 0 else (if counted then 1 else 0) + streak rs)"

fun record_all :: "(gtime \<times> bool \<times> bool) list \<Rightarrow> breaker \<Rightarrow> breaker" where
  "record_all [] b = b"
| "record_all ((now, success, counted) # rs) b = breaker_record now success counted (record_all rs b)"

lemma record_all_closed:
  assumes "1 \<le> threshold" "\<forall>k<length rs. int (streak (map snd (drop (Suc k) rs))) < threshold"
    and "int (streak (map snd rs)) < threshold"
  shows "record_all rs (newBreaker threshold openFor) =
    (newBreaker threshold openFor)\<lparr>b_failures := int (streak (map snd rs))\<rparr>"
  using assms
proof (induction rs)
  case (Cons r rs)
  obtain now success counted where r: "r = (now, success, counted)" by (metis prod_cases3)
  have pre: "\<forall>k<length rs. int (streak (map snd (drop (Suc k) rs))) < threshold" "int (streak (map snd rs)) < threshold"
    using Cons.prems(2) by (force simp: Suc_less_eq2) (use Cons.prems(2) in \<open>force dest: spec [of _ 0]\<close>)
  have "record_all rs (newBreaker threshold openFor) = (newBreaker threshold openFor)\<lparr>b_failures := int (streak (map snd rs))\<rparr>"
    by (rule Cons.IH [OF Cons.prems(1) pre])
  with Cons.prems(3) r show ?case by (auto simp: breaker_record_def newBreaker_def Let_def split: if_splits)
qed (simp add: newBreaker_def)

subsection \<open>Properties\<close>

text \<open>In every history of a circuit breaker the failure count stays below the threshold, the circuit was not
  opened in the future, and a probe is out only while the circuit is half-open.\<close>

theorem breaker_reachable:
  assumes "reachable (breaker_init threshold openFor) breaker_step (now, b)"
  shows "0 \<le> b_failures b \<and> b_failures b < threshold \<and> b_opened_at b \<le> now \<and>
    (b_probing b \<longrightarrow> b_state b = CircuitHalfOpen)"
  using circuit.reachable_invariant [OF assms] by simp

text \<open>A circuit opens exactly when the counted failures since the last success reach the threshold: as long
  as every earlier count was below it, the circuit is closed while the count is below and open, with the
  pause starting at the time of that report, when it gets there. (Reports are listed newest first.)\<close>

theorem breaker_trips:
  assumes "1 \<le> threshold" "\<forall>k<length rs. int (streak (map snd (drop (Suc k) rs))) < threshold"
  shows "b_state (record_all rs (newBreaker threshold openFor)) =
      (if int (streak (map snd rs)) < threshold then CircuitClosed else CircuitOpen) \<and>
    (threshold \<le> int (streak (map snd rs)) \<longrightarrow>
      nextProbe (record_all rs (newBreaker threshold openFor)) = fst (hd rs) + openFor)"
proof (cases "int (streak (map snd rs)) < threshold")
  case True
  then show ?thesis using record_all_closed [OF assms] by (simp add: newBreaker_def)
next
  case False
  with assms(1) obtain r rs' where rs: "rs = r # rs'" by (cases rs) auto
  obtain now success counted where r: "r = (now, success, counted)" by (metis prod_cases3)
  have pre: "\<forall>k<length rs'. int (streak (map snd (drop (Suc k) rs'))) < threshold" "int (streak (map snd rs')) < threshold"
    using assms(2) rs by (force simp: Suc_less_eq2) (use assms(2) rs in \<open>force dest: spec [of _ 0]\<close>)
  from False pre(2) rs r have "\<not> success" counted "threshold \<le> int (streak (map snd rs')) + 1"
    by (auto split: if_splits)
  with False record_all_closed [OF assms(1) pre, of openFor] rs r show ?thesis
    by (simp add: breaker_record_def newBreaker_def nextProbe_def Let_def)
qed

text \<open>C22: An open circuit admits nothing before its pause is over and exactly one request after it: until a
  result is reported, of all the requests asking in order of time the first one after the pause is let
  through and no other, however often the state is read in between.\<close>

theorem breaker_one_probe:
  assumes "reachable (breaker_init threshold openFor) breaker_step (now0, b)" "b_state b = CircuitOpen"
    and "\<forall>c\<in>snd ` set cs. \<not> records c" "sorted (map fst cs)"
  shows "granted cs b = (if \<exists>now. (now, CallAllow) \<in> set cs \<and> b_opened_at b + openFor \<le> now then 1 else 0)"
proof -
  have "\<not> b_probing b" "b_open_for b = openFor"
    using circuit.reachable_invariant [OF assms(1)] assms(2) by auto
  with granted_open [OF _ assms(2-4)] show ?thesis by (simp add: nextProbe_def)
qed

text \<open>Reporting decides a probe: once the pause is over a probe is granted; its success closes the circuit for
  everybody, its counted failure opens it for another full pause, and a failure that is not the
  provider's fault frees the probe for the next request.\<close>

theorem breaker_probe_decides:
  assumes "b_state b = CircuitOpen" "\<not> b_probing b" "b_opened_at b + b_open_for b \<le> now" "now \<le> now'"
  shows "\<exists>b'. allow now b = (b', True) \<and> \<not> snd (allow now' b') \<and>
    (\<forall>t. snd (allow t (breaker_record now' True counted b'))) \<and>
    (\<forall>t. snd (allow t (breaker_record now' False True b')) \<longleftrightarrow> now' + b_open_for b \<le> t) \<and>
    (\<forall>t. snd (allow t (breaker_record now' False False b')))"
  using assms by (simp add: breaker_defs)

subsection \<open>Instances\<close>

definition demo_breaker :: breaker where
  "demo_breaker = (newBreaker 2 10)\<lparr>b_state := CircuitOpen, b_opened_at := 5\<rparr>"

lemma demo_breaker_reachable: "reachable (breaker_init 2 10) breaker_step (5, demo_breaker)"
proof -
  let ?b = "newBreaker 2 10" and ?f = "CallRecord False True"
  have "reachable (breaker_init 2 10) breaker_step (5, ?b)"
    by (rule reachable_init) (simp add: zero_time_def)
  then have "reachable (breaker_init 2 10) breaker_step (5, call 5 ?f (call 5 ?f ?b))"
    by (blast intro: reachable_step called)
  moreover have "call 5 ?f (call 5 ?f ?b) = demo_breaker"
    by (simp add: call_def breaker_defs newBreaker_def demo_breaker_def)
  ultimately show ?thesis by simp
qed

theorem breaker_reachable_witness:
  "0 \<le> b_failures demo_breaker \<and> b_failures demo_breaker < 2 \<and> b_opened_at demo_breaker \<le> 5 \<and> \<not> b_probing demo_breaker"
  using breaker_reachable [OF demo_breaker_reachable] by (auto simp: demo_breaker_def)

theorem breaker_trips_witness:
  "b_state (record_all [(5, False, True), (4, False, False), (3, False, True)] (newBreaker 2 10)) = CircuitOpen"
  using breaker_trips [of 2 "[(5, False, True), (4, False, False), (3, False, True)]" 10]
  by (simp add: less_Suc_eq numeral_3_eq_3 all_conj_distrib)

theorem breaker_one_probe_witness:
  "granted [(6, CallAllow), (15, CallState), (15, CallAllow), (16, CallUsable), (40, CallAllow)] demo_breaker = 1"
  using breaker_one_probe [OF demo_breaker_reachable, of "[(6, CallAllow), (15, CallState), (15, CallAllow), (16, CallUsable), (40, CallAllow)]"]
  by (auto simp: demo_breaker_def newBreaker_def split: if_splits)

theorem breaker_probe_decides_witness:
  "\<exists>b'. allow 20 demo_breaker = (b', True) \<and> \<not> snd (allow 30 b') \<and>
    (\<forall>t. snd (allow t (breaker_record 30 True True b'))) \<and>
    (\<forall>t. snd (allow t (breaker_record 30 False True b')) \<longleftrightarrow> 30 + b_open_for demo_breaker \<le> t) \<and>
    (\<forall>t. snd (allow t (breaker_record 30 False False b')))"
  by (rule breaker_probe_decides) (simp_all add: demo_breaker_def newBreaker_def)

end
