(* ===== verification/Dispatch.thy ===== *)
theory Dispatch
  imports Policy Breaker
begin

text \<open>
  Sending one job: \<^verbatim>\<open>dispatch\<close>, \<^verbatim>\<open>pick\<close> and their helpers of \<^verbatim>\<open>internal/dispatch/send.go\<close>. The result
  \<open>None\<close> of \<open>dispatch\<close> is a Go panic, an inner \<open>None\<close> a send cut off by shutdown. What the call sees
  from outside is a \<open>dispatch_world\<close>: the worker's clock at each place it is read, whether the rate
  budget grants a token before the context ends, the HTTP exchange with each provider, whether the
  context is done after a failed send, and the random factor of the backoff.
\<close>

subsection \<open>Providers\<close>

record provider =
  p_name :: string
  p_breaker :: breaker

datatype clock_point = AtStart | AtAllow nat | AfterWait | AtRecord | AtState | AtRetry

record dispatch_world =
  dw_clock :: "clock_point \<Rightarrow> gtime"
  dw_wait :: "string \<Rightarrow> bool \<Rightarrow> bool"
  dw_exchange :: "string \<Rightarrow> exchange"
  dw_cancelled :: bool
  dw_scale :: "duration \<Rightarrow> duration"

record dispatch_config =
  dc_lease_duration :: duration
  dc_circuit_open_duration :: duration

text \<open>\<^verbatim>\<open>provider.record\<close>: the breaker's \<^verbatim>\<open>record\<close>, then \<^verbatim>\<open>State\<close> for the gauge.\<close>

definition provider_record :: "dispatch_world \<Rightarrow> bool \<Rightarrow> bool \<Rightarrow> provider \<Rightarrow> provider" where
  "provider_record w success counted p =
     p\<lparr>p_breaker := fst (State (dw_clock w AtState) (breaker_record (dw_clock w AtRecord) success counted (p_breaker p)))\<rparr>"

definition at_provider :: "nat \<Rightarrow> (provider \<Rightarrow> provider) \<Rightarrow> provider list \<Rightarrow> provider list" where
  "at_provider k f ps = ps[k := f (ps ! k)]"

fun pick_from :: "(nat \<Rightarrow> gtime) \<Rightarrow> nat \<Rightarrow> nat list \<Rightarrow> provider list \<Rightarrow> provider list \<times> nat option" where
  "pick_from clock i [] ps = (ps, None)"
| "pick_from clock i (k # ks) ps =
     (case allow (clock i) (p_breaker (ps ! k)) of
        (b, ok) \<Rightarrow>
          let ps' = ps[k := (ps ! k)\<lparr>p_breaker := b\<rparr>]
          in if ok then (ps', Some k) else pick_from clock (Suc i) ks ps')"

definition candidates :: "nat \<Rightarrow> nat \<Rightarrow> nat list" where
  "candidates start n = map (\<lambda>i. (start + i) mod n) [0..<n]"

definition pick :: "(nat \<Rightarrow> gtime) \<Rightarrow> policy \<Rightarrow> int \<Rightarrow> provider list \<Rightarrow> (provider list \<times> nat option) option" where
  "pick clock pol attempts ps =
     (let n = length ps
      in if pol_rotate pol
         then if n = 0 \<or> attempts smod int n < 0 then None
              else Some (pick_from clock 0 (candidates (nat (attempts smod int n)) n) ps)
         else Some (pick_from clock 0 (candidates 0 n) ps))"

text \<open>\<^verbatim>\<open>anyUsable\<close>, \<^verbatim>\<open>earliestProbe\<close> and \<^verbatim>\<open>budgetAvailable\<close>; reading a breaker may turn it half-open.
  \<open>available p express\<close> is the provider's \<^verbatim>\<open>budget.available\<close>.\<close>

fun anyUsable :: "gtime \<Rightarrow> provider list \<Rightarrow> provider list \<times> bool" where
  "anyUsable now [] = ([], False)"
| "anyUsable now (p # ps) =
     (let (b, ok) = usable now (p_breaker p); p' = p\<lparr>p_breaker := b\<rparr>
      in if ok then (p' # ps, True) else map_prod (Cons p') (\<lambda>r. r) (anyUsable now ps))"

fun earliest :: "gtime \<Rightarrow> provider list \<Rightarrow> gtime" where
  "earliest t [] = t"
| "earliest t (p # ps) =
     (let n = nextProbe (p_breaker p) in earliest (if is_zero_time t \<or> n < t then n else t) ps)"

definition earliestProbe :: "provider list \<Rightarrow> gtime" where
  "earliestProbe ps = earliest zero_time ps"

fun budgetAvailable :: "gtime \<Rightarrow> (string \<Rightarrow> bool \<Rightarrow> int) \<Rightarrow> policy \<Rightarrow> provider list \<Rightarrow> int" where
  "budgetAvailable now available pol [] = 0"
| "budgetAvailable now available pol (p # ps) =
     (let express = (pol_class pol = Express)
      in if \<not> snd (usable now (p_breaker p)) then budgetAvailable now available pol ps
         else if express then available (p_name p) express + budgetAvailable now available pol ps
         else available (p_name p) express)"

subsection \<open>Dispatching a job\<close>

definition new_outcome :: "job \<Rightarrow> outcome" where
  "new_outcome j = \<lparr>o_kind = outcomeSent, o_job = j, o_provider = [], o_provider_ref = [], o_err = [], o_delay = 0,
     o_reason = None, o_attempted = False\<rparr>"

definition lease_lost :: "dispatch_config \<Rightarrow> dispatch_world \<Rightarrow> job \<Rightarrow> bool" where
  "lease_lost cfg w j \<longleftrightarrow> \<not> dbNow (dw_clock w AfterWait) j < j_db_now j + dc_lease_duration cfg"

text \<open>The outcome of a failed request.\<close>

definition failed_outcome :: "dispatch_world \<Rightarrow> policy \<Rightarrow> job \<Rightarrow> send_error \<Rightarrow> outcome \<Rightarrow> outcome option" where
  "failed_outcome w pol j se out =
     (let attempts = j_attempts j + 1
      in if se_permanent se then Some (out\<lparr>o_kind := outcomeFailed, o_reason := Some ReasonRejected\<rparr>)
         else if pol_max_attempts pol \<le> attempts
         then Some (out\<lparr>o_kind := outcomeFailed, o_reason := Some ReasonAttemptsExhausted\<rparr>)
         else (case Backoff pol attempts (dw_scale w) of
             None \<Rightarrow> None
           | Some delay \<Rightarrow>
               if \<not> dbNow (dw_clock w AtRetry) j + delay < j_expires_at j
               then Some (out\<lparr>o_delay := delay, o_kind := outcomeExpired, o_reason := Some ReasonExpired\<rparr>)
               else Some (out\<lparr>o_delay := delay, o_kind := outcomeRetry\<rparr>)))"

definition dispatch ::
    "dispatch_config \<Rightarrow> dispatch_world \<Rightarrow> policy \<Rightarrow> job \<Rightarrow> provider list \<Rightarrow> (provider list \<times> outcome option) option" where
  "dispatch cfg w pol j ps =
     (let out = new_outcome j
      in if \<not> j_expires_at j > dbNow (dw_clock w AtStart) j
         then Some (ps, Some (out\<lparr>o_kind := outcomeExpired, o_reason := Some ReasonExpired\<rparr>))
         else case pick (\<lambda>i. dw_clock w (AtAllow i)) pol (j_attempts j) ps of
           None \<Rightarrow> None
         | Some (ps1, None) \<Rightarrow>
             Some (ps1, Some (out\<lparr>o_kind := outcomeDeferred, o_delay := dc_circuit_open_duration cfg\<rparr>))
         | Some (ps1, Some k) \<Rightarrow>
             let name = p_name (ps1 ! k)
             in if \<not> dw_wait w name (pol_class pol = Express)
                then Some (at_provider k (provider_record w False False) ps1, None)
                else if lease_lost cfg w j then Some (ps1, Some (out\<lparr>o_kind := outcomeDeferred\<rparr>))
                else let out = out\<lparr>o_provider := name, o_attempted := True\<rparr>
                     in case client_send (dw_exchange w name) of
                       Inr ref \<Rightarrow>
                         Some (at_provider k (provider_record w True False) ps1,
                           Some (out\<lparr>o_kind := outcomeSent, o_provider_ref := ref\<rparr>))
                     | Inl err \<Rightarrow>
                         if dw_cancelled w then Some (at_provider k (provider_record w False False) ps1, None)
                         else let se = asSendError err;
                                  ps2 = at_provider k (provider_record w False (se_provider_fault se)) ps1
                              in case send_error_text se of
                                None \<Rightarrow> None
                              | Some s \<Rightarrow>
                                  map_option (\<lambda>out. (ps2, Some out))
                                    (failed_outcome w pol j se (out\<lparr>o_err := ''provider '' @ name @ '': '' @ s\<rparr>)))"

subsection \<open>Choosing a provider\<close>

lemma pick_from_length [simp]: "length (fst (pick_from clock i ks ps)) = length ps"
  by (induction ks arbitrary: i ps) (auto simp: Let_def split: prod.splits)

lemma pick_from_names: "map p_name (fst (pick_from clock i ks ps)) = map p_name ps"
proof (induction ks arbitrary: i ps)
  case (Cons k ks)
  have "map p_name (ps[k := (ps ! k)\<lparr>p_breaker := b\<rparr>]) = map p_name ps" for b
    by (cases "k < length ps") (auto simp: map_update list_update_beyond intro: list_update_same_conv [THEN iffD2])
  with Cons show ?case by (auto simp: Let_def split: prod.splits)
qed simp

lemma pick_from_outside: "k \<notin> set ks \<Longrightarrow> fst (pick_from clock i ks ps) ! k = ps ! k"
  by (induction ks arbitrary: i ps) (auto simp: Let_def split: prod.splits)

text \<open>The first candidate that admits a request is taken; all before it refused.\<close>

lemma pick_from_spec:
  assumes "pick_from clock i ks ps = (ps', r)" "distinct ks" "\<forall>k\<in>set ks. k < length ps"
  shows "case r of
      Some k \<Rightarrow> \<exists>n<length ks. ks ! n = k \<and> allow (clock (i + n)) (p_breaker (ps ! k)) = (p_breaker (ps' ! k), True) \<and>
        (\<forall>m<n. \<not> snd (allow (clock (i + m)) (p_breaker (ps ! (ks ! m)))))
    | None \<Rightarrow> \<forall>n<length ks. \<not> snd (allow (clock (i + n)) (p_breaker (ps ! (ks ! n))))"
  using assms
proof (induction ks arbitrary: i ps)
  case (Cons x ks)
  obtain b ok where al: "allow (clock i) (p_breaker (ps ! x)) = (b, ok)" by fastforce
  let ?ps = "ps[x := (ps ! x)\<lparr>p_breaker := b\<rparr>]"
  have bound: "\<forall>k\<in>set ks. k < length ?ps" "distinct ks" "x < length ps" "x \<notin> set ks" using Cons.prems(2,3) by simp_all
  show ?case
  proof (cases ok)
    case True
    with Cons.prems(1) al bound(3) show ?thesis by (auto intro!: exI [of _ 0])
  next
    case False
    with Cons.prems(1) al have rec: "pick_from clock (Suc i) ks ?ps = (ps', r)" by simp
    note IH = Cons.IH [OF rec bound(2,1)]
    have same: "?ps ! (ks ! m) = ps ! (ks ! m)" if "m < length ks" for m
      using bound(4) that nth_mem by (metis nth_list_update_neq)
    have refused: "\<not> snd (allow (clock (i + m)) (p_breaker (ps ! ((x # ks) ! m))))"
      if "\<forall>n. m = Suc n \<longrightarrow> \<not> snd (allow (clock (Suc i + n)) (p_breaker (?ps ! (ks ! n))))" "m \<le> length ks" for m
      using that al False same by (cases m) auto
    show ?thesis
    proof (cases r)
      case None
      with IH have none: "\<forall>n<length ks. \<not> snd (allow (clock (Suc i + n)) (p_breaker (?ps ! (ks ! n))))" by simp
      have "\<not> snd (allow (clock (i + n)) (p_breaker (ps ! ((x # ks) ! n))))" if "n < length (x # ks)" for n
        using that none by (intro refused) auto
      with None show ?thesis by simp
    next
      case (Some k)
      with IH obtain n where n: "n < length ks" "ks ! n = k"
        "allow (clock (Suc i + n)) (p_breaker (?ps ! k)) = (p_breaker (ps' ! k), True)"
        "\<forall>m<n. \<not> snd (allow (clock (Suc i + m)) (p_breaker (?ps ! (ks ! m))))" by auto
      have "\<not> snd (allow (clock (i + m)) (p_breaker (ps ! ((x # ks) ! m))))" if "m < Suc n" for m
        using that n(1,4) by (intro refused) auto
      then have "\<exists>n<length (x # ks). (x # ks) ! n = k \<and>
          allow (clock (i + n)) (p_breaker (ps ! k)) = (p_breaker (ps' ! k), True) \<and>
          (\<forall>m<n. \<not> snd (allow (clock (i + m)) (p_breaker (ps ! ((x # ks) ! m)))))"
        using n same [OF n(1)] by (intro exI [of _ "Suc n"]) auto
      with Some show ?thesis by simp
    qed
  qed
qed simp

lemma candidates_distinct: "distinct (candidates start n)"
proof (cases "n = 0")
  case False
  have "i = k" if "i \<le> k" "k < n" "(start + i) mod n = (start + k) mod n" for i k
  proof -
    have "n dvd k - i" using that mod_eq_dvd_iff_nat [of "start + i" "start + k" n] by simp
    with that show "i = k" using dvd_imp_le [of n "k - i"] by fastforce
  qed
  then have "inj_on (\<lambda>i. (start + i) mod n) {0..<n}"
    unfolding inj_on_def by (metis atLeastLessThan_iff nat_le_linear)
  then show ?thesis by (simp add: candidates_def distinct_map)
qed (simp add: candidates_def)

lemma candidates_set: "0 < n \<Longrightarrow> k \<in> set (candidates start n) \<Longrightarrow> k < n"
  by (auto simp: candidates_def)

lemma pick_candidates:
  assumes "ps \<noteq> []" "0 \<le> attempts"
  shows "pick clock pol attempts ps =
    Some (pick_from clock 0 (candidates (if pol_rotate pol then nat attempts mod length ps else 0) (length ps)) ps)"
proof -
  have "attempts smod int (length ps) = attempts mod int (length ps)"
    using assms by (cases "attempts = 0") (simp_all add: signed_modulo_int_def)
  moreover have "nat (attempts mod int (length ps)) = nat attempts mod length ps"
    using assms by (simp add: nat_mod_distrib)
  moreover have "\<not> attempts mod int (length ps) < 0"
    using assms(1) pos_mod_sign [of "int (length ps)" attempts] by (simp add: not_less)
  ultimately show ?thesis using assms by (simp add: pick_def Let_def)
qed

subsection \<open>Probes\<close>

definition stuck :: "provider \<Rightarrow> bool" where
  "stuck p \<longleftrightarrow> b_probing (p_breaker p) \<and> b_state (p_breaker p) = CircuitHalfOpen"

lemma allow_probing: "allow now b = (b', ok) \<Longrightarrow> b_probing b' \<Longrightarrow> b_probing b \<or> ok"
  by (cases "b_state b") (auto simp: breaker_defs split: if_splits)

lemma record_not_probing [simp]: "\<not> b_probing (p_breaker (provider_record w success counted p))"
  by (simp add: provider_record_def breaker_defs)

lemma pick_from_probing:
  assumes "pick_from clock i ks ps = (ps', r)" "b_probing (p_breaker (ps' ! k))" "r \<noteq> Some k"
  shows "b_probing (p_breaker (ps ! k))"
  using assms
proof (induction ks arbitrary: i ps)
  case (Cons x ks)
  obtain b ok where al: "allow (clock i) (p_breaker (ps ! x)) = (b, ok)" by fastforce
  have step: "b_probing (p_breaker (ps[x := (ps ! x)\<lparr>p_breaker := b\<rparr>] ! k)) \<Longrightarrow> \<not> ok \<or> x \<noteq> k \<Longrightarrow> ?case"
    using allow_probing [OF al] by (cases "x < length ps"; cases "x = k") (auto simp: list_update_beyond)
  show ?case
  proof (cases ok)
    case True
    with Cons.prems al show ?thesis by (intro step) auto
  next
    case False
    with Cons.prems al have "pick_from clock (Suc i) ks (ps[x := (ps ! x)\<lparr>p_breaker := b\<rparr>]) = (ps', r)" by simp
    from step [OF Cons.IH [OF this Cons.prems(2,3)]] False show ?thesis by simp
  qed
qed simp

lemma pick_from_stuck:
  assumes "\<forall>p\<in>set ps. stuck p" "\<forall>k\<in>set ks. k < length ps"
  shows "pick_from clock i ks ps = (ps, None)"
  using assms(2)
proof (induction ks arbitrary: i)
  case (Cons k ks)
  then have "stuck (ps ! k)" using assms(1) by simp
  then have "allow (clock i) (p_breaker (ps ! k)) = (p_breaker (ps ! k), False)" by (simp add: stuck_def breaker_defs)
  with Cons show ?case by simp
qed simp

lemma dispatch_stuck:
  assumes "ps \<noteq> []" "\<forall>p\<in>set ps. stuck p" "0 \<le> j_attempts j"
  shows "\<exists>out. dispatch cfg w pol j ps = Some (ps, Some out) \<and> \<not> o_attempted out \<and>
    (o_kind out = outcomeExpired \<or> o_kind out = outcomeDeferred)"
proof -
  have "pick clock pol (j_attempts j) ps = Some (ps, None)" for clock
    unfolding pick_candidates [OF assms(1,3)]
    using assms(1) by (simp add: pick_from_stuck [OF assms(2)] candidates_set)
  then show ?thesis by (auto simp: dispatch_def new_outcome_def Let_def)
qed

subsection \<open>Properties\<close>


text \<open>Dispatching never panics: with at least one provider configured, attempts counted from zero and real
  HTTP statuses, every job ends with an outcome or is cut off by shutdown.\<close>

theorem dispatch_total:
  assumes "ps \<noteq> []" "0 \<le> j_attempts j" "\<forall>name. proper_exchange (dw_exchange w name)"
  shows "\<exists>ps' r. dispatch cfg w pol j ps = Some (ps', r) \<and> map p_name ps' = map p_name ps"
proof -
  obtain ps1 r where pk: "pick (\<lambda>i. dw_clock w (AtAllow i)) pol (j_attempts j) ps = Some (ps1, r)"
    and names: "map p_name ps1 = map p_name ps"
    using pick_candidates [OF assms(1,2)] pick_from_names by (metis prod.collapse)
  have delay: "\<exists>d. Backoff pol (j_attempts j + 1) (dw_scale w) = Some d" using assms(2) by (simp add: Backoff_def Let_def)
  then have failed: "\<exists>out'. failed_outcome w pol j se out = Some out'" for se out
    by (auto simp: failed_outcome_def Let_def)
  have keep: "map p_name (at_provider k (provider_record w s c) ps1) = map p_name ps" for k s c
    unfolding names [symmetric] at_provider_def provider_record_def
    by (cases "k < length ps1") (auto simp: map_update list_update_beyond intro: list_update_same_conv [THEN iffD2])
  show ?thesis
  proof (cases r)
    case None
    with pk names show ?thesis by (simp add: dispatch_def Let_def)
  next
    case (Some k)
    let ?x = "client_send (dw_exchange w (p_name (ps1 ! k)))"
    show ?thesis
    proof (cases ?x)
      case (Inl err)
      from send_error_text_Some [OF _ Inl] assms(3) obtain s where s: "send_error_text (asSendError err) = Some s" by blast
      obtain out where "failed_outcome w pol j (asSendError err) ((new_outcome j)\<lparr>o_provider := p_name (ps1 ! k), o_attempted := True,
          o_err := ''provider '' @ p_name (ps1 ! k) @ '': '' @ s\<rparr>) = Some out" using failed by blast
      with Some Inl pk names keep s show ?thesis 
        by (cases "dbNow (dw_clock w AtStart) j < j_expires_at j"; cases "lease_lost cfg w j"; cases "dw_cancelled w";
          cases "dw_wait w (p_name (ps1 ! k)) (pol_class pol = Express)"; simp add: dispatch_def Let_def)
    next
      case (Inr ref)
      with Some pk names keep show ?thesis 
        by (cases "dbNow (dw_clock w AtStart) j < j_expires_at j"; cases "lease_lost cfg w j"; cases "dw_cancelled w";
          cases "dw_wait w (p_name (ps1 ! k)) (pol_class pol = Express)"; simp add: dispatch_def Let_def)
    qed
  qed
qed

text \<open>Normal traffic takes the first provider in priority order that admits a request, Express starts at the
  one after the provider its previous attempt started at and goes around; all providers passed over
  refused, and a job finds none only if all refuse.\<close>

theorem pick_order:
  assumes "ps \<noteq> []" "0 \<le> attempts" "pick clock pol attempts ps = Some (ps', r)"
  shows "let n = length ps; start = (if pol_rotate pol then nat attempts mod n else 0)
    in case r of
      Some k \<Rightarrow> \<exists>i<n. k = (start + i) mod n \<and> snd (allow (clock i) (p_breaker (ps ! k))) \<and>
        (\<forall>m<i. \<not> snd (allow (clock m) (p_breaker (ps ! ((start + m) mod n)))))
    | None \<Rightarrow> \<forall>i<n. \<not> snd (allow (clock i) (p_breaker (ps ! ((start + i) mod n))))"
proof -
  let ?n = "length ps" and ?start = "if pol_rotate pol then nat attempts mod length ps else 0"
  let ?ks = "candidates ?start ?n"
  have "pick_from clock 0 ?ks ps = (ps', r)" using assms(3) pick_candidates [OF assms(1,2)] by simp
  moreover have "\<forall>k\<in>set ?ks. k < length ps" using candidates_set assms(1) by auto
  ultimately have spec: "case r of
      Some k \<Rightarrow> \<exists>n<length ?ks. ?ks ! n = k \<and> allow (clock (0 + n)) (p_breaker (ps ! k)) = (p_breaker (ps' ! k), True) \<and>
        (\<forall>m<n. \<not> snd (allow (clock (0 + m)) (p_breaker (ps ! (?ks ! m)))))
    | None \<Rightarrow> \<forall>n<length ?ks. \<not> snd (allow (clock (0 + n)) (p_breaker (ps ! (?ks ! n))))"
    by (intro pick_from_spec candidates_distinct)
  have nth: "?ks ! i = (?start + i) mod ?n" if "i < ?n" for i using that by (simp add: candidates_def)
  have len: "length ?ks = ?n" by (simp add: candidates_def)
  show ?thesis
  proof (cases r)
    case None
    with spec len have refused: "\<forall>i<?n. \<not> snd (allow (clock i) (p_breaker (ps ! (?ks ! i))))" by simp
    have "\<not> snd (allow (clock i) (p_breaker (ps ! ((?start + i) mod ?n))))" if "i < ?n" for i
      using refused that nth [OF that] by metis
    then show ?thesis unfolding Let_def None option.case by blast
  next
    case (Some k)
    with spec len obtain i where i: "i < ?n" "?ks ! i = k" "allow (clock i) (p_breaker (ps ! k)) = (p_breaker (ps' ! k), True)"
      "\<forall>m<i. \<not> snd (allow (clock m) (p_breaker (ps ! (?ks ! m))))" by auto
    have "\<not> snd (allow (clock m) (p_breaker (ps ! ((?start + m) mod ?n))))" if "m < i" for m
      using i(1,4) nth [of m] that by (metis order.strict_trans)
    moreover have "k = (?start + i) mod ?n" "snd (allow (clock i) (p_breaker (ps ! k)))" using i(2,3) nth [OF i(1)] by simp_all
    ultimately show ?thesis unfolding Let_def Some option.case using i(1) by blast
  qed
qed

lemma dispatch_shape:
  assumes "dispatch cfg w pol j ps = Some (ps', r)"
  shows "ps' = ps \<or> (\<exists>k. pick (\<lambda>i. dw_clock w (AtAllow i)) pol (j_attempts j) ps = Some (ps', k) \<and> (k = None \<or> lease_lost cfg w j)) \<or>
    (\<exists>ps1 k s c. pick (\<lambda>i. dw_clock w (AtAllow i)) pol (j_attempts j) ps = Some (ps1, Some k) \<and>
      ps' = at_provider k (provider_record w s c) ps1)"
  using assms unfolding dispatch_def Let_def
  by (simp split: if_splits option.splits prod.splits sum.splits; blast)

text \<open>A dispatch that does not find its lease lost gives back the probe it took: whatever the provider
  answers, and when shutdown cuts it off, no breaker it used is left waiting for the result of a probe.\<close>

theorem dispatch_releases_probe:
  assumes "dispatch cfg w pol j ps = Some (ps', r)" "\<not> lease_lost cfg w j" "b_probing (p_breaker (ps' ! k))" "k < length ps'"
  shows "b_probing (p_breaker (ps ! k))"
  using dispatch_shape [OF assms(1)]
proof (elim disjE exE conjE)
  fix ps1 k1 s c
  assume pk: "pick (\<lambda>i. dw_clock w (AtAllow i)) pol (j_attempts j) ps = Some (ps1, Some k1)"
    and ps': "ps' = at_provider k1 (provider_record w s c) ps1"
  have "k \<noteq> k1" using assms(3,4) ps' by (auto simp: at_provider_def)
  with assms(3) ps' have "b_probing (p_breaker (ps1 ! k))" by (simp add: at_provider_def)
  with pk \<open>k \<noteq> k1\<close> show ?thesis
    by (auto simp: pick_def Let_def split: if_splits dest: pick_from_probing)
next
  fix k1 assume "pick (\<lambda>i. dw_clock w (AtAllow i)) pol (j_attempts j) ps = Some (ps', k1)" "k1 = None"
  with assms(3) show ?thesis
    by (auto simp: pick_def Let_def split: if_splits dest: pick_from_probing)
qed (use assms(2,3) in simp_all)

text \<open>The exception is a defect: a job that takes the single probe of a half-open circuit and then finds its
  lease lost after waiting for the budget is deferred without reporting anything, so the circuit waits
  for the result of that probe forever. If it was the only provider, no later job is ever sent, whatever
  the provider would answer and however much time passes.\<close>

theorem dispatch_leaks_probe:
  "\<exists>cfg w pol j p p' out. snd (usable (dw_clock w (AtAllow 0)) (p_breaker p)) \<and>
     dispatch cfg w pol j [p] = Some ([p'], Some out) \<and> o_kind out = outcomeDeferred \<and>
     (\<forall>cfg w pol j n. \<exists>out. dispatch cfg w pol (j\<lparr>j_attempts := int n\<rparr>) [p'] = Some ([p'], Some out) \<and> \<not> o_attempted out)"
proof -
  let ?p = "\<lparr>p_name = ''p1'', p_breaker = demo_breaker\<rparr>"
  let ?p' = "\<lparr>p_name = ''p1'', p_breaker = demo_breaker\<lparr>b_state := CircuitHalfOpen, b_probing := True\<rparr>\<rparr>"
  let ?cfg = "\<lparr>dc_lease_duration = 30 * second, dc_circuit_open_duration = 10 * second\<rparr>"
  let ?w = "\<lparr>dw_clock = (\<lambda>c. if c = AfterWait then 40 * second else 20), dw_wait = (\<lambda>n e. True),
    dw_exchange = (\<lambda>n. Response 200 (Decoded ''r'')), dw_cancelled = False, dw_scale = (\<lambda>x. 0)\<rparr>"
  let ?pol = "\<lparr>pol_class = Normal, pol_max_attempts = 8, pol_backoff_base = second, pol_backoff_max = minute,
    pol_timeout = second, pol_rotate = False\<rparr>"
  let ?j = "demo_job\<lparr>j_expires_at := 60 * minute, j_db_now := 0, j_claimed_at := 0\<rparr>"
  have "stuck ?p'" by (simp add: stuck_def)
  then have "\<forall>p\<in>set [?p']. stuck p" by simp
  then have "\<exists>out. dispatch cfg w pol (j\<lparr>j_attempts := int n\<rparr>) [?p'] = Some ([?p'], Some out) \<and> \<not> o_attempted out" for cfg w pol j n
    using dispatch_stuck [of "[?p']" "j\<lparr>j_attempts := int n\<rparr>" cfg w pol] by auto
  then have "\<forall>cfg w pol j n. \<exists>out. dispatch cfg w pol (j\<lparr>j_attempts := int n\<rparr>) [?p'] = Some ([?p'], Some out) \<and> \<not> o_attempted out"
    by blast
  moreover have "snd (usable (dw_clock ?w (AtAllow 0)) (p_breaker ?p))"
    by (simp add: demo_breaker_def newBreaker_def breaker_defs)
  moreover have "dispatch ?cfg ?w ?pol ?j [?p] = Some ([?p'], Some ((new_outcome ?j)\<lparr>o_kind := outcomeDeferred\<rparr>))"
    by (simp add: dispatch_def pick_def candidates_def lease_lost_def dbNow_def Let_def time_unit_defs demo_breaker_def
        newBreaker_def breaker_defs)
  moreover have "o_kind ((new_outcome ?j)\<lparr>o_kind := outcomeDeferred\<rparr>) = outcomeDeferred" by simp
  ultimately show ?thesis by blast
qed

subsection \<open>Instances\<close>

definition demo_dispatch_config :: dispatch_config where
  "demo_dispatch_config = \<lparr>dc_lease_duration = 30 * second, dc_circuit_open_duration = 10 * second\<rparr>"

definition demo_policy :: policy where
  "demo_policy = \<lparr>pol_class = Normal, pol_max_attempts = 8, pol_backoff_base = second, pol_backoff_max = minute,
     pol_timeout = second, pol_rotate = True\<rparr>"

definition demo_dispatch_world :: "exchange \<Rightarrow> dispatch_world" where
  "demo_dispatch_world x = \<lparr>dw_clock = (\<lambda>c. 20), dw_wait = (\<lambda>n e. True), dw_exchange = (\<lambda>n. x), dw_cancelled = False,
     dw_scale = (\<lambda>x. 0)\<rparr>"

definition demo_ready_job :: job where
  "demo_ready_job = demo_job\<lparr>j_expires_at := 60 * minute, j_db_now := 0, j_claimed_at := 0\<rparr>"

definition demo_providers :: "provider list" where
  "demo_providers = [\<lparr>p_name = ''p1'', p_breaker = demo_breaker\<lparr>b_state := CircuitHalfOpen, b_probing := True\<rparr>\<rparr>,
     \<lparr>p_name = ''p2'', p_breaker = demo_breaker\<rparr>]"

lemmas demo_dispatch_defs = demo_dispatch_config_def demo_policy_def demo_dispatch_world_def demo_ready_job_def
  demo_providers_def demo_breaker_def newBreaker_def

definition demo_sent_breaker :: breaker where
  "demo_sent_breaker = demo_breaker\<lparr>b_state := CircuitClosed\<rparr>"

lemma demo_pick:
  "pick (\<lambda>i. dw_clock (demo_dispatch_world x) (AtAllow i)) demo_policy 0 demo_providers =
    Some (demo_providers[1 := \<lparr>p_name = ''p2'', p_breaker = demo_breaker\<lparr>b_state := CircuitHalfOpen, b_probing := True\<rparr>\<rparr>], Some 1)"
  by (simp add: pick_def candidates_def Let_def demo_dispatch_defs breaker_defs signed_modulo_int_def signed_divide_int_def
      eval_nat_numeral)

lemma demo_dispatch:
  "dispatch demo_dispatch_config (demo_dispatch_world (Response 200 (Decoded ''r1''))) demo_policy demo_ready_job demo_providers =
    Some (demo_providers[1 := \<lparr>p_name = ''p2'', p_breaker = demo_sent_breaker\<rparr>],
      Some ((new_outcome demo_ready_job)\<lparr>o_provider := ''p2'', o_provider_ref := ''r1'', o_attempted := True\<rparr>))"
proof -
  have "j_attempts demo_ready_job = 0" by (simp add: demo_ready_job_def demo_job_def)
  then show ?thesis unfolding dispatch_def
    by (simp add: demo_pick Let_def)
      (simp add: demo_dispatch_defs dbNow_def lease_lost_def time_unit_defs client_send_def StatusOK_def at_provider_def
        provider_record_def breaker_defs new_outcome_def demo_sent_breaker_def)
qed


theorem dispatch_total_witness:
  "\<exists>ps r. dispatch demo_dispatch_config (demo_dispatch_world (Response 503 (Undecodable []))) demo_policy demo_ready_job demo_providers =
     Some (ps, r) \<and> map p_name ps = map p_name demo_providers"
  by (rule dispatch_total) (simp_all add: demo_dispatch_defs demo_job_def proper_exchange_def)

theorem pick_order_witness:
  "\<exists>i<2. 1 = (0 + i) mod (2::nat) \<and> snd (allow 20 (p_breaker (demo_providers ! 1))) \<and>
    (\<forall>m<i. \<not> snd (allow 20 (p_breaker (demo_providers ! ((0 + m) mod 2)))))"
proof -
  have "length demo_providers = 2" "demo_providers \<noteq> []" "pol_rotate demo_policy" by (simp_all add: demo_dispatch_defs)
  with pick_order [OF _ _ demo_pick] show ?thesis by (simp add: Let_def demo_dispatch_world_def)
qed

theorem dispatch_releases_probe_witness: "b_probing (p_breaker (demo_providers ! 0))"
  by (rule dispatch_releases_probe [OF demo_dispatch])
    (simp_all add: lease_lost_def demo_dispatch_defs dbNow_def time_unit_defs)

end
