(* ===== verification/Gostrings.thy ===== *)
theory Gostrings
  imports Prelude "HOL-Library.Sublist"
begin

text \<open>
  The functions of Go's package \<^verbatim>\<open>strings\<close> the gateway calls, on byte strings: \<^verbatim>\<open>Cut\<close>, \<^verbatim>\<open>Index\<close>, \<^verbatim>\<open>EqualFold\<close> and
  \<^verbatim>\<open>TrimSpace\<close>, and its friends.
\<close>

subsection \<open>Searching\<close>

definition HasPrefix :: "string \<Rightarrow> string \<Rightarrow> bool" where
  "HasPrefix s p \<longleftrightarrow> take (length p) s = p"

definition Cut :: "char \<Rightarrow> string \<Rightarrow> (string \<times> string) option" where
  "Cut sep s =
     (case dropWhile (\<lambda>c. c \<noteq> sep) s of
        [] \<Rightarrow> None
      | c # rest \<Rightarrow> Some (takeWhile (\<lambda>c. c \<noteq> sep) s, rest))"

text \<open>\<^verbatim>\<open>strings.Index\<close>: the first position at which the substring starts, if any.\<close>

fun Index :: "string \<Rightarrow> string \<Rightarrow> nat option" where
  "Index [] sub = (if sub = [] then Some 0 else None)"
| "Index (c # s) sub = (if HasPrefix (c # s) sub then Some 0 else map_option Suc (Index s sub))"

lemma HasPrefix_append [simp]: "HasPrefix (p @ s) p"
  by (simp add: HasPrefix_def)

lemma HasPrefix_prefix: "HasPrefix s p \<longleftrightarrow> prefix p s"
  by (metis HasPrefix_def append_eq_conv_conj prefix_def take_is_prefix)

lemma Index_SomeD:
  assumes "Index s sub = Some i"
  shows "i \<le> length s \<and> HasPrefix (drop i s) sub \<and> (\<forall>k<i. \<not> HasPrefix (drop k s) sub)"
  using assms
proof (induction s arbitrary: i)
  case (Cons c s)
  show ?case
  proof (cases "HasPrefix (c # s) sub")
    case False
    with Cons.prems obtain k where k: "i = Suc k" "Index s sub = Some k" by (cases "Index s sub") auto
    with Cons.IH [OF k(2)] False show ?thesis by (auto simp: less_Suc_eq_0_disj)
  qed (use Cons.prems in simp)
qed (auto simp: HasPrefix_def split: if_splits)

lemma Index_None_iff: "Index s sub = None \<longleftrightarrow> (\<forall>k\<le>length s. \<not> HasPrefix (drop k s) sub)"
proof (induction s)
  case (Cons c s)
  have "(\<forall>k\<le>Suc (length s). \<not> HasPrefix (drop k (c # s)) sub) \<longleftrightarrow>
      \<not> HasPrefix (c # s) sub \<and> (\<forall>k\<le>length s. \<not> HasPrefix (drop k s) sub)"
    by (simp flip: less_Suc_eq_le add: All_less_Suc2)
  with Cons.IH show ?case by simp
qed (auto simp: HasPrefix_def)

subsection \<open>Letter case\<close>

text \<open>\<^verbatim>\<open>strings.EqualFold\<close> with a word of ASCII letters other than k and s: these two alone are folded with
  characters outside ASCII, the Kelvin sign and the long s.\<close>

definition fold_char :: "char \<Rightarrow> nat" where
  "fold_char c = (let n = of_char c in if 65 \<le> n \<and> n \<le> 90 then n + 32 else n)"

definition EqualFold :: "string \<Rightarrow> string \<Rightarrow> bool" where
  "EqualFold s t \<longleftrightarrow> map fold_char s = map fold_char t"

subsection \<open>White space\<close>

text \<open>The UTF-8 encodings of the characters \<^verbatim>\<open>unicode.IsSpace\<close> accepts.\<close>

definition spaces :: "string list" where
  "spaces = [[CHR 0x09], [CHR 0x0A], [CHR 0x0B], [CHR 0x0C], [CHR 0x0D], [CHR 0x20],
     [CHR 0xC2, CHR 0x85], [CHR 0xC2, CHR 0xA0], [CHR 0xE1, CHR 0x9A, CHR 0x80],
     [CHR 0xE2, CHR 0x80, CHR 0x80], [CHR 0xE2, CHR 0x80, CHR 0x81], [CHR 0xE2, CHR 0x80, CHR 0x82],
     [CHR 0xE2, CHR 0x80, CHR 0x83], [CHR 0xE2, CHR 0x80, CHR 0x84], [CHR 0xE2, CHR 0x80, CHR 0x85],
     [CHR 0xE2, CHR 0x80, CHR 0x86], [CHR 0xE2, CHR 0x80, CHR 0x87], [CHR 0xE2, CHR 0x80, CHR 0x88],
     [CHR 0xE2, CHR 0x80, CHR 0x89], [CHR 0xE2, CHR 0x80, CHR 0x8A], [CHR 0xE2, CHR 0x80, CHR 0xA8],
     [CHR 0xE2, CHR 0x80, CHR 0xA9], [CHR 0xE2, CHR 0x80, CHR 0xAF], [CHR 0xE2, CHR 0x81, CHR 0x9F],
     [CHR 0xE3, CHR 0x80, CHR 0x80]]"

function strip :: "string list \<Rightarrow> string \<Rightarrow> string" where
  "strip ws s =
     (case find (\<lambda>w. w \<noteq> [] \<and> HasPrefix s w) ws of
        None \<Rightarrow> s
      | Some w \<Rightarrow> strip ws (drop (length w) s))"
  by pat_completeness auto
termination
proof (relation "measure (\<lambda>(ws, s). length s)")
  show "((ws, drop (length w) s), ws, s) \<in> measure (\<lambda>(ws, s). length s)"
    if "find (\<lambda>w. w \<noteq> [] \<and> HasPrefix s w) ws = Some w" for ws :: "string list" and s w
  proof -
    from that have "w \<noteq> []" "take (length w) s = w" by (auto simp: find_Some_iff HasPrefix_def)
    then have "s \<noteq> []" "0 < length w" by auto
    then show ?thesis by simp
  qed
qed simp

declare strip.simps [simp del]

text \<open>An encoding is recognised from its last byte as well as from its first.\<close>

definition TrimSpace :: "string \<Rightarrow> string" where
  "TrimSpace s = rev (strip (map rev spaces) (rev (strip spaces s)))"

lemma strip_suffix: "\<exists>p. s = p @ strip ws s"
proof (induction ws s rule: strip.induct)
  case (1 ws s)
  show ?case
  proof (cases "find (\<lambda>w. w \<noteq> [] \<and> HasPrefix s w) ws")
    case None
    then show ?thesis by (subst strip.simps) simp
  next
    case (Some w)
    with "1.IH" obtain p where "drop (length w) s = p @ strip ws (drop (length w) s)" by blast
    then have "s = (take (length w) s @ p) @ strip ws (drop (length w) s)" by (metis append.assoc append_take_drop_id)
    then have "\<exists>p. s = p @ strip ws (drop (length w) s)" by blast
    with Some show ?thesis by (subst strip.simps) (simp del: append_assoc)
  qed
qed

lemma strip_starts: "\<not> (\<exists>w\<in>set ws. w \<noteq> [] \<and> HasPrefix (strip ws s) w)"
proof (induction ws s rule: strip.induct)
  case (1 ws s)
  show ?case
  proof (cases "find (\<lambda>w. w \<noteq> [] \<and> HasPrefix s w) ws")
    case None
    then have "strip ws s = s" by (subst strip.simps) simp
    with None show ?thesis by (auto simp: find_None_iff)
  next
    case (Some w)
    then have "strip ws s = strip ws (drop (length w) s)" by (subst strip.simps) simp
    with "1.IH" [OF Some] show ?thesis by simp
  qed
qed

lemma strip_id: "(\<forall>w\<in>set ws. w \<noteq> [] \<longrightarrow> \<not> HasPrefix s w) \<Longrightarrow> strip ws s = s"
  by (subst strip.simps) (auto simp: find_None_iff split: option.splits dest!: find_Some_iff [THEN iffD1])

lemma TrimSpace_Nil [simp]: "TrimSpace [] = []"
  by (simp add: TrimSpace_def strip_id HasPrefix_def)

lemma TrimSpace_sublist: "\<exists>p q. s = p @ TrimSpace s @ q"
proof -
  obtain p where "s = p @ strip spaces s" using strip_suffix by blast
  moreover obtain q where "rev (strip spaces s) = q @ strip (map rev spaces) (rev (strip spaces s))" using strip_suffix by blast
  then have "strip spaces s = TrimSpace s @ rev q" unfolding TrimSpace_def by (metis rev_append rev_rev_ident)
  ultimately show ?thesis by metis
qed

end
