(* ===== verification/Migrate.thy ===== *)
theory Migrate
  imports Gostrings
begin

text \<open>
  Schema migrations: \<^verbatim>\<open>internal/store/migrate.go\<close>. Reading the migration files, and applying and reverting them
  under the migration lock. What PostgreSQL does with the text of a migration is a parameter
  \<open>exec\<close> on an arbitrary schema state; the bookkeeping table is modelled.
\<close>

subsection \<open>Migration files\<close>

record migration =
  mig_version :: int
  mig_name :: string
  mig_up :: string
  mig_down :: string

datatype migrate_error =
    ReadDirFailed
  | BadName string
  | BadVersion string
  | SharedVersion string string int
  | ReadFailed string
  | MissingUp
  | EmptyUp
  | InFile string migrate_error
  | LockFailed string
  | ApplyFailed migration string
  | RevertFailed migration string
  | NoDown migration

definition markerUp :: string where "markerUp = ''-- migrate:up''"
definition markerDown :: string where "markerDown = ''-- migrate:down''"

definition splitMigration :: "string \<Rightarrow> migrate_error + string \<times> string" where
  "splitMigration body =
     (case Index body markerUp of
        None \<Rightarrow> Inl MissingUp
      | Some upAt \<Rightarrow>
          let rest = drop (upAt + length markerUp) body;
              (up, down) = (case Index rest markerDown of
                  Some downAt \<Rightarrow> (take downAt rest, drop (downAt + length markerDown) rest)
                | None \<Rightarrow> (rest, []));
              up = TrimSpace up;
              down = TrimSpace down
          in if up = [] then Inl EmptyUp else Inr (up, down))"

text \<open>\<^verbatim>\<open>^(\d+)_([a-z0-9_]+)\.sql$\<close>: the digits before the first other character, and the name between.\<close>

definition is_name_char :: "char \<Rightarrow> bool" where
  "is_name_char c \<longleftrightarrow> (97 \<le> (of_char c :: nat) \<and> (of_char c :: nat) \<le> 122) \<or> is_digit c \<or> c = CHR ''_''"

definition has_ext :: "string \<Rightarrow> bool" where
  "has_ext name \<longleftrightarrow> 4 \<le> length name \<and> drop (length name - 4) name = ''.sql''"

definition match_file :: "string \<Rightarrow> (string \<times> string) option" where
  "match_file name =
     (let digits = takeWhile is_digit name;
          rest = dropWhile is_digit name;
          body = take (length rest - 5) (drop 1 rest)
      in if digits \<noteq> [] \<and> has_ext name \<and> 5 < length rest \<and> hd rest = CHR ''_'' \<and> list_all is_name_char body
         then Some (digits, body) else None)"

text \<open>\<^verbatim>\<open>strconv.ParseInt\<close> on a string of digits.\<close>

definition parse_version :: "string \<Rightarrow> int option" where
  "parse_version digits = (let n = int (digits_nat digits) in if n \<le> max_int64 then Some n else None)"

text \<open>An entry of the directory: its name, whether it is a directory, and its contents if they can be read.\<close>

record fs_entry =
  f_name :: string
  f_dir :: bool
  f_body :: "string option"

fun load_loop :: "fs_entry list \<Rightarrow> (int \<rightharpoonup> string) \<Rightarrow> migrate_error + migration list" where
  "load_loop [] seen = Inr []"
| "load_loop (e # es) seen =
     (if f_dir e \<or> \<not> has_ext (f_name e) then load_loop es seen
      else case match_file (f_name e) of
          None \<Rightarrow> Inl (BadName (f_name e))
        | Some (digits, name) \<Rightarrow>
            (case parse_version digits of
               None \<Rightarrow> Inl (BadVersion (f_name e))
             | Some version \<Rightarrow>
                 (case seen version of
                    Some other \<Rightarrow> Inl (SharedVersion other (f_name e) version)
                  | None \<Rightarrow>
                      (case f_body e of
                         None \<Rightarrow> Inl (ReadFailed (f_name e))
                       | Some body \<Rightarrow>
                           (case splitMigration body of
                              Inl err \<Rightarrow> Inl (InFile (f_name e) err)
                            | Inr (up, down) \<Rightarrow>
                                (case load_loop es (seen(version \<mapsto> f_name e)) of
                                   Inl err \<Rightarrow> Inl err
                                 | Inr list \<Rightarrow>
                                     Inr (\<lparr>mig_version = version, mig_name = name, mig_up = up, mig_down = down\<rparr> # list)))))))"

definition LoadMigrations :: "fs_entry list option \<Rightarrow> migrate_error + migration list" where
  "LoadMigrations fsys =
     (case fsys of
        None \<Rightarrow> Inl ReadDirFailed
      | Some entries \<Rightarrow> map_sum id (sort_key mig_version) (load_loop entries Map.empty))"

subsection \<open>The migrator\<close>

text \<open>The database as migrations see it: the schema and its contents, and the rows of \<^verbatim>\<open>schema_migrations\<close>.\<close>

record applied_row =
  ar_version :: int
  ar_name :: string
  ar_applied_at :: gtime

record 's migrate_db =
  md_schema :: 's
  md_applied :: "applied_row list"

text \<open>What happens to one run: the step of \<^verbatim>\<open>locked\<close> that fails, if one does, the fate of each migration's
  transaction and the time it runs at.\<close>

record migrate_world =
  mw_lock_fails :: "string option"
  mw_fault :: "int \<Rightarrow> tx_fault"
  mw_now :: "int \<Rightarrow> gtime"

definition done_versions :: "'s migrate_db \<Rightarrow> int \<rightharpoonup> gtime" where
  "done_versions s = map_of (map (\<lambda>r. (ar_version r, ar_applied_at r)) (rev (md_applied s)))"

definition apply_migration ::
    "(string \<Rightarrow> 's \<Rightarrow> string + 's) \<Rightarrow> gtime \<Rightarrow> migration \<Rightarrow> 's migrate_db \<Rightarrow> string + 's migrate_db \<times> unit" where
  "apply_migration exec now mig s =
     (case exec (mig_up mig) (md_schema s) of
        Inl err \<Rightarrow> Inl err
      | Inr schema \<Rightarrow>
          if has_key ar_version (mig_version mig) (md_applied s) then Inl ''schema_migrations_pkey''
          else Inr (s\<lparr>md_schema := schema, md_applied := md_applied s @
                 [\<lparr>ar_version = mig_version mig, ar_name = mig_name mig, ar_applied_at = now\<rparr>]\<rparr>, ()))"

fun up_loop ::
    "(string \<Rightarrow> 's \<Rightarrow> string + 's) \<Rightarrow> migrate_world \<Rightarrow> (int \<rightharpoonup> gtime) \<Rightarrow> migration list \<Rightarrow> 's migrate_db \<Rightarrow>
      's migrate_db \<times> migration list \<times> migrate_error option" where
  "up_loop exec w done_at [] s = (s, [], None)"
| "up_loop exec w done_at (mig # migs) s =
     (if done_at (mig_version mig) \<noteq> None then up_loop exec w done_at migs s
      else case WithTx (\<lambda>e. e) (mw_fault w (mig_version mig)) (apply_migration exec (mw_now w (mig_version mig)) mig) s of
          (s', Inl err) \<Rightarrow> (s', [], Some (ApplyFailed mig err))
        | (s', Inr _) \<Rightarrow>
            (case up_loop exec w done_at migs s' of (s'', applied, e) \<Rightarrow> (s'', mig # applied, e)))"

definition Up ::
    "(string \<Rightarrow> 's \<Rightarrow> string + 's) \<Rightarrow> migrate_world \<Rightarrow> migration list \<Rightarrow> 's migrate_db \<Rightarrow>
      's migrate_db \<times> migration list \<times> migrate_error option" where
  "Up exec w migrations s =
     (case mw_lock_fails w of
        Some err \<Rightarrow> (s, [], Some (LockFailed err))
      | None \<Rightarrow> up_loop exec w (done_versions s) migrations s)"

definition revert_migration ::
    "(string \<Rightarrow> 's \<Rightarrow> string + 's) \<Rightarrow> migration \<Rightarrow> 's migrate_db \<Rightarrow> string + 's migrate_db \<times> unit" where
  "revert_migration exec mig s =
     (case exec (mig_down mig) (md_schema s) of
        Inl err \<Rightarrow> Inl err
      | Inr schema \<Rightarrow>
          Inr (s\<lparr>md_schema := schema, md_applied := filter (\<lambda>r. ar_version r \<noteq> mig_version mig) (md_applied s)\<rparr>, ()))"

definition Down ::
    "(string \<Rightarrow> 's \<Rightarrow> string + 's) \<Rightarrow> migrate_world \<Rightarrow> migration list \<Rightarrow> 's migrate_db \<Rightarrow>
      's migrate_db \<times> (migrate_error + migration option)" where
  "Down exec w migrations s =
     (case mw_lock_fails w of
        Some err \<Rightarrow> (s, Inl (LockFailed err))
      | None \<Rightarrow>
          (case find (\<lambda>mig. done_versions s (mig_version mig) \<noteq> None) (rev migrations) of
             None \<Rightarrow> (s, Inr None)
           | Some mig \<Rightarrow>
               if mig_down mig = [] then (s, Inl (NoDown mig))
               else case WithTx (\<lambda>e. e) (mw_fault w (mig_version mig)) (revert_migration exec mig) s of
                   (s', Inl err) \<Rightarrow> (s', Inl (RevertFailed mig err))
                 | (s', Inr _) \<Rightarrow> (s', Inr (Some mig))))"

definition Status :: "migrate_world \<Rightarrow> migration list \<Rightarrow> 's migrate_db \<Rightarrow> migrate_error + (migration \<times> gtime option) list" where
  "Status w migrations s =
     (case mw_lock_fails w of
        Some err \<Rightarrow> Inl (LockFailed err)
      | None \<Rightarrow> Inr (map (\<lambda>mig. (mig, done_versions s (mig_version mig))) migrations))"

subsection \<open>Loading\<close>

lemma load_loop_versions:
  assumes "load_loop es seen = Inr list"
  shows "distinct (map mig_version list) \<and> mig_version ` set list \<inter> dom seen = {} \<and>
    (\<forall>m\<in>set list. mig_up m \<noteq> [] \<and> 0 \<le> mig_version m \<and> mig_version m \<le> max_int64)"
  using assms
proof (induction es seen arbitrary: list rule: load_loop.induct)
  case (2 e es seen)
  show ?case
  proof (cases "f_dir e \<or> \<not> has_ext (f_name e)")
    case False
    with "2.prems" obtain digits name version body up down rest where
      m: "match_file (f_name e) = Some (digits, name)" "parse_version digits = Some version" "seen version = None"
        "f_body e = Some body" "splitMigration body = Inr (up, down)" and
      rest: "load_loop es (seen(version \<mapsto> f_name e)) = Inr rest"
        "list = \<lparr>mig_version = version, mig_name = name, mig_up = up, mig_down = down\<rparr> # rest"
      by (auto split: option.splits prod.splits sum.splits)
    have "up \<noteq> []" using m(5) by (auto simp: splitMigration_def Let_def split: option.splits prod.splits if_splits)
    moreover have "0 \<le> version" "version \<le> max_int64" using m(2) by (auto simp: parse_version_def Let_def split: if_splits)
    ultimately show ?thesis using "2.IH"(2) [OF False m(1) refl m(2,3,4,5) refl rest(1)] rest(2) m(3) by auto
  qed (use 2 in auto)
qed simp

lemma HasPrefix_through:
  assumes "HasPrefix (x @ c # y) sub" "c \<notin> set sub"
  shows "HasPrefix x sub"
proof (cases "length sub \<le> length x")
  case False
  then have "c \<in> set (take (length sub) (x @ c # y))" by (cases "length sub - length x") auto
  with assms show ?thesis by (simp add: HasPrefix_def)
qed (use assms in \<open>simp add: HasPrefix_def\<close>)

lemma Index_after_line:
  assumes "sub \<noteq> []" "c \<notin> set sub" "Index x sub = None"
  shows "Index (x @ c # sub @ y) sub = Some (Suc (length x))"
  using assms(3)
proof (induction x)
  case Nil
  have "\<not> HasPrefix (c # sub @ y) sub" using HasPrefix_through [of "[]" c "sub @ y" sub] assms(1,2) by (auto simp: HasPrefix_def)
  moreover have "Index (sub @ y) sub = Some 0" using assms(1) by (cases sub) (simp_all add: HasPrefix_def)
  ultimately show ?case by simp
next
  case (Cons d x)
  then have "\<not> HasPrefix (d # x) sub" "Index x sub = None" by (auto split: if_splits)
  with HasPrefix_through [of "d # x" c "sub @ y" sub] assms(2) Cons.IH show ?case by auto
qed

definition newline :: char where "newline = CHR 0x0A"

text \<open>White space is recognised character by character, whatever comes after a trimmed text.\<close>

definition trimmed :: "string \<Rightarrow> bool" where
  "trimmed s \<longleftrightarrow> TrimSpace s = s"

lemma HasPrefix_space_append:
  assumes "w \<in> set spaces" "HasPrefix (s @ newline # y) w" "s \<noteq> []"
  shows "HasPrefix s w"
proof (cases "newline \<in> set w")
  case True
  with assms(1) have "w = [newline]" by (auto simp: spaces_def newline_def)
  with assms(2,3) show ?thesis by (cases s) (simp_all add: HasPrefix_def)
qed (use assms in \<open>auto intro: HasPrefix_through\<close>)

lemma HasPrefix_space_rev_append:
  assumes "w \<in> set spaces" "HasPrefix (s @ newline # y) (rev w)" "s \<noteq> []"
  shows "HasPrefix s (rev w)"
proof (cases "newline \<in> set w")
  case True
  with assms(1) have "w = [newline]" by (auto simp: spaces_def newline_def)
  with assms(2,3) show ?thesis by (cases s) (simp_all add: HasPrefix_def)
qed (use assms in \<open>auto intro: HasPrefix_through\<close>)

lemma strip_newline: "strip spaces (newline # s) = strip spaces s" "strip (map rev spaces) (newline # s) = strip (map rev spaces) s"
  by (subst strip.simps, simp add: spaces_def newline_def HasPrefix_def)+

lemma strip_length: "length (strip ws s) \<le> length s"
  by (metis strip_suffix length_append le_add2)

lemma trimmed_strip:
  assumes "trimmed s"
  shows "strip spaces s = s" "strip (map rev spaces) (rev s) = rev s"
proof -
  have "length s \<le> length (strip spaces s)"
    using assms strip_length [of "map rev spaces" "rev (strip spaces s)"] unfolding trimmed_def TrimSpace_def
    by (metis length_rev)
  moreover obtain p where "s = p @ strip spaces s" using strip_suffix by blast
  then have "length s = length p + length (strip spaces s)" by (metis length_append)
  ultimately have "p = []" by simp
  with \<open>s = p @ strip spaces s\<close> show s: "strip spaces s = s" by simp
  show "strip (map rev spaces) (rev s) = rev s" using assms unfolding trimmed_def TrimSpace_def s by (metis rev_rev_ident)
qed

lemma TrimSpace_lines:
  assumes "trimmed s" "s \<noteq> []"
  shows "TrimSpace (newline # s @ [newline]) = s" "TrimSpace (newline # s) = s"
proof -
  have "\<forall>w\<in>set spaces. w \<noteq> [] \<longrightarrow> \<not> HasPrefix s w"
    using strip_starts [of spaces s] unfolding trimmed_strip(1) [OF assms(1)] by blast
  then have "\<forall>w\<in>set spaces. w \<noteq> [] \<longrightarrow> \<not> HasPrefix (s @ newline # []) w"
    using HasPrefix_space_append assms(2) by blast
  then have "strip spaces (s @ [newline]) = s @ [newline]" by (rule strip_id)
  then show "TrimSpace (newline # s @ [newline]) = s"
    by (simp add: TrimSpace_def strip_newline trimmed_strip(2) [OF assms(1)])
  show "TrimSpace (newline # s) = s" by (simp add: TrimSpace_def strip_newline trimmed_strip [OF assms(1)])
qed

subsection \<open>Applying\<close>

lemma done_versions_None_iff: "done_versions s v = None \<longleftrightarrow> v \<notin> ar_version ` set (md_applied s)"
  by (simp add: done_versions_def map_of_eq_None_iff image_image)

definition pending :: "'s migrate_db \<Rightarrow> migration list \<Rightarrow> migration list" where
  "pending s migs = filter (\<lambda>m. mig_version m \<notin> ar_version ` set (md_applied s)) migs"

text \<open>The schema after running a list of scripts, if all of them succeed.\<close>

fun exec_all :: "(string \<Rightarrow> 's \<Rightarrow> string + 's) \<Rightarrow> string list \<Rightarrow> 's \<Rightarrow> 's option" where
  "exec_all exec [] x = Some x"
| "exec_all exec (q # qs) x = (case exec q x of Inl e \<Rightarrow> None | Inr y \<Rightarrow> exec_all exec qs y)"

definition row_for :: "migrate_world \<Rightarrow> migration \<Rightarrow> applied_row" where
  "row_for w m = \<lparr>ar_version = mig_version m, ar_name = mig_name m, ar_applied_at = mw_now w (mig_version m)\<rparr>"

lemma up_loop_exact:
  assumes "up_loop exec w done_at migs s = (s', applied, e)"
  shows "\<exists>rest. filter (\<lambda>m. done_at (mig_version m) = None) migs = applied @ rest \<and> (e = None \<longleftrightarrow> rest = []) \<and>
    md_applied s' = md_applied s @ map (row_for w) applied \<and> exec_all exec (map mig_up applied) (md_schema s) = Some (md_schema s')"
  using assms
proof (induction migs arbitrary: s applied)
  case (Cons mig migs)
  show ?case
  proof (cases "done_at (mig_version mig) = None")
    case False
    with Cons show ?thesis by auto
  next
    case new: True
    obtain s1 r where tx: "WithTx (\<lambda>e. e) (mw_fault w (mig_version mig)) (apply_migration exec (mw_now w (mig_version mig)) mig) s = (s1, r)"
      by fastforce
    show ?thesis
    proof (cases r)
      case (Inl err)
      with Cons.prems new tx WithTx_Inl [of _ _ _ s] have "s' = s" "applied = []" "e \<noteq> None" by auto
      with new show ?thesis by auto
    next
      case (Inr u)
      then have "apply_migration exec (mw_now w (mig_version mig)) mig s = Inr (s1, u)" using tx WithTx_Inr by metis
      then have s1: "exec (mig_up mig) (md_schema s) = Inr (md_schema s1)" "md_applied s1 = md_applied s @ [row_for w mig]"
        by (auto simp: apply_migration_def row_for_def split: sum.splits if_splits)
      from Cons.prems new tx Inr obtain more_applied where more: "up_loop exec w done_at migs s1 = (s', more_applied, e)" "applied = mig # more_applied"
        by (auto split: prod.splits)
      from Cons.IH [OF more(1)] s1 more(2) new show ?thesis by auto
    qed
  qed
qed auto

subsection \<open>Properties\<close>

lemma LoadMigrations_Inr:
  assumes "LoadMigrations fsys = Inr migs"
  shows "sorted (map mig_version migs)" "distinct (map mig_version migs)"
proof -
  from assms obtain es list where l: "load_loop es Map.empty = Inr list" "migs = sort_key mig_version list"
    by (cases fsys; cases "load_loop (the fsys) Map.empty") (auto simp: LoadMigrations_def)
  then show "sorted (map mig_version migs)" by simp
  have "mset (map mig_version migs) = mset (map mig_version list)" by (simp add: l(2))
  then show "distinct (map mig_version migs)" using load_loop_versions [OF l(1)] by (metis mset_eq_imp_distinct_iff)
qed

lemma filter_suffix:
  assumes "distinct (map key (xs @ ys))"
  shows "filter (\<lambda>x. key x \<notin> key ` set xs) (xs @ ys) = ys"
  using assms by (auto simp: filter_empty_conv filter_id_conv)

lemma done_versions_append:
  assumes "mig_version m \<notin> ar_version ` set (md_applied s)"
  shows "filter (\<lambda>r. ar_version r \<noteq> mig_version m) (md_applied s @ [row_for w m]) = md_applied s"
  using assms by (force simp: row_for_def filter_id_conv)

text \<open>C30: Migrating up applies a first part of the pending migrations, in order, each with its bookkeeping row,
  and nothing of the others: all of them when no error is reported, otherwise those before the one
  that failed. Running it again continues there; after a complete run it does nothing.\<close>

theorem Up_exact:
  assumes "LoadMigrations fsys = Inr migs" "Up exec w migs s = (s', applied, e)" "mw_lock_fails w = None"
  shows "(\<exists>rest. pending s migs = applied @ rest \<and> (e = None \<longleftrightarrow> rest = []) \<and> pending s' migs = rest) \<and>
    md_applied s' = md_applied s @ map (row_for w) applied \<and>
    exec_all exec (map mig_up applied) (md_schema s) = Some (md_schema s') \<and>
    (e = None \<longrightarrow> Up exec w' migs s' = (s', [], map_option LockFailed (mw_lock_fails w')))"
proof -
  have "up_loop exec w (done_versions s) migs s = (s', applied, e)" using assms by (simp add: Up_def)
  from up_loop_exact [OF this] obtain rest where
    rest: "pending s migs = applied @ rest" "e = None \<longleftrightarrow> rest = []" and
    s': "md_applied s' = md_applied s @ map (row_for w) applied" "exec_all exec (map mig_up applied) (md_schema s) = Some (md_schema s')"
    by (auto simp: pending_def done_versions_None_iff)
  have "distinct (map mig_version (applied @ rest))"
    using LoadMigrations_Inr(2) [OF assms(1)] distinct_map_filterI rest(1) unfolding pending_def by metis
  note suffix = filter_suffix [OF this]
  have "pending s' migs = filter (\<lambda>m. mig_version m \<notin> mig_version ` set applied) (pending s migs)"
    by (auto simp: pending_def s'(1) row_for_def image_Un image_image intro!: filter_cong)
  then have p: "pending s' migs = rest" using suffix rest(1) by simp
  have "Up exec w' migs s' = (s', [], map_option LockFailed (mw_lock_fails w'))" if "e = None"
  proof -
    obtain s2 applied2 e2 where u: "up_loop exec w' (done_versions s') migs s' = (s2, applied2, e2)" by (metis prod_cases3)
    have "filter (\<lambda>m. done_versions s' (mig_version m) = None) migs = []"
      using p rest(2) that by (simp add: pending_def done_versions_None_iff)
    then have "up_loop exec w' (done_versions s') migs s' = (s', [], None)"
      by (induction migs) (auto split: if_splits)
    then show ?thesis by (simp add: Up_def split: option.splits)
  qed
  with rest s' p show ?thesis by blast
qed

text \<open>Reverting undoes the last migration: when the newest migration has just been applied and its script for
  the way down undoes its script for the way up, migrating down restores the schema and the
  bookkeeping that were there before it, and reports that migration.\<close>

theorem Down_undoes_Up:
  assumes "LoadMigrations fsys = Inr (migs @ [m])" "pending s (migs @ [m]) = [m]" "mig_down m \<noteq> []"
    and "Up exec w (migs @ [m]) s = (s', [m], None)" "mw_lock_fails w = None"
    and "\<forall>x. exec (mig_up m) (md_schema s) = Inr x \<longrightarrow> exec (mig_down m) x = Inr (md_schema s)"
    and "mw_lock_fails w' = None" "mw_fault w' (mig_version m) = NoFault"
  shows "Down exec w' (migs @ [m]) s' = (s, Inr (Some m))"
proof -
  have s': "md_applied s' = md_applied s @ [row_for w m]" "exec_all exec [mig_up m] (md_schema s) = Some (md_schema s')"
    using up_loop_exact [of exec w "done_versions s"] assms(4,5) by (fastforce simp: Up_def)+
  then have "exec (mig_up m) (md_schema s) = Inr (md_schema s')" by (auto split: sum.splits)
  with assms(6) have down: "exec (mig_down m) (md_schema s') = Inr (md_schema s)" by blast
  have new: "mig_version m \<notin> ar_version ` set (md_applied s)" using assms(2) by (auto simp: pending_def filter_eq_Cons_iff)
  have "done_versions s' (mig_version m) \<noteq> None" by (simp add: done_versions_None_iff s'(1) row_for_def)
  moreover have "revert_migration exec m s' = Inr (s, ())"
    unfolding revert_migration_def s'(1) down done_versions_append [OF new] by simp
  ultimately show ?thesis using assms(3,7,8) by (simp add: Down_def WithTx_def)
qed

text \<open>A migration file made of the two marked sections is read back exactly: both scripts, if they are
  trimmed, not empty, and do not hold the marker that ends them.\<close>

theorem splitMigration_roundtrip:
  assumes "trimmed up" "up \<noteq> []" "Index (newline # up) markerDown = None" "trimmed down" "down \<noteq> []"
  shows "splitMigration (markerUp @ newline # up @ newline # markerDown @ newline # down) = Inr (up, down)"
proof -
  have "newline \<notin> set markerDown" "markerDown \<noteq> []" by (simp_all add: newline_def markerDown_def)
  then have at: "Index (newline # up @ newline # markerDown @ newline # down) markerDown = Some (Suc (Suc (length up)))"
    using Index_after_line [of markerDown newline "newline # up" "newline # down"] assms(3) by simp
  have "Index (markerUp @ y) markerUp = Some 0" for y by (simp add: markerUp_def HasPrefix_def)
  moreover have "take (Suc (Suc (length up))) (newline # up @ newline # markerDown @ newline # down) = newline # up @ [newline]"
    "drop (Suc (Suc (length up)) + length markerDown) (newline # up @ newline # markerDown @ newline # down) = newline # down"
    by simp_all
  ultimately show ?thesis
    unfolding splitMigration_def Let_def by (simp add: at TrimSpace_lines assms del: Index.simps take_Suc_Cons drop_Suc_Cons)
qed

subsection \<open>Instances\<close>

definition demo_files :: "fs_entry list" where
  "demo_files = [\<lparr>f_name = ''00002_b.sql'', f_dir = False, f_body = Some (markerUp @ '' u2 '' @ markerDown @ '' d2'')\<rparr>,
     \<lparr>f_name = ''1_a.sql'', f_dir = False, f_body = Some (markerUp @ '' u1'')\<rparr>,
     \<lparr>f_name = ''README.md'', f_dir = False, f_body = None\<rparr>]"

definition demo_migrations :: "migration list" where
  "demo_migrations = [\<lparr>mig_version = 1, mig_name = ''a'', mig_up = ''u1'', mig_down = []\<rparr>,
     \<lparr>mig_version = 2, mig_name = ''b'', mig_up = ''u2'', mig_down = ''d2''\<rparr>]"

lemma demo_load: "LoadMigrations (Some demo_files) = Inr demo_migrations"
  by code_simp

definition demo_exec :: "string \<Rightarrow> string list \<Rightarrow> string + string list" where
  "demo_exec q x = (if q = ''d2'' then (if x = [] then Inl ''no such table'' else Inr (tl x)) else Inr (q # x))"

definition demo_migrate_world :: migrate_world where
  "demo_migrate_world = \<lparr>mw_lock_fails = None, mw_fault = (\<lambda>v. NoFault), mw_now = (\<lambda>v. 7)\<rparr>"

definition demo_migrate_db :: "string list migrate_db" where
  "demo_migrate_db = \<lparr>md_schema = [''u1''], md_applied = [\<lparr>ar_version = 1, ar_name = ''a'', ar_applied_at = 3\<rparr>]\<rparr>"

definition demo_migrated :: "string list migrate_db" where
  "demo_migrated = \<lparr>md_schema = [''u2'', ''u1''], md_applied = [\<lparr>ar_version = 1, ar_name = ''a'', ar_applied_at = 3\<rparr>,
     \<lparr>ar_version = 2, ar_name = ''b'', ar_applied_at = 7\<rparr>]\<rparr>"

lemmas demo_migrate_defs = demo_migrations_def demo_exec_def demo_migrate_world_def demo_migrate_db_def demo_migrated_def

lemma demo_Up: "Up demo_exec demo_migrate_world demo_migrations demo_migrate_db = (demo_migrated, [demo_migrations ! 1], None)"
  by (simp add: Up_def demo_migrate_defs done_versions_def WithTx_def apply_migration_def has_key_iff)

theorem Up_exact_witness:
  "pending demo_migrate_db demo_migrations = [demo_migrations ! 1] \<and> pending demo_migrated demo_migrations = [] \<and>
   Up demo_exec demo_migrate_world demo_migrations demo_migrated = (demo_migrated, [], None)"
  using Up_exact [OF demo_load demo_Up, of demo_migrate_world] by (simp add: demo_migrate_world_def)

theorem Down_undoes_Up_witness:
  "Down demo_exec demo_migrate_world demo_migrations demo_migrated = (demo_migrate_db, Inr (Some (demo_migrations ! 1)))"
proof -
  have m: "[demo_migrations ! 0] @ [demo_migrations ! 1] = demo_migrations" by (simp add: demo_migrations_def)
  have "Down demo_exec demo_migrate_world ([demo_migrations ! 0] @ [demo_migrations ! 1]) demo_migrated =
      (demo_migrate_db, Inr (Some (demo_migrations ! 1)))"
    by (rule Down_undoes_Up [where fsys = "Some demo_files" and w = demo_migrate_world], unfold m)
      (rule demo_load demo_Up | simp add: demo_migrate_defs pending_def)+
  then show ?thesis unfolding m .
qed

theorem splitMigration_roundtrip_witness:
  "splitMigration (markerUp @ newline # ''CREATE TABLE t ()'' @ newline # markerDown @ newline # ''DROP TABLE t'') =
    Inr (''CREATE TABLE t ()'', ''DROP TABLE t'')"
proof -
  have "trimmed ''CREATE TABLE t ()''" by code_simp
  moreover have "trimmed ''DROP TABLE t''" by code_simp
  moreover have "Index (newline # ''CREATE TABLE t ()'') markerDown = None" by code_simp
  ultimately show ?thesis by (intro splitMigration_roundtrip) simp_all
qed

end
