(* ===== verification/Timestamps.thy ===== *)
theory Timestamps
  imports Prelude "HOL-Library.Monad_Syntax"
begin

text \<open>
  The text form of times (\<^verbatim>\<open>internal/httpx/time.go\<close>, \<^verbatim>\<open>formatTime\<close> of \<^verbatim>\<open>internal/admin/dashboard.go\<close>) and
  what the gateway uses of Go's \<^verbatim>\<open>time\<close> package for it: the calendar, \<^verbatim>\<open>Time.Format\<close> with the two layouts of the code and
  \<^verbatim>\<open>time.Parse\<close> with \<^verbatim>\<open>time.RFC3339Nano\<close>. A response that is read back gives the time in it to the
  millisecond.
\<close>

subsection \<open>The calendar\<close>

text \<open>Days are counted from January 1 of year 1, the day of the zero \<^verbatim>\<open>time.Time\<close>.\<close>

definition leap_year :: "int \<Rightarrow> bool" where
  "leap_year y \<longleftrightarrow> y mod 4 = 0 \<and> (y mod 100 \<noteq> 0 \<or> y mod 400 = 0)"

definition month_lengths :: "int \<Rightarrow> nat list" where
  "month_lengths y = [31, if leap_year y then 29 else 28, 31, 30, 31, 30, 31, 31, 30, 31, 30, 31]"

definition daysIn :: "nat \<Rightarrow> int \<Rightarrow> nat" where
  "daysIn m y = month_lengths y ! (m - 1)"

definition days_before_year :: "int \<Rightarrow> int" where
  "days_before_year y = 365 * (y - 1) + (y - 1) div 4 - (y - 1) div 100 + (y - 1) div 400"

definition day_number :: "int \<Rightarrow> nat \<Rightarrow> nat \<Rightarrow> int" where
  "day_number y m d = days_before_year y + int (sum_list (take (m - 1) (month_lengths y)) + d - 1)"

text \<open>The year of a day and the day within it: 400-year cycles of 146097 days, centuries of 36524, four-year cycles of
  1461 and years of 365, where the last century of a cycle and the last year of four may have a day more.\<close>

definition year_of :: "int \<Rightarrow> int \<times> nat" where
  "year_of n =
     (let a = n div 146097; r = n mod 146097;
          b = min 3 (r div 36524); r = r - 36524 * b;
          c = r div 1461; r = r mod 1461;
          e = min 3 (r div 365)
      in (400 * a + 100 * b + 4 * c + e + 1, nat (r - 365 * e)))"

text \<open>The month a day of the year falls in, from the lengths of the months, and the day in it.\<close>

fun month_of :: "nat list \<Rightarrow> nat \<Rightarrow> nat \<times> nat" where
  "month_of [] k = (1, Suc k)"
| "month_of (l # ls) k = (if k < l then (1, Suc k) else (case month_of ls (k - l) of (m, d) \<Rightarrow> (Suc m, d)))"

definition civil_date :: "int \<Rightarrow> int \<times> nat \<times> nat" where
  "civil_date n = (let (y, k) = year_of n in (y, month_of (month_lengths y) k))"

lemma month_of_spec:
  assumes "k < sum_list ls" "month_of ls k = (m, d)"
  shows "1 \<le> m \<and> m \<le> length ls \<and> 1 \<le> d \<and> d \<le> ls ! (m - 1) \<and> sum_list (take (m - 1) ls) + d = Suc k"
  using assms
proof (induction ls arbitrary: k m d)
  case (Cons l ls)
  show ?case
  proof (cases "k < l")
    case False
    obtain m' d' where md: "month_of ls (k - l) = (m', d')" by (cases "month_of ls (k - l)")
    then have "m = Suc m'" "d = d'" using Cons.prems False by auto
    moreover have "k - l < sum_list ls" using Cons.prems False by simp
    note Cons.IH [OF this md]
    moreover obtain j where "m' = Suc j" using calculation(3) by (cases m') auto
    ultimately show ?thesis using False by auto
  qed (use Cons.prems in auto)
qed simp

lemma sum_month_lengths: "sum_list (month_lengths y) = (if leap_year y then 366 else 365)"
  by (simp add: month_lengths_def)

lemma length_month_lengths [simp]: "length (month_lengths y) = 12"
  by (simp add: month_lengths_def)

text \<open>A number of years in the mixed radix 4, 25, 4 of the calendar, and division with the quotient capped.\<close>

lemma succ_mod_eq_0:
  fixes k q r y :: int
  assumes "y = k * q + r" "0 \<le> r" "r < k"
  shows "(y + 1) mod k = 0 \<longleftrightarrow> r = k - 1"
proof (cases "r = k - 1")
  case True
  then have "y + 1 = k * (q + 1)" using assms by (simp add: algebra_simps)
  then show ?thesis using True by simp
next
  case False
  then have "(y + 1) mod k = r + 1" using assms by (intro int_mod_pos_eq [of _ _ q]) auto
  then show ?thesis using assms(2) False by simp
qed

lemma radix_year:
  fixes a b c e :: int
  assumes "0 \<le> b" "b \<le> 3" "0 \<le> c" "c \<le> 24" "0 \<le> e" "e \<le> 3" "y = 400 * a + 100 * b + 4 * c + e"
  shows "y div 4 = 100 * a + 25 * b + c" "y div 100 = 4 * a + b" "y div 400 = a"
    "(y + 1) mod 4 = 0 \<longleftrightarrow> e = 3" "(y + 1) mod 100 = 0 \<longleftrightarrow> c = 24 \<and> e = 3"
    "(y + 1) mod 400 = 0 \<longleftrightarrow> b = 3 \<and> c = 24 \<and> e = 3"
proof -
  show "y div 4 = 100 * a + 25 * b + c" using assms by (intro int_div_pos_eq [of _ _ _ e]) auto
  show "y div 100 = 4 * a + b" using assms by (intro int_div_pos_eq [of _ _ _ "4 * c + e"]) auto
  show "y div 400 = a" using assms by (intro int_div_pos_eq [of _ _ _ "100 * b + 4 * c + e"]) auto
  show "(y + 1) mod 4 = 0 \<longleftrightarrow> e = 3" using assms by (subst succ_mod_eq_0 [of _ _ "100 * a + 25 * b + c" e]) auto
  show "(y + 1) mod 100 = 0 \<longleftrightarrow> c = 24 \<and> e = 3"
    using assms by (subst succ_mod_eq_0 [of _ _ "4 * a + b" "4 * c + e"]) (simp_all, linarith)
  show "(y + 1) mod 400 = 0 \<longleftrightarrow> b = 3 \<and> c = 24 \<and> e = 3"
    using assms by (subst succ_mod_eq_0 [of _ _ a "100 * b + 4 * c + e"]) (simp_all, linarith)
qed

lemma capped_div:
  fixes r k q :: int
  assumes "q = min 3 (r div k)" "0 \<le> r" "r \<le> 4 * k" "0 < k"
  shows "0 \<le> q" "q \<le> 3" "0 \<le> r - k * q" "q < 3 \<Longrightarrow> r - k * q < k" "r - k * q \<le> k"
proof -
  have r: "r = k * (r div k) + r mod k" "0 \<le> r mod k" "r mod k < k" using assms(4) by simp_all
  have d: "0 \<le> r div k" using assms(2,4) by (simp add: pos_imp_zdiv_nonneg_iff)
  then show "0 \<le> q" "q \<le> 3" using assms(1) by auto
  consider "r div k \<le> 3" "q = r div k" | "3 < r div k" "q = 3" using assms(1) by linarith
  then have "0 \<le> r - k * q \<and> r - k * q \<le> k \<and> (q < 3 \<longrightarrow> r - k * q < k)"
  proof cases
    case 1
    then have "r - k * q = r mod k" by (simp add: minus_mult_div_eq_mod)
    then show ?thesis using r(2,3) by linarith
  next
    case 2
    then have "k * 4 \<le> k * (r div k)" using assms(4) by (intro mult_left_mono) auto
    then have "k * 4 \<le> r" using r(1,2) by linarith
    then show ?thesis using 2 assms(3,4) by auto
  qed
  then show "0 \<le> r - k * q" "q < 3 \<Longrightarrow> r - k * q < k" "r - k * q \<le> k" by auto
qed

lemma year_of_spec:
  assumes "year_of n = (y, k)"
  shows "days_before_year y + int k = n" "k < sum_list (month_lengths y)"
proof -
  define a r b q c s e where defs: "a = n div 146097" "r = n mod 146097" "b = min 3 (r div 36524)" "q = r - 36524 * b"
    "c = q div 1461" "s = q mod 1461" "e = min 3 (s div 365)"
  have y: "y = 400 * a + 100 * b + 4 * c + e + 1" and k: "k = nat (s - 365 * e)"
    using assms unfolding year_of_def Let_def defs by (simp_all only: prod.inject)
  have r: "n = 146097 * a + r" "0 \<le> r" "r < 146097" unfolding defs(1,2) by simp_all
  have b: "0 \<le> b" "b \<le> 3" "0 \<le> q" "b < 3 \<Longrightarrow> q < 36524" "q \<le> 36524"
    using capped_div [of b r 36524] r(2,3) unfolding defs(4) by (simp_all add: defs(3))
  have c: "q = 1461 * c + s" "0 \<le> s" "s < 1461" "0 \<le> c" by (simp_all add: defs(5,6) b(3) pos_imp_zdiv_nonneg_iff)
  have c24: "c \<le> 24" using c(1,2) b(5) by linarith
  have e: "0 \<le> e" "e \<le> 3" "0 \<le> s - 365 * e" "e < 3 \<Longrightarrow> s - 365 * e < 365" "s - 365 * e \<le> 365"
    using capped_div [of e s 365] c(2,3) by (simp_all add: defs(7))
  note rad = radix_year [OF b(1,2) c(4) c24 e(1,2) refl, of a]
  have y1: "y - 1 = 400 * a + 100 * b + 4 * c + e" by (simp add: y)
  have "days_before_year y = 146097 * a + 36524 * b + 1461 * c + 365 * e"
    unfolding days_before_year_def y1 rad by simp
  then show "days_before_year y + int k = n" using r(1) c(1) e(3) k by (simp add: defs(4))
  have leap: "leap_year y \<longleftrightarrow> e = 3 \<and> (c = 24 \<longrightarrow> b = 3)"
    unfolding leap_year_def y rad(4-6) by blast
  have "s - 365 * e < 365" if "\<not> leap_year y"
  proof (cases "e = 3")
    case True
    then have "c = 24" "b < 3" using that leap b(2) by auto
    then have "s < 1460" using b(4) c(1) by linarith
    then show ?thesis using True by linarith
  qed (use e(2,4) in linarith)
  then show "k < sum_list (month_lengths y)" using e(3,5) k by (auto simp: sum_month_lengths)
qed

theorem civil_date_spec:
  assumes "civil_date n = (y, m, d)"
  shows "1 \<le> m \<and> m \<le> 12 \<and> 1 \<le> d \<and> d \<le> daysIn m y \<and> day_number y m d = n"
proof -
  obtain k where k: "year_of n = (y, k)" "month_of (month_lengths y) k = (m, d)"
    using assms by (auto simp: civil_date_def split: prod.splits)
  from month_of_spec [OF year_of_spec(2) [OF k(1)] k(2)] year_of_spec(1) [OF k(1)]
  show ?thesis by (simp add: daysIn_def day_number_def)
qed

subsection \<open>Formatting\<close>

text \<open>A number with leading zeros, \<^verbatim>\<open>appendInt\<close> of the \<^verbatim>\<open>time\<close> package, and the parts of a time in UTC.\<close>

definition zero_padded :: "nat \<Rightarrow> nat \<Rightarrow> string" where
  "zero_padded w n = replicate (w - length (nat_digits n)) CHR ''0'' @ nat_digits n"

definition appendInt :: "int \<Rightarrow> nat \<Rightarrow> string" where
  "appendInt x w = (if x < 0 then CHR ''-'' # zero_padded w (nat (- x)) else zero_padded w (nat x))"

definition unix_day_offset :: int where "unix_day_offset = 719162"
definition day_ns :: int where "day_ns = 24 * hour"

definition clock_ns :: "gtime \<Rightarrow> nat" where
  "clock_ns t = nat (t mod day_ns)"

definition date_text :: "gtime \<Rightarrow> string" where
  "date_text t =
     (let (y, m, d) = civil_date (t div day_ns + unix_day_offset)
      in appendInt y 4 @ ''-'' @ zero_padded 2 m @ ''-'' @ zero_padded 2 d)"

definition clock_text :: "gtime \<Rightarrow> string" where
  "clock_text t =
     (let n = clock_ns t
      in zero_padded 2 (n div 3600000000000) @ '':'' @ zero_padded 2 (n div 60000000000 mod 60) @ '':'' @
         zero_padded 2 (n div 1000000000 mod 60) @ ''.'' @ zero_padded 3 (n div 1000000 mod 1000) @ ''Z'')"

text \<open>\<^verbatim>\<open>TimeLayout\<close> of the API and the layout of the dashboard. \<^verbatim>\<open>Time.MarshalJSON\<close> quotes the first.\<close>

definition format_TimeLayout :: "gtime \<Rightarrow> string" where
  "format_TimeLayout t = date_text t @ ''T'' @ clock_text t"

definition Time_MarshalJSON :: "gtime \<Rightarrow> string" where
  "Time_MarshalJSON t = [CHR 0x22] @ format_TimeLayout t @ [CHR 0x22]"

definition TimePtr_MarshalJSON :: "gtime option \<Rightarrow> string" where
  "TimePtr_MarshalJSON t = (case t of None \<Rightarrow> ''null'' | Some t \<Rightarrow> Time_MarshalJSON t)"

definition em_dash :: string where "em_dash = [CHR 0xE2, CHR 0x80, CHR 0x94]"

definition formatTime :: "gtime \<Rightarrow> string" where
  "formatTime t = date_text t @ '' '' @ clock_text t"

definition formatTimePtr :: "gtime option \<Rightarrow> string" where
  "formatTimePtr t = (case t of None \<Rightarrow> em_dash | Some t \<Rightarrow> formatTime t)"

definition deref :: "string option \<Rightarrow> string" where
  "deref s = (case s of None \<Rightarrow> em_dash | Some v \<Rightarrow> v)"

subsection \<open>Parsing\<close>

text \<open>
  \<^verbatim>\<open>time.Parse(time.RFC3339Nano, s)\<close>, piece by piece as the layout has them: four digits of the year, two of the month and the
  day, one or two of the hour, two of the minute and the second, a fraction of any length after a period or a comma,
  \<^verbatim>\<open>Z\<close> or an offset of at most 24 hours and 60 minutes, and nothing more; the day must exist in its month. The short cut of
  \<^verbatim>\<open>Parse\<close> for strictly formed times gives the same results.
\<close>

definition getnum :: "bool \<Rightarrow> string \<Rightarrow> (nat \<times> string) option" where
  "getnum fixed s =
     (case s of
        c # r \<Rightarrow> if \<not> is_digit c then None
          else (case r of
              d # r' \<Rightarrow> if is_digit d then Some (digits_nat [c, d], r') else if fixed then None else Some (digits_nat [c], r)
            | [] \<Rightarrow> if fixed then None else Some (digits_nat [c], r))
      | [] \<Rightarrow> None)"

definition skip_char :: "char \<Rightarrow> string \<Rightarrow> string option" where
  "skip_char c s = (case s of d # r \<Rightarrow> if d = c then Some r else None | [] \<Rightarrow> None)"

definition get_year :: "string \<Rightarrow> (nat \<times> string) option" where
  "get_year s =
     (if 4 \<le> length s \<and> list_all is_digit (take 4 s) then Some (digits_nat (take 4 s), drop 4 s) else None)"

definition get_below :: "nat \<Rightarrow> bool \<Rightarrow> string \<Rightarrow> (nat \<times> string) option" where
  "get_below n fixed s = (case getnum fixed s of Some (x, r) \<Rightarrow> if x < n then Some (x, r) else None | None \<Rightarrow> None)"

definition parseNanoseconds :: "string \<Rightarrow> nat" where
  "parseNanoseconds ds = digits_nat (take 9 ds) * 10 ^ (9 - length ds)"

definition get_fraction :: "string \<Rightarrow> nat \<times> string" where
  "get_fraction s =
     (case s of
        c # d # r \<Rightarrow> if (c = CHR ''.'' \<or> c = CHR '','') \<and> is_digit d
          then (parseNanoseconds (takeWhile is_digit (d # r)), dropWhile is_digit (d # r)) else (0, s)
      | _ \<Rightarrow> (0, s))"

definition get_zone :: "string \<Rightarrow> (int \<times> string) option" where
  "get_zone s =
     (case s of
        sign # h1 # h2 # colon # m1 # m2 # r \<Rightarrow>
          if sign = CHR ''Z'' then Some (0, tl s)
          else if colon \<noteq> CHR '':'' \<or> \<not> list_all is_digit [h1, h2, m1, m2]
            \<or> 24 < digits_nat [h1, h2] \<or> 60 < digits_nat [m1, m2] then None
          else let offset = int ((digits_nat [h1, h2] * 60 + digits_nat [m1, m2]) * 60)
            in if sign = CHR ''+'' then Some (offset, r) else if sign = CHR ''-'' then Some (- offset, r) else None
      | c # r \<Rightarrow> if c = CHR ''Z'' then Some (0, r) else None
      | [] \<Rightarrow> None)"

definition unix_time :: "int \<Rightarrow> nat \<Rightarrow> nat \<Rightarrow> nat \<Rightarrow> nat \<Rightarrow> nat \<Rightarrow> nat \<Rightarrow> gtime" where
  "unix_time y mo d h mi s ns =
     (day_number y mo d - unix_day_offset) * day_ns + int (((h * 60 + mi) * 60 + s) * 1000000000 + ns)"

definition parse_RFC3339Nano :: "string \<Rightarrow> gtime option" where
  "parse_RFC3339Nano v = do {
     (y, v) \<leftarrow> get_year v;
     v \<leftarrow> skip_char (CHR ''-'') v;
     (mo, v) \<leftarrow> get_below 13 True v;
     v \<leftarrow> (if mo = 0 then None else skip_char (CHR ''-'') v);
     (d, v) \<leftarrow> getnum True v;
     v \<leftarrow> skip_char (CHR ''T'') v;
     (h, v) \<leftarrow> get_below 24 False v;
     v \<leftarrow> skip_char (CHR '':'') v;
     (mi, v) \<leftarrow> get_below 60 True v;
     v \<leftarrow> skip_char (CHR '':'') v;
     (s, v) \<leftarrow> get_below 60 True v;
     let (ns, v) = get_fraction v;
     (offset, v) \<leftarrow> get_zone v;
     if v \<noteq> [] \<or> d < 1 \<or> daysIn mo (int y) < d then None
     else Some (unix_time (int y) mo d h mi s ns - offset * second)
   }"

subsection \<open>What is printed is read back\<close>

lemma digit_char_0: "digit_char 0 = CHR ''0''"
  by (simp add: digit_char_def char_of_def bit_simps)

lemma zero_padded_Suc: "0 < w \<Longrightarrow> zero_padded (Suc w) n = zero_padded w (n div 10) @ [digit_char (n mod 10)]"
proof (cases "n < 10")
  case True
  assume "0 < w"
  then show ?thesis using True
    by (cases w) (simp_all add: zero_padded_def nat_digits.simps [of n] nat_digits.simps [of 0] digit_char_0 replicate_append_same)
next
  case False
  then show ?thesis by (simp add: zero_padded_def nat_digits.simps [of n])
qed

lemma zero_padded_1: "n < 10 \<Longrightarrow> zero_padded (Suc 0) n = [digit_char n]"
  by (simp add: zero_padded_def nat_digits.simps [of n])

lemma zero_padded_2: "n < 100 \<Longrightarrow> zero_padded 2 n = [digit_char (n div 10), digit_char (n mod 10)]"
  using zero_padded_Suc [of 1 n] zero_padded_1 [of "n div 10"] by (simp add: numeral_2_eq_2)

lemma zero_padded_length: "0 < w \<Longrightarrow> n < 10 ^ w \<Longrightarrow> length (zero_padded w n) = w"
proof (induction w arbitrary: n rule: nat_induct_non_zero)
  case 1
  then show ?case using zero_padded_1 [of n] by simp
next
  case (Suc w)
  then have "n div 10 < 10 ^ w" by (simp add: div_less_iff_less_mult)
  with Suc show ?case by (simp add: zero_padded_Suc)
qed

lemma zero_padded_digits: "list_all is_digit (zero_padded w n)"
  using nat_digits_digits [of n] by (auto simp: zero_padded_def list_all_iff is_digit_def)

lemma digits_nat_zeros: "digits_nat (replicate k CHR ''0'' @ ds) = digits_nat ds"
  by (induction k) (simp_all add: digits_nat_def)

lemma digits_nat_padded [simp]: "digits_nat (zero_padded w n) = n"
  by (simp add: zero_padded_def digits_nat_zeros)

lemma getnum_padded: "n < 100 \<Longrightarrow> getnum fixed (zero_padded 2 n @ r) = Some (n, r)"
  by (simp add: getnum_def zero_padded_2 digits_nat_def)

lemma get_below_padded: "n < b \<Longrightarrow> b \<le> 100 \<Longrightarrow> get_below b fixed (zero_padded 2 n @ r) = Some (n, r)"
  by (simp add: get_below_def getnum_padded)

lemma get_year_padded: "n < 10000 \<Longrightarrow> get_year (zero_padded 4 n @ r) = Some (n, r)"
  using zero_padded_length [of 4 n] zero_padded_digits [of 4 n] by (simp add: get_year_def)

lemma get_fraction_padded:
  assumes "ms < 1000"
  shows "get_fraction (CHR ''.'' # zero_padded 3 ms @ ''Z'') = (ms * 1000000, ''Z'')"
proof -
  have len: "length (zero_padded 3 ms) = 3" using zero_padded_length [of 3 ms] assms by simp
  then obtain d r where dr: "zero_padded 3 ms = d # r" by (cases "zero_padded 3 ms") auto
  have dig: "\<forall>c\<in>set (zero_padded 3 ms). is_digit c" using zero_padded_digits [of 3 ms] by (simp add: list_all_iff)
  have z: "\<not> is_digit (CHR ''Z'')" by (simp add: is_digit_def)
  have "takeWhile is_digit (zero_padded 3 ms @ ''Z'') = zero_padded 3 ms" "dropWhile is_digit (zero_padded 3 ms @ ''Z'') = ''Z''"
    using dig z by (simp_all add: takeWhile_append2 dropWhile_append2)
  then show ?thesis using dig len digits_nat_padded [of 3 ms] unfolding dr
    by (simp add: get_fraction_def parseNanoseconds_def)
qed

lemma get_zone_Z [simp]: "get_zone ''Z'' = Some (0, [])"
  by (simp add: get_zone_def)

lemma skip_char_same [simp]: "skip_char c (c # r) = Some r"
  by (simp add: skip_char_def)

lemma parse_formatted:
  assumes "y < 10000" "1 \<le> mo" "mo \<le> 12" "1 \<le> d" "d \<le> daysIn mo (int y)" "h < 24" "mi < 60" "s < 60" "ms < 1000" "d < 100"
  shows "parse_RFC3339Nano (zero_padded 4 y @ CHR ''-'' # zero_padded 2 mo @ CHR ''-'' # zero_padded 2 d @ CHR ''T'' #
    zero_padded 2 h @ CHR '':'' # zero_padded 2 mi @ CHR '':'' # zero_padded 2 s @ CHR ''.'' # zero_padded 3 ms @ ''Z'') =
    Some (unix_time (int y) mo d h mi s (ms * 1000000))"
  using assms by (simp add: parse_RFC3339Nano_def get_year_padded get_below_padded getnum_padded get_fraction_padded)

lemma clock_split:
  fixes n :: nat
  assumes "n < 86400000000000"
  shows "((n div 3600000000000 * 60 + n div 60000000000 mod 60) * 60 + n div 1000000000 mod 60) * 1000000000 +
      n div 1000000 mod 1000 * 1000000 = n - n mod 1000000" "n div 3600000000000 < 24"
proof -
  have s: "n div 60000000000 = n div 1000000000 div 60" "n div 3600000000000 = n div 1000000000 div 60 div 60"
    "n div 1000000000 = n div 1000000 div 1000" by (simp_all flip: div_mult2_eq)
  have a: "n div 1000000000 div 60 div 60 * 60 + n div 1000000000 div 60 mod 60 = n div 1000000000 div 60"
    "n div 1000000000 div 60 * 60 + n div 1000000000 mod 60 = n div 1000000000"
    "n div 1000000 div 1000 * 1000 + n div 1000000 mod 1000 = n div 1000000" by simp_all
  have "n div 1000000000 * 1000000000 + n div 1000000 mod 1000 * 1000000 = n div 1000000 * 1000000"
    using a(3) unfolding s(3) by linarith
  then show "((n div 3600000000000 * 60 + n div 60000000000 mod 60) * 60 + n div 1000000000 mod 60) * 1000000000 +
      n div 1000000 mod 1000 * 1000000 = n - n mod 1000000"
    unfolding s(1,2) a by (simp add: minus_mod_eq_div_mult)
  show "n div 3600000000000 < 24" using assms by (simp add: div_less_iff_less_mult)
qed

lemma daysIn_le: "1 \<le> m \<Longrightarrow> m \<le> 12 \<Longrightarrow> daysIn m y \<le> 31"
proof -
  have "\<forall>x\<in>set (month_lengths y). x \<le> 31" by (simp add: month_lengths_def)
  then show "1 \<le> m \<Longrightarrow> m \<le> 12 \<Longrightarrow> ?thesis" by (simp add: daysIn_def)
qed

text \<open>The times of the years 0 to 9999, which four digits can name.\<close>

definition four_digit_year :: "gtime \<Rightarrow> bool" where
  "four_digit_year t \<longleftrightarrow> (let y = fst (civil_date (t div day_ns + unix_day_offset)) in 0 \<le> y \<and> y \<le> 9999)"

definition truncate_ms :: "gtime \<Rightarrow> gtime" where
  "truncate_ms t = t - t mod millisecond"

definition year_10000 :: gtime where
  "year_10000 = 253402300800 * second"

lemma days_before_year_mono: "y \<le> z \<Longrightarrow> days_before_year y \<le> days_before_year z"
proof -
  assume le: "y \<le> z"
  have "(z - 1) div 100 \<le> (y - 1) div 100 + (z - y)"
    using zdiv_mono1 [of "z - 1" "y - 1 + (z - y) * 100" 100] le by simp
  moreover have "(y - 1) div 4 \<le> (z - 1) div 4" "(y - 1) div 400 \<le> (z - 1) div 400" using le by (simp_all add: zdiv_mono1)
  ultimately show ?thesis using le by (simp add: days_before_year_def)
qed

lemma four_digit_yearI:
  assumes "zero_time \<le> t" "t < year_10000"
  shows "four_digit_year t"
proof -
  define n where "n = t div day_ns + unix_day_offset"
  obtain y k where yk: "year_of n = (y, k)" by (cases "year_of n")
  have n: "0 \<le> n" "n < 3652059"
    using zdiv_mono1 [of "zero_time" t day_ns] zdiv_mono1 [of t "year_10000 - 1" day_ns] assms
    by (simp_all add: n_def day_ns_def time_unit_defs zero_time_def year_10000_def unix_day_offset_def)
  note spec = year_of_spec [OF yk]
  have k: "k < 366" using spec(2) by (auto simp: sum_month_lengths split: if_splits)
  have "1 \<le> y" using spec(1) n(1) k days_before_year_mono [of y 0] by (cases "1 \<le> y") (auto simp: days_before_year_def [of 0])
  moreover have "y \<le> 9999" using spec(1) n(2) days_before_year_mono [of 10000 y]
    by (cases "y \<le> 9999") (auto simp: days_before_year_def [of 10000])
  ultimately show ?thesis using yk by (simp add: four_digit_year_def civil_date_def n_def Let_def)
qed

lemma truncate_ms_bounds: "truncate_ms t \<le> t" "t < truncate_ms t + millisecond" "truncate_ms t div millisecond = t div millisecond"
proof -
  have "0 \<le> t mod millisecond" "t mod millisecond < millisecond" by (simp_all add: millisecond_def)
  then show "truncate_ms t \<le> t" "t < truncate_ms t + millisecond" by (simp_all add: truncate_ms_def)
  show "truncate_ms t div millisecond = t div millisecond"
    by (simp add: truncate_ms_def minus_mod_eq_mult_div millisecond_def)
qed

lemma format_parse:
  assumes "four_digit_year t"
  shows "parse_RFC3339Nano (format_TimeLayout t) = Some (truncate_ms t)"
proof -
  obtain y m d where c: "civil_date (t div day_ns + unix_day_offset) = (y, m, d)" by (cases rule: prod_cases3)
  have y: "0 \<le> y" "nat y < 10000" "int (nat y) = y" using assms c by (auto simp: four_digit_year_def)
  note date = civil_date_spec [OF c]
  define n where "n = clock_ns t"
  have day: "day_ns = 86400000000000" by (simp add: day_ns_def time_unit_defs)
  have n: "int n = t mod day_ns" "n < 86400000000000" by (simp_all add: n_def clock_ns_def day)
  have shape: "format_TimeLayout t = zero_padded 4 (nat y) @ CHR ''-'' # zero_padded 2 m @ CHR ''-'' # zero_padded 2 d @ CHR ''T'' #
    zero_padded 2 (n div 3600000000000) @ CHR '':'' # zero_padded 2 (n div 60000000000 mod 60) @ CHR '':'' #
    zero_padded 2 (n div 1000000000 mod 60) @ CHR ''.'' # zero_padded 3 (n div 1000000 mod 1000) @ ''Z''"
    using y(1) by (simp add: format_TimeLayout_def date_text_def clock_text_def c appendInt_def Let_def n_def)
  have "parse_RFC3339Nano (format_TimeLayout t) = Some (unix_time y m d (n div 3600000000000) (n div 60000000000 mod 60)
      (n div 1000000000 mod 60) (n div 1000000 mod 1000 * 1000000))"
    unfolding shape using parse_formatted [of "nat y" m d] date daysIn_le [of m y] y clock_split(2) [OF n(2)] by simp
  also have "unix_time y m d (n div 3600000000000) (n div 60000000000 mod 60)
      (n div 1000000000 mod 60) (n div 1000000 mod 1000 * 1000000) = t div day_ns * day_ns + int (n - n mod 1000000)"
    unfolding unix_time_def clock_split(1) [OF n(2)] using date by simp
  also have "\<dots> = truncate_ms t"
  proof -
    have "int (n mod 1000000) = t mod millisecond"
      using n(1) by (simp add: zmod_int day millisecond_def mod_mod_cancel)
    then show ?thesis using n(1) mod_less_eq_dividend [of n 1000000] div_mult_mod_eq [of t day_ns]
      by (simp add: truncate_ms_def of_nat_diff)
  qed
  finally show ?thesis .
qed

lemma format_TimeLayout_length:
  assumes "four_digit_year t"
  shows "length (format_TimeLayout t) = 24"
proof -
  obtain y m d where c: "civil_date (t div day_ns + unix_day_offset) = (y, m, d)" by (cases rule: prod_cases3)
  have y: "0 \<le> y" "nat y < 10 ^ 4" using assms c by (auto simp: four_digit_year_def)
  have md: "m < 10 ^ 2" "d < 10 ^ 2" using civil_date_spec [OF c] daysIn_le [of m y] by simp_all
  have n: "clock_ns t < 86400000000000" by (simp add: clock_ns_def day_ns_def time_unit_defs nat_less_iff)
  have "clock_ns t div 3600000000000 < 10 ^ 2" "clock_ns t div 60000000000 mod 60 < 10 ^ 2" "clock_ns t div 1000000000 mod 60 < 10 ^ 2"
    using clock_split(2) [OF n] by simp_all
  then show ?thesis using y md
    by (simp add: format_TimeLayout_def date_text_def clock_text_def c appendInt_def Let_def zero_padded_length)
qed

lemma parse_example: "parse_RFC3339Nano ''2026-09-21T10:15:30.123Z'' = Some 1789985730123000000"
  by (simp add: parse_RFC3339Nano_def get_year_def get_below_def getnum_def skip_char_def get_fraction_def get_zone_def is_digit_def
      digits_nat_def parseNanoseconds_def daysIn_def month_lengths_def leap_year_def unix_time_def day_number_def days_before_year_def
      day_ns_def time_unit_defs unix_day_offset_def)

end
