(* ===== verification/Json.thy ===== *)
theory Json
  imports Segment Timestamps
begin

text \<open>
  JSON text as \<^verbatim>\<open>encoding/json\<close> writes it for the gateway's responses (\<^verbatim>\<open>WriteJSON\<close> of \<^verbatim>\<open>internal/httpx/json.go\<close>): values, the
  escaping of strings, and that what is written is read back. Floating-point numbers are not part of it.
\<close>

datatype json =
    JNull
  | JBool bool
  | JInt int
  | JStr string
  | JArr "json list"
  | JObj "(string \<times> json) list"

subsection \<open>Writing\<close>

definition json_hex :: "nat \<Rightarrow> char" where
  "json_hex n = ''0123456789abcdef'' ! n"

definition quote_char :: char where "quote_char = CHR 0x22"
definition backslash :: char where "backslash = CHR 0x5C"

text \<open>The escape of a byte below 128: the encoder also escapes the three characters that matter in HTML.\<close>

definition escape_ascii :: "char \<Rightarrow> string" where
  "escape_ascii c =
     (let b = (of_char c :: nat)
      in if c = quote_char \<or> c = backslash then [backslash, c]
         else if b = 8 then [backslash, CHR ''b'']
         else if b = 12 then [backslash, CHR ''f'']
         else if b = 10 then [backslash, CHR ''n'']
         else if b = 13 then [backslash, CHR ''r'']
         else if b = 9 then [backslash, CHR ''t'']
         else if b < 32 \<or> c \<in> {CHR ''<'', CHR ''>'', CHR ''&''}
         then [backslash, CHR ''u'', CHR ''0'', CHR ''0'', json_hex (b div 16), json_hex (b mod 16)]
         else [c])"

lemma decode_rune_drop: "(r, w, ok) = decode_rune (string_bytes (c # cs)) \<Longrightarrow> Suc (length cs) - w < Suc (length cs)"
  using decode_rune_width [of "string_bytes (c # cs)" r w ok] by (auto simp: string_bytes_def)

text \<open>The loop of \<^verbatim>\<open>appendString\<close>: an invalid byte becomes U+FFFD, the two line separators are escaped, and every other
  rune is copied.\<close>

function json_escape :: "string \<Rightarrow> string" where
  "json_escape [] = []"
| "json_escape (c # cs) =
     (if (of_char c :: nat) < 128 then escape_ascii c @ json_escape cs
      else case decode_rune (string_bytes (c # cs)) of (r, w, ok) \<Rightarrow>
          (if \<not> ok then backslash # ''ufffd''
           else if r = 0x2028 then backslash # ''u2028''
           else if r = 0x2029 then backslash # ''u2029''
           else take w (c # cs)) @ json_escape (drop w (c # cs)))"
  by pat_completeness auto
termination
  by (relation "measure length") (auto simp: less_Suc_eq_0_disj dest: decode_rune_drop)

declare json_escape.simps(2) [simp del]

definition json_string :: "string \<Rightarrow> string" where
  "json_string s = quote_char # json_escape s @ [quote_char]"

fun encode_json :: "json \<Rightarrow> string" and encode_items :: "json list \<Rightarrow> string" and encode_members :: "(string \<times> json) list \<Rightarrow> string" where
  "encode_json JNull = ''null''"
| "encode_json (JBool b) = (if b then ''true'' else ''false'')"
| "encode_json (JInt i) = itoa i"
| "encode_json (JStr s) = json_string s"
| "encode_json (JArr xs) = CHR ''['' # encode_items xs @ '']''"
| "encode_json (JObj ms) = CHR ''{'' # encode_members ms @ ''}''"
| "encode_items [] = []"
| "encode_items [x] = encode_json x"
| "encode_items (x # y # ys) = encode_json x @ CHR '','' # encode_items (y # ys)"
| "encode_members [] = []"
| "encode_members [(k, v)] = json_string k @ CHR '':'' # encode_json v"
| "encode_members ((k, v) # m # ms) = json_string k @ CHR '':'' # encode_json v @ CHR '','' # encode_members (m # ms)"

lemma decode_rune_fits: "decode_rune bs = (r, w, ok) \<Longrightarrow> w \<le> length bs"
  by (auto simp: decode_rune_def Let_def split: list.splits if_splits)

lemma json_escape_length: "length (json_escape s) \<le> 6 * length s"
proof (induction s rule: json_escape.induct)
  case (2 c cs)
  show ?case
  proof (cases "(of_char c :: nat) < 128")
    case True
    have "length (escape_ascii c) \<le> 6" by (simp add: escape_ascii_def Let_def)
    then show ?thesis using "2.IH"(1) [OF True] True by (simp add: json_escape.simps(2))
  next
    case False
    obtain r w ok where d: "decode_rune (string_bytes (c # cs)) = (r, w, ok)" by (cases rule: prod_cases3)
    have w: "1 \<le> w" "w \<le> length (c # cs)" using decode_rune_width [OF _ d] decode_rune_fits [OF d] by (simp_all add: string_bytes_def)
    have IH: "length (json_escape (drop w (c # cs))) \<le> 6 * (length (c # cs) - w)" using "2.IH"(2) [OF False d [symmetric] refl] by simp
    have "length (if \<not> ok then backslash # ''ufffd'' else if r = 0x2028 then backslash # ''u2028'' else if r = 0x2029 then backslash # ''u2029'' else take w (c # cs)) \<le> 6 * w"
      using w by simp
    then show ?thesis using IH w(2) False d by (simp add: json_escape.simps(2))
  qed
qed simp

lemma json_string_length: "length (json_string s) \<le> 6 * length s + 2"
  using json_escape_length [of s] by (simp add: json_string_def)

subsection \<open>Reading\<close>

text \<open>A reader for compact JSON, with \<^verbatim>\<open>\u\<close> escapes of the basic plane; the encoder writes no others.\<close>

definition hex_digit_value :: "char \<Rightarrow> nat option" where
  "hex_digit_value c =
     (let b = (of_char c :: nat)
      in if 48 \<le> b \<and> b \<le> 57 then Some (b - 48) else if 97 \<le> b \<and> b \<le> 102 then Some (b - 87)
         else if 65 \<le> b \<and> b \<le> 70 then Some (b - 55) else None)"

definition encode_rune :: "rune \<Rightarrow> string" where
  "encode_rune r =
     map char_of (if r < 0x80 then [r]
       else if r < 0x800 then [0xC0 + r div 64, 0x80 + r mod 64]
       else [0xE0 + r div 4096, 0x80 + r div 64 mod 64, 0x80 + r mod 64])"

definition read_escape :: "string \<Rightarrow> (string \<times> string) option" where
  "read_escape s =
     (case s of
        [] \<Rightarrow> None
      | c # cs \<Rightarrow>
          if c = quote_char \<or> c = backslash \<or> c = CHR ''/'' then Some ([c], cs)
          else if c = CHR ''b'' then Some ([char_of (8 :: nat)], cs)
          else if c = CHR ''f'' then Some ([char_of (12 :: nat)], cs)
          else if c = CHR ''n'' then Some ([char_of (10 :: nat)], cs)
          else if c = CHR ''r'' then Some ([char_of (13 :: nat)], cs)
          else if c = CHR ''t'' then Some ([char_of (9 :: nat)], cs)
          else if c = CHR ''u'' then
            (case cs of
               h1 # h2 # h3 # h4 # r \<Rightarrow>
                 (case (hex_digit_value h1, hex_digit_value h2, hex_digit_value h3, hex_digit_value h4) of
                    (Some a, Some b, Some d, Some e) \<Rightarrow> Some (encode_rune (((a * 16 + b) * 16 + d) * 16 + e), r)
                  | _ \<Rightarrow> None)
             | _ \<Rightarrow> None)
          else None)"

lemma read_escape_shorter: "read_escape s = Some (t, r) \<Longrightarrow> length r < length s"
  by (auto simp: read_escape_def split: list.splits if_splits option.splits)

function read_str :: "string \<Rightarrow> (string \<times> string) option" where
  "read_str s =
     (case s of
        [] \<Rightarrow> None
      | c # cs \<Rightarrow>
          if c = quote_char then Some ([], cs)
          else if c = backslash then
            (case read_escape cs of
               None \<Rightarrow> None
             | Some (t, r) \<Rightarrow> (case read_str r of None \<Rightarrow> None | Some (u, q) \<Rightarrow> Some (t @ u, q)))
          else if (of_char c :: nat) < 32 then None
          else (case read_str cs of None \<Rightarrow> None | Some (u, q) \<Rightarrow> Some (c # u, q)))"
  by pat_completeness auto
termination
  by (relation "measure length") (auto dest: read_escape_shorter)

declare read_str.simps [simp del]

subsection \<open>Strings are read back\<close>

definition prepended :: "string \<Rightarrow> (string \<times> string) option \<Rightarrow> (string \<times> string) option" where
  "prepended t res = map_option (\<lambda>(u, q). (t @ u, q)) res"

lemma read_str_quote [simp]: "read_str (quote_char # t) = Some ([], t)"
  by (simp add: read_str.simps)

lemma read_str_plain:
  assumes "c \<noteq> quote_char" "c \<noteq> backslash" "32 \<le> (of_char c :: nat)"
  shows "read_str (c # t) = prepended [c] (read_str t)"
  using assms by (subst read_str.simps) (simp add: prepended_def split: option.splits prod.splits)

lemma read_str_escape:
  assumes "read_escape e = Some (t, r)"
  shows "read_str (backslash # e) = prepended t (read_str r)"
proof -
  have "backslash \<noteq> quote_char" by (simp add: backslash_def quote_char_def)
  then show ?thesis using assms by (subst read_str.simps) (simp add: prepended_def split: option.splits prod.splits)
qed

lemma hex_digit_json_hex: "k < 16 \<Longrightarrow> hex_digit_value (json_hex k) = Some k"
proof -
  have "list_all (\<lambda>k. hex_digit_value (json_hex k) = Some k) [0..<16]" by code_simp
  then show "k < 16 \<Longrightarrow> ?thesis" by (auto simp: list_all_iff)
qed

lemma escape_ascii_cases:
  fixes c :: char
  defines "b \<equiv> (of_char c :: nat)"
  obtains (two) x where "escape_ascii c = [backslash, x]" "\<And>t. read_escape (x # t) = Some ([c], t)"
    | (six) "escape_ascii c = [backslash, CHR ''u'', CHR ''0'', CHR ''0'', json_hex (b div 16), json_hex (b mod 16)]"
    | (one) "escape_ascii c = [c]" "c \<noteq> quote_char" "c \<noteq> backslash" "32 \<le> b"
proof (cases "c = quote_char \<or> c = backslash")
  case True
  then show thesis by (intro two [of c]) (auto simp: escape_ascii_def read_escape_def)
next
  case no: False
  have same: "char_of b = c" by (simp add: b_def)
  have short: thesis if "(b, x) \<in> {(8, CHR ''b''), (12, CHR ''f''), (10, CHR ''n''), (13, CHR ''r''), (9, CHR ''t'')}" for x
    using that no same by (intro two [of x]) (auto simp: escape_ascii_def read_escape_def quote_char_def backslash_def Let_def simp flip: b_def)
  show thesis
  proof (cases "b \<in> {8, 12, 10, 13, 9}")
    case False
    then have "escape_ascii c = (if b < 32 \<or> c \<in> {CHR ''<'', CHR ''>'', CHR ''&''}
        then [backslash, CHR ''u'', CHR ''0'', CHR ''0'', json_hex (b div 16), json_hex (b mod 16)] else [c])"
      using no by (simp add: escape_ascii_def Let_def b_def)
    then show thesis using no six one by (cases "b < 32 \<or> c \<in> {CHR ''<'', CHR ''>'', CHR ''&''}") auto
  qed (use short in blast)
qed

lemma read_ascii:
  assumes "(of_char c :: nat) < 128"
  shows "read_str (escape_ascii c @ t) = prepended [c] (read_str t)"
proof -
  let ?b = "of_char c :: nat"
  show ?thesis
  proof (cases c rule: escape_ascii_cases)
    case six
    have h: "hex_digit_value (json_hex (?b div 16)) = Some (?b div 16)" "hex_digit_value (json_hex (?b mod 16)) = Some (?b mod 16)"
      "hex_digit_value (CHR ''0'') = Some 0"
      using assms by (simp_all add: hex_digit_json_hex) (simp add: hex_digit_value_def)
    have "read_escape ([CHR ''u'', CHR ''0'', CHR ''0'', json_hex (?b div 16), json_hex (?b mod 16)] @ t) = Some ([c], t)"
      using h assms by (simp add: read_escape_def quote_char_def backslash_def encode_rune_def)
    with six show ?thesis by (simp add: read_str_escape)
  qed (simp_all add: read_str_escape read_str_plain)
qed

lemma read_high:
  assumes "\<forall>c\<in>set cs. 128 \<le> (of_char c :: nat)"
  shows "read_str (cs @ t) = prepended cs (read_str t)"
  using assms
proof (induction cs)
  case Nil
  then show ?case by (simp add: prepended_def option.map_ident split_def)
next
  case (Cons c cs)
  have "c \<noteq> quote_char" "c \<noteq> backslash" using Cons.prems by (auto simp: quote_char_def backslash_def)
  with Cons show ?case by (simp add: read_str_plain prepended_def option.map_comp comp_def split_def)
qed

text \<open>A valid sequence that starts with a byte from 128 on consists of such bytes, and the escaped separators
  are what their escapes are read as.\<close>

lemma decode_rune_two:
  assumes "decode_rune (p # q) = (r, w, True)" "128 \<le> p" "p \<le> 0xDF"
  obtains p1 q' where "q = p1 # q'" "w = 2" "0x80 \<le> p1" "p1 \<le> 0xBF" "r = (p - 0xC0) * 64 + (p1 - 0x80)"
  using assms by (cases q) (auto simp: decode_rune_def utf8_cont_def Let_def split: if_splits)

lemma decode_rune_three:
  assumes "decode_rune (p # q) = (r, w, True)" "0xDF < p" "p \<le> 0xEF"
  obtains p1 p2 q' where "q = p1 # p2 # q'" "w = 3" "0x80 \<le> p1" "p1 \<le> 0xBF" "0x80 \<le> p2" "p2 \<le> 0xBF"
    "r = (p - 0xE0) * 4096 + (p1 - 0x80) * 64 + (p2 - 0x80)"
proof -
  obtain p1 p2 q' where q: "q = p1 # p2 # q'"
    using assms by (cases q rule: list.exhaust; cases "tl q") (auto simp: decode_rune_def Let_def split: if_splits)
  show thesis by (rule that [OF q]; use assms in \<open>simp add: q decode_rune_def utf8_cont_def Let_def split: if_splits\<close>)
qed

lemma decode_rune_four:
  assumes "decode_rune (p # q) = (r, w, True)" "0xEF < p"
  obtains p1 p2 p3 q' where "q = p1 # p2 # p3 # q'" "w = 4" "0x80 \<le> p1" "0x80 \<le> p2" "0x80 \<le> p3" "0xF0 < p \<or> 0x90 \<le> p1"
    "r = (p - 0xF0) * 262144 + (p1 - 0x80) * 4096 + (p2 - 0x80) * 64 + (p3 - 0x80)"
proof -
  obtain p1 p2 p3 q' where q: "q = p1 # p2 # p3 # q'"
    using assms by (cases q rule: list.exhaust; cases "tl q"; cases "tl (tl q)") (auto simp: decode_rune_def Let_def split: if_splits)
  show thesis by (rule that [OF q]; use assms in \<open>auto simp add: q decode_rune_def utf8_cont_def Let_def split: if_splits\<close>)
qed

lemma decode_rune_high:
  assumes "decode_rune bs = (r, w, True)" "bs = p # q" "128 \<le> p"
  shows "\<forall>b\<in>set (take w bs). 128 \<le> b"
proof -
  consider "p \<le> 0xDF" | "0xDF < p" "p \<le> 0xEF" | "0xEF < p" by linarith
  then show ?thesis
  proof cases
    case 1
    obtain p1 q' where "q = p1 # q'" "w = 2" "0x80 \<le> p1"
      using decode_rune_two [OF assms(1) [unfolded assms(2)] assms(3) 1] by metis
    then show ?thesis using assms(2,3) by (simp add: numeral_2_eq_2)
  next
    case 2
    obtain p1 p2 q' where "q = p1 # p2 # q'" "w = 3" "0x80 \<le> p1" "0x80 \<le> p2"
      using decode_rune_three [OF assms(1) [unfolded assms(2)] 2] by metis
    then show ?thesis using assms(2,3) by (simp add: numeral_3_eq_3)
  next
    case 3
    obtain p1 p2 p3 q' where "q = p1 # p2 # p3 # q'" "w = 4" "0x80 \<le> p1" "0x80 \<le> p2" "0x80 \<le> p3"
      using decode_rune_four [OF assms(1) [unfolded assms(2)] 3] by metis
    then show ?thesis using assms(2,3) by (simp add: eval_nat_numeral)
  qed
qed

lemma decode_rune_separator:
  assumes "decode_rune bs = (r, w, True)" "r = 0x2028 \<or> r = 0x2029" "bs = p # q" "128 \<le> p"
  shows "take w bs = [0xE2, 0x80, r - 0x2028 + 0xA8]"
proof -
  consider "p \<le> 0xDF" | "0xDF < p" "p \<le> 0xEF" | "0xEF < p" by linarith
  then show ?thesis
  proof cases
    case 1
    obtain p1 q' where d: "p1 \<le> 0xBF" "r = (p - 0xC0) * 64 + (p1 - 0x80)"
      using decode_rune_two [OF assms(1) [unfolded assms(3)] assms(4) 1] by metis
    have "(p - 0xC0) * 64 \<le> 0x1F * 64" using 1 by (intro mult_right_mono) auto
    then have "r \<le> 0x1F * 64 + 0x3F" using d by linarith
    with assms(2) show ?thesis by auto
  next
    case 2
    obtain p1 p2 q' where d: "q = p1 # p2 # q'" "w = 3" "0x80 \<le> p1" "p1 \<le> 0xBF" "0x80 \<le> p2" "p2 \<le> 0xBF"
      "r = (p - 0xE0) * 4096 + (p1 - 0x80) * 64 + (p2 - 0x80)"
      using decode_rune_three [OF assms(1) [unfolded assms(3)] 2] by metis
    define a b c where abc: "a = p - 0xE0" "b = p1 - 0x80" "c = p2 - 0x80"
    have r: "r = a * 4096 + b * 64 + c" "b < 64" "c < 64" using d by (auto simp: abc)
    have "a = 2" using r assms(2) by auto
    then have "b = 0" "c = r - 0x2000" using r assms(2) by auto
    then have "p = 0xE2" "p1 = 0x80" "p2 = r - 0x2000 + 0x80" using 2 d(3,5) \<open>a = 2\<close> unfolding abc by linarith+
    with d(1,2) assms(2,3) show ?thesis by (auto simp: numeral_3_eq_3)
  next
    case 3
    obtain p1 p2 p3 q' where d: "0xF0 < p \<or> 0x90 \<le> p1" "r = (p - 0xF0) * 262144 + (p1 - 0x80) * 4096 + (p2 - 0x80) * 64 + (p3 - 0x80)"
      using decode_rune_four [OF assms(1) [unfolded assms(3)] 3] by metis
    have "0x10000 \<le> r"
    proof (cases "0xF0 < p")
      case True
      then have "1 * 262144 \<le> (p - 0xF0) * 262144" by (intro mult_right_mono) auto
      then show ?thesis using d(2) by linarith
    next
      case False
      then have "0x10 * 4096 \<le> (p1 - 0x80) * 4096" using d(1) by (intro mult_right_mono) auto
      then show ?thesis using d(2) by linarith
    qed
    with assms(2) show ?thesis by auto
  qed
qed

lemma string_bytes_drop: "string_bytes (drop w s) = drop w (string_bytes s)"
  by (simp add: string_bytes_def drop_map)

lemma string_bytes_take: "take w (string_bytes s) = map of_char (take w s)"
  by (simp add: string_bytes_def take_map)

lemma chars_of_bytes: "map char_of (take w (string_bytes s)) = take w s"
  by (simp add: string_bytes_def comp_def flip: take_map)

lemma valid_utf8_Cons:
  assumes "valid_utf8 (c # cs)"
  obtains r w where "decode_rune (string_bytes (c # cs)) = (r, w, True)" "valid_utf8 (drop w (c # cs))"
proof -
  obtain r w ok where d: "decode_rune (string_bytes (c # cs)) = (r, w, ok)" by (cases "decode_rune (string_bytes (c # cs))")
  have "decode_all (string_bytes (c # cs)) = (r, ok) # decode_all (drop w (string_bytes (c # cs)))"
    by (subst decode_all.simps) (simp add: d, simp add: string_bytes_def)
  then have "ok" "valid_utf8 (drop w (c # cs))" using assms by (simp_all add: valid_utf8_def string_bytes_drop)
  with d that show thesis by simp
qed

lemma prepended_prepended: "prepended s (prepended t res) = prepended (s @ t) res"
  by (simp add: prepended_def option.map_comp comp_def split_def)

lemma read_separator:
  assumes "k = CHR ''8'' \<or> k = CHR ''9''"
  shows "read_str (backslash # ''u202'' @ k # t) = prepended (map char_of [0xE2, 0x80, of_char k + 0x70 :: nat]) (read_str t)"
  by (rule read_str_escape) (use assms in \<open>auto simp: read_escape_def quote_char_def backslash_def hex_digit_value_def encode_rune_def\<close>)

lemma read_json_string: "valid_utf8 s \<Longrightarrow> read_str (json_escape s @ quote_char # t) = Some (s, t)"
proof (induction s rule: json_escape.induct)
  case (2 c cs)
  let ?s = "c # cs"
  obtain r w where d: "decode_rune (string_bytes ?s) = (r, w, True)" "valid_utf8 (drop w ?s)" using "2.prems" by (rule valid_utf8_Cons)
  show ?case
  proof (cases "(of_char c :: nat) < 128")
    case True
    then have "decode_rune (string_bytes ?s) = (of_char c, 1, True)" by (simp add: decode_rune_def string_bytes_def Let_def)
    then have "valid_utf8 cs" using d by simp
    then show ?thesis using True "2.IH"(1) by (simp add: json_escape.simps(2) read_ascii prepended_def)
  next
    case False
    have bytes: "string_bytes ?s = of_char c # string_bytes cs" by (simp add: string_bytes_def)
    have IH: "read_str (json_escape (drop w ?s) @ quote_char # t) = Some (drop w ?s, t)"
      using "2.IH"(2) [OF False d(1) [symmetric] refl d(2)] .
    have whole: "prepended (take w ?s) (Some (drop w ?s, t)) = Some (?s, t)" by (simp add: prepended_def)
    consider "r = 0x2028 \<or> r = 0x2029" | "r \<noteq> 0x2028" "r \<noteq> 0x2029" by blast
    then show ?thesis
    proof cases
      case 1
      have "take w (string_bytes ?s) = [0xE2, 0x80, r - 0x2028 + 0xA8]"
        using decode_rune_separator [OF d(1) 1 bytes] False by simp
      then have "map char_of (take w (string_bytes ?s)) = map char_of [0xE2, 0x80, r - 0x2028 + 0xA8 :: nat]" by simp
      then have tk: "take w ?s = map char_of [0xE2, 0x80, r - 0x2028 + 0xA8 :: nat]"  using chars_of_bytes by metis
      show ?thesis
      proof (cases "r = 0x2028")
        case True
        have "json_escape ?s = backslash # ''u202'' @ CHR ''8'' # json_escape (drop w ?s)"
          using False d(1) True by (simp add: json_escape.simps(2))
        then show ?thesis using read_separator [of "CHR ''8''" "json_escape (drop w ?s) @ quote_char # t"] IH whole tk True by simp
      next
        case r: False
        have "json_escape ?s = backslash # ''u202'' @ CHR ''9'' # json_escape (drop w ?s)"
          using False d(1) 1 r by (auto simp: json_escape.simps(2))
        then show ?thesis using read_separator [of "CHR ''9''" "json_escape (drop w ?s) @ quote_char # t"] IH whole tk r 1 by simp
      qed
    next
      case 2
      then have "json_escape ?s = take w ?s @ json_escape (drop w ?s)" using False d(1) by (simp add: json_escape.simps(2))
      moreover have "\<forall>b\<in>set (take w (string_bytes ?s)). 128 \<le> b" using decode_rune_high [OF d(1) bytes] False by simp
      then have "\<forall>c\<in>set (take w ?s). 128 \<le> (of_char c :: nat)" unfolding string_bytes_take by simp
      ultimately show ?thesis using IH whole read_high by simp
    qed
  qed
qed simp

subsection \<open>Values are read back\<close>

text \<open>Fuel bounds the nesting and the number of elements; the length of a text is enough for it.\<close>

definition read_int :: "string \<Rightarrow> (json \<times> string) option" where
  "read_int s =
     (let (neg, r) = (case s of c # cs \<Rightarrow> if c = CHR ''-'' then (True, cs) else (False, s) | [] \<Rightarrow> (False, s));
          ds = takeWhile is_digit r; n = int (digits_nat ds)
      in if ds = [] then None else Some (JInt (if neg then - n else n), dropWhile is_digit r))"

definition read_word :: "string \<Rightarrow> json \<Rightarrow> string \<Rightarrow> (json \<times> string) option" where
  "read_word w v s = (if take (length w) s = w then Some (v, drop (length w) s) else None)"

fun read_jvalue :: "nat \<Rightarrow> string \<Rightarrow> (json \<times> string) option"
  and read_jitems :: "nat \<Rightarrow> string \<Rightarrow> (json list \<times> string) option"
  and read_jmembers :: "nat \<Rightarrow> string \<Rightarrow> ((string \<times> json) list \<times> string) option" where
  "read_jvalue 0 s = None"
| "read_jvalue (Suc n) s =
     (case s of
        [] \<Rightarrow> None
      | c # r \<Rightarrow>
          if c = CHR ''n'' then read_word ''null'' JNull s
          else if c = CHR ''t'' then read_word ''true'' (JBool True) s
          else if c = CHR ''f'' then read_word ''false'' (JBool False) s
          else if c = quote_char then map_option (\<lambda>(t, q). (JStr t, q)) (read_str r)
          else if c = CHR ''['' then
            (case r of
               d # q \<Rightarrow> if d = CHR '']'' then Some (JArr [], q) else map_option (\<lambda>(xs, q). (JArr xs, q)) (read_jitems n r)
             | [] \<Rightarrow> None)
          else if c = CHR ''{'' then
            (case r of
               d # q \<Rightarrow> if d = CHR ''}'' then Some (JObj [], q) else map_option (\<lambda>(ms, q). (JObj ms, q)) (read_jmembers n r)
             | [] \<Rightarrow> None)
          else read_int s)"
| "read_jitems 0 s = None"
| "read_jitems (Suc n) s =
     (case read_jvalue n s of
        Some (x, c # r) \<Rightarrow>
          if c = CHR '']'' then Some ([x], r)
          else if c = CHR '','' then map_option (\<lambda>(xs, q). (x # xs, q)) (read_jitems n r) else None
      | _ \<Rightarrow> None)"
| "read_jmembers 0 s = None"
| "read_jmembers (Suc n) s =
     (case s of
        [] \<Rightarrow> None
      | c # r \<Rightarrow>
          if c \<noteq> quote_char then None
          else case read_str r of
              Some (k, d # r) \<Rightarrow>
                if d \<noteq> CHR '':'' then None
                else (case read_jvalue n r of
                    Some (v, c # r) \<Rightarrow>
                      if c = CHR ''}'' then Some ([(k, v)], r)
                      else if c = CHR '','' then map_option (\<lambda>(ms, q). ((k, v) # ms, q)) (read_jmembers n r) else None
                  | _ \<Rightarrow> None)
            | _ \<Rightarrow> None)"

definition read_json :: "string \<Rightarrow> json option" where
  "read_json s = (case read_jvalue (length s) s of Some (v, []) \<Rightarrow> Some v | _ \<Rightarrow> None)"

text \<open>Values whose strings are UTF-8, and the fuel a value needs.\<close>

fun json_utf8 :: "json \<Rightarrow> bool" where
  "json_utf8 (JStr s) = valid_utf8 s"
| "json_utf8 (JArr xs) = list_all json_utf8 xs"
| "json_utf8 (JObj ms) = list_all (\<lambda>(k, v). valid_utf8 k \<and> json_utf8 v) ms"
| "json_utf8 _ = True"

fun json_fuel :: "json \<Rightarrow> nat" and items_fuel :: "json list \<Rightarrow> nat" and members_fuel :: "(string \<times> json) list \<Rightarrow> nat" where
  "json_fuel (JArr xs) = Suc (items_fuel xs)"
| "json_fuel (JObj ms) = Suc (members_fuel ms)"
| "json_fuel _ = 1"
| "items_fuel [] = 0"
| "items_fuel (x # xs) = Suc (max (json_fuel x) (items_fuel xs))"
| "members_fuel [] = 0"
| "members_fuel ((k, v) # ms) = Suc (max (json_fuel v) (members_fuel ms))"

definition stops :: "string \<Rightarrow> bool" where
  "stops r \<longleftrightarrow> (case r of [] \<Rightarrow> True | c # _ \<Rightarrow> \<not> is_digit c)"

lemma read_int_itoa:
  assumes "stops r"
  shows "read_int (itoa i @ r) = Some (JInt i, r)"
proof -
  have ds: "takeWhile is_digit (nat_digits n @ r) = nat_digits n" "dropWhile is_digit (nat_digits n @ r) = r" for n
    using nat_digits_digits [of n] assms
    by (simp_all add: list_all_iff takeWhile_append2 dropWhile_append2) (cases r; simp add: stops_def)+
  obtain c cs where c: "nat_digits (nat i) = c # cs" "is_digit c"
    using nat_digits_digits [of "nat i"] nat_digits_ne [of "nat i"] by (cases "nat_digits (nat i)") auto
  show ?thesis
  proof (cases "i < 0")
    case True
    then show ?thesis by (simp add: itoa_def read_int_def ds Let_def)
  next
    case False
    have "c \<noteq> CHR ''-''" using c(2) is_digit_not_sign by blast
    then have "(case itoa i @ r of c # cs \<Rightarrow> if c = CHR ''-'' then (True, cs) else (False, itoa i @ r) | [] \<Rightarrow> (False, itoa i @ r)) = (False, nat_digits (nat i) @ r)"
      using False c(1) by (simp add: itoa_def)
    then show ?thesis using False by (simp add: read_int_def ds Let_def)
  qed
qed

lemma encode_first:
  obtains c t where "encode_json v = c # t" "c \<noteq> CHR '']''" "c \<noteq> CHR ''}''"
proof (cases v)
  case (JBool b)
  then show thesis using that by (cases b) auto
next
  case (JInt i)
  show thesis
  proof (cases "i < 0")
    case True
    then show thesis by (intro that [of "CHR ''-''"]) (simp_all add: JInt itoa_def)
  next
    case False
    obtain c cs where c: "nat_digits (nat i) = c # cs" "is_digit c"
      using nat_digits_digits [of "nat i"] nat_digits_ne [of "nat i"] by (cases "nat_digits (nat i)") auto
    then show thesis using False by (intro that [of c cs]) (auto simp: JInt itoa_def is_digit_def)
  qed
qed (use that in \<open>auto simp: json_string_def quote_char_def\<close>)

lemma read_jvalue_int: "stops r \<Longrightarrow> 0 < n \<Longrightarrow> read_jvalue n (itoa i @ r) = Some (JInt i, r)"
proof -
  assume r: "stops r" and n: "0 < n"
  obtain c t where c: "itoa i @ r = c # t" "is_digit c \<or> c = CHR ''-''"
  proof (cases "i < 0")
    case False
    then show thesis using that nat_digits_digits [of "nat i"] nat_digits_ne [of "nat i"]
      by (cases "nat_digits (nat i)") (auto simp: itoa_def)
  qed (use that in \<open>auto simp: itoa_def\<close>)
  have "c \<notin> {CHR ''n'', CHR ''t'', CHR ''f'', quote_char, CHR ''['', CHR ''{''}" using c(2) by (auto simp: is_digit_def quote_char_def)
  with c(1) have "read_jvalue n (itoa i @ r) = read_int (itoa i @ r)" using n by (cases n) auto
  with read_int_itoa [OF r] show ?thesis by simp
qed

lemma stops_delim [simp]: "stops (CHR '']'' # r)" "stops (CHR ''}'' # r)" "stops (CHR '','' # r)" "stops []"
  by (simp_all add: stops_def is_digit_def)

lemma read_encoded:
  "json_utf8 v \<Longrightarrow> json_fuel v \<le> n \<Longrightarrow> stops r \<Longrightarrow> read_jvalue n (encode_json v @ r) = Some (v, r)"
  "list_all json_utf8 xs \<Longrightarrow> items_fuel xs \<le> n \<Longrightarrow> xs \<noteq> [] \<Longrightarrow> read_jitems n (encode_items xs @ CHR '']'' # r) = Some (xs, r)"
  "list_all (\<lambda>(k, v). valid_utf8 k \<and> json_utf8 v) ms \<Longrightarrow> members_fuel ms \<le> n \<Longrightarrow> ms \<noteq> [] \<Longrightarrow>
     read_jmembers n (encode_members ms @ CHR ''}'' # r) = Some (ms, r)"
proof (induction v and xs and ms arbitrary: n r and n r and n r rule: encode_json_encode_items_encode_members.induct)
  case 1
  then show ?case by (cases n) (simp_all add: read_word_def)
next
  case (2 b)
  then show ?case by (cases n) (simp_all add: read_word_def)
next
  case (3 i)
  then show ?case by (simp add: read_jvalue_int)
next
  case (4 s)
  have "quote_char \<notin> {CHR ''n'', CHR ''t'', CHR ''f''}" by (simp add: quote_char_def)
  with 4 show ?case by (cases n) (simp_all add: json_string_def read_json_string)
next
  case (5 xs)
  show ?case
  proof (cases "xs = []")
    case True
    then show ?thesis using "5.prems" by (cases n) (simp_all add: quote_char_def)
  next
    case False
    obtain x ys where "xs = x # ys" using False by (cases xs) auto
    moreover obtain c t where "encode_json x = c # t" "c \<noteq> CHR '']''" by (rule encode_first)
    ultimately obtain t' where "encode_items xs = c # t'" "c \<noteq> CHR '']''" by (cases ys) auto
    then show ?thesis using "5.prems" "5.IH" [of "n - 1" r] False by (cases n) (simp_all add: quote_char_def)
  qed
next
  case (6 ms)
  show ?case
  proof (cases "ms = []")
    case True
    then show ?thesis using "6.prems" by (cases n) (simp_all add: quote_char_def)
  next
    case False
    obtain k v l where "ms = (k, v) # l" using False by (cases ms) auto
    then obtain t where "encode_members ms = quote_char # t" by (cases l) (auto simp: json_string_def)
    then show ?thesis using "6.prems" "6.IH" [of "n - 1" r] False by (cases n) (simp_all add: quote_char_def)
  qed
next
  case (8 x)
  then show ?case by (cases n) simp_all
next
  case (9 x y ys)
  then show ?case by (cases n) simp_all
next
  case (11 k v)
  then show ?case by (cases n) (simp_all add: json_string_def read_json_string)
next
  case (12 k v m ms)
  then show ?case by (cases n) (simp_all add: json_string_def read_json_string)
qed simp_all

lemma fuel_bounds:
  "json_fuel v \<le> length (encode_json v)" "items_fuel xs \<le> Suc (length (encode_items xs))" "members_fuel ms \<le> Suc (length (encode_members ms))"
proof (induction v and xs and ms rule: encode_json_encode_items_encode_members.induct)
  case (3 i)
  then show ?case using nat_digits_ne by (simp add: itoa_def Suc_le_eq)
qed (simp_all add: json_string_def)

theorem read_json_encode: "json_utf8 v \<Longrightarrow> read_json (encode_json v) = Some v"
  using read_encoded(1) [of v "length (encode_json v)" "[]"] fuel_bounds(1) [of v] by (simp add: read_json_def)

subsection \<open>ASCII texts\<close>

definition ascii :: "string \<Rightarrow> bool" where
  "ascii s \<longleftrightarrow> list_all (\<lambda>c. (of_char c :: nat) < 128) s"

lemma ascii_simps [simp]: "ascii []" "ascii (c # s) \<longleftrightarrow> (of_char c :: nat) < 128 \<and> ascii s" "ascii (s @ t) \<longleftrightarrow> ascii s \<and> ascii t"
  by (simp_all add: ascii_def)

lemma ascii_utf8: "ascii s \<Longrightarrow> valid_utf8 s"
proof (induction s)
  case (Cons c s)
  then have "decode_all (string_bytes (c # s)) = (of_char c, True) # decode_all (string_bytes s)"
    by (subst decode_all.simps) (simp add: decode_rune_def string_bytes_def)
  with Cons show ?case by (simp add: valid_utf8_def)
qed (simp add: valid_utf8_def string_bytes_def decode_all.simps)

lemma ascii_digits: "list_all is_digit s \<Longrightarrow> ascii s"
  by (auto simp: ascii_def list_all_iff is_digit_def)

lemma ascii_padded [simp]: "ascii (zero_padded w n)"
  by (rule ascii_digits [OF zero_padded_digits])

lemma ascii_time [simp]: "ascii (format_TimeLayout t)"
  by (simp add: format_TimeLayout_def date_text_def clock_text_def appendInt_def Let_def split: prod.splits)

end
