(* ===== verification/Httpx.thy ===== *)
theory Httpx
  imports Ids Schema Validate Timestamps Json
begin

text \<open>
  The HTTP layer shared by the servers: the error envelope (\<^verbatim>\<open>internal/httpx/errors.go\<close>), query parameters
  (\<^verbatim>\<open>internal/httpx/query.go\<close>) and the classification of undecodable bodies (\<^verbatim>\<open>internal/httpx/json.go\<close>). The JSON
  decoder itself and \<^verbatim>\<open>uuid.Parse\<close> are parameters; what is written is text (\<open>Json\<close>).
\<close>

subsection \<open>Errors\<close>

record http_error =
  he_status :: int
  he_code :: string
  he_message :: string
  he_details :: "field_error list"

definition NewError :: "int \<Rightarrow> string \<Rightarrow> string \<Rightarrow> http_error" where
  "NewError st code msg = \<lparr>he_status = st, he_code = code, he_message = msg, he_details = []\<rparr>"

definition http_ValidationError :: "field_error list \<Rightarrow> http_error" where
  "http_ValidationError details =
     \<lparr>he_status = 422, he_code = ''validation_failed'', he_message = ''The request contains invalid fields.'', he_details = details\<rparr>"

text \<open>An error on its way to \<^verbatim>\<open>WriteError\<close>: one with an HTTP form, or any other, which the client sees as a plain 500.\<close>

datatype served_error = HttpErr http_error | OtherErr error

definition WriteError :: "served_error \<Rightarrow> http_error" where
  "WriteError err =
     (case err of
        HttpErr e \<Rightarrow> e
      | OtherErr _ \<Rightarrow> NewError 500 ''internal_error'' ''An unexpected error occurred.'')"

definition NotFound :: http_error where
  "NotFound = WriteError (HttpErr (NewError 404 ''not_found'' ''The requested resource does not exist.''))"

text \<open>The error envelope; a nil slice of details is written as null.\<close>

definition field_error_json :: "field_error \<Rightarrow> json" where
  "field_error_json f = JObj [(''field'', JStr (fe_field f)), (''code'', JStr (fe_code f)), (''message'', JStr (fe_message f))]"

definition errorBody :: "string \<Rightarrow> http_error \<Rightarrow> json" where
  "errorBody rid e =
     JObj [(''error'', JObj [(''code'', JStr (he_code e)), (''message'', JStr (he_message e)),
       (''details'', if he_details e = [] then JNull else JArr (map field_error_json (he_details e))),
       (''request_id'', JStr rid)])]"

subsection \<open>Bodies\<close>

text \<open>\<^verbatim>\<open>WriteJSON\<close> writes the encoded value and a newline.\<close>

definition WriteJSON_body :: "json \<Rightarrow> string" where
  "WriteJSON_body v = encode_json v @ [CHR 0x0A]"

definition MaxBodyBytes :: int where "MaxBodyBytes = 2 ^ 20"

text \<open>What decoding a body can end in: the errors \<^verbatim>\<open>encoding/json\<close> and the body reader return, by the tests
  \<^verbatim>\<open>decodeError\<close> makes, in order; the quoted forms of names are part of them.\<close>

datatype decode_failure =
    TooLarge
  | SyntaxError int
  | UnmarshalTypeError string string
  | EOF
  | UnexpectedEOF
  | UnknownField string
  | OtherFailure

definition decodeError :: "decode_failure \<Rightarrow> http_error" where
  "decodeError err =
     (case err of
        TooLarge \<Rightarrow> NewError 413 ''payload_too_large'' (''The request body must not exceed '' @ itoa MaxBodyBytes @ '' bytes.'')
      | SyntaxError offset \<Rightarrow> NewError 400 ''invalid_json'' (''The request body is not valid JSON (at byte '' @ itoa offset @ '').'')
      | UnmarshalTypeError field typ_name \<Rightarrow> NewError 400 ''invalid_json'' (''Field '' @ field @ '' must be of type '' @ typ_name @ ''.'')
      | EOF \<Rightarrow> NewError 400 ''invalid_json'' ''The request body is empty.''
      | UnexpectedEOF \<Rightarrow> NewError 400 ''invalid_json'' ''The request body is not valid JSON.''
      | UnknownField field \<Rightarrow> NewError 400 ''invalid_json'' (''Unknown field '' @ field @ ''.'')
      | OtherFailure \<Rightarrow> NewError 400 ''invalid_json'' ''The request body is not valid JSON.'')"

text \<open>A request body as \<^verbatim>\<open>DecodeJSON\<close> finds it: its media type, if the header parses, the decoded value or the
  failure, and whether nothing follows it.\<close>

record 'a body =
  bd_media_type :: "string option"
  bd_decoded :: "decode_failure + 'a"
  bd_at_end :: bool

definition DecodeJSON :: "'a body \<Rightarrow> http_error + 'a" where
  "DecodeJSON b =
     (if bd_media_type b \<noteq> Some ''application/json''
      then Inl (NewError 415 ''unsupported_media_type'' ''The request body must be JSON with Content-Type: application/json.'')
      else case bd_decoded b of
          Inl err \<Rightarrow> Inl (decodeError err)
        | Inr v \<Rightarrow>
            if \<not> bd_at_end b then Inl (NewError 400 ''invalid_json'' ''The request body must contain a single JSON object.'')
            else Inr v)"

subsection \<open>Query parameters\<close>

text \<open>A query with the problems found so far; \<open>q_values\<close> gives the empty string for an absent parameter.\<close>

record query =
  q_values :: "string \<Rightarrow> string"
  q_problems :: "field_error list"

definition NewQuery :: "(string \<Rightarrow> string) \<Rightarrow> query" where
  "NewQuery v = \<lparr>q_values = v, q_problems = []\<rparr>"

definition Fail :: "string \<Rightarrow> string \<Rightarrow> string \<Rightarrow> query \<Rightarrow> query" where
  "Fail field code msg q = q\<lparr>q_problems := q_problems q @ [fe field code msg]\<rparr>"

definition query_Err :: "query \<Rightarrow> http_error option" where
  "query_Err q = (if q_problems q = [] then None else Some (http_ValidationError (q_problems q)))"

definition query_String :: "string \<Rightarrow> query \<Rightarrow> string" where
  "query_String name q = q_values q name"

text \<open>The parser of \<^verbatim>\<open>google/uuid\<close>.\<close>

record parsers =
  parse_uuid :: "string \<Rightarrow> uuid option"

definition query_Time :: "string \<Rightarrow> query \<Rightarrow> query \<times> gtime" where
  "query_Time name q =
     (let v = q_values q name
      in if v = [] then (q, zero_time)
         else case parse_RFC3339Nano v of
             None \<Rightarrow> (Fail name ''invalid_format'' ''must be an RFC 3339 timestamp such as 2026-09-21T10:15:30Z'' q, zero_time)
           | Some t \<Rightarrow> (q, t))"

definition query_UUID :: "parsers \<Rightarrow> string \<Rightarrow> query \<Rightarrow> query \<times> uuid" where
  "query_UUID ps name q =
     (let v = q_values q name
      in if v = [] then (q, uuid_nil)
         else case parse_uuid ps v of
             None \<Rightarrow> (Fail name ''invalid_format'' ''must be a UUID'' q, uuid_nil)
           | Some u \<Rightarrow> (q, u))"

definition query_Limit :: "int \<Rightarrow> int \<Rightarrow> query \<Rightarrow> query \<times> int" where
  "query_Limit def maxLimit q =
     (let v = q_values q ''limit''
      in if v = [] then (q, def)
         else case atoi v of
             None \<Rightarrow> (Fail ''limit'' ''out_of_range'' (''must be an integer from 1 to '' @ itoa maxLimit) q, def)
           | Some n \<Rightarrow> if n < 1 \<or> maxLimit < n
               then (Fail ''limit'' ''out_of_range'' (''must be an integer from 1 to '' @ itoa maxLimit) q, def)
               else (q, n))"

definition query_Cursor :: "query \<Rightarrow> query \<times> uuid" where
  "query_Cursor q =
     (case DecodeCursor (q_values q ''cursor'') of
        None \<Rightarrow> (Fail ''cursor'' ''invalid_format'' ''must be a next_cursor value from a previous response'' q, uuid_nil)
      | Some u \<Rightarrow> (q, u))"

definition TimeRange :: "gtime \<Rightarrow> gtime \<Rightarrow> query \<Rightarrow> query" where
  "TimeRange since until q =
     (if \<not> is_zero_time since \<and> \<not> is_zero_time until \<and> \<not> since < until
      then Fail ''since'' ''out_of_range'' ''must be earlier than until'' q else q)"

lemmas query_defs = Fail_def query_Time_def query_UUID_def query_Limit_def query_Cursor_def TimeRange_def

lemma query_values_kept [simp]:
  "q_values (Fail field code msg q) = q_values q" "q_values (fst (query_Time name q)) = q_values q"
  "q_values (fst (query_UUID ps name q)) = q_values q" "q_values (fst (query_Limit d m q)) = q_values q"
  "q_values (fst (query_Cursor q)) = q_values q" "q_values (TimeRange since until q) = q_values q"
  by (auto simp: query_defs Let_def split: option.splits)

text \<open>Problems are only added.\<close>

definition grows :: "query \<Rightarrow> query \<Rightarrow> bool" where
  "grows q q' \<longleftrightarrow> (\<exists>ps. q_problems q' = q_problems q @ ps)"

lemma grows_ok: "grows q q' \<Longrightarrow> q_problems q' = [] \<Longrightarrow> q_problems q = []"
  by (auto simp: grows_def)

lemma grows_trans: "grows q q' \<Longrightarrow> grows q' q'' \<Longrightarrow> grows q q''"
  by (auto simp: grows_def)

lemma grows_refl [simp]: "grows q q"
  by (simp add: grows_def)

lemma query_grows [simp]:
  "grows q (Fail field code msg q)" "grows q (fst (query_Time name q))" "grows q (fst (query_UUID ps name q))"
  "grows q (fst (query_Limit d m q))" "grows q (fst (query_Cursor q))" "grows q (TimeRange since until q)"
  by (auto simp: query_defs Let_def grows_def split: option.splits)

lemma query_Limit_bounds:
  assumes "1 \<le> d" "d \<le> m"
  shows "1 \<le> snd (query_Limit d m q) \<and> snd (query_Limit d m q) \<le> m"
  using assms by (auto simp: query_Limit_def Let_def split: option.splits)

text \<open>Times survive the API: a time as a response prints it, given back as a query parameter, is understood as that time
  to the millisecond, and so it selects the same rows as the time itself: listings cut by the identifiers' milliseconds.\<close>

theorem query_Time_roundtrip:
  assumes "zero_time + millisecond \<le> t" "t < year_10000" "q_values q name = format_TimeLayout t"
  shows "\<exists>t'. query_Time name q = (q, t') \<and> t' \<le> t \<and> t < t' + millisecond \<and> NullLowerBound t' = NullLowerBound t"
proof -
  have "zero_time \<le> t" using assms(1) by (simp add: millisecond_def)
  then have p: "parse_RFC3339Nano (q_values q name) = Some (truncate_ms t)"
    using format_parse [OF four_digit_yearI] assms(2,3) by simp
  then have ne: "q_values q name \<noteq> []" by (auto simp: parse_RFC3339Nano_def get_year_def)
  have "zero_time < t" "zero_time < truncate_ms t" using assms(1) truncate_ms_bounds(2) [of t] by (simp_all add: millisecond_def)
  then have "NullLowerBound (truncate_ms t) = NullLowerBound t"
    by (simp add: NullLowerBound_def is_zero_time_def LowerBound_def unix_milli_def truncate_ms_bounds(3))
  with p ne truncate_ms_bounds [of t] show ?thesis by (auto simp: query_Time_def Let_def)
qed

theorem query_Time_roundtrip_witness:
  "query_Time ''since'' (NewQuery (\<lambda>n. ''2026-09-21T10:15:30.123Z'')) = (NewQuery (\<lambda>n. ''2026-09-21T10:15:30.123Z''), 1789985730123000000) \<and>
   format_TimeLayout 1789985730123456789 = ''2026-09-21T10:15:30.123Z''"
proof -
  let ?q = "NewQuery (\<lambda>n. ''2026-09-21T10:15:30.123Z'')" and ?t = "1789985730123456789 :: int"
  have f: "format_TimeLayout ?t = ''2026-09-21T10:15:30.123Z''"
    by (simp add: format_TimeLayout_def date_text_def clock_text_def clock_ns_def day_ns_def time_unit_defs unix_day_offset_def
        civil_date_def year_of_def month_lengths_def leap_year_def appendInt_def zero_padded_def nat_digits.simps digit_char_def char_of_def bit_simps
        Let_def)
  have "zero_time + millisecond \<le> ?t" "?t < year_10000" by (simp_all add: zero_time_def millisecond_def year_10000_def second_def)
  then obtain t' where t': "query_Time ''since'' ?q = (?q, t')" "t' \<le> ?t" "?t < t' + millisecond"
    using query_Time_roundtrip [of ?t ?q "''since''"] f by (auto simp: NewQuery_def)
  have "query_Time ''since'' ?q = (?q, 1789985730123000000)" by (simp add: query_Time_def NewQuery_def parse_example)
  with f show ?thesis by simp
qed

end
