(* ===== verification/Auth.thy ===== *)
theory Auth
  imports Customer Transitions Gostrings Demo
begin

text \<open>
  The API's key cache: \<^verbatim>\<open>internal/auth/authenticator.go\<close>. SHA-256 is a parameter \<open>sha\<close>. The two critical
  sections of \<^verbatim>\<open>Authenticate\<close>, looking an entry up and storing one, are separate operations, since other
  requests run between them; a whole request is their composition with the database query.
\<close>

subsection \<open>Operations\<close>

record auth_customer =
  ac_id :: uuid
  ac_name :: string
  ac_rate_limit_rps :: int

record cache_entry =
  ce_customer :: auth_customer
  ce_expires :: gtime

record authenticator =
  a_ttl :: duration
  a_entries :: "string \<rightharpoonup> cache_entry"
  a_last_purge :: gtime

definition NewAuthenticator :: "duration \<Rightarrow> authenticator" where
  "NewAuthenticator ttl = \<lparr>a_ttl = ttl, a_entries = Map.empty, a_last_purge = zero_time\<rparr>"

definition cached :: "gtime \<Rightarrow> string \<Rightarrow> authenticator \<Rightarrow> auth_customer option" where
  "cached now hash a =
     (case a_entries a hash of
        None \<Rightarrow> None
      | Some e \<Rightarrow> if now < ce_expires e then Some (ce_customer e) else None)"

definition purgeExpiredLocked :: "gtime \<Rightarrow> authenticator \<Rightarrow> authenticator" where
  "purgeExpiredLocked now a =
     (if time_sub now (a_last_purge a) < a_ttl a then a
      else a\<lparr>a_entries := (\<lambda>k. case a_entries a k of
               None \<Rightarrow> None
             | Some e \<Rightarrow> if \<not> now < ce_expires e then None else Some e),
             a_last_purge := now\<rparr>)"

definition remember :: "gtime \<Rightarrow> string \<Rightarrow> auth_customer \<Rightarrow> authenticator \<Rightarrow> authenticator" where
  "remember now hash c a =
     (let a' = purgeExpiredLocked now a
      in a'\<lparr>a_entries := (a_entries a')(hash \<mapsto> \<lparr>ce_customer = c, ce_expires = now + a_ttl a'\<rparr>)\<rparr>)"

text \<open>The query, which fails with any error but \<^verbatim>\<open>pgx.ErrNoRows\<close> when the database cannot be reached.\<close>

definition look_up :: "bool \<Rightarrow> string \<Rightarrow> db \<Rightarrow> error + auth_customer" where
  "look_up fails hash d =
     (if fails then Inl (DbErr ''look up api key'' Unavailable)
      else case filter (\<lambda>c. c_api_key_hash c = hash) (customers d) of
          [] \<Rightarrow> Inl ErrUnauthorized
        | c # cs \<Rightarrow> Inr \<lparr>ac_id = c_id c, ac_name = c_name c, ac_rate_limit_rps = c_rate_limit_rps c\<rparr>)"

text \<open>\<^verbatim>\<open>Authenticate\<close> with the clock it reads, the database its query sees, and what other requests do to the
  cache before the entry is stored.\<close>

definition Authenticate ::
    "(string \<Rightarrow> string) \<Rightarrow> gtime \<Rightarrow> bool \<Rightarrow> db \<Rightarrow> (authenticator \<Rightarrow> authenticator) \<Rightarrow> string \<Rightarrow> authenticator \<Rightarrow>
      authenticator \<times> (error + auth_customer)" where
  "Authenticate sha now fails d others key a =
     (if \<not> ValidKeyFormat key then (a, Inl ErrUnauthorized)
      else case cached now (sha key) a of
          Some c \<Rightarrow> (a, Inr c)
        | None \<Rightarrow>
            (case look_up fails (sha key) d of
               Inl err \<Rightarrow> (others a, Inl err)
             | Inr c \<Rightarrow> (remember now (sha key) c (others a), Inr c)))"

subsection \<open>Bearer tokens\<close>

definition BearerToken :: "string \<Rightarrow> string" where
  "BearerToken header =
     (case Cut (CHR '' '') header of
        None \<Rightarrow> []
      | Some (scheme, token) \<Rightarrow> if EqualFold scheme ''Bearer'' then TrimSpace token else [])"

subsection \<open>The cache over time\<close>

text \<open>\<open>hist t\<close> is the database at time \<open>t\<close>. A request reads the clock, queries later and stores still later,
  while others store in between. Requests that end without storing do not change the cache.\<close>

definition owner :: "string \<Rightarrow> db \<Rightarrow> auth_customer \<Rightarrow> bool" where
  "owner hash d c \<longleftrightarrow> (\<exists>r\<in>set (customers d). c_api_key_hash r = hash \<and>
     c = \<lparr>ac_id = c_id r, ac_name = c_name r, ac_rate_limit_rps = c_rate_limit_rps r\<rparr>)"

inductive auth_step :: "(gtime \<Rightarrow> db) \<Rightarrow> gtime \<times> authenticator \<Rightarrow> gtime \<times> authenticator \<Rightarrow> bool" for hist where
  auth_tick: "now \<le> now' \<Longrightarrow> auth_step hist (now, a) (now', a)"
| auth_store: "started \<le> asked \<Longrightarrow> asked \<le> now \<Longrightarrow> look_up False hash (hist asked) = Inr c \<Longrightarrow>
    auth_step hist (now, a) (now, remember started hash c a)"

inductive_cases auth_stepE: "auth_step hist s t"

fun auth_init :: "duration \<Rightarrow> gtime \<times> authenticator \<Rightarrow> bool" where
  "auth_init ttl (now, a) \<longleftrightarrow> a = NewAuthenticator ttl"

fun auth_inv :: "duration \<Rightarrow> (gtime \<Rightarrow> db) \<Rightarrow> gtime \<times> authenticator \<Rightarrow> bool" where
  "auth_inv ttl hist (now, a) \<longleftrightarrow> a_ttl a = ttl \<and>
     (\<forall>hash e. a_entries a hash = Some e \<longrightarrow>
        (\<exists>t. ce_expires e - ttl \<le> t \<and> t \<le> now \<and> owner hash (hist t) (ce_customer e)))"

lemma look_up_owner: "look_up fails hash d = Inr c \<Longrightarrow> owner hash d c"
  by (auto simp: look_up_def owner_def filter_eq_Cons_iff split: if_splits list.splits)

lemma look_up_none: "\<forall>c. \<not> owner hash d c \<Longrightarrow> look_up False hash d = Inl ErrUnauthorized"
  using look_up_owner [of False hash d] by (cases "look_up False hash d") (auto simp: look_up_def split: list.splits)

lemma purge_entries: "a_entries (purgeExpiredLocked now a) hash = Some e \<Longrightarrow> a_entries a hash = Some e"
  by (auto simp: purgeExpiredLocked_def split: if_splits option.splits)

lemma purge_ttl [simp]: "a_ttl (purgeExpiredLocked now a) = a_ttl a"
  by (simp add: purgeExpiredLocked_def)

lemma remember_inv:
  assumes "auth_inv ttl hist (now, a)" "started \<le> asked" "asked \<le> now" "owner hash (hist asked) c"
  shows "auth_inv ttl hist (now, remember started hash c a)"
  using assms by (auto simp: remember_def Let_def dest: purge_entries)

interpretation key_cache: invariant_system "auth_init ttl" "auth_step hist" "auth_inv ttl hist" for ttl hist
proof
  show "auth_init ttl s \<Longrightarrow> auth_inv ttl hist s" for s
    by (cases s) (simp add: NewAuthenticator_def)
  show "auth_inv ttl hist s \<Longrightarrow> auth_step hist s t \<Longrightarrow> auth_inv ttl hist t" for s t
  proof (erule auth_stepE)
    fix now now' a assume "auth_inv ttl hist s" "s = (now, a)" "t = (now', a)" "now \<le> now'"
    then show "auth_inv ttl hist t" by simp (meson order.trans)
  qed (auto simp del: auth_inv.simps intro: remember_inv look_up_owner)
qed

subsection \<open>Properties\<close>

text \<open>C16: Who is authenticated owned the key a moment ago: whatever requests ran before and between, a key is
  resolved only to a customer that the database had under the key's hash at some time in the last
  cache lifetime; and a key of a deleted customer, or one that was rotated away, is refused from one
  cache lifetime later on.\<close>

theorem Authenticate_revocable:
  assumes "reachable (auth_init ttl) (auth_step hist) (now, a)" "now \<le> asked" "0 < ttl"
  shows "(\<forall>a' c. Authenticate sha now False (hist asked) others key a = (a', Inr c) \<longrightarrow> ValidKeyFormat key \<and>
      (\<exists>t. now - ttl < t \<and> t \<le> asked \<and> owner (sha key) (hist t) c)) \<and>
    (\<forall>gone. gone + ttl \<le> now \<and> gone \<le> asked \<and> (\<forall>t\<ge>gone. \<forall>c. \<not> owner (sha key) (hist t) c) \<longrightarrow>
      snd (Authenticate sha now False (hist asked) others key a) = Inl ErrUnauthorized)"
proof -
  have inv: "auth_inv ttl hist (now, a)" using assms(1) by (rule key_cache.reachable_invariant)
  have hit: "\<exists>t. now - ttl < t \<and> t \<le> now \<and> owner (sha key) (hist t) c" if cached: "cached now (sha key) a = Some c" for c
  proof -
    from cached obtain e where e: "a_entries a (sha key) = Some e" "now < ce_expires e" "c = ce_customer e"
      by (auto simp: cached_def split: option.splits if_splits)
    with inv obtain t where "ce_expires e - ttl \<le> t" "t \<le> now" "owner (sha key) (hist t) c" by auto
    with e(2) show ?thesis by (intro exI [of _ t]) auto
  qed
  have "\<exists>t. now - ttl < t \<and> t \<le> asked \<and> owner (sha key) (hist t) c"
    if "Authenticate sha now False (hist asked) others key a = (a', Inr c)" for a' c
  proof (cases "cached now (sha key) a")
    case None
    with that have "owner (sha key) (hist asked) c"
      by (auto simp: Authenticate_def split: if_splits sum.splits intro: look_up_owner)
    with assms(2,3) show ?thesis by (intro exI [of _ asked]) simp
  next
    case (Some c')
    with that have "c' = c" by (auto simp: Authenticate_def split: if_splits)
    with hit Some assms(2) show ?thesis by (meson order.trans)
  qed
  moreover have "snd (Authenticate sha now False (hist asked) others key a) = Inl ErrUnauthorized"
    if "gone + ttl \<le> now" "gone \<le> asked" and none: "\<forall>t\<ge>gone. \<forall>c. \<not> owner (sha key) (hist t) c" for gone
  proof -
    have "cached now (sha key) a = None" using hit none that(1) by (cases "cached now (sha key) a") fastforce+
    with look_up_none none that(2) show ?thesis by (simp add: Authenticate_def)
  qed
  ultimately show ?thesis by (auto simp: Authenticate_def split: if_splits)
qed

subsection \<open>Instances\<close>

definition demo_hist :: "gtime \<Rightarrow> db" where
  "demo_hist t = (if t < 100 then demo_db else empty_db)"

theorem Authenticate_revocable_witness:
  "snd (Authenticate (\<lambda>k. c_api_key_hash demo_customer) 200 False (demo_hist 200) (\<lambda>a. a) (''sk_'' @ replicate 43 (CHR ''a''))
     (remember 50 (c_api_key_hash demo_customer) \<lparr>ac_id = 1, ac_name = c_name demo_customer,
        ac_rate_limit_rps = c_rate_limit_rps demo_customer\<rparr> (NewAuthenticator 60))) = Inl ErrUnauthorized"
proof -
  let ?h = "c_api_key_hash demo_customer"
  let ?c = "\<lparr>ac_id = 1, ac_name = c_name demo_customer, ac_rate_limit_rps = c_rate_limit_rps demo_customer\<rparr>"
  have "look_up False ?h (demo_hist 50) = Inr ?c" by (simp add: look_up_def demo_hist_def demo_db_def demo_customer_def)
  then have "auth_step demo_hist (50, NewAuthenticator 60) (50, remember 50 ?h ?c (NewAuthenticator 60))"
    by (intro auth_store) auto
  moreover have "reachable (auth_init 60) (auth_step demo_hist) (50, NewAuthenticator 60)" by (simp add: reachable_init)
  ultimately have "reachable (auth_init 60) (auth_step demo_hist) (50, remember 50 ?h ?c (NewAuthenticator 60))"
    by (rule reachable_step [rotated])
  then have "reachable (auth_init 60) (auth_step demo_hist) (200, remember 50 ?h ?c (NewAuthenticator 60))"
    by (rule reachable_step) (simp add: auth_tick)
  from Authenticate_revocable [OF this, of 200, THEN conjunct2, rule_format, of 100] show ?thesis
    by (auto simp: owner_def demo_hist_def empty_db_def)
qed

end
