(* ===== verification/Limiter.thy ===== *)
theory Limiter
  imports Complex_Main Ids Validate
begin

text \<open>
  Rates. The token buckets of \<^verbatim>\<open>golang.org/x/time/rate\<close> are a library: its operations are parameters, a record of
  functions on an arbitrary bucket type, with what its documentation promises as named hypotheses. On
  top of it stand the customers' limits (\<^verbatim>\<open>internal/ratelimit/limiter.go\<close>) and a worker's send budgets
  towards a provider (\<^verbatim>\<open>internal/dispatch/budget.go\<close>). Rates are \<^verbatim>\<open>float64\<close> in the code and rational numbers
  here: the quotients and products of integers below are rounded by less than what would move
  them over an integer.
\<close>

record ('l, 'r) rate_lib =
  NewLimiter :: "rat \<Rightarrow> int \<Rightarrow> 'l"
  AllowN :: "gtime \<Rightarrow> int \<Rightarrow> 'l \<Rightarrow> 'l \<times> bool"
  ReserveN :: "gtime \<Rightarrow> int \<Rightarrow> 'l \<Rightarrow> 'l \<times> 'r"
  reserve_OK :: "'r \<Rightarrow> bool"
  DelayFrom :: "'r \<Rightarrow> gtime \<Rightarrow> duration"
  CancelAt :: "gtime \<Rightarrow> 'r \<Rightarrow> 'l \<Rightarrow> 'l"
  TokensAt :: "gtime \<Rightarrow> 'l \<Rightarrow> rat"
  SetLimitAt :: "gtime \<Rightarrow> rat \<Rightarrow> 'l \<Rightarrow> 'l"
  SetBurstAt :: "gtime \<Rightarrow> int \<Rightarrow> 'l \<Rightarrow> 'l"
  limit_of :: "'l \<Rightarrow> rat"
  burst_of :: "'l \<Rightarrow> int"

text \<open>Of the library's documentation: a request that is not allowed takes nothing, and cancelling a reservation
  at the time it was made reverses it.\<close>

definition refusal_free :: "('l, 'r, 'z) rate_lib_scheme \<Rightarrow> bool" where
  "refusal_free lib \<longleftrightarrow> (\<forall>now n l l'. AllowN lib now n l = (l', False) \<longrightarrow> l' = l)"

definition cancels :: "('l, 'r, 'z) rate_lib_scheme \<Rightarrow> bool" where
  "cancels lib \<longleftrightarrow> (\<forall>now n l l' r. ReserveN lib now n l = (l', r) \<longrightarrow>
     (if reserve_OK lib r then CancelAt lib now r l' = l else l' = l))"

subsection \<open>Customer limits\<close>

definition MinBurst :: int where "MinBurst = int MaxBatchSize"
definition idleAfter :: duration where "idleAfter = 10 * minute"

record decision =
  de_allowed :: bool
  de_limit :: int
  de_remaining :: int
  de_retry_after :: duration

record 'l bucket =
  bk_limiter :: 'l
  bk_rps :: int
  bk_last_used :: gtime

record 'l limiter =
  lm_instances :: int
  lm_buckets :: "uuid \<rightharpoonup> 'l bucket"
  lm_last_sweep :: gtime

definition new_limiter :: "int \<Rightarrow> 'l limiter" where
  "new_limiter instances = \<lparr>lm_instances = max instances 1, lm_buckets = Map.empty, lm_last_sweep = zero_time\<rparr>"

definition per_instance :: "int \<Rightarrow> int \<Rightarrow> rat" where
  "per_instance rps instances = of_int rps / of_int instances"

definition burst_for :: "int \<Rightarrow> int \<Rightarrow> int" where
  "burst_for rps instances = max \<lceil>2 * per_instance rps instances\<rceil> MinBurst"

definition sweepLocked :: "gtime \<Rightarrow> 'l limiter \<Rightarrow> 'l limiter" where
  "sweepLocked now l =
     (if time_sub now (lm_last_sweep l) < idleAfter then l
      else l\<lparr>lm_buckets := (\<lambda>k. case lm_buckets l k of
               None \<Rightarrow> None
             | Some b \<Rightarrow> if idleAfter < time_sub now (bk_last_used b) then None else Some b),
             lm_last_sweep := now\<rparr>)"

text \<open>\<^verbatim>\<open>bucketLocked\<close>: the customer's bucket, made or adjusted; the caller stores it, since it is shared by
  reference. A new bucket has the zero time as its last use until then.\<close>

definition bucketLocked :: "('l, 'r) rate_lib \<Rightarrow> uuid \<Rightarrow> int \<Rightarrow> gtime \<Rightarrow> 'l limiter \<Rightarrow> 'l bucket" where
  "bucketLocked lib cid rps now l =
     (let rate = per_instance rps (lm_instances l); burst = burst_for rps (lm_instances l)
      in case lm_buckets l cid of
          None \<Rightarrow> \<lparr>bk_limiter = NewLimiter lib rate burst, bk_rps = rps, bk_last_used = zero_time\<rparr>
        | Some b \<Rightarrow>
            if bk_rps b \<noteq> rps
            then b\<lparr>bk_limiter := SetBurstAt lib now burst (SetLimitAt lib now rate (bk_limiter b)), bk_rps := rps\<rparr>
            else b)"

text \<open>\<^verbatim>\<open>int(x)\<close> of a float drops the fraction.\<close>

definition trunc :: "rat \<Rightarrow> int" where
  "trunc x = (if 0 \<le> x then \<lfloor>x\<rfloor> else \<lceil>x\<rceil>)"

definition limiter_Allow :: "('l, 'r) rate_lib \<Rightarrow> gtime \<Rightarrow> uuid \<Rightarrow> int \<Rightarrow> int \<Rightarrow> 'l limiter \<Rightarrow> 'l limiter \<times> decision" where
  "limiter_Allow lib now cid rps n l =
     (let l1 = sweepLocked now l;
          b = (bucketLocked lib cid rps now l1)\<lparr>bk_last_used := now\<rparr>;
          (lim, allowed) = AllowN lib now n (bk_limiter b);
          (lim', retry) =
            (if allowed then (lim, 0)
             else case ReserveN lib now n lim of
                 (lim2, r) \<Rightarrow>
                   if reserve_OK lib r then (CancelAt lib now r lim2, DelayFrom lib r now) else (lim2, max_int64));
          d = \<lparr>de_allowed = allowed, de_limit = rps, de_remaining = max (trunc (TokensAt lib now lim')) 0, de_retry_after = retry\<rparr>
      in (l1\<lparr>lm_buckets := (lm_buckets l1)(cid \<mapsto> b\<lparr>bk_limiter := lim'\<rparr>)\<rparr>, d))"

subsection \<open>Send budgets\<close>

record 'l budget =
  bu_shared :: 'l
  bu_reserved :: "'l option"

definition newBudget :: "('l, 'r) rate_lib \<Rightarrow> int \<Rightarrow> rat \<Rightarrow> 'l budget" where
  "newBudget lib perSecond reservedRatio =
     (let reservedRate = of_int perSecond * reservedRatio;
          sharedRate = of_int perSecond - reservedRate
      in \<lparr>bu_shared = NewLimiter lib sharedRate (max \<lceil>sharedRate\<rceil> 1),
          bu_reserved = (if 0 < reservedRate then Some (NewLimiter lib reservedRate (max \<lceil>reservedRate\<rceil> 1)) else None)\<rparr>)"

text \<open>\<^verbatim>\<open>budget.wait\<close> up to its sleep: the buckets with the tokens taken, how long to sleep, and what cancelling the
  chosen reservation does when the sleep is cut short. \<open>shared_wait\<close> stands for \<^verbatim>\<open>rate.Limiter.Wait\<close>.\<close>

datatype 'l wait_plan = Granted "'l budget" | SleepFor duration "'l budget" "'l budget"

definition budget_wait :: "('l, 'r) rate_lib \<Rightarrow> (gtime \<Rightarrow> 'l \<Rightarrow> 'l wait_plan) \<Rightarrow> gtime \<Rightarrow> bool \<Rightarrow> 'l budget \<Rightarrow> 'l wait_plan" where
  "budget_wait lib shared_wait now express b =
     (case bu_reserved b of
        None \<Rightarrow> shared_wait now (bu_shared b)
      | Some res \<Rightarrow>
          if \<not> express then shared_wait now (bu_shared b)
          else case AllowN lib now 1 res of
              (res', True) \<Rightarrow> Granted (b\<lparr>bu_reserved := Some res'\<rparr>)
            | (res', False) \<Rightarrow>
                let (res2, r) = ReserveN lib now 1 res';
                    (sh2, s) = ReserveN lib now 1 (bu_shared b)
                in if DelayFrom lib s now < DelayFrom lib r now
                   then let kept = b\<lparr>bu_reserved := Some (CancelAt lib now r res2), bu_shared := sh2\<rparr>
                        in SleepFor (DelayFrom lib s now) kept (kept\<lparr>bu_shared := CancelAt lib now s sh2\<rparr>)
                   else let kept = b\<lparr>bu_reserved := Some res2, bu_shared := CancelAt lib now s sh2\<rparr>
                        in SleepFor (DelayFrom lib r now) kept (kept\<lparr>bu_reserved := Some (CancelAt lib now r res2)\<rparr>))"

definition tokensWithin :: "('l, 'r) rate_lib \<Rightarrow> 'l \<Rightarrow> gtime \<Rightarrow> int" where
  "tokensWithin lib l now = max (trunc (min (TokensAt lib now l + limit_of lib l) (of_int (burst_of lib l)))) 0"

definition available :: "('l, 'r) rate_lib \<Rightarrow> gtime \<Rightarrow> bool \<Rightarrow> 'l budget \<Rightarrow> int" where
  "available lib now express b =
     tokensWithin lib (bu_shared b) now +
     (if express then (case bu_reserved b of None \<Rightarrow> 0 | Some l \<Rightarrow> tokensWithin lib l now) else 0)"

subsection \<open>Properties\<close>

text \<open>A customer's bucket is its own and is charged only for what is admitted: a request leaves every other
  bucket used within ten minutes as it is, uses the bucket for the customer's current limit, and a
  refused one leaves it as full as it was; a batch of the largest size fits every bucket.\<close>

theorem limiter_isolated:
  assumes "refusal_free lib" "cancels lib" "limiter_Allow lib now cid rps n l = (l', d)"
  shows "(\<forall>k b. k \<noteq> cid \<and> lm_buckets l k = Some b \<and> now - bk_last_used b \<le> idleAfter \<longrightarrow> lm_buckets l' k = Some b) \<and>
    (\<exists>b. lm_buckets l' cid = Some b \<and> bk_rps b = rps \<and> bk_last_used b = now \<and>
       (\<not> de_allowed d \<longrightarrow> bk_limiter b = bk_limiter (bucketLocked lib cid rps now (sweepLocked now l)))) \<and>
    int MaxBatchSize \<le> burst_for rps (lm_instances l)"
proof -
  let ?l1 = "sweepLocked now l"
  let ?b = "bucketLocked lib cid rps now ?l1"
  obtain lim allowed where a: "AllowN lib now n (bk_limiter ?b) = (lim, allowed)" by fastforce
  obtain lim2 r where r: "ReserveN lib now n lim = (lim2, r)" by fastforce
  have rps: "bk_rps ?b = rps" by (simp add: bucketLocked_def Let_def split: option.splits)
  have refused: "lim = bk_limiter ?b" if "\<not> allowed" using assms(1) a that by (simp add: refusal_free_def)
  have undone: "(if reserve_OK lib r then CancelAt lib now r lim2 else lim2) = lim" using assms(2) r by (simp add: cancels_def)
  have kept: "lm_buckets ?l1 k = Some b" if "lm_buckets l k = Some b" "now - bk_last_used b \<le> idleAfter" for k b
  proof -
    have "\<not> idleAfter < time_sub now (bk_last_used b)" using that(2) by (simp add: time_sub_def idleAfter_def time_unit_defs max_int64_def)
    with that(1) show ?thesis by (simp add: sweepLocked_def)
  qed
  have l': "l' = ?l1\<lparr>lm_buckets := (lm_buckets ?l1)(cid \<mapsto> ?b\<lparr>bk_last_used := now, bk_limiter := lim\<rparr>)\<rparr>"
    using assms(3) undone by (auto simp: limiter_Allow_def Let_def a r split: if_splits)
  have "de_allowed d = allowed" using assms(3) by (auto simp: limiter_Allow_def Let_def a r split: if_splits prod.splits)
  then have "\<exists>b. lm_buckets l' cid = Some b \<and> bk_rps b = rps \<and> bk_last_used b = now \<and> (\<not> de_allowed d \<longrightarrow> bk_limiter b = bk_limiter ?b)"
    using rps refused by (simp add: l')
  moreover have "int MaxBatchSize \<le> burst_for rps (lm_instances l)" by (simp add: burst_for_def MinBurst_def)
  ultimately show ?thesis using kept by (auto simp: l')
qed

text \<open>What a provider's send rate is split into adds up: the shared and the reserved rate sum to the
  configured one, each bucket holds at least one token, and nothing is reserved when the ratio is zero.\<close>

theorem newBudget_split:
  assumes "\<forall>r b. limit_of lib (NewLimiter lib r b) = r \<and> burst_of lib (NewLimiter lib r b) = b"
    and "0 < perSecond" "0 \<le> ratio" "ratio \<le> 1" and "newBudget lib perSecond ratio = b"
  shows "limit_of lib (bu_shared b) + (case bu_reserved b of None \<Rightarrow> 0 | Some l \<Rightarrow> limit_of lib l) = of_int perSecond \<and>
    0 \<le> limit_of lib (bu_shared b) \<and> 1 \<le> burst_of lib (bu_shared b) \<and>
    (bu_reserved b = None \<longleftrightarrow> ratio = 0) \<and> (\<forall>l. bu_reserved b = Some l \<longrightarrow> 0 < limit_of lib l \<and> 1 \<le> burst_of lib l)"
proof -
  have "of_int perSecond * ratio \<le> of_int perSecond * 1" using assms(2,4) by (intro mult_left_mono) simp_all
  moreover have "0 < of_int perSecond * ratio \<longleftrightarrow> ratio \<noteq> 0" using assms(2,3) by (auto simp: zero_less_mult_iff)
  ultimately show ?thesis using assms(1) by (auto simp: newBudget_def Let_def assms(5) [symmetric])
qed

text \<open>An idle bucket need not be full when it is dropped: at one message per second shared by two instances it
  regains fewer tokens in that time than it can hold.\<close>

lemma idle_bucket_may_not_be_full:
  "per_instance 1 2 * of_int (idleAfter div second) < of_int (burst_for 1 2)"
proof -
  have "\<lceil>2 * per_instance 1 2\<rceil> = 1" by (simp add: per_instance_def)
  then have "burst_for 1 2 = 500" by (simp add: burst_for_def MinBurst_def MaxBatchSize_def)
  then show ?thesis by (simp add: per_instance_def idleAfter_def time_unit_defs)
qed

subsection \<open>Instances\<close>

text \<open>A bucket that never refills.\<close>

definition still_lib :: "(rat \<times> int \<times> int, bool \<times> int) rate_lib" where
  "still_lib = \<lparr>NewLimiter = (\<lambda>r b. (r, b, b)), AllowN = (\<lambda>now n (r, b, k). if n \<le> k then ((r, b, k - n), True) else ((r, b, k), False)),
     ReserveN = (\<lambda>now n (r, b, k). if n \<le> b then ((r, b, k - n), (True, n)) else ((r, b, k), (False, n))),
     reserve_OK = fst, DelayFrom = (\<lambda>r now. second), CancelAt = (\<lambda>now (ok, n) (r, b, k). (r, b, k + n)),
     TokensAt = (\<lambda>now (r, b, k). of_int k), SetLimitAt = (\<lambda>now r' (r, b, k). (r', b, k)), SetBurstAt = (\<lambda>now b' (r, b, k). (r, b', k)),
     limit_of = fst, burst_of = (\<lambda>(r, b, k). b)\<rparr>"

lemma still_lib_laws: "refusal_free still_lib" "cancels still_lib"
  by (auto simp: refusal_free_def cancels_def still_lib_def)

definition demo_limiter :: "(rat \<times> int \<times> int) limiter" where
  "demo_limiter = \<lparr>lm_instances = 1, lm_buckets = [7 \<mapsto> \<lparr>bk_limiter = (1, 500, 3), bk_rps = 1, bk_last_used = 50 * second\<rparr>],
     lm_last_sweep = zero_time\<rparr>"

theorem limiter_isolated_witness:
  "lm_buckets (fst (limiter_Allow still_lib (60 * second) 8 20 501 demo_limiter)) 7 =
     Some \<lparr>bk_limiter = (1, 500, 3), bk_rps = 1, bk_last_used = 50 * second\<rparr>"
proof -
  obtain l' d where "limiter_Allow still_lib (60 * second) 8 20 501 demo_limiter = (l', d)" by fastforce
  from limiter_isolated [OF still_lib_laws this] this show ?thesis
    by (simp add: demo_limiter_def idleAfter_def time_unit_defs)
qed

theorem newBudget_split_witness:
  "limit_of still_lib (bu_shared (newBudget still_lib 100 (1 / 5))) = 80 \<and> 1 \<le> burst_of still_lib (bu_shared (newBudget still_lib 100 (1 / 5)))"
proof -
  have "\<forall>r b. limit_of still_lib (NewLimiter still_lib r b) = r \<and> burst_of still_lib (NewLimiter still_lib r b) = b"
    by (simp add: still_lib_def)
  from newBudget_split [OF this, of 100 "1 / 5"] show ?thesis by (simp add: newBudget_def still_lib_def Let_def)
qed

end
