(* ===== verification/Paging.thy ===== *)
theory Paging
  imports Billing
begin

text \<open>
  Keyset pagination, the contract all listings of the gateway share: \<^verbatim>\<open>billing.ListTransactions\<close>,
  \<^verbatim>\<open>Service.List\<close>, \<^verbatim>\<open>Service.ListAll\<close> and \<^verbatim>\<open>customer.List\<close> with \<^verbatim>\<open>Query.Cursor\<close> and
  \<^verbatim>\<open>httpx.NewPage\<close> around them. The locale states it once: a fetch returns the page of the rows
  older than the identifier of the cursor. A client that follows the cursors gets every row exactly
  once, newest first, and stops.
\<close>

text \<open>\<^verbatim>\<open>httpx.NewPage\<close>: the rows, and a cursor to the last of them if more follow.\<close>

record 'r page_response =
  pg_data :: "'r list"
  pg_next_cursor :: "string option"

definition NewPage :: "('r \<Rightarrow> uuid) \<Rightarrow> 'r list \<Rightarrow> bool \<Rightarrow> 'r page_response" where
  "NewPage key rows follows =
     \<lparr>pg_data = rows, pg_next_cursor = (if follows then Some (EncodeCursor (key (last rows))) else None)\<rparr>"

text \<open>A client following the cursors: the pages it gets within \<open>n\<close> requests, \<open>None\<close> when it has not come to
  the end by then or a cursor is refused.\<close>

fun walk :: "(uuid \<Rightarrow> 'r list \<times> bool) \<Rightarrow> ('r \<Rightarrow> uuid) \<Rightarrow> nat \<Rightarrow> string \<Rightarrow> 'r list list option" where
  "walk fetch key 0 cursor = None"
| "walk fetch key (Suc n) cursor =
     (case DecodeCursor cursor of
        None \<Rightarrow> None
      | Some after \<Rightarrow>
          (let (rows, follows) = fetch after; p = NewPage key rows follows
           in case pg_next_cursor p of
               None \<Rightarrow> Some [pg_data p]
             | Some next \<Rightarrow> map_option (Cons (pg_data p)) (walk fetch key n next)))"

lemma sorted_order_desc: "sorted (rev (map key (order_desc key rows)))"
  by (simp add: order_desc_def flip: rev_map)

lemma order_desc_filter: "order_desc key (filter P rows) = filter P (order_desc key rows)"
  by (simp add: order_desc_def filter_sort flip: rev_filter)

lemma set_order_desc [simp]: "set (order_desc key rows) = set rows"
  by (simp add: order_desc_def)

lemma mset_order_desc [simp]: "mset (order_desc key rows) = mset rows"
  by (simp add: order_desc_def)

lemma page_take: "page limit rows = (take limit rows, limit < length rows)"
  by (auto simp: page_def Let_def min_def)

lemma filter_below_drop:
  fixes key :: "'r \<Rightarrow> 'k :: linorder"
  assumes "sorted (rev (map key xs))" "distinct (map key xs)" "0 < k" "k \<le> length xs"
  shows "filter (\<lambda>x. key x < key (xs ! (k - 1))) xs = drop k xs"
proof -
  have desc: "key (xs ! j) < key (xs ! i)" if "i < j" "j < length xs" for i j
  proof -
    have "key (xs ! j) \<le> key (xs ! i)"
      using sorted_nth_mono [OF assms(1), of "length xs - 1 - j" "length xs - 1 - i"] that by (simp add: rev_nth)
    moreover have "key (xs ! j) \<noteq> key (xs ! i)"
      using nth_eq_iff_index_eq [OF assms(2), of i j] that by simp
    ultimately show ?thesis by simp
  qed
  have "filter (\<lambda>x. key x < key (xs ! (k - 1))) (take k xs) = []"
  proof -
    have "\<not> key (xs ! i) < key (xs ! (k - 1))" if "i < k" for i
      using desc [of i "k - 1"] that assms(3,4) by (cases "i = k - 1") (auto simp: not_less less_imp_le)
    then show ?thesis using assms(4) by (auto simp: filter_empty_conv in_set_conv_nth)
  qed
  moreover have "filter (\<lambda>x. key x < key (xs ! (k - 1))) (drop k xs) = drop k xs"
    using desc assms(3,4) by (auto simp: filter_id_conv in_set_conv_nth)
  ultimately show ?thesis by (metis append_Nil append_take_drop_id filter_append)
qed

locale keyset_listing =
  fixes fetch :: "nat \<Rightarrow> uuid \<Rightarrow> 'r list \<times> bool" and key :: "'r \<Rightarrow> uuid" and rows :: "'r list"
  assumes fetch_page:
    "fetch limit after = page limit (order_desc key (filter (\<lambda>r. null_or (NullID after) (\<lambda>u. key r < u)) rows))"
begin

lemma fetch_first: "fetch limit uuid_nil = page limit (order_desc key rows)"
  by (simp add: fetch_page null_or_def NullID_def)

lemma fetch_next:
  assumes "distinct (map key rows)" "uuid_nil \<notin> key ` set rows" "0 < k" "k \<le> length rows"
  shows "fetch limit (key (order_desc key rows ! (k - 1))) = page limit (drop k (order_desc key rows))"
proof -
  let ?xs = "order_desc key rows"
  have len: "length ?xs = length rows" by (simp add: order_desc_def)
  have dist: "distinct (map key ?xs)" using assms(1) by (metis mset_map mset_order_desc mset_eq_imp_distinct_iff)
  have "?xs ! (k - 1) \<in> set rows" using assms(3,4) len by (metis diff_less less_le_trans nth_mem set_order_desc zero_less_one)
  then have "NullID (key (?xs ! (k - 1))) = Some (key (?xs ! (k - 1)))" using assms(2) by (metis NullID_def imageI)
  then show ?thesis
    using filter_below_drop [OF sorted_order_desc dist assms(3)] assms(4) len
    by (simp add: fetch_page null_or_def order_desc_filter)
qed

lemma walk_from:
  assumes "distinct (map key rows)" "uuid_nil \<notin> key ` set rows" "0 < limit" "k < length rows \<or> k = 0"
    and "length rows - k < n" "DecodeCursor cursor = Some (if k = 0 then uuid_nil else key (order_desc key rows ! (k - 1)))"
  shows "\<exists>ps. walk (fetch limit) key n cursor = Some ps \<and> concat ps = drop k (order_desc key rows) \<and>
    list_all (\<lambda>p. length p \<le> limit) ps"
  using assms(4-6)
proof (induction n arbitrary: k cursor)
  case (Suc n)
  let ?xs = "order_desc key rows"
  have len: "length ?xs = length rows" by (simp add: order_desc_def)
  let ?after = "if k = 0 then uuid_nil else key (?xs ! (k - 1))"
  have f: "fetch limit ?after = (take limit (drop k ?xs), limit < length rows - k)"
    using fetch_first fetch_next [OF assms(1,2), of k] Suc.prems(1) len by (auto simp: page_take)
  show ?case
  proof (cases "limit < length rows - k")
    case False
    then have "concat [take limit (drop k ?xs)] = drop k ?xs" using len by simp
    with False f Suc.prems(3) show ?thesis by (simp add: NewPage_def)
  next
    case True
    let ?k = "k + limit"
    have "last (take limit (drop k ?xs)) = ?xs ! (?k - 1)"
    proof -
      have "take limit (drop k ?xs) \<noteq> []" using True assms(3) len by simp
      then show ?thesis using True assms(3) len by (simp add: last_conv_nth min_def)
    qed
    then have cur: "DecodeCursor (EncodeCursor (key (last (take limit (drop k ?xs))))) =
        Some (if ?k = 0 then uuid_nil else key (?xs ! (?k - 1)))"
      using assms(3) by (simp add: DecodeCursor_EncodeCursor)
    have "?k < length rows \<or> ?k = 0" "length rows - ?k < n" using True Suc.prems(2) assms(3) by auto
    from Suc.IH [OF this cur] obtain ps where
      "walk (fetch limit) key n (EncodeCursor (key (last (take limit (drop k ?xs))))) = Some ps"
      "concat ps = drop ?k ?xs" "list_all (\<lambda>p. length p \<le> limit) ps" by blast
    with True f Suc.prems(3) show ?thesis
      by (simp add: NewPage_def) (metis add.commute append_take_drop_id drop_drop)
  qed
qed simp

lemma walk_complete:
  assumes "distinct (map key rows)" "uuid_nil \<notin> key ` set rows" "0 < limit" "length rows < n"
  shows "\<exists>ps. walk (fetch limit) key n [] = Some ps \<and> concat ps = order_desc key rows \<and> list_all (\<lambda>p. length p \<le> limit) ps"
proof -
  have "DecodeCursor [] = Some uuid_nil" by (simp add: DecodeCursor_def)
  with walk_from [OF assms(1-3), of 0 n "[]"] assms(4) show ?thesis by simp
qed

end

end
