(* ===== verification/Queries.thy ===== *)
theory Queries
  imports Paging Customer Checker Demo
begin

text \<open>
  What customers and operators read: \<^verbatim>\<open>internal/message/query.go\<close>, \<^verbatim>\<open>report.go\<close> and \<^verbatim>\<open>admin.go\<close>. The
  sums of a summary are kept as integers; a customer's messages of one month stay far from the
  limits of the 64-bit columns.
\<close>

subsection \<open>Single messages and listings\<close>

definition GetMessage :: "uuid \<Rightarrow> uuid \<Rightarrow> db \<Rightarrow> error + message" where
  "GetMessage cid mid d =
     (case filter (\<lambda>m. m_id m = mid \<and> m_customer_id m = cid) (messages d) of
        [] \<Rightarrow> Inl ErrMessageNotFound
      | [m] \<Rightarrow> Inr m
      | _ \<Rightarrow> Inl (ErrText ''get message: too many rows''))"

record message_filter =
  mf_status :: string
  mf_type :: string
  mf_recipient :: string
  mf_since :: gtime
  mf_until :: gtime
  mf_after :: uuid
  mf_limit :: nat

definition list_matches :: "uuid \<Rightarrow> message_filter \<Rightarrow> message \<Rightarrow> bool" where
  "list_matches cid f m \<longleftrightarrow> m_customer_id m = cid
     \<and> null_or (NullString (mf_status f)) (\<lambda>s. status_string (m_status m) = s)
     \<and> null_or (NullString (mf_type f)) (\<lambda>s. type_string (m_type m) = s)
     \<and> null_or (NullString (mf_recipient f)) (\<lambda>s. m_recipient m = s)
     \<and> null_or (NullLowerBound (mf_since f)) (\<lambda>u. u \<le> m_id m)
     \<and> null_or (NullLowerBound (mf_until f)) (\<lambda>u. m_id m < u)"

definition ListMessages :: "uuid \<Rightarrow> message_filter \<Rightarrow> db \<Rightarrow> message list \<times> bool" where
  "ListMessages cid f d =
     page (mf_limit f) (order_desc m_id
       (filter (\<lambda>m. list_matches cid f m \<and> null_or (NullID (mf_after f)) (\<lambda>u. m_id m < u)) (messages d)))"

subsection \<open>Operator views\<close>

record queue_state =
  qs_lane :: string
  qs_next_attempt_at :: gtime
  qs_lease_owner :: "string option"

record inspected =
  in_message :: message
  in_customer_name :: string
  in_queue :: "queue_state option"

text \<open>\<^verbatim>\<open>ListAll\<close> joins the customers: a message without its customer would not be listed.\<close>

definition named :: "db \<Rightarrow> message list \<Rightarrow> inspected list" where
  "named d ms = List.map_filter (\<lambda>m. map_option (\<lambda>c. \<lparr>in_message = m, in_customer_name = c_name c, in_queue = None\<rparr>)
     (row_of c_id (m_customer_id m) (customers d))) ms"

definition all_matches :: "uuid \<Rightarrow> message_filter \<Rightarrow> gtime \<Rightarrow> message \<Rightarrow> bool" where
  "all_matches cid f now m \<longleftrightarrow>
     (let since = (if cid = uuid_nil \<and> is_zero_time (mf_since f) then now - 24 * hour else mf_since f)
      in null_or (NullID cid) (\<lambda>u. m_customer_id m = u)
       \<and> null_or (NullString (mf_status f)) (\<lambda>s. status_string (m_status m) = s)
       \<and> null_or (NullString (mf_type f)) (\<lambda>s. type_string (m_type m) = s)
       \<and> null_or (NullLowerBound since) (\<lambda>u. u \<le> m_id m)
       \<and> null_or (NullLowerBound (mf_until f)) (\<lambda>u. m_id m < u))"

definition ListAll :: "uuid \<Rightarrow> message_filter \<Rightarrow> gtime \<Rightarrow> db \<Rightarrow> inspected list \<times> bool" where
  "ListAll cid f now d =
     page (mf_limit f) (order_desc (\<lambda>i. m_id (in_message i)) (filter (\<lambda>i. all_matches cid f now (in_message i) \<and>
       null_or (NullID (mf_after f)) (\<lambda>u. m_id (in_message i) < u)) (named d (messages d))))"

definition Inspect :: "uuid \<Rightarrow> db \<Rightarrow> error + inspected" where
  "Inspect mid d =
     (case filter (\<lambda>i. m_id (in_message i) = mid) (named d (messages d)) of
        [] \<Rightarrow> Inl ErrMessageNotFound
      | [i] \<Rightarrow> Inr (i\<lparr>in_queue := map_option (\<lambda>q. \<lparr>qs_lane = q_lane q, qs_next_attempt_at = q_next_attempt_at q,
                  qs_lease_owner = q_lease_owner q\<rparr>) (row_of q_message_id mid (queue d))\<rparr>)
      | _ \<Rightarrow> Inl (ErrText ''inspect message: too many rows''))"

subsection \<open>Summaries\<close>

definition MaxReportRange :: duration where "MaxReportRange = 31 * 24 * hour"

record type_summary =
  ts_messages :: int
  ts_credits :: int
  ts_sla_breached :: int

record summary =
  su_since :: gtime
  su_until :: gtime
  su_messages :: int
  su_segments :: int
  su_credits_spent :: int
  su_credits_refunded :: int
  su_by_status :: "status \<Rightarrow> int"
  su_by_type :: "mtype \<Rightarrow> type_summary"

record summary_row =
  sr_type :: mtype
  sr_status :: status
  sr_count :: int
  sr_segments :: int
  sr_credits :: int
  sr_breached :: int
  sr_refunded :: int

definition empty_summary :: "gtime \<Rightarrow> gtime \<Rightarrow> summary" where
  "empty_summary since until =
     \<lparr>su_since = since, su_until = until, su_messages = 0, su_segments = 0, su_credits_spent = 0, su_credits_refunded = 0,
      su_by_status = (\<lambda>st. 0), su_by_type = (\<lambda>t. \<lparr>ts_messages = 0, ts_credits = 0, ts_sla_breached = 0\<rparr>)\<rparr>"

text \<open>The joined rows of the query, and one row per group.\<close>

definition summary_join :: "uuid \<Rightarrow> gtime \<Rightarrow> gtime \<Rightarrow> db \<Rightarrow> (message \<times> transaction option) list" where
  "summary_join cid since until d =
     left_join (\<lambda>m t. t_message_id t = Some (m_id m) \<and> t_kind t = KindRefund)
       (filter (\<lambda>m. m_customer_id m = cid \<and> LowerBound since \<le> m_id m \<and> m_id m < LowerBound until) (messages d))
       (transactions d)"

definition group_row :: "mtype \<times> status \<Rightarrow> (message \<times> transaction option) list \<Rightarrow> summary_row" where
  "group_row g rows =
     (let mine = filter (\<lambda>r. (m_type (fst r), m_status (fst r)) = g) rows
      in \<lparr>sr_type = fst g, sr_status = snd g, sr_count = int (length mine), sr_segments = (\<Sum>r\<leftarrow>mine. int (m_segments (fst r))),
          sr_credits = (\<Sum>r\<leftarrow>mine. m_cost (fst r)), sr_breached = int (length (filter (\<lambda>r. m_sla_breached (fst r)) mine)),
          sr_refunded = (\<Sum>r\<leftarrow>mine. case snd r of None \<Rightarrow> 0 | Some t \<Rightarrow> t_amount t)\<rparr>)"

definition add_row :: "summary_row \<Rightarrow> summary \<Rightarrow> summary" where
  "add_row r s =
     (let ts = su_by_type s (sr_type r)
      in s\<lparr>su_messages := su_messages s + sr_count r, su_segments := su_segments s + sr_segments r,
           su_credits_spent := su_credits_spent s + sr_credits r, su_credits_refunded := su_credits_refunded s + sr_refunded r,
           su_by_status := (su_by_status s)(sr_status r := su_by_status s (sr_status r) + sr_count r),
           su_by_type := (su_by_type s)(sr_type r := \<lparr>ts_messages = ts_messages ts + sr_count r,
             ts_credits = ts_credits ts + sr_credits r, ts_sla_breached = ts_sla_breached ts + sr_breached r\<rparr>)\<rparr>)"

definition Summarize :: "uuid \<Rightarrow> gtime \<Rightarrow> gtime \<Rightarrow> db \<Rightarrow> summary" where
  "Summarize cid since until d =
     (let rows = summary_join cid since until d;
          groups = remdups (map (\<lambda>r. (m_type (fst r), m_status (fst r))) rows)
      in fold add_row (map (\<lambda>g. group_row g rows) groups) (empty_summary since until))"

subsection \<open>Listings keep the contract of pagination\<close>

interpretation transaction_pages: keyset_listing
    "\<lambda>limit after. ListTransactions cid (f\<lparr>tf_after := after, tf_limit := limit\<rparr>) d" t_id
    "filter (\<lambda>t. t_customer_id t = cid \<and> null_or (tf_kind f) (\<lambda>k. t_kind t = k) \<and>
       null_or (NullLowerBound (tf_since f)) (\<lambda>u. u \<le> t_id t) \<and> null_or (NullLowerBound (tf_until f)) (\<lambda>u. t_id t < u)) (transactions d)"
  for cid f d
  by unfold_locales (simp add: ListTransactions_def conj_ac)

interpretation message_pages: keyset_listing
    "\<lambda>limit after. ListMessages cid (f\<lparr>mf_after := after, mf_limit := limit\<rparr>) d" m_id
    "filter (list_matches cid f) (messages d)"
  for cid f d
  by unfold_locales (simp add: ListMessages_def list_matches_def conj_ac)

interpretation customer_pages: keyset_listing "\<lambda>limit after. ListCustomers after limit d" c_id "customers d" for d
  by unfold_locales (simp add: ListCustomers_def)

interpretation operator_pages: keyset_listing
    "\<lambda>limit after. ListAll cid (f\<lparr>mf_after := after, mf_limit := limit\<rparr>) now d" "\<lambda>i. m_id (in_message i)"
    "filter (\<lambda>i. all_matches cid f now (in_message i)) (named d (messages d))"
  for cid f now d
  by unfold_locales (simp add: ListAll_def all_matches_def conj_ac)

subsection \<open>Lemmas\<close>

lemma named_messages:
  assumes "db_inv now d" "set ms \<subseteq> set (messages d)"
  shows "map in_message (named d ms) = ms"
  using assms(2)
proof (induction ms)
  case (Cons m ms)
  then obtain c where "row_of c_id (m_customer_id m) (customers d) = Some c"
    using db_inv_foreignD(1) [OF assms(1), of m] by (cases "row_of c_id (m_customer_id m) (customers d)") (auto simp: row_of_None_iff)
  with Cons show ?case by (simp add: named_def map_filter_def)
qed (simp add: named_def map_filter_def)

text \<open>A message has at most one refund, so the join neither drops nor repeats messages.\<close>

lemma left_join_single:
  assumes "\<And>x. x \<in> set xs \<Longrightarrow> length (filter (on x) ys) \<le> 1"
  shows "map fst (left_join on xs ys) = xs"
    "map snd (left_join on xs ys) = map (\<lambda>x. find (on x) ys) xs"
proof -
  have one: "(case filter (on x) ys of [] \<Rightarrow> [(x, None)] | zs \<Rightarrow> map (\<lambda>z. (x, Some z)) zs) = [(x, find (on x) ys)]"
    if "length (filter (on x) ys) \<le> 1" for x
  proof -
    have "find (on x) ys = (case filter (on x) ys of [] \<Rightarrow> None | z # zs \<Rightarrow> Some z)" by (induction ys) auto
    with that show ?thesis by (auto split: list.splits)
  qed
  have "left_join on xs ys = map (\<lambda>x. (x, find (on x) ys)) xs"
    using assms unfolding left_join_def by (induction xs) (simp_all add: one)
  then show "map fst (left_join on xs ys) = xs" "map snd (left_join on xs ys) = map (\<lambda>x. find (on x) ys) xs"
    by (simp_all add: comp_def)
qed

lemma fold_add_row:
  "su_messages (fold add_row rs s) = su_messages s + (\<Sum>r\<leftarrow>rs. sr_count r)"
  "su_segments (fold add_row rs s) = su_segments s + (\<Sum>r\<leftarrow>rs. sr_segments r)"
  "su_credits_spent (fold add_row rs s) = su_credits_spent s + (\<Sum>r\<leftarrow>rs. sr_credits r)"
  "su_credits_refunded (fold add_row rs s) = su_credits_refunded s + (\<Sum>r\<leftarrow>rs. sr_refunded r)"
  "su_by_status (fold add_row rs s) st = su_by_status s st + (\<Sum>r\<leftarrow>filter (\<lambda>r. sr_status r = st) rs. sr_count r)"
  "ts_messages (su_by_type (fold add_row rs s) t) = ts_messages (su_by_type s t) + (\<Sum>r\<leftarrow>filter (\<lambda>r. sr_type r = t) rs. sr_count r)"
  by (induction rs arbitrary: s) (auto simp: add_row_def Let_def)

text \<open>Summing a quantity over the groups is summing it over the rows.\<close>

lemma sum_groups:
  fixes f :: "'a \<Rightarrow> int"
  shows "(\<Sum>g\<leftarrow>remdups (map key xs). \<Sum>x\<leftarrow>filter (\<lambda>x. key x = g) xs. f x) = (\<Sum>x\<leftarrow>xs. f x)"
proof -
  have "(\<Sum>g\<in>S. \<Sum>x\<leftarrow>filter (\<lambda>x. key x = g) xs. f x) = (\<Sum>x\<leftarrow>xs. f x)" if "finite S" "key ` set xs \<subseteq> S" for S
    using that(2)
  proof (induction xs)
    case (Cons x xs)
    have "(\<Sum>g\<in>S. \<Sum>y\<leftarrow>filter (\<lambda>y. key y = g) (x # xs). f y) =
        (\<Sum>g\<in>S. (if key x = g then f x else 0) + (\<Sum>y\<leftarrow>filter (\<lambda>y. key y = g) xs. f y))" by (intro sum.cong) auto
    with Cons that(1) show ?case by (simp add: sum.distrib)
  qed simp
  then show ?thesis by (simp add: sum_list_distinct_conv_sum_set)
qed

lemma filter_groups:
  fixes f :: "'a \<Rightarrow> int"
  assumes "\<And>g. g \<in> set (map key xs) \<Longrightarrow> h (F g) = (\<Sum>x\<leftarrow>filter (\<lambda>x. key x = g) xs. f x)" "\<And>g. P (F g) \<longleftrightarrow> Q g"
  shows "(\<Sum>r\<leftarrow>filter P (map F (remdups (map key xs))). h r) = (\<Sum>x\<leftarrow>filter (\<lambda>x. Q (key x)) xs. f x)"
proof -
  have "(\<Sum>r\<leftarrow>filter P (map F (remdups (map key xs))). h r) = (\<Sum>g\<leftarrow>filter Q (remdups (map key xs)). h (F g))"
    by (simp add: filter_map comp_def assms(2))
  also have "\<dots> = (\<Sum>g\<leftarrow>remdups (map key xs). if Q g then h (F g) else 0)" by (simp add: sum_list_map_filter')
  also have "\<dots> = (\<Sum>g\<leftarrow>remdups (map key xs). \<Sum>x\<leftarrow>filter (\<lambda>x. key x = g) xs. if Q (key x) then f x else 0)"
  proof (intro arg_cong [where f = sum_list] map_cong refl)
    fix g assume "g \<in> set (remdups (map key xs))"
    moreover have "(\<Sum>x\<leftarrow>filter (\<lambda>x. key x = g) xs. if Q (key x) then f x else 0) =
        (if Q g then (\<Sum>x\<leftarrow>filter (\<lambda>x. key x = g) xs. f x) else 0)" by (induction xs) auto
    ultimately show "(if Q g then h (F g) else 0) = (\<Sum>x\<leftarrow>filter (\<lambda>x. key x = g) xs. if Q (key x) then f x else 0)"
      using assms(1) by simp
  qed
  also have "\<dots> = (\<Sum>x\<leftarrow>xs. if Q (key x) then f x else 0)" by (rule sum_groups)
  also have "\<dots> = (\<Sum>x\<leftarrow>filter (\<lambda>x. Q (key x)) xs. f x)" by (simp add: sum_list_map_filter')
  finally show ?thesis .
qed

lemma sum_list_ones: "(\<Sum>x\<leftarrow>xs. 1) = int (length xs)"
  by (induction xs) auto

text \<open>The refund of a message, as the join finds it.\<close>

lemma refund_found:
  assumes "message_ledger_ok ts m"
  shows "length (filter (\<lambda>t. t_message_id t = Some (m_id m) \<and> t_kind t = KindRefund) ts) \<le> 1"
    "(case find (\<lambda>t. t_message_id t = Some (m_id m) \<and> t_kind t = KindRefund) ts of None \<Rightarrow> 0 | Some t \<Rightarrow> t_amount t) =
      (if ended (m_status m) then m_cost m else 0)"
proof -
  let ?p = "\<lambda>t. t_message_id t = Some (m_id m) \<and> t_kind t = KindRefund"
  have l: "map t_amount (filter ?p ts) = (if ended (m_status m) then [m_cost m] else [])"
    using assms by (simp add: message_ledger_ok_def txns_of_def)
  then have "length (map t_amount (filter ?p ts)) = (if ended (m_status m) then 1 else 0)" by simp
  then show "length (filter ?p ts) \<le> 1" by (simp split: if_splits)
  have "find ?p ts = (case filter ?p ts of [] \<Rightarrow> None | t # us \<Rightarrow> Some t)" by (induction ts) auto
  with l show "(case find ?p ts of None \<Rightarrow> 0 | Some t \<Rightarrow> t_amount t) = (if ended (m_status m) then m_cost m else 0)"
    by (auto split: list.splits if_splits)
qed

subsection \<open>Properties\<close>

text \<open>C25: A summary counts every message of the customer in the range exactly once: the totals, the credits spent
  and, per status, the numbers are those of the messages, and the credits refunded are the prices of
  the failed and expired ones.\<close>

theorem Summarize_exact:
  assumes "db_inv now d"
  shows "let s = Summarize cid since until d;
      ms = filter (\<lambda>m. m_customer_id m = cid \<and> LowerBound since \<le> m_id m \<and> m_id m < LowerBound until) (messages d)
    in su_messages s = int (length ms) \<and> su_segments s = (\<Sum>m\<leftarrow>ms. int (m_segments m)) \<and>
      su_credits_spent s = (\<Sum>m\<leftarrow>ms. m_cost m) \<and>
      su_credits_refunded s = (\<Sum>m\<leftarrow>filter (\<lambda>m. ended (m_status m)) ms. m_cost m) \<and>
      (\<forall>st. su_by_status s st = int (length (filter (\<lambda>m. m_status m = st) ms))) \<and>
      (\<forall>t. ts_messages (su_by_type s t) = int (length (filter (\<lambda>m. m_type m = t) ms)))"
proof -
  let ?ms = "filter (\<lambda>m. m_customer_id m = cid \<and> LowerBound since \<le> m_id m \<and> m_id m < LowerBound until) (messages d)"
  let ?on = "\<lambda>m t. t_message_id t = Some (m_id m) \<and> t_kind t = KindRefund"
  let ?rows = "summary_join cid since until d" and ?key = "\<lambda>r. (m_type (fst r), m_status (fst r))"
  let ?groups = "remdups (map ?key ?rows)" and ?F = "\<lambda>g. group_row g ?rows"
  have led: "message_ledger_ok (transactions d) m" if "m \<in> set ?ms" for m using db_inv_rowsD(4) [OF assms] that by simp
  have one: "\<And>m. m \<in> set ?ms \<Longrightarrow> length (filter (?on m) (transactions d)) \<le> 1" using refund_found(1) [OF led] .
  note join = left_join_single [OF one]
  have fst_rows: "map fst ?rows = ?ms" unfolding summary_join_def by (rule join(1))
  have snd_rows: "map snd ?rows = map (\<lambda>m. find (?on m) (transactions d)) ?ms" unfolding summary_join_def by (rule join(2))
  have over: "(\<Sum>r\<leftarrow>?rows. f (fst r)) = (\<Sum>m\<leftarrow>?ms. f m)" for f :: "message \<Rightarrow> int"
    unfolding fst_rows [symmetric] by (simp add: comp_def)
  have over_filter: "length (filter (\<lambda>r. P (fst r)) ?rows) = length (filter P ?ms)" for P
    unfolding fst_rows [symmetric] by (simp add: filter_map comp_def)
  have sums: "(\<Sum>r\<leftarrow>map ?F ?groups. h r) = (\<Sum>r\<leftarrow>?rows. f r)"
    if "\<And>g. h (?F g) = (\<Sum>r\<leftarrow>filter (\<lambda>r. ?key r = g) ?rows. f r)" for h and f :: "message \<times> transaction option \<Rightarrow> int"
    using filter_groups [where key = ?key and xs = ?rows and h = h and F = ?F and f = f and P = "\<lambda>r. True" and Q = "\<lambda>g. True"] that
    by simp
  have counts: "(\<Sum>r\<leftarrow>filter P (map ?F ?groups). sr_count r) = int (length (filter (\<lambda>r. Q (?key r)) ?rows))"
    if "\<And>g. P (?F g) \<longleftrightarrow> Q g" for P Q
    using filter_groups [where key = ?key and xs = ?rows and h = sr_count and F = ?F and f = "\<lambda>r. 1" and P = P and Q = Q] that
    by (simp add: group_row_def Let_def sum_list_ones)
  have "(\<Sum>r\<leftarrow>map ?F ?groups. sr_count r) = int (length ?ms)"
    using sums [of sr_count "\<lambda>r. 1"] over [of "\<lambda>m. 1"] by (simp add: group_row_def Let_def sum_list_ones)
  moreover have "(\<Sum>r\<leftarrow>map ?F ?groups. sr_segments r) = (\<Sum>m\<leftarrow>?ms. int (m_segments m))"
    using sums [of sr_segments "\<lambda>r. int (m_segments (fst r))"] over by (simp add: group_row_def Let_def)
  moreover have "(\<Sum>r\<leftarrow>map ?F ?groups. sr_credits r) = (\<Sum>m\<leftarrow>?ms. m_cost m)"
    using sums [of sr_credits "\<lambda>r. m_cost (fst r)"] over by (simp add: group_row_def Let_def)
  moreover have "(\<Sum>r\<leftarrow>map ?F ?groups. sr_refunded r) = (\<Sum>m\<leftarrow>filter (\<lambda>m. ended (m_status m)) ?ms. m_cost m)"
  proof -
    have "(\<Sum>r\<leftarrow>map ?F ?groups. sr_refunded r) = (\<Sum>x\<leftarrow>map snd ?rows. case x of None \<Rightarrow> 0 | Some t \<Rightarrow> t_amount t)"
      using sums [of sr_refunded "\<lambda>r. case snd r of None \<Rightarrow> 0 | Some t \<Rightarrow> t_amount t"] by (simp add: group_row_def Let_def comp_def)
    also have "\<dots> = (\<Sum>m\<leftarrow>?ms. if ended (m_status m) then m_cost m else 0)"
      unfolding snd_rows map_map comp_def
      by (intro arg_cong [where f = sum_list] map_cong refl) (rule refund_found(2) [OF led])
    also have "\<dots> = (\<Sum>m\<leftarrow>filter (\<lambda>m. ended (m_status m)) ?ms. m_cost m)"
      by (rule sum_list_map_filter' [symmetric])
    finally show ?thesis .
  qed
  moreover have "(\<Sum>r\<leftarrow>filter (\<lambda>r. sr_status r = st) (map ?F ?groups). sr_count r) = int (length (filter (\<lambda>m. m_status m = st) ?ms))" for st
    using counts [of "\<lambda>r. sr_status r = st" "\<lambda>g. snd g = st"] over_filter [of "\<lambda>m. m_status m = st"]
    by (simp add: group_row_def Let_def)
  moreover have "(\<Sum>r\<leftarrow>filter (\<lambda>r. sr_type r = t) (map ?F ?groups). sr_count r) = int (length (filter (\<lambda>m. m_type m = t) ?ms))" for t
    using counts [of "\<lambda>r. sr_type r = t" "\<lambda>g. fst g = t"] over_filter [of "\<lambda>m. m_type m = t"]
    by (simp add: group_row_def Let_def)
  ultimately show ?thesis
    unfolding Summarize_def Let_def fold_add_row by (simp add: empty_summary_def)
qed

text \<open>C24: Customers can page through all of their messages and transactions: following the cursors from the
  first page, with any filter and any positive page size, yields every matching row exactly once,
  newest first, in pages of at most that size, and comes to an end.\<close>

theorem listings_complete:
  assumes "db_inv now d" "0 < limit" "uuid_nil \<notin> m_id ` set (messages d)" "uuid_nil \<notin> t_id ` set (transactions d)"
  shows "(\<exists>ps. walk (\<lambda>after. ListMessages cid (f\<lparr>mf_after := after, mf_limit := limit\<rparr>) d) m_id (Suc (length (messages d))) [] = Some ps \<and>
      concat ps = order_desc m_id (filter (list_matches cid f) (messages d)) \<and> list_all (\<lambda>p. length p \<le> limit) ps) \<and>
    (\<exists>ps. walk (\<lambda>after. ListTransactions cid (g\<lparr>tf_after := after, tf_limit := limit\<rparr>) d) t_id (Suc (length (transactions d))) [] = Some ps \<and>
      concat ps = order_desc t_id (filter (\<lambda>t. t_customer_id t = cid \<and> null_or (tf_kind g) (\<lambda>k. t_kind t = k) \<and>
        null_or (NullLowerBound (tf_since g)) (\<lambda>u. u \<le> t_id t) \<and> null_or (NullLowerBound (tf_until g)) (\<lambda>u. t_id t < u)) (transactions d)) \<and>
      list_all (\<lambda>p. length p \<le> limit) ps)"
  using assms(2-4) db_inv_keysD(2,3) [OF assms(1)]
  by (intro conjI message_pages.walk_complete transaction_pages.walk_complete)
    (auto intro: distinct_map_filterI simp: le_imp_less_Suc)

text \<open>A customer sees its own messages and nobody else's: reading a message succeeds exactly for a message of
  that customer, and otherwise, whether it belongs to another customer or does not exist, the answer
  is the same.\<close>

theorem GetMessage_isolated:
  assumes "db_inv now d"
  shows "GetMessage cid mid d = (if \<exists>m\<in>set (messages d). m_id m = mid \<and> m_customer_id m = cid
    then Inr (the (row_of m_id mid (messages d))) else Inl ErrMessageNotFound)"
proof (cases "\<exists>m\<in>set (messages d). m_id m = mid \<and> m_customer_id m = cid")
  case True
  then obtain m where m: "m \<in> set (messages d)" "m_id m = mid" "m_customer_id m = cid" by blast
  note k = db_inv_keysD(2) [OF assms]
  have "filter (\<lambda>x. m_id x = mid \<and> m_customer_id x = cid) (messages d) =
      filter (\<lambda>x. m_customer_id x = cid) (filter (\<lambda>x. m_id x = m_id m) (messages d))" using m(2) by (simp add: conj_commute)
  also have "\<dots> = [m]" unfolding filter_key_single [OF k m(1)] using m(3) by simp
  finally show ?thesis using True row_of_Some_iff [OF k, of mid m] m by (simp add: GetMessage_def)
next
  case False
  then have "filter (\<lambda>x. m_id x = mid \<and> m_customer_id x = cid) (messages d) = []" by (auto simp: filter_empty_conv)
  then show ?thesis using False by (simp add: GetMessage_def)
qed

subsection \<open>Instances\<close>

theorem Summarize_exact_witness:
  "su_messages (Summarize 1 zero_time (2 ^ 60) demo_db) = int (length (filter (\<lambda>m. m_customer_id m = 1 \<and>
     LowerBound zero_time \<le> m_id m \<and> m_id m < LowerBound (2 ^ 60)) (messages demo_db)))"
  using Summarize_exact [OF demo_db_inv, of 1 zero_time "2 ^ 60"] by (simp add: Let_def)

theorem listings_complete_witness:
  "\<exists>ps. walk (\<lambda>after. ListMessages 1 (\<lparr>mf_status = [], mf_type = [], mf_recipient = [], mf_since = zero_time,
       mf_until = zero_time, mf_after = 0, mf_limit = 0\<rparr>\<lparr>mf_after := after, mf_limit := 5\<rparr>) demo_db) m_id 2 [] = Some ps \<and>
     concat ps = [demo_message]"
proof -
  let ?f = "\<lparr>mf_status = [], mf_type = [], mf_recipient = [], mf_since = zero_time, mf_until = zero_time, mf_after = 0, mf_limit = 0\<rparr>"
  have matching: "order_desc m_id (filter (list_matches 1 ?f) (messages demo_db)) = [demo_message]"
    by (simp add: list_matches_def null_or_def NullString_def NullLowerBound_def is_zero_time_def demo_db_def demo_message_def order_desc_def)
  have len: "Suc (length (messages demo_db)) = 2" by (simp add: demo_db_def)
  have nil: "uuid_nil \<notin> m_id ` set (messages demo_db)" "uuid_nil \<notin> t_id ` set (transactions demo_db)"
    by (simp_all add: demo_defs uuid_nil_def)
  have "(0::nat) < 5" by simp
  from listings_complete [OF demo_db_inv this nil, of 1 ?f, THEN conjunct1, unfolded matching len] show ?thesis by blast
qed

theorem GetMessage_isolated_witness: "GetMessage 9 2 demo_db = Inl ErrMessageNotFound \<and> GetMessage 1 2 demo_db = Inr demo_message"
  using GetMessage_isolated [OF demo_db_inv, of 9 2] GetMessage_isolated [OF demo_db_inv, of 1 2]
  by (simp add: demo_db_def row_of_def demo_message_def)

end
