(* ===== verification/Api.thy ===== *)
theory Api
  imports Httpx Auth Limiter Replay Paging Queries
begin

text \<open>
  The customer API, \<^verbatim>\<open>internal/api\<close>: authentication, rate limiting, the handlers of every route and the mapping of
  errors to responses, on top of the components they call. Bodies come decoded or with the decoder's
  failure; responses are records. String-typed constants appear as their datatypes.
\<close>

subsection \<open>Errors\<close>

text \<open>\<^verbatim>\<open>toHTTPError\<close>; whether a database error means that it cannot be reached is a parameter, since
  \<^verbatim>\<open>store.IsUnavailable\<close> asks the driver.\<close>

definition toHTTPError :: "(error \<Rightarrow> bool) \<Rightarrow> served_error \<Rightarrow> served_error" where
  "toHTTPError unavailable err =
     (case err of
        HttpErr e \<Rightarrow> HttpErr e
      | OtherErr e \<Rightarrow>
          (case e of
             ValidationError fs \<Rightarrow> HttpErr (http_ValidationError fs)
           | ConflictError fs \<Rightarrow> HttpErr \<lparr>he_status = 409, he_code = ''idempotency_conflict'',
               he_message = ''The client_ref was already used for a different request.'', he_details = fs\<rparr>
           | ErrChargeConflict \<Rightarrow> HttpErr \<lparr>he_status = 409, he_code = ''idempotency_conflict'',
               he_message = ''The client_ref was already used for a different request.'',
               he_details = [fe ''client_ref'' ''conflict'' ''was already used for a charge with a different amount'']\<rparr>
           | ErrInsufficientCredits \<Rightarrow> HttpErr (NewError 402 ''insufficient_credits'' ''The balance does not cover the cost of the request.'')
           | ErrMessageNotFound \<Rightarrow> HttpErr (NewError 404 ''not_found'' ''The message does not exist.'')
           | ErrUnauthorized \<Rightarrow> HttpErr (NewError 401 ''unauthorized'' ''A valid API key is required: Authorization: Bearer sk_...'')
           | ErrCustomerNotFound \<Rightarrow> HttpErr (NewError 401 ''unauthorized'' ''A valid API key is required: Authorization: Bearer sk_...'')
           | _ \<Rightarrow> if unavailable e
               then HttpErr (NewError 503 ''unavailable'' ''The service is temporarily unavailable. Retry with the same client_ref.'')
               else OtherErr e))"

definition invalid :: "string \<Rightarrow> string \<Rightarrow> string \<Rightarrow> error" where
  "invalid field code msg = ValidationError [fe field code msg]"

subsection \<open>Responses\<close>

record message_response =
  mr_id :: string
  mr_type :: mtype
  mr_to :: string
  mr_text :: string
  mr_encoding :: encoding
  mr_segments :: nat
  mr_cost :: int
  mr_status :: status
  mr_attempts :: int
  mr_failure_reason :: "failure_reason option"
  mr_sla_breached :: bool
  mr_client_ref :: "string option"
  mr_accepted_at :: gtime
  mr_sent_at :: "gtime option"
  mr_completed_at :: "gtime option"

definition toMessageResponse :: "(uuid \<Rightarrow> string) \<Rightarrow> message \<Rightarrow> message_response" where
  "toMessageResponse us m =
     \<lparr>mr_id = us (m_id m), mr_type = m_type m, mr_to = m_recipient m, mr_text = m_body m, mr_encoding = m_encoding m,
      mr_segments = m_segments m, mr_cost = m_cost m, mr_status = m_status m, mr_attempts = m_attempts m,
      mr_failure_reason = m_failure_reason m, mr_sla_breached = m_sla_breached m, mr_client_ref = m_client_ref m,
      mr_accepted_at = m_accepted_at m, mr_sent_at = m_sent_at m, mr_completed_at = m_completed_at m\<rparr>"

record transaction_response =
  tr_id :: string
  tr_kind :: kind
  tr_amount :: int
  tr_message_id :: "string option"
  tr_client_ref :: "string option"
  tr_created_at :: gtime

definition toTransactionResponse :: "(uuid \<Rightarrow> string) \<Rightarrow> transaction \<Rightarrow> transaction_response" where
  "toTransactionResponse us t =
     \<lparr>tr_id = us (t_id t), tr_kind = t_kind t, tr_amount = t_amount t, tr_message_id = map_option us (t_message_id t),
      tr_client_ref = t_client_ref t, tr_created_at = t_created_at t\<rparr>"

record summary_type_response =
  st_messages :: int
  st_credits :: int
  st_sla_breached :: "int option"

record summary_response =
  sum_since :: gtime
  sum_until :: gtime
  sum_messages :: int
  sum_segments :: int
  sum_credits_spent :: int
  sum_credits_refunded :: int
  sum_by_status :: "status \<Rightarrow> int"
  sum_by_type :: "mtype \<Rightarrow> summary_type_response"

definition toSummaryResponse :: "summary \<Rightarrow> summary_response" where
  "toSummaryResponse s =
     \<lparr>sum_since = su_since s, sum_until = su_until s, sum_messages = su_messages s, sum_segments = su_segments s,
      sum_credits_spent = su_credits_spent s, sum_credits_refunded = su_credits_refunded s, sum_by_status = su_by_status s,
      sum_by_type = (\<lambda>t. \<lparr>st_messages = ts_messages (su_by_type s t), st_credits = ts_credits (su_by_type s t),
        st_sla_breached = (if t = Express then Some (ts_sla_breached (su_by_type s t)) else None)\<rparr>)\<rparr>"

datatype response_body =
    MessageBody message_response
  | BatchBody "message_response list" int
  | MessagePage "message_response list" "string option"
  | BalanceBody int gtime
  | ChargeBody transaction_response int
  | TransactionPage "transaction_response list" "string option"
  | SummaryBody summary_response
  | ErrorBody http_error

record response =
  rs_status :: int
  rs_headers :: "(string \<times> string) list"
  rs_body :: response_body

subsection \<open>Server\<close>

definition defaultLimit :: int where "defaultLimit = 50"
definition maxLimit :: int where "maxLimit = 200"

definition replayedHeader :: string where "replayedHeader = ''Idempotent-Replayed''"

record 'l server =
  sv_db :: db
  sv_auth :: authenticator
  sv_limiter :: "'l limiter"

text \<open>What a request meets: the libraries, the configuration, the clocks, the failures of the database, the
  identifiers of its transactions and what other requests do to the key cache meanwhile.\<close>

record ('l, 'r) api_world =
  ap_lib :: "('l, 'r) rate_lib"
  ap_sha :: "string \<Rightarrow> string"
  ap_parsers :: parsers
  ap_uuid_string :: "uuid \<Rightarrow> string"
  ap_unavailable :: "error \<Rightarrow> bool"
  ap_config :: accept_config
  ap_now :: gtime
  ap_auth_fails :: bool
  ap_auth_others :: "authenticator \<Rightarrow> authenticator"
  ap_accept :: accept_world
  ap_env :: env
  ap_tx_fault :: tx_fault
  ap_query_fails :: bool

type_synonym 'l handled = "'l server \<times> (string \<times> string) list \<times> (served_error + int \<times> response_body)"

text \<open>\<^verbatim>\<open>math.Ceil(d.Seconds())\<close>, between 1 and 60.\<close>

definition retryAfterSeconds :: "duration \<Rightarrow> int" where
  "retryAfterSeconds d = min (max \<lceil>(of_int d / of_int second :: rat)\<rceil> 1) 60"

definition rateLimit ::
    "('l, 'r) api_world \<Rightarrow> auth_customer \<Rightarrow> int \<Rightarrow> 'l server \<Rightarrow> 'l server \<times> (string \<times> string) list \<times> http_error option" where
  "rateLimit w c n sv =
     (let (lim, d) = limiter_Allow (ap_lib w) (ap_now w) (ac_id c) (ac_rate_limit_rps c) n (sv_limiter sv);
          headers = [(''X-RateLimit-Limit'', itoa (de_limit d)), (''X-RateLimit-Remaining'', itoa (de_remaining d))];
          sv' = sv\<lparr>sv_limiter := lim\<rparr>
      in if de_allowed d then (sv', headers, None)
         else (sv', headers @ [(''Retry-After'', itoa (retryAfterSeconds (de_retry_after d)))],
           Some (NewError 429 ''rate_limited''
             ''The message rate limit was exceeded. Retry after the time in the Retry-After header.'')))"

definition sendMessage :: "('l, 'r) api_world \<Rightarrow> request body \<Rightarrow> auth_customer \<Rightarrow> 'l server \<Rightarrow> 'l handled" where
  "sendMessage w body c sv =
     (case DecodeJSON body of
        Inl e \<Rightarrow> (sv, [], Inl (HttpErr e))
      | Inr req \<Rightarrow>
          (case rateLimit w c 1 sv of
             (sv1, hs, Some e) \<Rightarrow> (sv1, hs, Inl (HttpErr e))
           | (sv1, hs, None) \<Rightarrow>
               (case Accept (ap_accept w) (ap_config w) (ac_id c) req (sv_db sv1) of
                  (d, Inl err) \<Rightarrow> (sv1\<lparr>sv_db := d\<rparr>, hs, Inl (OtherErr err))
                | (d, Inr (m, replayed)) \<Rightarrow>
                    (sv1\<lparr>sv_db := d\<rparr>, hs @ (if replayed then [(replayedHeader, ''true'')] else []),
                     Inr (202, MessageBody (toMessageResponse (ap_uuid_string w) m))))))"

definition sendBatch :: "('l, 'r) api_world \<Rightarrow> request list body \<Rightarrow> auth_customer \<Rightarrow> 'l server \<Rightarrow> 'l handled" where
  "sendBatch w body c sv =
     (case DecodeJSON body of
        Inl e \<Rightarrow> (sv, [], Inl (HttpErr e))
      | Inr reqs \<Rightarrow>
          if MaxBatchSize < length reqs
          then (sv, [], Inl (OtherErr (invalid ''messages'' ''too_many_items'' ''must contain at most 500 messages'')))
          else case rateLimit w c (max (int (length reqs)) 1) sv of
              (sv1, hs, Some e) \<Rightarrow> (sv1, hs, Inl (HttpErr e))
            | (sv1, hs, None) \<Rightarrow>
                (case AcceptBatch (ap_accept w) (ap_config w) (ac_id c) reqs (sv_db sv1) of
                   (d, Inl err) \<Rightarrow> (sv1\<lparr>sv_db := d\<rparr>, hs, Inl (OtherErr err))
                 | (d, Inr (a, notify)) \<Rightarrow>
                     (sv1\<lparr>sv_db := d\<rparr>, hs @ (if a_replayed a then [(replayedHeader, ''true'')] else []),
                      Inr (202, BatchBody (map (toMessageResponse (ap_uuid_string w)) (a_messages a)) (a_total_cost a)))))"

text \<open>Queries that cannot reach the database return the driver's error.\<close>

definition reading :: "('l, 'r) api_world \<Rightarrow> string \<Rightarrow> served_error + 'a \<Rightarrow> served_error + 'a" where
  "reading w what r = (if ap_query_fails w then Inl (OtherErr (DbErr what Unavailable)) else r)"

definition getMessage :: "('l, 'r) api_world \<Rightarrow> string \<Rightarrow> auth_customer \<Rightarrow> 'l server \<Rightarrow> 'l handled" where
  "getMessage w path c sv =
     (sv, [], case parse_uuid (ap_parsers w) path of
        None \<Rightarrow> Inl (OtherErr ErrMessageNotFound)
      | Some mid \<Rightarrow>
          reading w ''get message'' (case GetMessage (ac_id c) mid (sv_db sv) of
             Inl err \<Rightarrow> Inl (OtherErr err)
           | Inr m \<Rightarrow> Inr (200, MessageBody (toMessageResponse (ap_uuid_string w) m))))"

definition list_filter :: "parsers \<Rightarrow> (string \<Rightarrow> string) \<Rightarrow> query \<times> message_filter" where
  "list_filter ps vals =
     (let q0 = NewQuery vals;
          recipient = query_String ''recipient'' q0;
          (q1, since) = query_Time ''since'' q0;
          (q2, until) = query_Time ''until'' q1;
          (q3, after) = query_Cursor q2;
          (q4, limit) = query_Limit defaultLimit maxLimit q3;
          status = query_String ''status'' q4;
          q5 = (if status \<noteq> [] \<and> ParseStatus status = None then Fail ''status'' ''invalid_format'' ''must be a message status'' q4 else q4);
          typ_name = query_String ''type'' q5;
          q6 = (if typ_name \<noteq> [] \<and> ParseType typ_name = None then Fail ''type'' ''invalid_format'' ''must be normal or express'' q5 else q5);
          q7 = (if recipient \<noteq> [] \<and> \<not> ValidRecipient recipient
            then Fail ''recipient'' ''invalid_format'' ''must be an E.164 phone number'' q6 else q6);
          q8 = TimeRange since until q7
      in (q8, \<lparr>mf_status = (case ParseStatus status of None \<Rightarrow> [] | Some st \<Rightarrow> status_string st),
               mf_type = (case ParseType typ_name of None \<Rightarrow> [] | Some t \<Rightarrow> type_string t),
               mf_recipient = recipient, mf_since = since, mf_until = until, mf_after = after, mf_limit = nat limit\<rparr>))"

definition listMessages :: "('l, 'r) api_world \<Rightarrow> (string \<Rightarrow> string) \<Rightarrow> auth_customer \<Rightarrow> 'l server \<Rightarrow> 'l handled" where
  "listMessages w vals c sv =
     (sv, [], let (q, f) = list_filter (ap_parsers w) vals
      in case query_Err q of
          Some e \<Rightarrow> Inl (HttpErr e)
        | None \<Rightarrow> reading w ''list messages'' (case ListMessages (ac_id c) f (sv_db sv) of
            (list, follows) \<Rightarrow> Inr (200, MessagePage (map (toMessageResponse (ap_uuid_string w)) list)
              (pg_next_cursor (NewPage m_id list follows)))))"

definition getBalance :: "('l, 'r) api_world \<Rightarrow> auth_customer \<Rightarrow> 'l server \<Rightarrow> 'l handled" where
  "getBalance w c sv =
     (sv, [], reading w ''get balance'' (case GetBalance (ac_id c) (sv_db sv) of
        Inl err \<Rightarrow> Inl (OtherErr err)
      | Inr b \<Rightarrow> Inr (200, BalanceBody (b_amount b) (b_updated_at b))))"

record charge_request =
  cq_amount :: "int option"
  cq_client_ref :: "string option"

definition charge_problems :: "charge_request \<Rightarrow> field_error list" where
  "charge_problems req =
     (case cq_amount req of
        None \<Rightarrow> [fe ''amount'' ''required'' ''is required'']
      | Some x \<Rightarrow> if x < 1 \<or> MaxChargeAmount < x
          then [fe ''amount'' ''out_of_range'' (''must be an integer from 1 to '' @ itoa MaxChargeAmount)] else []) @
     (case cq_client_ref req of
        None \<Rightarrow> [fe ''client_ref'' ''required'' ''is required'']
      | Some r \<Rightarrow> if \<not> ValidClientRef r
          then [fe ''client_ref'' ''invalid_format'' ''must be 1-64 characters from A-Z a-z 0-9 . _ : -''] else [])"

definition charge :: "('l, 'r) api_world \<Rightarrow> charge_request body \<Rightarrow> auth_customer \<Rightarrow> 'l server \<Rightarrow> 'l handled" where
  "charge w body c sv =
     (case DecodeJSON body of
        Inl e \<Rightarrow> (sv, [], Inl (HttpErr e))
      | Inr req \<Rightarrow>
          if charge_problems req \<noteq> [] then (sv, [], Inl (OtherErr (ValidationError (charge_problems req))))
          else case ChargeCustomer (ap_tx_fault w) (ap_env w) (ac_id c) (the (cq_amount req)) (the (cq_client_ref req)) (sv_db sv) of
              (d, Inl err) \<Rightarrow> (sv\<lparr>sv_db := d\<rparr>, [], Inl (OtherErr err))
            | (d, Inr r) \<Rightarrow>
                (sv\<lparr>sv_db := d\<rparr>, if cr_replayed r then [(replayedHeader, ''true'')] else [],
                 Inr (201, ChargeBody (toTransactionResponse (ap_uuid_string w) (cr_transaction r)) (cr_balance r))))"

definition transactions_filter :: "parsers \<Rightarrow> (string \<Rightarrow> string) \<Rightarrow> query \<times> transaction_filter" where
  "transactions_filter ps vals =
     (let (q1, since) = query_Time ''since'' (NewQuery vals);
          (q2, until) = query_Time ''until'' q1;
          (q3, after) = query_Cursor q2;
          (q4, limit) = query_Limit defaultLimit maxLimit q3;
          kind_name = query_String ''kind'' q4;
          q5 = (if kind_name \<noteq> [] \<and> ParseKind kind_name = None
            then Fail ''kind'' ''invalid_format'' ''must be charge, debit, or refund'' q4 else q4);
          q6 = TimeRange since until q5
      in (q6, \<lparr>tf_kind = ParseKind kind_name, tf_since = since, tf_until = until, tf_after = after, tf_limit = nat limit\<rparr>))"

definition listTransactions :: "('l, 'r) api_world \<Rightarrow> (string \<Rightarrow> string) \<Rightarrow> auth_customer \<Rightarrow> 'l server \<Rightarrow> 'l handled" where
  "listTransactions w vals c sv =
     (sv, [], let (q, f) = transactions_filter (ap_parsers w) vals
      in case query_Err q of
          Some e \<Rightarrow> Inl (HttpErr e)
        | None \<Rightarrow> reading w ''list transactions'' (case ListTransactions (ac_id c) f (sv_db sv) of
            (list, follows) \<Rightarrow> Inr (200, TransactionPage (map (toTransactionResponse (ap_uuid_string w)) list)
              (pg_next_cursor (NewPage t_id list follows)))))"

definition summary_range :: "parsers \<Rightarrow> gtime \<Rightarrow> (string \<Rightarrow> string) \<Rightarrow> served_error + gtime \<times> gtime" where
  "summary_range ps now vals =
     (let (q1, since0) = query_Time ''since'' (NewQuery vals);
          (q2, until0) = query_Time ''until'' q1
      in case query_Err q2 of
          Some e \<Rightarrow> Inl (HttpErr e)
        | None \<Rightarrow>
            (let until = (if is_zero_time until0 then now else until0);
                 since = (if is_zero_time since0 then until - 24 * hour else since0)
             in if \<not> since < until then Inl (OtherErr (invalid ''since'' ''out_of_range'' ''must be earlier than until''))
                else if MaxReportRange < time_sub until since
                then Inl (OtherErr (invalid ''since'' ''out_of_range'' ''the range may not exceed 31 days''))
                else Inr (since, until)))"

definition summary_handler :: "('l, 'r) api_world \<Rightarrow> (string \<Rightarrow> string) \<Rightarrow> auth_customer \<Rightarrow> 'l server \<Rightarrow> 'l handled" where
  "summary_handler w vals c sv =
     (sv, [], case summary_range (ap_parsers w) (ap_now w) vals of
        Inl e \<Rightarrow> Inl e
      | Inr (since, until) \<Rightarrow>
          reading w ''summarize messages'' (Inr (200, SummaryBody (toSummaryResponse (Summarize (ac_id c) since until (sv_db sv))))))"

text \<open>The routes of \<^verbatim>\<open>Register\<close> behind \<^verbatim>\<open>authed\<close>.\<close>

datatype route =
    PostMessages "request body"
  | PostBatch "request list body"
  | GetMessages string
  | ListMessagesRoute "string \<Rightarrow> string"
  | GetBalanceRoute
  | PostCharges "charge_request body"
  | ListTransactionsRoute "string \<Rightarrow> string"
  | GetSummary "string \<Rightarrow> string"

definition handle :: "('l, 'r) api_world \<Rightarrow> route \<Rightarrow> auth_customer \<Rightarrow> 'l server \<Rightarrow> 'l handled" where
  "handle w r c sv =
     (case r of
        PostMessages b \<Rightarrow> sendMessage w b c sv
      | PostBatch b \<Rightarrow> sendBatch w b c sv
      | GetMessages path \<Rightarrow> getMessage w path c sv
      | ListMessagesRoute vals \<Rightarrow> listMessages w vals c sv
      | GetBalanceRoute \<Rightarrow> getBalance w c sv
      | PostCharges b \<Rightarrow> charge w b c sv
      | ListTransactionsRoute vals \<Rightarrow> listTransactions w vals c sv
      | GetSummary vals \<Rightarrow> summary_handler w vals c sv)"

definition error_response :: "(error \<Rightarrow> bool) \<Rightarrow> (string \<times> string) list \<Rightarrow> served_error \<Rightarrow> response" where
  "error_response unavailable headers err =
     (let e = WriteError (toHTTPError unavailable err)
      in \<lparr>rs_status = he_status e, rs_headers = headers, rs_body = ErrorBody e\<rparr>)"

definition authed :: "('l, 'r) api_world \<Rightarrow> string \<Rightarrow> route \<Rightarrow> 'l server \<Rightarrow> 'l server \<times> response" where
  "authed w header r sv =
     (case Authenticate (ap_sha w) (ap_now w) (ap_auth_fails w) (sv_db sv) (ap_auth_others w) (BearerToken header) (sv_auth sv) of
        (a, Inl err) \<Rightarrow> (sv\<lparr>sv_auth := a\<rparr>, error_response (ap_unavailable w) [] (OtherErr err))
      | (a, Inr c) \<Rightarrow>
          (case handle w r c (sv\<lparr>sv_auth := a\<rparr>) of
             (sv', hs, Inl err) \<Rightarrow> (sv', error_response (ap_unavailable w) hs err)
           | (sv', hs, Inr (st, b)) \<Rightarrow> (sv', \<lparr>rs_status = st, rs_headers = hs, rs_body = b\<rparr>)))"

subsection \<open>What handlers leave alone\<close>

lemma rateLimit_db:
  assumes "rateLimit w c n sv = (sv', hs, e)"
  shows "sv_db sv' = sv_db sv" "\<forall>x. e = Some x \<longrightarrow> he_status x = 429" "fst ` set hs \<subseteq> {''X-RateLimit-Limit'', ''X-RateLimit-Remaining'', ''Retry-After''}"
  using assms by (auto simp: rateLimit_def Let_def NewError_def split: prod.splits if_splits)

lemma Accept_unchanged:
  assumes "\<forall>k d. aw_others w k d = d" "Accept w cfg cid req d = (d', r)" "\<forall>m. r \<noteq> Inr (m, False)"
  shows "d' = d"
  using assms(2,3) accept_loop_unchanged [OF _ assms(1)]
  by (auto simp: Accept_def accept_def split: sum.splits prod.splits)

lemma AcceptBatch_unchanged:
  assumes "\<forall>k d. aw_others w k d = d" "AcceptBatch w cfg cid reqs d = (d', r)" "\<forall>a notify. r = Inr (a, notify) \<longrightarrow> a_replayed a"
  shows "d' = d"
  using assms(2,3) accept_loop_unchanged [OF _ assms(1)]
  by (auto simp: AcceptBatch_def accept_def split: sum.splits)

lemma ChargeCustomer_unchanged:
  assumes "ChargeCustomer fault e cid amount ref d = (d', r)" "\<forall>x. r = Inr x \<longrightarrow> cr_replayed x"
  shows "d' = d"
proof (cases r)
  case (Inl err)
  with assms(1) show ?thesis by (auto simp: ChargeCustomer_def dest: WithTx_Inl)
next
  case (Inr x)
  with assms(1) have "Charge e 0 cid amount ref d = Inr (d', x)" by (auto simp: ChargeCustomer_def dest: WithTx_Inr)
  then show ?thesis by (cases rule: Charge_cases) (use assms(2) Inr in auto)
qed

definition fresh_success :: "(string \<times> string) list \<Rightarrow> served_error + int \<times> response_body \<Rightarrow> bool" where
  "fresh_success hs r \<longleftrightarrow> (\<exists>st b. r = Inr (st, b) \<and> st \<in> {201, 202} \<and> replayedHeader \<notin> fst ` set hs)"

lemma replayedHeader_other: "replayedHeader \<notin> {''X-RateLimit-Limit'', ''X-RateLimit-Remaining'', ''Retry-After''}"
  by (simp add: replayedHeader_def)

lemma sendMessage_db:
  assumes idle: "\<forall>k d. aw_others (ap_accept w) k d = d" and h: "sendMessage w b c sv = (sv', hs, r)" and ch: "sv_db sv' \<noteq> sv_db sv"
  shows "fresh_success hs r"
proof -
  from h ch obtain req sv1 hs1 where req: "DecodeJSON b = Inr req" and rl: "rateLimit w c 1 sv = (sv1, hs1, None)"
    by (auto simp: sendMessage_def split: sum.splits prod.splits option.splits dest: rateLimit_db)
  obtain d x where acc: "Accept (ap_accept w) (ap_config w) (ac_id c) req (sv_db sv1) = (d, x)" by fastforce
  have "sv_db sv' = d" using h by (auto simp: sendMessage_def req rl acc split: sum.splits)
  with ch rateLimit_db(1) [OF rl] have "d \<noteq> sv_db sv1" by simp
  then obtain m where "x = Inr (m, False)" using Accept_unchanged [OF idle acc] by blast
  with h show ?thesis using rateLimit_db(3) [OF rl] replayedHeader_other by (auto simp: sendMessage_def req rl acc fresh_success_def)
qed

lemma sendBatch_db:
  assumes idle: "\<forall>k d. aw_others (ap_accept w) k d = d" and h: "sendBatch w b c sv = (sv', hs, r)" and ch: "sv_db sv' \<noteq> sv_db sv"
  shows "fresh_success hs r"
proof -
  from h ch obtain reqs sv1 hs1 where req: "DecodeJSON b = Inr reqs" "\<not> MaxBatchSize < length reqs"
      and rl: "rateLimit w c (max (int (length reqs)) 1) sv = (sv1, hs1, None)"
    by (auto simp: sendBatch_def split: sum.splits prod.splits option.splits if_splits dest: rateLimit_db)
  obtain d x where acc: "AcceptBatch (ap_accept w) (ap_config w) (ac_id c) reqs (sv_db sv1) = (d, x)" by fastforce
  have "sv_db sv' = d" using h by (auto simp: sendBatch_def req rl acc split: sum.splits)
  with ch rateLimit_db(1) [OF rl] have "d \<noteq> sv_db sv1" by simp
  then obtain a notify where "x = Inr (a, notify)" "\<not> a_replayed a" using AcceptBatch_unchanged [OF idle acc] by blast
  with h show ?thesis using rateLimit_db(3) [OF rl] replayedHeader_other by (auto simp: sendBatch_def req rl acc fresh_success_def)
qed

lemma charge_db:
  assumes h: "charge w b c sv = (sv', hs, r)" and ch: "sv_db sv' \<noteq> sv_db sv"
  shows "fresh_success hs r"
proof -
  from h ch obtain req where req: "DecodeJSON b = Inr req" "charge_problems req = []"
    by (auto simp: charge_def split: sum.splits if_splits)
  obtain d x where chg: "ChargeCustomer (ap_tx_fault w) (ap_env w) (ac_id c) (the (cq_amount req)) (the (cq_client_ref req)) (sv_db sv) = (d, x)"
    by fastforce
  have "sv_db sv' = d" using h by (auto simp: charge_def req chg split: sum.splits)
  with ch obtain y where "x = Inr y" "\<not> cr_replayed y" using ChargeCustomer_unchanged [OF chg] by blast
  with h show ?thesis by (auto simp: charge_def req chg fresh_success_def)
qed

lemma handle_db:
  assumes "\<forall>k d. aw_others (ap_accept w) k d = d" "handle w rt c sv = (sv', hs, r)" "sv_db sv' \<noteq> sv_db sv"
  shows "fresh_success hs r"
proof (cases rt)
  case (PostMessages b)
  with assms show ?thesis by (auto simp: handle_def intro: sendMessage_db)
next
  case (PostBatch b)
  with assms show ?thesis by (auto simp: handle_def intro: sendBatch_db)
next
  case (PostCharges b)
  with assms show ?thesis by (auto simp: handle_def intro: charge_db)
qed (use assms(2,3) in \<open>auto simp: handle_def getMessage_def listMessages_def getBalance_def listTransactions_def summary_handler_def\<close>)

subsection \<open>Which errors handlers return\<close>

definition handler_error :: "served_error \<Rightarrow> bool" where
  "handler_error e \<longleftrightarrow> (\<forall>x. e = HttpErr x \<longrightarrow> he_status x \<in> {400, 413, 415, 422, 429})"

lemma handler_error_simps [simp]:
  "handler_error (OtherErr err)" "handler_error (HttpErr x) \<longleftrightarrow> he_status x \<in> {400, 413, 415, 422, 429}"
  by (simp_all add: handler_error_def)

lemma DecodeJSON_status: "DecodeJSON b = Inl e \<Longrightarrow> he_status e \<in> {400, 413, 415}"
  by (auto simp: DecodeJSON_def decodeError_def NewError_def split: if_splits sum.splits decode_failure.splits)

lemma query_Err_status: "query_Err q = Some e \<Longrightarrow> he_status e = 422"
  by (auto simp: query_Err_def http_ValidationError_def split: if_splits)

definition ok_status :: "int \<times> response_body \<Rightarrow> bool" where
  "ok_status p \<longleftrightarrow> fst p \<in> {200, 201, 202} \<and> (\<forall>e. snd p \<noteq> ErrorBody e)"

definition handler_result :: "served_error + int \<times> response_body \<Rightarrow> bool" where
  "handler_result r \<longleftrightarrow> (case r of Inl e \<Rightarrow> handler_error e | Inr p \<Rightarrow> ok_status p)"

lemma handler_result_simps [simp]: "handler_result (Inl e) \<longleftrightarrow> handler_error e" "handler_result (Inr p) \<longleftrightarrow> ok_status p"
  by (simp_all add: handler_result_def)

lemma handle_result:
  assumes "handle w rt c sv = (sv', hs, r)"
  shows "handler_result r"
proof (cases rt)
  case (PostMessages b)
  with assms show ?thesis
    by (auto simp: handle_def sendMessage_def ok_status_def dest: DecodeJSON_status rateLimit_db(2) split: sum.splits prod.splits option.splits)
next
  case (PostBatch b)
  with assms show ?thesis
    by (auto simp: handle_def sendBatch_def ok_status_def dest: DecodeJSON_status rateLimit_db(2)
        split: sum.splits prod.splits option.splits if_splits)
next
  case (PostCharges b)
  with assms show ?thesis
    by (auto simp: handle_def charge_def ok_status_def dest: DecodeJSON_status split: sum.splits prod.splits if_splits)
next
  case (GetSummary v)
  with assms show ?thesis
    by (auto simp: handle_def summary_handler_def summary_range_def reading_def ok_status_def Let_def dest: query_Err_status
        split: sum.splits prod.splits option.splits if_splits)
qed (use assms in \<open>auto simp: handle_def getMessage_def listMessages_def getBalance_def listTransactions_def reading_def ok_status_def Let_def
    dest: query_Err_status split: sum.splits prod.splits option.splits if_splits\<close>)

lemma error_response_status:
  assumes "handler_error e"
  shows "rs_status (error_response u hs e) \<in> {400, 401, 402, 404, 409, 413, 415, 422, 429, 500, 503} \<and>
    (\<exists>x. rs_body (error_response u hs e) = ErrorBody x \<and> he_status x = rs_status (error_response u hs e) \<and>
      (he_status x = 500 \<longrightarrow> x = NewError 500 ''internal_error'' ''An unexpected error occurred.''))"
proof (cases e)
  case (HttpErr x)
  with assms show ?thesis by (auto simp: error_response_def Let_def WriteError_def toHTTPError_def)
next
  case (OtherErr err)
  then show ?thesis
    by (cases err) (auto simp: error_response_def Let_def WriteError_def toHTTPError_def NewError_def http_ValidationError_def)
qed

subsection \<open>Properties\<close>

lemma authed_fresh:
  assumes "\<forall>k d. aw_others (ap_accept w) k d = d" "authed w header rt sv = (sv', resp)" "sv_db sv' \<noteq> sv_db sv"
  obtains a c hs r sv1 where
    "Authenticate (ap_sha w) (ap_now w) (ap_auth_fails w) (sv_db sv) (ap_auth_others w) (BearerToken header) (sv_auth sv) = (a, Inr c)"
    "handle w rt c (sv\<lparr>sv_auth := a\<rparr>) = (sv1, hs, r)" "sv_db sv1 \<noteq> sv_db sv"
    "fresh_success hs r" "rs_status resp \<in> {201, 202}" "rs_headers resp = hs"
proof -
  from assms(2,3) obtain a c where auth:
    "Authenticate (ap_sha w) (ap_now w) (ap_auth_fails w) (sv_db sv) (ap_auth_others w) (BearerToken header) (sv_auth sv) = (a, Inr c)"
    by (auto simp: authed_def split: prod.splits sum.splits)
  obtain sv1 hs r where h: "handle w rt c (sv\<lparr>sv_auth := a\<rparr>) = (sv1, hs, r)" by (metis prod_cases3)
  have db: "sv_db sv1 = sv_db sv'" using assms(2) by (auto simp: authed_def auth h split: sum.splits)
  then have fresh: "fresh_success hs r" using handle_db [OF assms(1) h] assms(3) by simp
  then obtain st b where "r = Inr (st, b)" "st \<in> {201, 202}" by (auto simp: fresh_success_def)
  then have "rs_status resp \<in> {201, 202}" "rs_headers resp = hs" using assms(2) by (auto simp: authed_def auth h)
  with that auth h db fresh assms(3) show ?thesis by metis
qed


text \<open>Every response has one of the documented statuses, with an error envelope exactly from 400 on, and an
  internal error never tells the client anything but that it happened.\<close>

theorem authed_statuses:
  "let resp = snd (authed w header rt sv)
   in rs_status resp \<in> {200, 201, 202, 400, 401, 402, 404, 409, 413, 415, 422, 429, 500, 503} \<and>
     (400 \<le> rs_status resp \<longleftrightarrow> (\<exists>x. rs_body resp = ErrorBody x)) \<and>
     (rs_status resp = 500 \<longrightarrow> rs_body resp = ErrorBody (NewError 500 ''internal_error'' ''An unexpected error occurred.''))"
proof -
  consider (refused) a err where
      "Authenticate (ap_sha w) (ap_now w) (ap_auth_fails w) (sv_db sv) (ap_auth_others w) (BearerToken header) (sv_auth sv) = (a, Inl err)"
    | (served) a c where
      "Authenticate (ap_sha w) (ap_now w) (ap_auth_fails w) (sv_db sv) (ap_auth_others w) (BearerToken header) (sv_auth sv) = (a, Inr c)"
    by (metis old.sum.exhaust prod.exhaust)
  then show ?thesis
  proof cases
    case refused
    then show ?thesis using error_response_status [of "OtherErr err" "ap_unavailable w" "[]"] by (auto simp: authed_def Let_def)
  next
    case served
    obtain sv1 hs r where h: "handle w rt c (sv\<lparr>sv_auth := a\<rparr>) = (sv1, hs, r)" by (metis prod_cases3)
    note res = handle_result [OF h]
    show ?thesis
    proof (cases r)
      case (Inl e)
      then show ?thesis using res error_response_status [of e "ap_unavailable w" hs] by (auto simp: authed_def served h Let_def)
    next
      case (Inr p)
      then show ?thesis using res by (auto simp: authed_def served h Let_def ok_status_def split: prod.splits)
    qed
  qed
qed

definition shown_messages :: "response_body \<Rightarrow> message_response list" where
  "shown_messages b = (case b of MessageBody r \<Rightarrow> [r] | MessagePage rs c \<Rightarrow> rs | _ \<Rightarrow> [])"

lemma list_filter_limit: "mf_limit (snd (list_filter ps vals)) \<le> 200"
proof -
  have "\<exists>q. mf_limit (snd (list_filter ps vals)) = nat (snd (query_Limit defaultLimit maxLimit q))"
    by (auto simp: list_filter_def Let_def split_beta)
  then obtain q where q: "mf_limit (snd (list_filter ps vals)) = nat (snd (query_Limit defaultLimit maxLimit q))" ..
  have "snd (query_Limit defaultLimit maxLimit q) \<le> 200"
    using query_Limit_bounds [of defaultLimit maxLimit q] by (simp add: defaultLimit_def maxLimit_def)
  with q show ?thesis by simp
qed

text \<open>C29: Customers read only what is theirs: a message shown by the message routes is one of the authenticated
  customer's in the database, and a page holds at most 200.\<close>

theorem authed_reads_own:
  assumes "rt = GetMessages path \<or> rt = ListMessagesRoute vals" "authed w header rt sv = (sv', resp)"
    "Authenticate (ap_sha w) (ap_now w) (ap_auth_fails w) (sv_db sv) (ap_auth_others w) (BearerToken header) (sv_auth sv) = (a, Inr c)"
  shows "length (shown_messages (rs_body resp)) \<le> 200 \<and>
    (\<forall>r\<in>set (shown_messages (rs_body resp)). \<exists>m\<in>set (messages (sv_db sv)).
       m_customer_id m = ac_id c \<and> r = toMessageResponse (ap_uuid_string w) m)"
  using assms(1)
proof
  assume "rt = GetMessages path"
  with assms(2,3) show ?thesis
    by (auto simp: authed_def handle_def getMessage_def reading_def GetMessage_def error_response_def Let_def shown_messages_def
        filter_eq_Cons_iff split: option.splits sum.splits if_splits list.splits)
next
  assume rt: "rt = ListMessagesRoute vals"
  obtain q f where f: "list_filter (ap_parsers w) vals = (q, f)" by fastforce
  obtain list follows where l: "ListMessages (ac_id c) f (sv_db sv) = (list, follows)" by fastforce
  have "mf_limit f \<le> 200"
    using list_filter_limit [of "ap_parsers w" vals] f by simp
  moreover have "list = take (mf_limit f) (order_desc m_id (filter (\<lambda>m. list_matches (ac_id c) f m \<and> null_or (NullID (mf_after f)) (\<lambda>u. m_id m < u)) (messages (sv_db sv))))"
    using l by (simp add: ListMessages_def page_take)
  ultimately have "length list \<le> 200" "\<forall>m\<in>set list. m \<in> set (messages (sv_db sv)) \<and> m_customer_id m = ac_id c"
    by (auto dest!: in_set_takeD simp: set_order_desc list_matches_def)
  moreover have "shown_messages (rs_body resp) = [] \<or> shown_messages (rs_body resp) = map (toMessageResponse (ap_uuid_string w)) list"
    using assms(2,3) rt f l
    by (auto simp: authed_def handle_def listMessages_def reading_def error_response_def Let_def shown_messages_def
        split: option.splits if_splits)
  ultimately show ?thesis by (elim disjE) (simp, simp, blast)
qed

subsection \<open>Instances\<close>

definition demo_api_world :: "(rat \<times> int \<times> int, bool \<times> int) api_world" where
  "demo_api_world = \<lparr>ap_lib = still_lib, ap_sha = (\<lambda>k. ''h''), ap_parsers = \<lparr>parse_uuid = (\<lambda>s. Some 2)\<rparr>,
     ap_uuid_string = (\<lambda>u. nat_digits (unat u)), ap_unavailable = (\<lambda>e. True), ap_config = demo_config, ap_now = 1000,
     ap_auth_fails = False, ap_auth_others = (\<lambda>a. a), ap_accept = demo_world, ap_env = demo_env, ap_tx_fault = NoFault,
     ap_query_fails = False\<rparr>"

definition demo_server :: "(rat \<times> int \<times> int) server" where
  "demo_server = \<lparr>sv_db = demo_db, sv_auth = NewAuthenticator minute, sv_limiter = new_limiter 1\<rparr>"

definition demo_key :: string where
  "demo_key = ''sk_'' @ replicate 43 (CHR ''a'')"

definition demo_header :: string where
  "demo_header = ''Bearer '' @ demo_key"

definition demo_identity :: auth_customer where
  "demo_identity = \<lparr>ac_id = 1, ac_name = ''Acme'', ac_rate_limit_rps = 100\<rparr>"

lemma demo_token: "BearerToken demo_header = demo_key"
  by code_simp

lemma demo_key_format: "ValidKeyFormat demo_key"
  by code_simp

lemma demo_authenticates:
  "Authenticate (\<lambda>k. ''h'') 1000 False demo_db (\<lambda>a. a) (BearerToken demo_header) (NewAuthenticator minute) =
     (remember 1000 ''h'' demo_identity (NewAuthenticator minute), Inr demo_identity)"
  by (simp add: Authenticate_def demo_token demo_key_format cached_def NewAuthenticator_def look_up_def demo_db_def demo_customer_def
      demo_identity_def)

definition demo_body :: "request body" where
  "demo_body = \<lparr>bd_media_type = Some ''application/json'', bd_decoded = Inr (demo_request ''Yo'' ''b1''), bd_at_end = True\<rparr>"

lemma demo_rateLimit:
  "\<exists>sv hs. rateLimit demo_api_world demo_identity 1 (demo_server\<lparr>sv_auth := a\<rparr>) = (sv, hs, None) \<and> sv_db sv = demo_db"
proof -
  have "\<lceil>2 * (of_int 100 / of_int 1 :: rat)\<rceil> = 200" by simp
  then show ?thesis
    by (simp add: rateLimit_def limiter_Allow_def demo_api_world_def still_lib_def demo_identity_def demo_server_def Let_def
        sweepLocked_def new_limiter_def bucketLocked_def burst_for_def per_instance_def MinBurst_def MaxBatchSize_def)
qed

lemma demo_post_changes:
  "sv_db (fst (authed demo_api_world demo_header (PostMessages demo_body) demo_server)) \<noteq> sv_db demo_server"
proof -
  let ?a = "remember 1000 ''h'' demo_identity (NewAuthenticator minute)"
  obtain sv hs where rl: "rateLimit demo_api_world demo_identity 1 (demo_server\<lparr>sv_auth := ?a\<rparr>) = (sv, hs, None)" "sv_db sv = demo_db"
    using demo_rateLimit by blast
  obtain sv' resp where out: "authed demo_api_world demo_header (PostMessages demo_body) demo_server = (sv', resp)" by fastforce
  have "sv_db sv' = accept_effect demo_env demo_config 1 [demo_item ''Yo'' ''b1''] demo_db"
    using out demo_authenticates rl
    by (auto simp: authed_def handle_def sendMessage_def demo_body_def DecodeJSON_def Accept_def demo_accept demo_identity_def
        demo_api_world_def demo_server_def)
  then have "length (messages (sv_db sv')) = 2" by (simp add: accept_effect_def demo_db_def accept_rows_def)
  then have "sv_db sv' \<noteq> sv_db demo_server" by (auto simp: demo_server_def demo_db_def)
  then show ?thesis by (simp add: out)
qed

lemma demo_idle: "\<forall>k d. aw_others (ap_accept demo_api_world) k d = d"
  by (simp add: demo_api_world_def demo_world_def)


theorem authed_statuses_witness:
  "rs_status (snd (authed demo_api_world [] GetBalanceRoute demo_server)) = 401 \<and>
   (\<exists>x. rs_body (snd (authed demo_api_world [] GetBalanceRoute demo_server)) = ErrorBody x)"
proof -
  have "rs_status (snd (authed demo_api_world [] GetBalanceRoute demo_server)) = 401"
    by (simp add: authed_def Authenticate_def ValidKeyFormat_def BearerToken_def Cut_def error_response_def Let_def toHTTPError_def
        WriteError_def NewError_def)
  with authed_statuses [of demo_api_world "[]" GetBalanceRoute demo_server] show ?thesis by (simp add: Let_def)
qed

theorem authed_reads_own_witness:
  "\<exists>r m. shown_messages (rs_body (snd (authed demo_api_world demo_header (GetMessages ''2'') demo_server))) = [r] \<and>
     m \<in> set (messages demo_db) \<and> m_customer_id m = 1 \<and> r = toMessageResponse (\<lambda>u. nat_digits (unat u)) m"
proof -
  obtain sv' resp where out: "authed demo_api_world demo_header (GetMessages ''2'') demo_server = (sv', resp)" by fastforce
  have auth: "Authenticate (ap_sha demo_api_world) (ap_now demo_api_world) (ap_auth_fails demo_api_world) (sv_db demo_server)
      (ap_auth_others demo_api_world) (BearerToken demo_header) (sv_auth demo_server) =
      (remember 1000 ''h'' demo_identity (NewAuthenticator minute), Inr demo_identity)"
    using demo_authenticates by (simp add: demo_api_world_def demo_server_def)
  have "length (shown_messages (rs_body resp)) = 1"
    using out auth
    by (auto simp: authed_def handle_def getMessage_def reading_def GetMessage_def shown_messages_def demo_api_world_def demo_server_def
        demo_identity_def demo_db_def demo_message_def)
  then obtain r where r: "shown_messages (rs_body resp) = [r]" by (auto simp: length_Suc_conv)
  with authed_reads_own [OF disjI1 [OF refl] out auth] out show ?thesis
    by (auto simp: demo_api_world_def demo_server_def demo_identity_def)
qed

end
