(* ===== verification/Callback.thy ===== *)
theory Callback
  imports Dlr Httpx
begin

text \<open>
  The callback of the providers, \<^verbatim>\<open>POST /internal/dlr\<close>: \<^verbatim>\<open>internal/dlr/handler.go\<close>, with \<^verbatim>\<open>Batcher.Submit\<close> in front of the
  batches of \<open>Dlr\<close>.
\<close>

subsection \<open>Submitting\<close>

text \<open>How the wait of a caller ends: the batcher was stopped before the report was queued, the caller's time was
  up, the batch was committed or failed, or the batcher ended without it.\<close>

datatype submit_fate =
    StoppedBefore
  | TimedOutQueueing
  | Answered "error + dlr_outcome"
  | EndedWithout
  | TimedOutWaiting

definition ErrStopped :: error where "ErrStopped = ErrText ''batcher stopped''"
definition ErrDeadline :: error where "ErrDeadline = ErrText ''context deadline exceeded''"

definition Submit :: "submit_fate \<Rightarrow> error + dlr_outcome" where
  "Submit fate =
     (case fate of
        StoppedBefore \<Rightarrow> Inl ErrStopped
      | TimedOutQueueing \<Rightarrow> Inl ErrDeadline
      | Answered r \<Rightarrow> r
      | EndedWithout \<Rightarrow> Inl ErrStopped
      | TimedOutWaiting \<Rightarrow> Inl ErrDeadline)"

subsection \<open>The handler\<close>

record report_body =
  rb_message_id :: string
  rb_provider :: string
  rb_provider_ref :: string
  rb_status :: string
  rb_reported_at :: string

record dlr_handler =
  dh_secret :: string
  dh_providers :: "string set"

definition NewHandler :: "string \<Rightarrow> string list \<Rightarrow> dlr_handler" where
  "NewHandler secret providers = \<lparr>dh_secret = secret, dh_providers = set providers\<rparr>"

text \<open>The status that goes into the report: the two accepted names.\<close>

definition report_status :: "string \<Rightarrow> status" where
  "report_status s = (if s = ''delivered'' then StatusDelivered else StatusUndelivered)"

definition validate_problems :: "parsers \<Rightarrow> dlr_handler \<Rightarrow> report_body \<Rightarrow> field_error list" where
  "validate_problems ps h b =
     (if parse_uuid ps (rb_message_id b) = None then [fe ''message_id'' ''invalid_format'' ''must be a UUID''] else []) @
     (if rb_provider b \<notin> dh_providers h then [fe ''provider'' ''invalid_format'' ''must be a configured provider''] else []) @
     (if rb_provider_ref b = [] then [fe ''provider_ref'' ''required'' ''is required''] else []) @
     (if rb_status b \<noteq> ''delivered'' \<and> rb_status b \<noteq> ''undelivered''
      then [fe ''status'' ''invalid_format'' ''must be delivered or undelivered''] else []) @
     (if parse_RFC3339Nano (rb_reported_at b) = None then [fe ''reported_at'' ''invalid_format'' ''must be an RFC 3339 timestamp''] else [])"

definition validate :: "parsers \<Rightarrow> dlr_handler \<Rightarrow> report_body \<Rightarrow> http_error + report" where
  "validate ps h b =
     (let problems = validate_problems ps h b
      in if problems \<noteq> []
         then Inl \<lparr>he_status = 400, he_code = ''validation_failed'', he_message = ''The delivery report is invalid.'', he_details = problems\<rparr>
         else Inr \<lparr>rp_message_id = the (parse_uuid ps (rb_message_id b)), rp_provider = rb_provider b, rp_provider_ref = rb_provider_ref b,
           rp_status = report_status (rb_status b)\<rparr>)"

text \<open>\<^verbatim>\<open>ServeHTTP\<close> in two parts: what is checked before the report is submitted, and the answer. \<^verbatim>\<open>ConstantTimeCompare\<close> is an
  equality test.\<close>

definition receive :: "parsers \<Rightarrow> dlr_handler \<Rightarrow> string \<Rightarrow> report_body body \<Rightarrow> http_error + report" where
  "receive ps h header b =
     (if header \<noteq> dh_secret h then Inl (NewError 401 ''unauthorized'' ''A valid X-Provider-Secret header is required.'')
      else case DecodeJSON b of
          Inl e \<Rightarrow> Inl e
        | Inr rb \<Rightarrow> validate ps h rb)"

definition ServeHTTP :: "parsers \<Rightarrow> dlr_handler \<Rightarrow> string \<Rightarrow> report_body body \<Rightarrow> (report \<Rightarrow> submit_fate) \<Rightarrow> http_error + dlr_outcome" where
  "ServeHTTP ps h header b fate =
     (case receive ps h header b of
        Inl e \<Rightarrow> Inl e
      | Inr r \<Rightarrow>
          (case Submit (fate r) of
             Inl err \<Rightarrow> Inl (NewError 503 ''unavailable'' ''The report could not be stored; retry later.'')
           | Inr out \<Rightarrow> Inr out))"

definition callback_status :: "http_error + dlr_outcome \<Rightarrow> int" where
  "callback_status r = (case r of Inl e \<Rightarrow> he_status e | Inr out \<Rightarrow> 200)"

subsection \<open>Properties\<close>

lemma validate_Inr:
  assumes "validate ps h b = Inr r"
  shows "rp_status r = StatusDelivered \<or> rp_status r = StatusUndelivered" "rp_provider r \<in> dh_providers h" "rp_provider_ref r \<noteq> []"
  using assms by (auto simp: validate_def validate_problems_def report_status_def Let_def split: if_splits)


subsection \<open>Instances\<close>

definition demo_parsers :: parsers where
  "demo_parsers = \<lparr>parse_uuid = (\<lambda>s. Some 2)\<rparr>"

definition demo_report_body :: "report_body body" where
  "demo_report_body = \<lparr>bd_media_type = Some ''application/json'', bd_decoded = Inr \<lparr>rb_message_id = ''2'', rb_provider = ''p1'',
     rb_provider_ref = ''x9'', rb_status = ''delivered'', rb_reported_at = ''2026-09-21T10:15:30.123Z''\<rparr>, bd_at_end = True\<rparr>"


end
