(* ===== verification/Config.thy ===== *)
theory Config
  imports Complex_Main Gostrings Validate "HOL-Library.State_Monad" "HOL-Library.List_Lexorder" "HOL-Library.Char_ord"
begin

text \<open>
  Configuration: \<^verbatim>\<open>internal/config/env.go\<close> and \<^verbatim>\<open>gateway.go\<close>. The reader collects problems while it parses variables, so it
  is a state monad over the problems found so far. The environment, the parsers of the standard
  library for durations, numbers and URLs, and its text forms of values are parameters.
\<close>

subsection \<open>The reader\<close>

text \<open>A parsed \<^verbatim>\<open>float64\<close>; comparisons with a number that is not one are false.\<close>

datatype go_float = Num rat | PosInf | NegInf | NaN

fun float_less :: "go_float \<Rightarrow> go_float \<Rightarrow> bool" where
  "float_less NaN y = False"
| "float_less x NaN = False"
| "float_less (Num a) (Num b) = (a < b)"
| "float_less NegInf y = (y \<noteq> NegInf)"
| "float_less x PosInf = (x \<noteq> PosInf)"
| "float_less PosInf y = False"
| "float_less x NegInf = False"

record config_lib =
  cl_lookup :: "string \<Rightarrow> string option"
  cl_duration :: "string \<Rightarrow> duration option"
  cl_float :: "string \<Rightarrow> go_float option"
  cl_url :: "string \<Rightarrow> (string \<times> string) option"
  cl_quote :: "string \<Rightarrow> string"
  cl_show_float :: "go_float \<Rightarrow> string"
  cl_show_duration :: "duration \<Rightarrow> string"

type_synonym 'a reader = "(string list, 'a) state"

definition reader_fail :: "string \<Rightarrow> string \<Rightarrow> unit reader" where
  "reader_fail key msg = State_Monad.update (\<lambda>ps. ps @ [key @ '': '' @ msg])"

definition reader_check :: "bool \<Rightarrow> string \<Rightarrow> string \<Rightarrow> unit reader" where
  "reader_check ok key msg = (if \<not> ok then reader_fail key msg else State_Monad.return ())"

definition reader_value :: "config_lib \<Rightarrow> string \<Rightarrow> string option" where
  "reader_value lib key =
     (case cl_lookup lib key of
        None \<Rightarrow> None
      | Some v \<Rightarrow> if TrimSpace v = [] then None else Some (TrimSpace v))"

definition reader_required :: "config_lib \<Rightarrow> string \<Rightarrow> string reader" where
  "reader_required lib key =
     (case reader_value lib key of
        None \<Rightarrow> do { reader_fail key ''is required''; State_Monad.return [] }
      | Some v \<Rightarrow> State_Monad.return v)"

definition reader_string :: "config_lib \<Rightarrow> string \<Rightarrow> string \<Rightarrow> string" where
  "reader_string lib key def = (case reader_value lib key of Some v \<Rightarrow> v | None \<Rightarrow> def)"

fun strings_Join :: "string list \<Rightarrow> string \<Rightarrow> string" where
  "strings_Join [] sep = []"
| "strings_Join [s] sep = s"
| "strings_Join (s # t # ss) sep = s @ sep @ strings_Join (t # ss) sep"

definition reader_oneOf :: "config_lib \<Rightarrow> string \<Rightarrow> string \<Rightarrow> string list \<Rightarrow> string reader" where
  "reader_oneOf lib key def allowed =
     (let v = reader_string lib key def
      in if v \<in> set allowed then State_Monad.return v
         else do {
           reader_fail key (''must be one of '' @ strings_Join allowed '', '' @ '', got '' @ cl_quote lib v);
           State_Monad.return def })"

definition reader_int :: "config_lib \<Rightarrow> string \<Rightarrow> int \<Rightarrow> int \<Rightarrow> int \<Rightarrow> int reader" where
  "reader_int lib key def lo hi =
     (case reader_value lib key of
        None \<Rightarrow> State_Monad.return def
      | Some v \<Rightarrow>
          (case atoi v of
             None \<Rightarrow> do { reader_fail key (''must be an integer, got '' @ cl_quote lib v); State_Monad.return def }
           | Some n \<Rightarrow>
               if n < lo \<or> hi < n
               then do { reader_fail key (''must be between '' @ itoa lo @ '' and '' @ itoa hi @ '', got '' @ itoa n); State_Monad.return def }
               else State_Monad.return n))"

definition reader_float :: "config_lib \<Rightarrow> string \<Rightarrow> go_float \<Rightarrow> go_float \<Rightarrow> go_float \<Rightarrow> go_float reader" where
  "reader_float lib key def lo hi =
     (case reader_value lib key of
        None \<Rightarrow> State_Monad.return def
      | Some v \<Rightarrow>
          (case cl_float lib v of
             None \<Rightarrow> do { reader_fail key (''must be a number, got '' @ cl_quote lib v); State_Monad.return def }
           | Some f \<Rightarrow>
               if float_less f lo \<or> float_less hi f
               then do {
                 reader_fail key (''must be between '' @ cl_show_float lib lo @ '' and '' @ cl_show_float lib hi @ '', got '' @ cl_show_float lib f);
                 State_Monad.return def }
               else State_Monad.return f))"

text \<open>\<^verbatim>\<open>strconv.ParseBool\<close>.\<close>

definition ParseBool :: "string \<Rightarrow> bool option" where
  "ParseBool s =
     (if s \<in> {''1'', ''t'', ''T'', ''TRUE'', ''true'', ''True''} then Some True
      else if s \<in> {''0'', ''f'', ''F'', ''FALSE'', ''false'', ''False''} then Some False
      else None)"

definition reader_bool :: "config_lib \<Rightarrow> string \<Rightarrow> bool \<Rightarrow> bool reader" where
  "reader_bool lib key def =
     (case reader_value lib key of
        None \<Rightarrow> State_Monad.return def
      | Some v \<Rightarrow>
          (case ParseBool v of
             None \<Rightarrow> do { reader_fail key (''must be true or false, got '' @ cl_quote lib v); State_Monad.return def }
           | Some b \<Rightarrow> State_Monad.return b))"

definition reader_duration :: "config_lib \<Rightarrow> string \<Rightarrow> duration \<Rightarrow> duration reader" where
  "reader_duration lib key def =
     (case reader_value lib key of
        None \<Rightarrow> State_Monad.return def
      | Some v \<Rightarrow>
          (case cl_duration lib v of
             None \<Rightarrow> do { reader_fail key (''must be a duration such as 500ms or 10s, got '' @ cl_quote lib v); State_Monad.return def }
           | Some d \<Rightarrow>
               if d \<le> 0 then do { reader_fail key (''must be positive, got '' @ v); State_Monad.return def }
               else State_Monad.return d))"

subsection \<open>The gateway\<close>

record database_config =
  dbc_url :: string
  dbc_max_conns :: int

record api_config =
  apc_instances :: int
  apc_default_rate_limit_rps :: int
  apc_key_cache_ttl :: duration
  apc_price_normal :: int
  apc_price_express :: int
  apc_max_segments :: int

record provider_config =
  pvc_name :: string
  pvc_url :: string

record providers_config =
  psc_list :: "provider_config list"
  psc_secret :: string
  psc_rate_limit :: int
  psc_express_reserved_ratio :: go_float
  psc_circuit_failure_threshold :: int
  psc_circuit_open_duration :: duration

record workers_config =
  wkc_normal_lanes :: int
  wkc_normal_concurrency :: int
  wkc_express_concurrency :: int
  wkc_claim_batch_size :: int
  wkc_lease_duration :: duration
  wkc_poll_interval :: duration
  wkc_completer_batch_size :: int
  wkc_completer_flush_interval :: duration
  wkc_heartbeat_interval :: duration
  wkc_sweep_interval :: duration

record class_policy =
  clp_max_attempts :: int
  clp_backoff_base :: duration
  clp_backoff_max :: duration
  clp_ttl :: duration
  clp_timeout :: duration

record gateway_config =
  gw_database :: database_config
  gw_log_level :: string
  gw_shutdown_timeout :: duration
  gw_http_addr :: string
  gw_admin_addr :: string
  gw_worker_addr :: string
  gw_admin_token :: string
  gw_api :: api_config
  gw_providers :: providers_config
  gw_dispatch :: workers_config
  gw_normal :: class_policy
  gw_express :: class_policy
  gw_express_sla :: duration
  gw_dlr_batch_size :: int
  gw_dlr_flush_interval :: duration

definition readDatabase :: "config_lib \<Rightarrow> database_config reader" where
  "readDatabase lib = do {
     url \<leftarrow> reader_required lib ''DATABASE_URL'';
     conns \<leftarrow> reader_int lib ''DB_MAX_CONNS'' 20 1 1000;
     State_Monad.return \<lparr>dbc_url = url, dbc_max_conns = conns\<rparr> }"

definition readAPI :: "config_lib \<Rightarrow> api_config reader" where
  "readAPI lib = do {
     instances \<leftarrow> reader_int lib ''API_INSTANCES'' 1 1 10000;
     rps \<leftarrow> reader_int lib ''DEFAULT_RATE_LIMIT_RPS'' 100 1 100000;
     cache \<leftarrow> reader_duration lib ''KEY_CACHE_TTL'' (30 * second);
     normal \<leftarrow> reader_int lib ''PRICE_NORMAL'' 1 1 1000000;
     express \<leftarrow> reader_int lib ''PRICE_EXPRESS'' 3 1 1000000;
     segments \<leftarrow> reader_int lib ''MAX_SEGMENTS'' 10 1 10;
     State_Monad.return \<lparr>apc_instances = instances, apc_default_rate_limit_rps = rps, apc_key_cache_ttl = cache, apc_price_normal = normal,
       apc_price_express = express, apc_max_segments = segments\<rparr> }"

text \<open>\<^verbatim>\<open>strings.Split(raw, ",")\<close>, \<^verbatim>\<open>strings.TrimSuffix(url, "/")\<close> and the name pattern \<^verbatim>\<open>^[A-Za-z0-9_-]{1,32}$\<close>.\<close>

fun Split :: "char \<Rightarrow> string \<Rightarrow> string list" where
  "Split sep [] = [[]]"
| "Split sep (c # s) =
     (if c = sep then [] # Split sep s
      else case Split sep s of
          [] \<Rightarrow> [[c]]
        | t # ts \<Rightarrow> (c # t) # ts)"

definition TrimSuffix :: "string \<Rightarrow> char \<Rightarrow> string" where
  "TrimSuffix s c = (if s \<noteq> [] \<and> last s = c then butlast s else s)"

definition is_provider_char :: "char \<Rightarrow> bool" where
  "is_provider_char c \<longleftrightarrow> is_digit c \<or> (65 \<le> (of_char c :: nat) \<and> (of_char c :: nat) \<le> 90) \<or>
     (97 \<le> (of_char c :: nat) \<and> (of_char c :: nat) \<le> 122) \<or> c = CHR ''_'' \<or> c = CHR ''-''"

definition valid_provider_name :: "string \<Rightarrow> bool" where
  "valid_provider_name s \<longleftrightarrow> list_all is_provider_char s \<and> 1 \<le> length s \<and> length s \<le> 32"

definition parse_entry :: "config_lib \<Rightarrow> string list \<Rightarrow> string \<Rightarrow> string + provider_config" where
  "parse_entry lib seen entry =
     (case Cut (CHR ''='') (TrimSpace entry) of
        None \<Rightarrow> Inl (''entry '' @ cl_quote lib entry @ '' must have the form NAME=URL'')
      | Some (name, rawURL) \<Rightarrow>
          if \<not> valid_provider_name name
          then Inl (''provider name '' @ cl_quote lib name @ '' must match ^[A-Za-z0-9_-]{1,32}$'')
          else if name \<in> set seen then Inl (''provider name '' @ cl_quote lib name @ '' is listed twice'')
          else case cl_url lib rawURL of
              Some (scheme, host) \<Rightarrow>
                if (scheme = ''http'' \<or> scheme = ''https'') \<and> host \<noteq> []
                then Inr \<lparr>pvc_name = name, pvc_url = TrimSuffix rawURL (CHR ''/'')\<rparr>
                else Inl (''provider '' @ name @ '': '' @ cl_quote lib rawURL @ '' is not an absolute http or https URL'')
            | None \<Rightarrow> Inl (''provider '' @ name @ '': '' @ cl_quote lib rawURL @ '' is not an absolute http or https URL''))"

fun parse_entries :: "config_lib \<Rightarrow> string \<Rightarrow> string list \<Rightarrow> provider_config list \<Rightarrow> provider_config list reader" where
  "parse_entries lib key [] list = State_Monad.return list"
| "parse_entries lib key (e # es) list =
     (case parse_entry lib (map pvc_name list) e of
        Inl msg \<Rightarrow> do { reader_fail key msg; parse_entries lib key es list }
      | Inr p \<Rightarrow> parse_entries lib key es (list @ [p]))"

definition parseProviders :: "config_lib \<Rightarrow> string \<Rightarrow> provider_config list reader" where
  "parseProviders lib key = do {
     raw \<leftarrow> reader_required lib key;
     if raw = [] then State_Monad.return [] else parse_entries lib key (Split (CHR '','') raw) [] }"

definition readProviders :: "config_lib \<Rightarrow> providers_config reader" where
  "readProviders lib = do {
     list \<leftarrow> parseProviders lib ''PROVIDERS'';
     secret \<leftarrow> reader_required lib ''PROVIDER_SECRET'';
     limit \<leftarrow> reader_int lib ''PROVIDER_RATE_LIMIT'' 500 1 1000000;
     ratio \<leftarrow> reader_float lib ''EXPRESS_RESERVED_RATIO'' (Num (2 / 10)) (Num 0) (Num 1);
     threshold \<leftarrow> reader_int lib ''CIRCUIT_FAILURE_THRESHOLD'' 20 1 100000;
     openFor \<leftarrow> reader_duration lib ''CIRCUIT_OPEN_DURATION'' (10 * second);
     State_Monad.return \<lparr>psc_list = list, psc_secret = secret, psc_rate_limit = limit, psc_express_reserved_ratio = ratio,
       psc_circuit_failure_threshold = threshold, psc_circuit_open_duration = openFor\<rparr> }"

definition readDispatch :: "config_lib \<Rightarrow> workers_config reader" where
  "readDispatch lib = do {
     lanes \<leftarrow> reader_int lib ''NORMAL_LANES'' 16 1 1024;
     normal \<leftarrow> reader_int lib ''NORMAL_CONCURRENCY'' 256 1 100000;
     express \<leftarrow> reader_int lib ''EXPRESS_CONCURRENCY'' 64 1 100000;
     claims \<leftarrow> reader_int lib ''CLAIM_BATCH_SIZE'' 200 1 10000;
     lease \<leftarrow> reader_duration lib ''LEASE_DURATION'' (30 * second);
     poll \<leftarrow> reader_duration lib ''POLL_INTERVAL'' (100 * millisecond);
     batch \<leftarrow> reader_int lib ''COMPLETER_BATCH_SIZE'' 200 1 10000;
     interval \<leftarrow> reader_duration lib ''COMPLETER_FLUSH_INTERVAL'' (50 * millisecond);
     heartbeat \<leftarrow> reader_duration lib ''HEARTBEAT_INTERVAL'' (5 * second);
     sweep \<leftarrow> reader_duration lib ''SWEEP_INTERVAL'' (10 * second);
     State_Monad.return \<lparr>wkc_normal_lanes = lanes, wkc_normal_concurrency = normal, wkc_express_concurrency = express,
       wkc_claim_batch_size = claims, wkc_lease_duration = lease, wkc_poll_interval = poll, wkc_completer_batch_size = batch,
       wkc_completer_flush_interval = interval, wkc_heartbeat_interval = heartbeat, wkc_sweep_interval = sweep\<rparr> }"

definition readNormal :: "config_lib \<Rightarrow> class_policy reader" where
  "readNormal lib = do {
     attempts \<leftarrow> reader_int lib ''NORMAL_MAX_ATTEMPTS'' 8 1 100;
     base \<leftarrow> reader_duration lib ''NORMAL_BACKOFF_BASE'' (5 * second);
     most \<leftarrow> reader_duration lib ''NORMAL_BACKOFF_MAX'' (10 * minute);
     ttl \<leftarrow> reader_duration lib ''NORMAL_TTL'' (24 * hour);
     timeout \<leftarrow> reader_duration lib ''NORMAL_TIMEOUT'' (5 * second);
     State_Monad.return \<lparr>clp_max_attempts = attempts, clp_backoff_base = base, clp_backoff_max = most, clp_ttl = ttl, clp_timeout = timeout\<rparr> }"

definition readExpress :: "config_lib \<Rightarrow> class_policy reader" where
  "readExpress lib = do {
     attempts \<leftarrow> reader_int lib ''EXPRESS_MAX_ATTEMPTS'' 5 1 100;
     base \<leftarrow> reader_duration lib ''EXPRESS_BACKOFF_BASE'' second;
     most \<leftarrow> reader_duration lib ''EXPRESS_BACKOFF_MAX'' (10 * second);
     ttl \<leftarrow> reader_duration lib ''EXPRESS_TTL'' (5 * minute);
     timeout \<leftarrow> reader_duration lib ''EXPRESS_TIMEOUT'' (2 * second);
     State_Monad.return \<lparr>clp_max_attempts = attempts, clp_backoff_base = base, clp_backoff_max = most, clp_ttl = ttl, clp_timeout = timeout\<rparr> }"

text \<open>\<^verbatim>\<open>validateGateway\<close>; tripling the timeout wraps around at 64 bits.\<close>

definition validateGateway :: "config_lib \<Rightarrow> gateway_config \<Rightarrow> unit reader" where
  "validateGateway lib c =
     (let triple = wrap64 (3 * max (clp_timeout (gw_normal c)) (clp_timeout (gw_express c)))
      in do {
        reader_check (triple \<le> wkc_lease_duration (gw_dispatch c)) ''LEASE_DURATION''
          (''must be at least 3 '' @ [CHR 0xC3, CHR 0x97] @ '' the largest provider timeout ('' @ cl_show_duration lib triple @ ''), got '' @
             cl_show_duration lib (wkc_lease_duration (gw_dispatch c)));
        reader_check (clp_backoff_base (gw_normal c) \<le> clp_backoff_max (gw_normal c)) ''NORMAL_BACKOFF_BASE''
          ''must not exceed NORMAL_BACKOFF_MAX'';
        reader_check (clp_backoff_base (gw_express c) \<le> clp_backoff_max (gw_express c)) ''EXPRESS_BACKOFF_BASE''
          ''must not exceed EXPRESS_BACKOFF_MAX'';
        reader_check (clp_timeout (gw_express c) \<le> gw_express_sla c) ''EXPRESS_TIMEOUT'' ''must not exceed EXPRESS_SLA'' })"

definition readGateway :: "config_lib \<Rightarrow> gateway_config reader" where
  "readGateway lib = do {
     database \<leftarrow> readDatabase lib;
     level \<leftarrow> reader_oneOf lib ''LOG_LEVEL'' ''info'' [''debug'', ''info'', ''warn'', ''error''];
     shutdown \<leftarrow> reader_duration lib ''SHUTDOWN_TIMEOUT'' (10 * second);
     token \<leftarrow> reader_required lib ''ADMIN_TOKEN'';
     api \<leftarrow> readAPI lib;
     providers \<leftarrow> readProviders lib;
     dispatch \<leftarrow> readDispatch lib;
     normal \<leftarrow> readNormal lib;
     express \<leftarrow> readExpress lib;
     sla \<leftarrow> reader_duration lib ''EXPRESS_SLA'' (30 * second);
     batch \<leftarrow> reader_int lib ''DLR_BATCH_SIZE'' 500 1 10000;
     interval \<leftarrow> reader_duration lib ''DLR_FLUSH_INTERVAL'' (50 * millisecond);
     State_Monad.return \<lparr>gw_database = database, gw_log_level = level, gw_shutdown_timeout = shutdown,
       gw_http_addr = reader_string lib ''HTTP_ADDR'' '':8080'', gw_admin_addr = reader_string lib ''ADMIN_ADDR'' '':8081'',
       gw_worker_addr = reader_string lib ''WORKER_ADDR'' '':8082'', gw_admin_token = token, gw_api = api, gw_providers = providers,
       gw_dispatch = dispatch, gw_normal = normal, gw_express = express, gw_express_sla = sla, gw_dlr_batch_size = batch,
       gw_dlr_flush_interval = interval\<rparr> }"

text \<open>\<^verbatim>\<open>LoadGateway\<close> and \<^verbatim>\<open>LoadDatabase\<close>: the configuration, or every problem, sorted.\<close>

definition load :: "'a reader \<Rightarrow> string list + 'a" where
  "load m = (case run_state m [] of (c, ps) \<Rightarrow> if ps = [] then Inr c else Inl (sort ps))"

definition LoadDatabase :: "config_lib \<Rightarrow> string list + database_config" where
  "LoadDatabase lib = load (readDatabase lib)"

definition LoadGateway :: "config_lib \<Rightarrow> string list + gateway_config" where
  "LoadGateway lib = load (do { c \<leftarrow> readGateway lib; validateGateway lib c; State_Monad.return c })"

subsection \<open>The invariant checker and the simulated operator\<close>

text \<open>\<^verbatim>\<open>check.go\<close> and \<^verbatim>\<open>fakeprovider.go\<close>.\<close>

record check_settings =
  ckc_database :: database_config
  ckc_lease_duration :: duration
  ckc_sweep_interval :: duration

definition LoadCheck :: "config_lib \<Rightarrow> string list + check_settings" where
  "LoadCheck lib = load (do {
     database \<leftarrow> readDatabase lib;
     lease \<leftarrow> reader_duration lib ''LEASE_DURATION'' (30 * second);
     sweep \<leftarrow> reader_duration lib ''SWEEP_INTERVAL'' (10 * second);
     State_Monad.return \<lparr>ckc_database = database, ckc_lease_duration = lease, ckc_sweep_interval = sweep\<rparr> })"

record simulation =
  sim_latency_ms :: int
  sim_jitter_ms :: int
  sim_failure_rate :: go_float
  sim_timeout_rate :: go_float
  sim_reject_rate :: go_float
  sim_outage :: bool
  sim_delivery_ratio :: go_float
  sim_dlr_delay_ms :: int
  sim_dlr_jitter_ms :: int

record fake_config =
  fkc_name :: string
  fkc_addr :: string
  fkc_gateway_dlr_url :: string
  fkc_secret :: string
  fkc_log_level :: string
  fkc_simulation :: simulation

definition readSimulation :: "config_lib \<Rightarrow> simulation reader" where
  "readSimulation lib = do {
     latency \<leftarrow> reader_int lib ''SIM_LATENCY_MS'' 50 0 60000;
     jitter \<leftarrow> reader_int lib ''SIM_JITTER_MS'' 50 0 60000;
     failure \<leftarrow> reader_float lib ''SIM_FAILURE_RATE'' (Num 0) (Num 0) (Num 1);
     timeout \<leftarrow> reader_float lib ''SIM_TIMEOUT_RATE'' (Num 0) (Num 0) (Num 1);
     reject \<leftarrow> reader_float lib ''SIM_REJECT_RATE'' (Num 0) (Num 0) (Num 1);
     outage \<leftarrow> reader_bool lib ''SIM_OUTAGE'' False;
     delivery \<leftarrow> reader_float lib ''SIM_DELIVERY_RATIO'' (Num (95 / 100)) (Num 0) (Num 1);
     delay \<leftarrow> reader_int lib ''SIM_DLR_DELAY_MS'' 1000 0 60000;
     dlr_jitter \<leftarrow> reader_int lib ''SIM_DLR_JITTER_MS'' 500 0 60000;
     State_Monad.return \<lparr>sim_latency_ms = latency, sim_jitter_ms = jitter, sim_failure_rate = failure, sim_timeout_rate = timeout,
       sim_reject_rate = reject, sim_outage = outage, sim_delivery_ratio = delivery, sim_dlr_delay_ms = delay, sim_dlr_jitter_ms = dlr_jitter\<rparr> }"

definition readFakeProvider :: "config_lib \<Rightarrow> fake_config reader" where
  "readFakeProvider lib = do {
     name \<leftarrow> reader_required lib ''PROVIDER_NAME'';
     url \<leftarrow> reader_required lib ''GATEWAY_DLR_URL'';
     secret \<leftarrow> reader_required lib ''PROVIDER_SECRET'';
     level \<leftarrow> reader_oneOf lib ''LOG_LEVEL'' ''info'' [''debug'', ''info'', ''warn'', ''error''];
     sim \<leftarrow> readSimulation lib;
     State_Monad.return \<lparr>fkc_name = name, fkc_addr = reader_string lib ''PROVIDER_ADDR'' '':9001'', fkc_gateway_dlr_url = url,
       fkc_secret = secret, fkc_log_level = level, fkc_simulation = sim\<rparr> }"

definition absolute_url :: "config_lib \<Rightarrow> string \<Rightarrow> bool" where
  "absolute_url lib raw \<longleftrightarrow>
     (case cl_url lib raw of None \<Rightarrow> False | Some (scheme, host) \<Rightarrow> (scheme = ''http'' \<or> scheme = ''https'') \<and> host \<noteq> [])"

definition LoadFakeProvider :: "config_lib \<Rightarrow> string list + fake_config" where
  "LoadFakeProvider lib = load (do {
     c \<leftarrow> readFakeProvider lib;
     reader_check (\<not> (fkc_name c \<noteq> [] \<and> \<not> valid_provider_name (fkc_name c))) ''PROVIDER_NAME'' ''must match ^[A-Za-z0-9_-]{1,32}$'';
     reader_check (\<not> (fkc_gateway_dlr_url c \<noteq> [] \<and> \<not> absolute_url lib (fkc_gateway_dlr_url c))) ''GATEWAY_DLR_URL''
       ''must be an absolute http or https URL'';
     State_Monad.return c })"

subsection \<open>What reading yields\<close>

text \<open>Readers only add problems; \<open>yields P m\<close> says that \<open>m\<close>, when it adds none, returns a value with \<open>P\<close>.\<close>

definition appends :: "'a reader \<Rightarrow> bool" where
  "appends m \<longleftrightarrow> (\<forall>ps. \<exists>qs. snd (run_state m ps) = ps @ qs)"

definition yields :: "('a \<Rightarrow> bool) \<Rightarrow> 'a reader \<Rightarrow> bool" where
  "yields P m \<longleftrightarrow> appends m \<and> (\<forall>ps. snd (run_state m ps) = ps \<longrightarrow> P (fst (run_state m ps)))"

lemma run_bind: "run_state (State_Monad.bind m f) ps = run_state (f (fst (run_state m ps))) (snd (run_state m ps))"
  by (simp add: State_Monad.bind_def split_beta Let_def)

lemma run_return: "run_state (State_Monad.return x) ps = (x, ps)"
  by (simp add: State_Monad.return_def)

lemma run_fail: "run_state (reader_fail key msg) ps = ((), ps @ [key @ '': '' @ msg])"
  by (simp add: reader_fail_def State_Monad.update_def run_bind State_Monad.get_def State_Monad.set_def)

lemmas run_simps = run_bind run_return run_fail

lemma yields_return: "P x \<Longrightarrow> yields P (State_Monad.return x)"
  by (simp add: yields_def appends_def run_simps)

lemma yields_appends: "yields P m \<Longrightarrow> appends m"
  by (simp add: yields_def)

lemma yields_bind:
  assumes m: "yields P m" and f: "\<And>x. appends (f x)" "\<And>x. P x \<Longrightarrow> yields Q (f x)"
  shows "yields Q (State_Monad.bind m f)"
  unfolding yields_def
proof (intro conjI allI impI)
  have step: "\<exists>qs rs. snd (run_state m ps) = ps @ qs \<and> snd (run_state (State_Monad.bind m f) ps) = ps @ qs @ rs" for ps
  proof -
    obtain qs where qs: "snd (run_state m ps) = ps @ qs" using m by (auto simp: yields_def appends_def)
    obtain rs where "snd (run_state (f (fst (run_state m ps))) (ps @ qs)) = (ps @ qs) @ rs" using f(1) unfolding appends_def by blast
    with qs show ?thesis unfolding run_bind by auto
  qed
  then show "appends (State_Monad.bind m f)" unfolding appends_def by metis
  fix ps assume ps: "snd (run_state (State_Monad.bind m f) ps) = ps"
  with step [of ps] have "snd (run_state m ps) = ps" by auto
  with m have "P (fst (run_state m ps))" by (auto simp: yields_def)
  with f(2) ps \<open>snd (run_state m ps) = ps\<close> show "Q (fst (run_state (State_Monad.bind m f) ps))"
    unfolding run_bind by (auto simp: yields_def)
qed

lemma yields_True: "appends m \<Longrightarrow> yields (\<lambda>x. True) m"
  by (simp add: yields_def)

lemma appends_bind: "appends m \<Longrightarrow> (\<And>x. appends (f x)) \<Longrightarrow> appends (State_Monad.bind m f)"
  by (rule yields_appends [OF yields_bind [OF yields_True]]) (auto intro: yields_True)

lemma appends_return: "appends (State_Monad.return x)"
  by (simp add: appends_def run_simps)

named_theorems readers \<open>what the readers of variables yield\<close>

lemma reader_check_yields [readers]: "yields (\<lambda>u. ok) (reader_check ok key msg)"
  by (simp add: yields_def appends_def reader_check_def run_simps)

lemma reader_required_yields [readers]: "yields (\<lambda>v. v \<noteq> []) (reader_required lib key)"
  by (auto simp: yields_def appends_def reader_required_def reader_value_def run_simps split: option.splits)

lemma reader_oneOf_yields [readers]: "yields (\<lambda>v. v \<in> set allowed) (reader_oneOf lib key def allowed)"
  by (auto simp: yields_def appends_def reader_oneOf_def Let_def run_simps)

lemma reader_int_yields [readers]: "lo \<le> def \<Longrightarrow> def \<le> hi \<Longrightarrow> yields (\<lambda>n. lo \<le> n \<and> n \<le> hi) (reader_int lib key def lo hi)"
  by (auto simp: yields_def appends_def reader_int_def run_simps split: option.splits)

lemma reader_duration_yields [readers]: "0 < def \<Longrightarrow> yields (\<lambda>d. 0 < d) (reader_duration lib key def)"
  by (auto simp: yields_def appends_def reader_duration_def run_simps split: option.splits)

lemma reader_float_yields [readers]:
  "\<not> float_less def lo \<Longrightarrow> \<not> float_less hi def \<Longrightarrow> yields (\<lambda>f. \<not> float_less f lo \<and> \<not> float_less hi f) (reader_float lib key def lo hi)"
  by (auto simp: yields_def appends_def reader_float_def run_simps split: option.splits)

text \<open>The list of providers: distinct, well-formed names and, if nothing was wrong, at least one.\<close>

definition providers_ok :: "provider_config list \<Rightarrow> bool" where
  "providers_ok ps \<longleftrightarrow> ps \<noteq> [] \<and> distinct (map pvc_name ps) \<and> list_all valid_provider_name (map pvc_name ps)"

lemma Split_ne: "Split sep s \<noteq> []"
  by (induction s) (auto split: list.splits)

lemma parse_entry_Inr:
  "parse_entry lib seen e = Inr p \<Longrightarrow> pvc_name p \<notin> set seen \<and> valid_provider_name (pvc_name p)"
  by (auto simp: parse_entry_def split: option.splits prod.splits if_splits)

lemma parse_entries_yields:
  assumes "distinct (map pvc_name list)" "list_all valid_provider_name (map pvc_name list)"
  shows "yields (\<lambda>ps. length ps = length list + length es \<and> distinct (map pvc_name ps) \<and> list_all valid_provider_name (map pvc_name ps))
    (parse_entries lib key es list)"
  using assms
proof (induction lib key es list rule: parse_entries.induct)
  case (1 lib key list)
  then show ?case by (simp add: yields_return)
next
  case (2 lib key e es list)
  show ?case
  proof (cases "parse_entry lib (map pvc_name list) e")
    case (Inl msg)
    have "yields (\<lambda>u. False) (reader_fail key msg)" by (simp add: yields_def appends_def run_simps)
    then have "yields (\<lambda>ps. length ps = length list + length (e # es) \<and> distinct (map pvc_name ps) \<and> list_all valid_provider_name (map pvc_name ps))
        (State_Monad.bind (reader_fail key msg) (\<lambda>u. parse_entries lib key es list))"
      by (rule yields_bind) (use yields_appends [OF "2.IH"(1) [OF Inl "2.prems"]] in auto)
    with Inl show ?thesis by simp
  next
    case (Inr p)
    with parse_entry_Inr [OF Inr] "2.prems" have "yields (\<lambda>ps. length ps = length (list @ [p]) + length es \<and> distinct (map pvc_name ps) \<and>
        list_all valid_provider_name (map pvc_name ps)) (parse_entries lib key es (list @ [p]))"
      by (intro "2.IH"(2)) simp_all
    with Inr show ?thesis by simp
  qed
qed

lemma parseProviders_yields [readers]: "yields providers_ok (parseProviders lib key)"
  unfolding parseProviders_def
proof (rule yields_bind [OF reader_required_yields])
  have entries: "yields providers_ok (parse_entries lib key (Split (CHR '','') raw) [])" for raw
    using parse_entries_yields [of "[]" "Split (CHR '','') raw" lib key] Split_ne [of "CHR '',''" raw]
    by (auto simp: yields_def providers_ok_def)
  show "appends (if raw = [] then State_Monad.return [] else parse_entries lib key (Split (CHR '','') raw) [])" for raw
    using yields_appends [OF entries] by (simp add: appends_return)
  show "yields providers_ok (if raw = [] then State_Monad.return [] else parse_entries lib key (Split (CHR '','') raw) [])" if "raw \<noteq> []" for raw
    using entries that by simp
qed

text \<open>What the parts of a configuration satisfy.\<close>

definition api_ok :: "api_config \<Rightarrow> bool" where
  "api_ok c \<longleftrightarrow> 1 \<le> apc_instances c \<and> 1 \<le> apc_default_rate_limit_rps c \<and> apc_default_rate_limit_rps c \<le> 100000 \<and>
     0 < apc_key_cache_ttl c \<and> 1 \<le> apc_price_normal c \<and> apc_price_normal c \<le> 1000000 \<and> 1 \<le> apc_price_express c \<and>
     apc_price_express c \<le> 1000000 \<and> 1 \<le> apc_max_segments c \<and> apc_max_segments c \<le> 10"

definition providers_config_ok :: "providers_config \<Rightarrow> bool" where
  "providers_config_ok c \<longleftrightarrow> providers_ok (psc_list c) \<and> psc_secret c \<noteq> [] \<and> 1 \<le> psc_rate_limit c \<and>
     1 \<le> psc_circuit_failure_threshold c \<and> 0 < psc_circuit_open_duration c \<and>
     \<not> float_less (psc_express_reserved_ratio c) (Num 0) \<and> \<not> float_less (Num 1) (psc_express_reserved_ratio c)"

definition workers_ok :: "workers_config \<Rightarrow> bool" where
  "workers_ok c \<longleftrightarrow> 1 \<le> wkc_normal_lanes c \<and> wkc_normal_lanes c \<le> 1024 \<and> 1 \<le> wkc_normal_concurrency c \<and> 1 \<le> wkc_express_concurrency c \<and>
     1 \<le> wkc_claim_batch_size c \<and> 0 < wkc_lease_duration c \<and> 0 < wkc_poll_interval c \<and> 1 \<le> wkc_completer_batch_size c"

definition class_ok :: "class_policy \<Rightarrow> bool" where
  "class_ok c \<longleftrightarrow> 1 \<le> clp_max_attempts c \<and> clp_max_attempts c \<le> 100 \<and> 0 < clp_backoff_base c \<and> 0 < clp_backoff_max c \<and>
     0 < clp_ttl c \<and> 0 < clp_timeout c"

text \<open>Every reader only adds problems, whatever its bounds; a sequence of readers is analysed one \<open>bind\<close> at a time.\<close>

lemma reader_int_appends: "appends (reader_int lib key def lo hi)"
  by (auto simp: appends_def reader_int_def run_simps split: option.splits)

lemma reader_duration_appends: "appends (reader_duration lib key def)"
  by (auto simp: appends_def reader_duration_def run_simps split: option.splits)

lemma reader_bool_yields: "yields (\<lambda>b. True) (reader_bool lib key def)"
  by (auto simp: yields_def appends_def reader_bool_def run_simps split: option.splits)

lemma reader_float_appends: "appends (reader_float lib key def lo hi)"
  by (auto simp: appends_def reader_float_def run_simps split: option.splits)

lemmas appends_intros = appends_bind appends_return reader_int_appends reader_duration_appends reader_float_appends
  reader_bool_yields [THEN yields_appends] reader_required_yields [THEN yields_appends] reader_oneOf_yields [THEN yields_appends] reader_check_yields [THEN yields_appends]
  parseProviders_yields [THEN yields_appends]

lemmas yields_intros = yields_return reader_bool_yields [THEN yields_bind] reader_int_yields [THEN yields_bind] reader_duration_yields [THEN yields_bind]
  reader_float_yields [THEN yields_bind] reader_required_yields [THEN yields_bind] reader_oneOf_yields [THEN yields_bind]
  reader_check_yields [THEN yields_bind] parseProviders_yields [THEN yields_bind]

lemma readDatabase_yields: "yields (\<lambda>c. dbc_url c \<noteq> [] \<and> 1 \<le> dbc_max_conns c) (readDatabase lib)"
  unfolding readDatabase_def by (intro yields_intros appends_intros) auto

lemma readAPI_yields: "yields api_ok (readAPI lib)"
  unfolding readAPI_def by (intro yields_intros appends_intros) (auto simp: api_ok_def time_unit_defs)

lemma readProviders_yields: "yields providers_config_ok (readProviders lib)"
  unfolding readProviders_def by (intro yields_intros appends_intros) (auto simp: providers_config_ok_def time_unit_defs)

lemma readDispatch_yields: "yields workers_ok (readDispatch lib)"
  unfolding readDispatch_def by (intro yields_intros appends_intros) (auto simp: workers_ok_def time_unit_defs)

lemma readNormal_yields: "yields class_ok (readNormal lib)"
  unfolding readNormal_def by (intro yields_intros appends_intros) (auto simp: class_ok_def time_unit_defs)

lemma readExpress_yields: "yields class_ok (readExpress lib)"
  unfolding readExpress_def by (intro yields_intros appends_intros) (auto simp: class_ok_def time_unit_defs)

lemmas part_yields = readDatabase_yields readAPI_yields readProviders_yields readDispatch_yields readNormal_yields readExpress_yields

definition gateway_ok :: "gateway_config \<Rightarrow> bool" where
  "gateway_ok c \<longleftrightarrow> dbc_url (gw_database c) \<noteq> [] \<and> gw_admin_token c \<noteq> [] \<and> 0 < gw_shutdown_timeout c \<and> api_ok (gw_api c) \<and>
     providers_config_ok (gw_providers c) \<and> workers_ok (gw_dispatch c) \<and> class_ok (gw_normal c) \<and> class_ok (gw_express c) \<and>
     1 \<le> gw_dlr_batch_size c \<and> 0 < gw_dlr_flush_interval c"

definition cross_ok :: "gateway_config \<Rightarrow> bool" where
  "cross_ok c \<longleftrightarrow> wrap64 (3 * max (clp_timeout (gw_normal c)) (clp_timeout (gw_express c))) \<le> wkc_lease_duration (gw_dispatch c) \<and>
     clp_backoff_base (gw_normal c) \<le> clp_backoff_max (gw_normal c) \<and> clp_backoff_base (gw_express c) \<le> clp_backoff_max (gw_express c) \<and>
     clp_timeout (gw_express c) \<le> gw_express_sla c"

lemma readGateway_yields: "yields gateway_ok (readGateway lib)"
  unfolding readGateway_def
  by (intro yields_intros appends_intros part_yields [THEN yields_bind] part_yields [THEN yields_appends])
    (auto simp: gateway_ok_def time_unit_defs)

lemma validateGateway_appends: "appends (validateGateway lib c)"
  unfolding validateGateway_def Let_def by (intro appends_intros)

definition simulation_ok :: "simulation \<Rightarrow> bool" where
  "simulation_ok s \<longleftrightarrow> (\<forall>n\<in>{sim_latency_ms s, sim_jitter_ms s, sim_dlr_delay_ms s, sim_dlr_jitter_ms s}. 0 \<le> n \<and> n \<le> 60000) \<and>
     (\<forall>r\<in>{sim_failure_rate s, sim_timeout_rate s, sim_reject_rate s, sim_delivery_ratio s}. \<not> float_less r (Num 0) \<and> \<not> float_less (Num 1) r)"

lemma readSimulation_yields: "yields simulation_ok (readSimulation lib)"
  unfolding readSimulation_def by (intro yields_intros appends_intros) (simp_all add: simulation_ok_def)

lemma readFakeProvider_yields: "yields (\<lambda>c. fkc_name c \<noteq> [] \<and> fkc_gateway_dlr_url c \<noteq> [] \<and> fkc_secret c \<noteq> [] \<and>
    simulation_ok (fkc_simulation c)) (readFakeProvider lib)"
  unfolding readFakeProvider_def
  by (intro yields_intros appends_intros readSimulation_yields [THEN yields_bind] readSimulation_yields [THEN yields_appends]) simp_all

lemma yields_mono: "yields P m \<Longrightarrow> (\<And>x. P x \<Longrightarrow> Q x) \<Longrightarrow> yields Q m"
  by (simp add: yields_def)

lemma validateGateway_yields: "yields (\<lambda>u. cross_ok c) (validateGateway lib c)"
  unfolding validateGateway_def Let_def
  by (intro yields_intros appends_intros yields_mono [OF reader_check_yields]) (auto simp: cross_ok_def)

lemma load_yields: "yields P m \<Longrightarrow> load m = Inr c \<Longrightarrow> P c"
  unfolding yields_def load_def by (auto split: prod.splits if_splits dest: spec [of _ "[]"])

lemma LoadFakeProvider_checked:
  assumes "LoadFakeProvider lib = Inr c"
  shows "valid_provider_name (fkc_name c) \<and> absolute_url lib (fkc_gateway_dlr_url c) \<and> simulation_ok (fkc_simulation c)"
  using assms unfolding LoadFakeProvider_def
  by (rule load_yields [rotated])
    (intro yields_intros appends_intros readFakeProvider_yields [THEN yields_bind] conjI; simp)

lemma LoadGateway_checked:
  assumes "LoadGateway lib = Inr c"
  shows "gateway_ok c \<and> cross_ok c"
proof -
  let ?m = "State_Monad.bind (readGateway lib) (\<lambda>c. State_Monad.bind (validateGateway lib c) (\<lambda>u. State_Monad.return c))"
  have "yields (\<lambda>c. gateway_ok c \<and> cross_ok c) ?m"
    by (intro yields_bind [OF readGateway_yields] yields_bind [OF validateGateway_yields] appends_bind validateGateway_appends
        appends_return yields_return conjI)
  with assms show ?thesis unfolding LoadGateway_def by (rule load_yields [rotated])
qed

subsection \<open>What is reported\<close>

text \<open>The variables of a gateway, each with what it has to satisfy on its own.\<close>

datatype variable = RequiredVar string | OneOfVar string string "string list" | IntVar string int int
  | FloatVar string go_float go_float | DurationVar string | ProvidersVar string

fun var_key :: "variable \<Rightarrow> string" where
  "var_key (RequiredVar k) = k"
| "var_key (OneOfVar k def allowed) = k"
| "var_key (IntVar k lo hi) = k"
| "var_key (FloatVar k lo hi) = k"
| "var_key (DurationVar k) = k"
| "var_key (ProvidersVar k) = k"

definition entry_name :: "string \<Rightarrow> string" where
  "entry_name e = (case Cut (CHR ''='') (TrimSpace e) of None \<Rightarrow> [] | Some (name, rawURL) \<Rightarrow> name)"

definition entry_ok :: "config_lib \<Rightarrow> string \<Rightarrow> bool" where
  "entry_ok lib e \<longleftrightarrow> (case Cut (CHR ''='') (TrimSpace e) of
     None \<Rightarrow> False
   | Some (name, rawURL) \<Rightarrow> valid_provider_name name \<and>
       (case cl_url lib rawURL of None \<Rightarrow> False | Some (scheme, host) \<Rightarrow> scheme \<in> {''http'', ''https''} \<and> host \<noteq> []))"

fun var_ok :: "config_lib \<Rightarrow> variable \<Rightarrow> bool" where
  "var_ok lib (RequiredVar k) = (reader_value lib k \<noteq> None)"
| "var_ok lib (OneOfVar k def allowed) = (case reader_value lib k of None \<Rightarrow> def \<in> set allowed | Some v \<Rightarrow> v \<in> set allowed)"
| "var_ok lib (IntVar k lo hi) = (case reader_value lib k of None \<Rightarrow> True | Some v \<Rightarrow>
     (case atoi v of None \<Rightarrow> False | Some n \<Rightarrow> lo \<le> n \<and> n \<le> hi))"
| "var_ok lib (FloatVar k lo hi) = (case reader_value lib k of None \<Rightarrow> True | Some v \<Rightarrow>
     (case cl_float lib v of None \<Rightarrow> False | Some f \<Rightarrow> \<not> float_less f lo \<and> \<not> float_less hi f))"
| "var_ok lib (DurationVar k) = (case reader_value lib k of None \<Rightarrow> True | Some v \<Rightarrow>
     (case cl_duration lib v of None \<Rightarrow> False | Some d \<Rightarrow> 0 < d))"
| "var_ok lib (ProvidersVar k) = (case reader_value lib k of None \<Rightarrow> False | Some v \<Rightarrow>
     list_all (entry_ok lib) (Split (CHR '','') v) \<and> distinct (map entry_name (Split (CHR '','') v)))"

text \<open>\<open>covers lib V m\<close>: \<open>m\<close> blames every variable of \<open>V\<close> that is not valid, and is silent if all are.\<close>

definition blamed :: "string \<Rightarrow> string list \<Rightarrow> bool" where
  "blamed key ps \<longleftrightarrow> (\<exists>msg. key @ '': '' @ msg \<in> set ps)"

definition covers :: "config_lib \<Rightarrow> variable list \<Rightarrow> 'a reader \<Rightarrow> bool" where
  "covers lib V m \<longleftrightarrow> (\<forall>ps. \<exists>qs. snd (run_state m ps) = ps @ qs \<and>
     (\<forall>v\<in>set V. \<not> var_ok lib v \<longrightarrow> blamed (var_key v) qs) \<and> ((\<forall>v\<in>set V. var_ok lib v) \<longrightarrow> qs = []))"

lemma covers_return: "covers lib [] (State_Monad.return x)"
  by (simp add: covers_def run_simps)

lemma blamed_append [simp]: "blamed key (ps @ qs) \<longleftrightarrow> blamed key ps \<or> blamed key qs"
  by (auto simp: blamed_def)

lemma blamed_single [simp]: "blamed key [key @ CHR '':'' # CHR '' '' # msg]"
  by (auto simp: blamed_def)

lemma covers_bind:
  assumes m: "covers lib V m" and f: "\<And>x. covers lib W (f x)"
  shows "covers lib (V @ W) (State_Monad.bind m f)"
  unfolding covers_def
proof
  fix ps
  obtain qs where qs: "snd (run_state m ps) = ps @ qs" "\<forall>v\<in>set V. \<not> var_ok lib v \<longrightarrow> blamed (var_key v) qs"
    "(\<forall>v\<in>set V. var_ok lib v) \<longrightarrow> qs = []" using m unfolding covers_def by blast
  obtain rs where rs: "snd (run_state (f (fst (run_state m ps))) (ps @ qs)) = (ps @ qs) @ rs"
    "\<forall>v\<in>set W. \<not> var_ok lib v \<longrightarrow> blamed (var_key v) rs" "(\<forall>v\<in>set W. var_ok lib v) \<longrightarrow> rs = []"
    using f unfolding covers_def by blast
  have "snd (run_state (State_Monad.bind m f) ps) = ps @ qs @ rs" using qs(1) rs(1) unfolding run_bind by simp
  with qs(2,3) rs(2,3) show "\<exists>qs. snd (run_state (State_Monad.bind m f) ps) = ps @ qs \<and>
      (\<forall>v\<in>set (V @ W). \<not> var_ok lib v \<longrightarrow> blamed (var_key v) qs) \<and> ((\<forall>v\<in>set (V @ W). var_ok lib v) \<longrightarrow> qs = [])"
    by (intro exI [of _ "qs @ rs"]) auto
qed

lemma covers_required: "covers lib [RequiredVar key] (reader_required lib key)"
  by (auto simp: covers_def reader_required_def run_simps split: option.splits)

lemma covers_oneOf: "covers lib [OneOfVar key def allowed] (reader_oneOf lib key def allowed)"
  by (auto simp: covers_def reader_oneOf_def reader_string_def Let_def run_simps split: option.splits)

lemma covers_int: "covers lib [IntVar key lo hi] (reader_int lib key def lo hi)"
  by (auto simp: covers_def reader_int_def run_simps split: option.splits)

lemma covers_float: "covers lib [FloatVar key lo hi] (reader_float lib key def lo hi)"
  by (auto simp: covers_def reader_float_def run_simps split: option.splits)

lemma covers_duration: "covers lib [DurationVar key] (reader_duration lib key def)"
  by (auto simp: covers_def reader_duration_def run_simps split: option.splits)

text \<open>The list of providers.\<close>

lemma parse_entry_ok: "(\<exists>p. parse_entry lib seen e = Inr p \<and> pvc_name p = entry_name e) \<longleftrightarrow> entry_ok lib e \<and> entry_name e \<notin> set seen"
  by (auto simp: parse_entry_def entry_ok_def entry_name_def split: option.splits prod.splits)

lemma parse_entry_bad: "\<not> (entry_ok lib e \<and> entry_name e \<notin> set seen) \<Longrightarrow> \<exists>msg. parse_entry lib seen e = Inl msg"
  by (auto simp: parse_entry_def entry_ok_def entry_name_def split: option.splits prod.splits)

lemma parse_entries_problems:
  "\<exists>qs. snd (run_state (parse_entries lib key es list) ps) = ps @ qs \<and> (\<forall>q\<in>set qs. \<exists>msg. q = key @ '': '' @ msg) \<and>
     (qs = [] \<longleftrightarrow> list_all (entry_ok lib) es \<and> distinct (map entry_name es) \<and> (\<forall>e\<in>set es. entry_name e \<notin> pvc_name ` set list))"
proof (induction es arbitrary: list ps)
  case (Cons e es)
  show ?case
  proof (cases "entry_ok lib e \<and> entry_name e \<notin> set (map pvc_name list)")
    case True
    with parse_entry_ok obtain p where p: "parse_entry lib (map pvc_name list) e = Inr p" "pvc_name p = entry_name e" by metis
    have "list_all (entry_ok lib) es \<and> distinct (map entry_name es) \<and> (\<forall>e\<in>set es. entry_name e \<notin> pvc_name ` set (list @ [p])) \<longleftrightarrow>
        list_all (entry_ok lib) (e # es) \<and> distinct (map entry_name (e # es)) \<and> (\<forall>e\<in>set (e # es). entry_name e \<notin> pvc_name ` set list)"
      using p(2) True by (force simp: image_iff)
    with Cons.IH [of "list @ [p]" ps] p(1) show ?thesis by simp
  next
    case False
    with parse_entry_bad obtain msg where "parse_entry lib (map pvc_name list) e = Inl msg" by metis
    with Cons.IH [of list "ps @ [key @ '': '' @ msg]"] False show ?thesis by (auto simp: run_simps)
  qed
qed (simp add: run_simps)

lemma covers_providers: "covers lib [ProvidersVar key] (parseProviders lib key)"
  unfolding covers_def
proof
  fix ps
  show "\<exists>qs. snd (run_state (parseProviders lib key) ps) = ps @ qs \<and>
      (\<forall>v\<in>set [ProvidersVar key]. \<not> var_ok lib v \<longrightarrow> blamed (var_key v) qs) \<and> ((\<forall>v\<in>set [ProvidersVar key]. var_ok lib v) \<longrightarrow> qs = [])"
  proof (cases "reader_value lib key")
    case None
    then show ?thesis by (simp add: parseProviders_def reader_required_def run_simps)
  next
    case (Some raw)
    then have "raw \<noteq> []" by (auto simp: reader_value_def split: option.splits if_splits)
    with Some parse_entries_problems [of lib key "Split (CHR '','') raw" "[]" ps] show ?thesis
      by (fastforce simp: parseProviders_def reader_required_def run_simps blamed_def neq_Nil_conv)
  qed
qed

lemmas covers_readers = covers_required covers_oneOf covers_int covers_float covers_duration covers_providers

lemmas covers_intros = covers_return covers_readers [THEN covers_bind, unfolded append_Cons append_Nil]

definition database_vars :: "variable list" where
  "database_vars = [RequiredVar ''DATABASE_URL'', IntVar ''DB_MAX_CONNS'' 1 1000]"

definition api_vars :: "variable list" where
  "api_vars = [IntVar ''API_INSTANCES'' 1 10000, IntVar ''DEFAULT_RATE_LIMIT_RPS'' 1 100000, DurationVar ''KEY_CACHE_TTL'',
     IntVar ''PRICE_NORMAL'' 1 1000000, IntVar ''PRICE_EXPRESS'' 1 1000000, IntVar ''MAX_SEGMENTS'' 1 10]"

definition provider_vars :: "variable list" where
  "provider_vars = [ProvidersVar ''PROVIDERS'', RequiredVar ''PROVIDER_SECRET'', IntVar ''PROVIDER_RATE_LIMIT'' 1 1000000,
     FloatVar ''EXPRESS_RESERVED_RATIO'' (Num 0) (Num 1), IntVar ''CIRCUIT_FAILURE_THRESHOLD'' 1 100000, DurationVar ''CIRCUIT_OPEN_DURATION'']"

definition dispatch_vars :: "variable list" where
  "dispatch_vars = [IntVar ''NORMAL_LANES'' 1 1024, IntVar ''NORMAL_CONCURRENCY'' 1 100000, IntVar ''EXPRESS_CONCURRENCY'' 1 100000,
     IntVar ''CLAIM_BATCH_SIZE'' 1 10000, DurationVar ''LEASE_DURATION'', DurationVar ''POLL_INTERVAL'', IntVar ''COMPLETER_BATCH_SIZE'' 1 10000,
     DurationVar ''COMPLETER_FLUSH_INTERVAL'', DurationVar ''HEARTBEAT_INTERVAL'', DurationVar ''SWEEP_INTERVAL'']"

definition class_vars :: "string \<Rightarrow> variable list" where
  "class_vars k = [IntVar (k @ ''_MAX_ATTEMPTS'') 1 100, DurationVar (k @ ''_BACKOFF_BASE''), DurationVar (k @ ''_BACKOFF_MAX''),
     DurationVar (k @ ''_TTL''), DurationVar (k @ ''_TIMEOUT'')]"

definition gateway_vars :: "variable list" where
  "gateway_vars = database_vars @ [OneOfVar ''LOG_LEVEL'' ''info'' [''debug'', ''info'', ''warn'', ''error''],
     DurationVar ''SHUTDOWN_TIMEOUT'', RequiredVar ''ADMIN_TOKEN''] @ api_vars @ provider_vars @ dispatch_vars @ class_vars ''NORMAL'' @
     class_vars ''EXPRESS'' @ [DurationVar ''EXPRESS_SLA'', IntVar ''DLR_BATCH_SIZE'' 1 10000, DurationVar ''DLR_FLUSH_INTERVAL'']"

lemma readDatabase_covers: "covers lib database_vars (readDatabase lib)"
  unfolding database_vars_def readDatabase_def by (intro covers_intros)

lemma readAPI_covers: "covers lib api_vars (readAPI lib)"
  unfolding api_vars_def readAPI_def by (intro covers_intros)

lemma readProviders_covers: "covers lib provider_vars (readProviders lib)"
  unfolding provider_vars_def readProviders_def by (intro covers_intros)

lemma readDispatch_covers: "covers lib dispatch_vars (readDispatch lib)"
  unfolding dispatch_vars_def readDispatch_def by (intro covers_intros)

lemma class_vars_simps: "class_vars ''NORMAL'' = [IntVar ''NORMAL_MAX_ATTEMPTS'' 1 100, DurationVar ''NORMAL_BACKOFF_BASE'',
    DurationVar ''NORMAL_BACKOFF_MAX'', DurationVar ''NORMAL_TTL'', DurationVar ''NORMAL_TIMEOUT'']"
  "class_vars ''EXPRESS'' = [IntVar ''EXPRESS_MAX_ATTEMPTS'' 1 100, DurationVar ''EXPRESS_BACKOFF_BASE'',
    DurationVar ''EXPRESS_BACKOFF_MAX'', DurationVar ''EXPRESS_TTL'', DurationVar ''EXPRESS_TIMEOUT'']"
  by (simp_all add: class_vars_def)

lemma readNormal_covers: "covers lib (class_vars ''NORMAL'') (readNormal lib)"
  unfolding class_vars_simps readNormal_def by (intro covers_intros)

lemma readExpress_covers: "covers lib (class_vars ''EXPRESS'') (readExpress lib)"
  unfolding class_vars_simps readExpress_def by (intro covers_intros)

lemmas parts_cover = readDatabase_covers readAPI_covers readProviders_covers readDispatch_covers readNormal_covers readExpress_covers

lemma readGateway_covers: "covers lib gateway_vars (readGateway lib)"
  unfolding gateway_vars_def readGateway_def append_Cons append_Nil
  by (intro covers_intros parts_cover [THEN covers_bind])


lemma validateGateway_silent: "cross_ok c \<Longrightarrow> snd (run_state (validateGateway lib c) ps) = ps"
  by (simp add: validateGateway_def cross_ok_def reader_check_def run_simps Let_def)

lemma load_problems: "load m = Inl ps \<longleftrightarrow> snd (run_state m []) \<noteq> [] \<and> ps = sort (snd (run_state m []))"
  by (auto simp: load_def split: prod.splits)

text \<open>The value every variable contributes, valid or not: the configuration the rules across variables are checked on.\<close>

definition read_config :: "config_lib \<Rightarrow> gateway_config" where
  "read_config lib = fst (run_state (readGateway lib) [])"

lemma LoadGateway_problems:
  "\<exists>qs. snd (run_state (do { c \<leftarrow> readGateway lib; validateGateway lib c; State_Monad.return c }) []) =
     snd (run_state (readGateway lib) []) @ qs \<and> (cross_ok (read_config lib) \<longrightarrow> qs = [])"
proof -
  let ?ps = "snd (run_state (readGateway lib) [])"
  obtain qs where "snd (run_state (validateGateway lib (read_config lib)) ?ps) = ?ps @ qs"
    using validateGateway_appends unfolding appends_def by blast
  moreover from this validateGateway_silent [of "read_config lib" lib ?ps] have "cross_ok (read_config lib) \<longrightarrow> qs = []" by auto
  ultimately show ?thesis unfolding run_bind run_return read_config_def by auto
qed

lemma LoadGateway_blames:
  assumes "v \<in> set gateway_vars" "\<not> var_ok lib v"
  shows "\<exists>ps. LoadGateway lib = Inl ps \<and> sorted ps \<and> blamed (var_key v) ps"
proof -
  let ?m = "do { c \<leftarrow> readGateway lib; validateGateway lib c; State_Monad.return c }"
  have "blamed (var_key v) (snd (run_state (readGateway lib) []))"
    using readGateway_covers [of lib] assms unfolding covers_def by (metis append_Nil)
  with LoadGateway_problems [of lib] have "blamed (var_key v) (snd (run_state ?m []))" by (metis blamed_append)
  moreover from this have "snd (run_state ?m []) \<noteq> []" by (auto simp: blamed_def)
  ultimately show ?thesis unfolding LoadGateway_def load_problems by (auto simp: blamed_def)
qed

lemma LoadGateway_accepts:
  assumes "\<forall>v\<in>set gateway_vars. var_ok lib v" "cross_ok (read_config lib)"
  shows "LoadGateway lib = Inr (read_config lib)"
proof -
  have "snd (run_state (readGateway lib) []) = []"
    using readGateway_covers [of lib] assms(1) unfolding covers_def by (metis append_Nil)
  then show ?thesis
    using validateGateway_silent [OF assms(2)] unfolding LoadGateway_def load_def run_bind run_return
    by (simp add: read_config_def)
qed

lemma LoadGateway_Inr: "LoadGateway lib = Inr c \<Longrightarrow> c = read_config lib"
  unfolding LoadGateway_def load_def read_config_def run_bind run_return by (auto split: prod.splits if_splits)

subsection \<open>Properties\<close>


subsection \<open>An environment\<close>

text \<open>The variables without a default, and the parsers the defaults need.\<close>

definition demo_lib :: config_lib where
  "demo_lib = \<lparr>cl_lookup = map_of [(''DATABASE_URL'', ''db''), (''ADMIN_TOKEN'', ''t''), (''PROVIDERS'', ''A=http://a:1/, B=http://b:1''),
       (''PROVIDER_SECRET'', ''s'')],
     cl_duration = (\<lambda>s. None), cl_float = (\<lambda>s. None), cl_url = (\<lambda>s. Some (''http'', ''a:1'')),
     cl_quote = (\<lambda>s. s), cl_show_float = (\<lambda>f. []), cl_show_duration = (\<lambda>d. [])\<rparr>"

definition demo_loaded :: gateway_config where
  "demo_loaded = read_config demo_lib"

lemma demo_loads: "LoadGateway demo_lib = Inr demo_loaded"
  by code_simp

end
