(* ===== verification/Worker.thy ===== *)
theory Worker
  imports Config Dispatch Limiter Accept
begin

text \<open>
  The worker and its pools: how \<^verbatim>\<open>internal/app/api.go\<close> and \<^verbatim>\<open>internal/dispatch/worker.go\<close> build the message
  service and a worker from the configuration, and the claim loop of \<^verbatim>\<open>pool.go\<close> as a step relation over
  the pool's counters. The loop and the goroutines that send interleave freely. Whether a provider is
  usable, the provider budget and what a claim returns are the environment of a step.
\<close>

subsection \<open>Building the services\<close>

definition newMessageService :: "gateway_config \<Rightarrow> accept_config" where
  "newMessageService c =
     \<lparr>cfg_prices = \<lparr>p_normal = apc_price_normal (gw_api c), p_express = apc_price_express (gw_api c)\<rparr>,
      cfg_max_segments = nat (apc_max_segments (gw_api c)), cfg_normal_lanes = nat (wkc_normal_lanes (gw_dispatch c)),
      cfg_normal_ttl = clp_ttl (gw_normal c), cfg_express_ttl = clp_ttl (gw_express c)\<rparr>"

definition lanes :: "gateway_config \<Rightarrow> string list" where
  "lanes c = ExpressLane # map NormalLane [0..wkc_normal_lanes (gw_dispatch c) - 1]"

record worker_config =
  wc_providers :: "provider_config list"
  wc_normal_lanes :: int
  wc_normal_concurrency :: int
  wc_express_concurrency :: int
  wc_claim_batch_size :: int
  wc_lease_duration :: duration
  wc_poll_interval :: duration
  wc_completer_batch_size :: int
  wc_completer_flush_interval :: duration
  wc_provider_rate_limit :: int
  wc_express_reserved_ratio :: go_float
  wc_circuit_failure_threshold :: int
  wc_circuit_open_duration :: duration
  wc_normal :: policy
  wc_express :: policy
  wc_express_sla :: duration
  wc_shutdown_timeout :: duration

definition class_to_policy :: "mtype \<Rightarrow> bool \<Rightarrow> class_policy \<Rightarrow> policy" where
  "class_to_policy t rot p =
     \<lparr>pol_class = t, pol_max_attempts = clp_max_attempts p, pol_backoff_base = clp_backoff_base p, pol_backoff_max = clp_backoff_max p,
      pol_timeout = clp_timeout p, pol_rotate = rot\<rparr>"

definition FromGateway :: "gateway_config \<Rightarrow> worker_config" where
  "FromGateway c =
     \<lparr>wc_providers = psc_list (gw_providers c),
      wc_normal_lanes = wkc_normal_lanes (gw_dispatch c),
      wc_normal_concurrency = wkc_normal_concurrency (gw_dispatch c),
      wc_express_concurrency = wkc_express_concurrency (gw_dispatch c),
      wc_claim_batch_size = wkc_claim_batch_size (gw_dispatch c),
      wc_lease_duration = wkc_lease_duration (gw_dispatch c),
      wc_poll_interval = wkc_poll_interval (gw_dispatch c),
      wc_completer_batch_size = wkc_completer_batch_size (gw_dispatch c),
      wc_completer_flush_interval = wkc_completer_flush_interval (gw_dispatch c),
      wc_provider_rate_limit = psc_rate_limit (gw_providers c),
      wc_express_reserved_ratio = psc_express_reserved_ratio (gw_providers c),
      wc_circuit_failure_threshold = psc_circuit_failure_threshold (gw_providers c),
      wc_circuit_open_duration = psc_circuit_open_duration (gw_providers c),
      wc_normal = class_to_policy Normal False (gw_normal c),
      wc_express = class_to_policy Express True (gw_express c),
      wc_express_sla = gw_express_sla c,
      wc_shutdown_timeout = gw_shutdown_timeout c\<rparr>"

text \<open>The pool. \<open>pl_slots\<close> counts the tokens in the channel \<^verbatim>\<open>slots\<close>, whose capacity is the concurrency, and
  \<open>pl_wake\<close> tells whether the one-element channel \<^verbatim>\<open>wake\<close> is full.\<close>

record pool =
  pl_name :: string
  pl_policy :: policy
  pl_lanes :: "string list"
  pl_concurrency :: nat
  pl_slots :: nat
  pl_wake :: bool
  pl_active :: int
  pl_in_flight :: nat
  pl_next :: nat

definition newPool :: "string \<Rightarrow> policy \<Rightarrow> string list \<Rightarrow> nat \<Rightarrow> pool" where
  "newPool name pol lns concurrency =
     \<lparr>pl_name = name, pl_policy = pol, pl_lanes = lns, pl_concurrency = concurrency, pl_slots = 0, pl_wake = False, pl_active = 0,
      pl_in_flight = 0, pl_next = 0\<rparr>"

text \<open>How the wait of \<^verbatim>\<open>idle\<close> ends, and what it takes from the channel.\<close>

datatype idle_end = PollElapsed | WakeUp | ContextDone

fun idle :: "idle_end \<Rightarrow> pool \<Rightarrow> pool" where
  "idle PollElapsed p = p"
| "idle WakeUp p = p\<lparr>pl_wake := False\<rparr>"
| "idle ContextDone p = p"

definition signal :: "pool \<Rightarrow> pool" where
  "signal p = p\<lparr>pl_wake := True\<rparr>"

record client =
  ct_name :: string
  ct_url :: string
  ct_max_conns :: int

definition newClient :: "string \<Rightarrow> string \<Rightarrow> int \<Rightarrow> client" where
  "newClient name baseURL maxConns = \<lparr>ct_name = name, ct_url = baseURL @ ''/send'', ct_max_conns = maxConns\<rparr>"

record 'l worker =
  wk_id :: string
  wk_cfg :: worker_config
  wk_providers :: "provider list"
  wk_clients :: "client list"
  wk_budgets :: "'l budget option list"
  wk_express :: pool
  wk_normal :: pool

text \<open>\<^verbatim>\<open>newWorkerID\<close>: the host, if the system knows it, the process and two random bytes.\<close>

definition newWorkerID :: "string option \<Rightarrow> int \<Rightarrow> 8 word list \<Rightarrow> string" where
  "newWorkerID hostname pid b =
     (case hostname of None \<Rightarrow> ''worker'' | Some host \<Rightarrow> host) @ ''-'' @ itoa pid @ ''-'' @ hex_encode b"

text \<open>Lease owners of different processes of a host differ.\<close>

lemma newWorkerID_inj:
  assumes "newWorkerID h p b = newWorkerID h p' b'" "0 \<le> p" "0 \<le> p'"
  shows "p = p'"
proof -
  have "takeWhile is_digit (nat_digits n @ ''-'' @ r) = nat_digits n" for n r
    using nat_digits_digits [of n] by (subst takeWhile_append2) (auto simp: list_all_iff is_digit_def)
  moreover have "nat_digits (nat p) @ ''-'' @ hex_encode b = nat_digits (nat p') @ ''-'' @ hex_encode b'"
    using assms by (auto simp: newWorkerID_def itoa_def)
  ultimately have "nat_digits (nat p) = nat_digits (nat p')" by metis
  then have "nat p = nat p'" by (metis digits_nat_nat_digits)
  then show ?thesis using assms(2,3) by simp
qed

text \<open>\<^verbatim>\<open>New\<close>; a worker's view of a provider is split over three lists of the same order. The budget of a ratio
  that is not a number has no rates and is \<open>None\<close>. A negative lane count cannot be loaded; \<^verbatim>\<open>make\<close> would
  panic on it.\<close>

definition New :: "('l, 'r) rate_lib \<Rightarrow> string \<Rightarrow> worker_config \<Rightarrow> 'l worker" where
  "New lib wid cfg =
     (let conns = wc_normal_concurrency cfg + wc_express_concurrency cfg
      in \<lparr>wk_id = wid, wk_cfg = cfg,
          wk_providers = map (\<lambda>p. \<lparr>p_name = pvc_name p,
            p_breaker = newBreaker (wc_circuit_failure_threshold cfg) (wc_circuit_open_duration cfg)\<rparr>) (wc_providers cfg),
          wk_clients = map (\<lambda>p. newClient (pvc_name p) (pvc_url p) conns) (wc_providers cfg),
          wk_budgets = map (\<lambda>p. case wc_express_reserved_ratio cfg of
              Num ratio \<Rightarrow> Some (newBudget lib (wc_provider_rate_limit cfg) ratio)
            | _ \<Rightarrow> None) (wc_providers cfg),
          wk_express = newPool ''express'' (wc_express cfg) [ExpressLane] (nat (wc_express_concurrency cfg)),
          wk_normal = newPool ''normal'' (wc_normal cfg) (map NormalLane [0..wc_normal_lanes cfg - 1]) (nat (wc_normal_concurrency cfg))\<rparr>)"

text \<open>What the loaded configuration gives: settings of the message service that acceptance relies on, policies
  and providers that dispatch relies on, and a worker that polls every lane acceptance uses.\<close>

lemma newMessageService_ok: "gateway_ok c \<Longrightarrow> accept_config_ok (newMessageService c)"
  by (simp add: gateway_ok_def accept_config_ok_def newMessageService_def api_ok_def workers_ok_def class_ok_def; linarith)

lemma set_worker_lanes:
  "set (lanes c) = set (pl_lanes (wk_express (New lib wid (FromGateway c)))) \<union> set (pl_lanes (wk_normal (New lib wid (FromGateway c))))"
  by (simp add: lanes_def New_def FromGateway_def newPool_def Let_def)

lemma Lane_in_lanes:
  assumes "gateway_ok c"
  shows "Lane t cid (cfg_normal_lanes (newMessageService c)) \<in> set (lanes c)"
proof (cases t)
  case Normal
  have n: "1 \<le> wkc_normal_lanes (gw_dispatch c)" "wkc_normal_lanes (gw_dispatch c) \<le> 1024" using assms by (simp_all add: gateway_ok_def workers_ok_def)
  then have "\<exists>i. 0 \<le> i \<and> i < int (nat (wkc_normal_lanes (gw_dispatch c))) \<and> Lane Normal cid (nat (wkc_normal_lanes (gw_dispatch c))) = NormalLane i"
    by (intro Lane_in_range) linarith+
  then obtain i where "0 \<le> i" "i < wkc_normal_lanes (gw_dispatch c)" "Lane Normal cid (nat (wkc_normal_lanes (gw_dispatch c))) = NormalLane i"
    using n by auto
  with Normal show ?thesis by (simp add: lanes_def newMessageService_def)
qed (simp add: Lane_def lanes_def)

definition policy_ok :: "policy \<Rightarrow> bool" where
  "policy_ok p \<longleftrightarrow> 1 \<le> pol_max_attempts p \<and> pol_max_attempts p \<le> 100 \<and> 0 < pol_backoff_base p \<and> pol_backoff_base p \<le> pol_backoff_max p \<and>
     0 < pol_timeout p"

subsection \<open>The claim loop\<close>

text \<open>Where the loop of \<^verbatim>\<open>runPool\<close> is: at its top, holding one slot, taking more up to a size, with a claim under
  way, in \<^verbatim>\<open>idle\<close>, or returned. A sending goroutine runs, then lowers the count of active sends, gives its
  slot back and reports to the wait group, in that order.\<close>

datatype phase = Top | Holding | Taking nat nat | Claiming string nat | Idle | Stopped

datatype send_stage = Sending | Inactive | Freed

record pool_run =
  pr_pool :: pool
  pr_phase :: phase
  pr_empty :: nat
  pr_sends :: "(job \<times> send_stage) list"
  pr_log :: "string list"
  pr_db :: db

definition claim_want :: "worker_config \<Rightarrow> int \<Rightarrow> int" where
  "claim_want cfg budget = min (wc_claim_batch_size cfg) budget"

definition release :: "nat \<Rightarrow> pool \<Rightarrow> pool" where
  "release n p = p\<lparr>pl_slots := pl_slots p - n\<rparr>"

definition next_lane :: "pool \<Rightarrow> string" where
  "next_lane p = pl_lanes p ! pl_next p"

definition rotate_lane :: "pool \<Rightarrow> pool" where
  "rotate_lane p = p\<lparr>pl_next := (pl_next p + 1) mod length (pl_lanes p)\<rparr>"

text \<open>After a claim: the slots of jobs that were not found go back, and the jobs found start.\<close>

definition claim_failed :: "nat \<Rightarrow> pool_run \<Rightarrow> pool_run" where
  "claim_failed taken s = s\<lparr>pr_pool := release taken (pr_pool s), pr_phase := Top\<rparr>"

definition claim_done :: "nat \<Rightarrow> db \<Rightarrow> job list \<Rightarrow> pool_run \<Rightarrow> pool_run" where
  "claim_done taken d jobs s =
     (let p = release (taken - length jobs) (pr_pool s)
      in if jobs = []
         then if length (pl_lanes p) \<le> pr_empty s + 1
              then s\<lparr>pr_db := d, pr_pool := p, pr_empty := 0, pr_phase := Idle\<rparr>
              else s\<lparr>pr_db := d, pr_pool := p, pr_empty := pr_empty s + 1, pr_phase := Top\<rparr>
         else s\<lparr>pr_db := d,
                pr_pool := p\<lparr>pl_in_flight := pl_in_flight p + length jobs, pl_active := pl_active p + int (length jobs)\<rparr>,
                pr_sends := pr_sends s @ map (\<lambda>j. (j, Sending)) jobs, pr_empty := 0, pr_phase := Top\<rparr>)"

definition remove_nth :: "nat \<Rightarrow> 'a list \<Rightarrow> 'a list" where
  "remove_nth i xs = take i xs @ drop (Suc i) xs"

inductive pool_step :: "string \<Rightarrow> worker_config \<Rightarrow> pool_run \<Rightarrow> pool_run \<Rightarrow> bool" for wid cfg where
  circuits_open: "pr_phase s = Top \<Longrightarrow> pool_step wid cfg s s"
| acquire: "pr_phase s = Top \<Longrightarrow> pl_slots (pr_pool s) < pl_concurrency (pr_pool s) \<Longrightarrow>
    pool_step wid cfg s (s\<lparr>pr_phase := Holding, pr_pool := (pr_pool s)\<lparr>pl_slots := pl_slots (pr_pool s) + 1\<rparr>\<rparr>)"
| no_budget: "pr_phase s = Holding \<Longrightarrow> claim_want cfg budget < 1 \<Longrightarrow> 1 \<le> pl_slots (pr_pool s) \<Longrightarrow>
    pool_step wid cfg s (s\<lparr>pr_phase := Top, pr_pool := release 1 (pr_pool s)\<rparr>)"
| sized: "pr_phase s = Holding \<Longrightarrow> claim_want cfg budget = int want \<Longrightarrow> 1 \<le> want \<Longrightarrow>
    pool_step wid cfg s (s\<lparr>pr_phase := Taking want 1\<rparr>)"
| take_slot: "pr_phase s = Taking want taken \<Longrightarrow> taken < want \<Longrightarrow> pl_slots (pr_pool s) < pl_concurrency (pr_pool s) \<Longrightarrow>
    pool_step wid cfg s (s\<lparr>pr_phase := Taking want (taken + 1), pr_pool := (pr_pool s)\<lparr>pl_slots := pl_slots (pr_pool s) + 1\<rparr>\<rparr>)"
| start_claim: "pr_phase s = Taking want taken \<Longrightarrow> want \<le> taken \<or> pl_concurrency (pr_pool s) \<le> pl_slots (pr_pool s) \<Longrightarrow>
    pool_step wid cfg s (s\<lparr>pr_phase := Claiming (next_lane (pr_pool s)) taken, pr_pool := rotate_lane (pr_pool s),
      pr_log := pr_log s @ [next_lane (pr_pool s)]\<rparr>)"
| claim_error: "pr_phase s = Claiming lane taken \<Longrightarrow> taken \<le> pl_slots (pr_pool s) \<Longrightarrow> pool_step wid cfg s (claim_failed taken s)"
| claim_lost: "pr_phase s = Claiming lane taken \<Longrightarrow> taken \<le> pl_slots (pr_pool s) \<Longrightarrow>
    claim now clock wid (wc_lease_duration cfg) locked lane taken (pr_db s) = (d, jobs) \<Longrightarrow>
    pool_step wid cfg s ((claim_failed taken s)\<lparr>pr_db := d\<rparr>)"
| claimed: "pr_phase s = Claiming lane taken \<Longrightarrow> taken - length jobs \<le> pl_slots (pr_pool s) \<Longrightarrow>
    claim now clock wid (wc_lease_duration cfg) locked lane taken (pr_db s) = (d, jobs) \<Longrightarrow>
    pool_step wid cfg s (claim_done taken d jobs s)"
| woken: "pr_phase s = Idle \<Longrightarrow> pl_wake (pr_pool s) \<Longrightarrow> pool_step wid cfg s (s\<lparr>pr_phase := Top, pr_pool := idle WakeUp (pr_pool s)\<rparr>)"
| idled: "pr_phase s = Idle \<Longrightarrow> e = PollElapsed \<or> e = ContextDone \<Longrightarrow> pool_step wid cfg s (s\<lparr>pr_phase := Top, pr_pool := idle e (pr_pool s)\<rparr>)"
| stopped: "pr_phase s = Top \<Longrightarrow> pool_step wid cfg s (s\<lparr>pr_phase := Stopped\<rparr>)"
| signalled: "pool_step wid cfg s (s\<lparr>pr_pool := signal (pr_pool s)\<rparr>)"
| send_ended: "i < length (pr_sends s) \<Longrightarrow> pr_sends s ! i = (j, Sending) \<Longrightarrow>
    pool_step wid cfg s (s\<lparr>pr_sends := (pr_sends s)[i := (j, Inactive)], pr_pool := (pr_pool s)\<lparr>pl_active := pl_active (pr_pool s) - 1\<rparr>\<rparr>)"
| slot_freed: "i < length (pr_sends s) \<Longrightarrow> pr_sends s ! i = (j, Inactive) \<Longrightarrow> 1 \<le> pl_slots (pr_pool s) \<Longrightarrow>
    pool_step wid cfg s (s\<lparr>pr_sends := (pr_sends s)[i := (j, Freed)], pr_pool := release 1 (pr_pool s)\<rparr>)"
| send_done: "i < length (pr_sends s) \<Longrightarrow> pr_sends s ! i = (j, Freed) \<Longrightarrow>
    pool_step wid cfg s (s\<lparr>pr_sends := remove_nth i (pr_sends s),
      pr_pool := (pr_pool s)\<lparr>pl_in_flight := pl_in_flight (pr_pool s) - 1\<rparr>\<rparr>)"
| others: "distinct (map q_message_id (queue d)) \<Longrightarrow> pool_step wid cfg s (s\<lparr>pr_db := d\<rparr>)"

definition pool_init :: "pool \<Rightarrow> pool_run \<Rightarrow> bool" where
  "pool_init p s \<longleftrightarrow> pr_pool s = p \<and> pr_phase s = Top \<and> pr_empty s = 0 \<and> pr_sends s = [] \<and> pr_log s = [] \<and>
     distinct (map q_message_id (queue (pr_db s)))"

subsection \<open>The accounts of a pool\<close>

lemma filter_update_count:
  assumes "i < length xs"
  shows "length (filter P (xs[i := x])) + (if P (xs ! i) then 1 else 0) = length (filter P xs) + (if P x then 1 else 0)"
proof -
  obtain ys z zs where "xs = ys @ z # zs" "length ys = i" using id_take_nth_drop [OF assms] assms by (metis length_take min.absorb4)
  then show ?thesis by (auto simp: list_update_append nth_append)
qed

lemma filter_remove_count:
  assumes "i < length xs"
  shows "length (filter P (remove_nth i xs)) + (if P (xs ! i) then 1 else 0) = length (filter P xs)"
proof -
  obtain ys z zs where "xs = ys @ z # zs" "length ys = i" using id_take_nth_drop [OF assms] assms by (metis length_take min.absorb4)
  then show ?thesis by (auto simp: remove_nth_def nth_append)
qed

lemma length_map_filter: "length (List.map_filter f xs) \<le> length xs"
  by (simp add: map_filter_def)

lemma length_remove_nth: "i < length xs \<Longrightarrow> length (remove_nth i xs) = length xs - 1"
  by (simp add: remove_nth_def)

lemma claim_length:
  assumes "distinct (map q_message_id (queue d))" "claim now clock wid lease locked lane n d = (d', jobs)"
  shows "length jobs \<le> n"
proof -
  let ?ids = "map q_message_id (picked now lane n locked d)"
  let ?rows = "filter (\<lambda>q. q_message_id q \<in> set ?ids) (queue d')"
  have keys: "map q_message_id (queue d') = map q_message_id (queue d)" using claim_frame [OF assms(2)] by simp
  have rows: "distinct (map q_message_id ?rows)" using assms(1) keys by (simp add: distinct_map_filterI)
  have "length jobs \<le> length ?rows" using assms(2) by (auto simp: claim_def Let_def intro: length_map_filter)
  also have "\<dots> = card (q_message_id ` set ?rows)" using distinct_card [OF rows] by simp
  also have "\<dots> \<le> card (set ?ids)" by (intro card_mono) auto
  also have "\<dots> \<le> n" using card_length [of ?ids] length_picked [of now lane n locked d] by simp
  finally show ?thesis .
qed

fun held :: "phase \<Rightarrow> nat" where
  "held Holding = 1"
| "held (Taking want taken) = taken"
| "held (Claiming lane taken) = taken"
| "held ph = 0"

definition phase_ok :: "worker_config \<Rightarrow> phase \<Rightarrow> bool" where
  "phase_ok cfg ph \<longleftrightarrow> (case ph of
     Taking want taken \<Rightarrow> 1 \<le> taken \<and> taken \<le> want \<and> int want \<le> wc_claim_batch_size cfg
   | Claiming lane taken \<Rightarrow> 1 \<le> taken \<and> int taken \<le> wc_claim_batch_size cfg
   | _ \<Rightarrow> True)"

definition using_slot :: "pool_run \<Rightarrow> nat" where
  "using_slot s = length (filter (\<lambda>x. snd x \<noteq> Freed) (pr_sends s))"

definition sending :: "pool_run \<Rightarrow> nat" where
  "sending s = length (filter (\<lambda>x. snd x = Sending) (pr_sends s))"

definition rotation :: "string list \<Rightarrow> nat \<Rightarrow> string list" where
  "rotation lns n = map (\<lambda>i. lns ! (i mod length lns)) [0..<n]"

definition pool_inv :: "worker_config \<Rightarrow> pool \<Rightarrow> pool_run \<Rightarrow> bool" where
  "pool_inv cfg p s \<longleftrightarrow> pl_lanes (pr_pool s) = pl_lanes p \<and> pl_concurrency (pr_pool s) = pl_concurrency p \<and>
     pl_slots (pr_pool s) = held (pr_phase s) + using_slot s \<and> pl_slots (pr_pool s) \<le> pl_concurrency p \<and>
     pl_active (pr_pool s) = int (sending s) \<and> pl_in_flight (pr_pool s) = length (pr_sends s) \<and> phase_ok cfg (pr_phase s) \<and>
     pl_next (pr_pool s) = length (pr_log s) mod length (pl_lanes p) \<and> pr_log s = rotation (pl_lanes p) (length (pr_log s)) \<and>
     distinct (map q_message_id (queue (pr_db s)))"

lemmas pool_defs = pool_inv_def using_slot_def sending_def release_def rotate_lane_def next_lane_def signal_def claim_failed_def

lemma claim_keys: "claim now clock wid lease locked lane n d = (d', jobs) \<Longrightarrow> map q_message_id (queue d') = map q_message_id (queue d)"
  by (rule claim_frame(5))

lemma claim_done_inv:
  assumes inv: "pool_inv cfg p s" and ph: "pr_phase s = Claiming lane taken"
    and cl: "claim now clock wid lease locked lane taken (pr_db s) = (d, jobs)"
  shows "pool_inv cfg p (claim_done taken d jobs s)"
proof -
  have "length jobs \<le> taken" using inv by (intro claim_length [OF _ cl]) (simp add: pool_inv_def)
  then show ?thesis
    using inv ph claim_keys [OF cl] by (auto simp: pool_defs claim_done_def Let_def phase_ok_def)
qed

lemma pool_step_inv:
  assumes "pool_inv cfg p s" "pool_step wid cfg s t"
  shows "pool_inv cfg p t"
  using assms(2,1)
proof (cases rule: pool_step.cases)
  case (claimed lane taken jobs now clock locked d)
  with assms(1) show ?thesis by (auto intro: claim_done_inv)
next
  case (claim_lost lane taken now clock locked d jobs)
  with assms(1) claim_keys [OF claim_lost(4)] show ?thesis by (auto simp: pool_defs phase_ok_def)
next
  case (send_ended i j)
  with assms(1) show ?thesis
    using filter_update_count [of i "pr_sends s" "\<lambda>x. snd x = Sending" "(j, Inactive)"]
      filter_update_count [of i "pr_sends s" "\<lambda>x. snd x \<noteq> Freed" "(j, Inactive)"] by (auto simp: pool_defs)
next
  case (slot_freed i j)
  with assms(1) show ?thesis
    using filter_update_count [of i "pr_sends s" "\<lambda>x. snd x = Sending" "(j, Freed)"]
      filter_update_count [of i "pr_sends s" "\<lambda>x. snd x \<noteq> Freed" "(j, Freed)"] by (auto simp: pool_defs)
next
  case (send_done i j)
  with assms(1) show ?thesis
    using filter_remove_count [of i "pr_sends s" "\<lambda>x. snd x = Sending"]
      filter_remove_count [of i "pr_sends s" "\<lambda>x. snd x \<noteq> Freed"] by (auto simp: pool_defs length_remove_nth)
next
  case (start_claim want taken)
  with assms(1) show ?thesis by (auto simp: pool_defs phase_ok_def rotation_def mod_Suc_eq)
next
  case (sized budget want)
  with assms(1) show ?thesis by (auto simp: pool_defs phase_ok_def claim_want_def)
qed (use assms(1) in \<open>auto simp: pool_defs phase_ok_def\<close>)

interpretation claim_loop: invariant_system "pool_init (newPool name pol lns n)" "pool_step wid cfg" "pool_inv cfg (newPool name pol lns n)"
  for name pol lns n wid cfg
proof unfold_locales
  show "pool_init (newPool name pol lns n) s \<Longrightarrow> pool_inv cfg (newPool name pol lns n) s" for s
    by (auto simp: pool_init_def pool_defs newPool_def phase_ok_def rotation_def)
qed (rule pool_step_inv)

text \<open>Any \<open>n\<close> consecutive claims of a rotation over \<open>n\<close> lanes visit every lane.\<close>

lemma rotation_window:
  assumes "lane \<in> set lns" "k + length lns \<le> n"
  shows "lane \<in> set (take (length lns) (drop k (rotation lns n)))"
proof -
  let ?n = "length lns"
  from assms(1) obtain m where m: "m < ?n" "lns ! m = lane" by (auto simp: in_set_conv_nth)
  let ?i = "(m + ?n - k mod ?n) mod ?n"
  have n: "0 < ?n" using m(1) by linarith
  have "(k + ?i) mod ?n = (k mod ?n + (m + ?n - k mod ?n)) mod ?n" by (simp add: mod_simps)
  also have "k mod ?n + (m + ?n - k mod ?n) = m + ?n" using n mod_less_divisor [OF n, of k] by linarith
  finally have i: "(k + ?i) mod ?n = m" using m(1) by simp
  have lt: "?i < ?n" using n by simp
  then have "take ?n (drop k (rotation lns n)) ! ?i = lns ! ((k + ?i) mod ?n)"
    using assms(2) by (simp add: rotation_def)
  moreover have "?i < length (take ?n (drop k (rotation lns n)))" using lt assms(2) by (simp add: rotation_def)
  ultimately show ?thesis using i m(2) by (metis nth_mem)
qed

subsection \<open>Properties\<close>

text \<open>C33: However the claim loop and the sends interleave, a pool keeps its accounts: no more sends than its
  concurrency are under way, the slots in use are those of the loop and of the sends that have not given
  theirs back, so that giving a slot back never waits, a claim asks for no more than the configured batch,
  and the wait group counts exactly the sends that have not ended.\<close>

theorem pool_bounded:
  assumes "reachable (pool_init (newPool name pol lns n)) (pool_step wid cfg) s"
  shows "sending s \<le> n \<and> pl_active (pr_pool s) = int (sending s) \<and> pl_in_flight (pr_pool s) = length (pr_sends s) \<and>
    pl_slots (pr_pool s) = held (pr_phase s) + using_slot s \<and> pl_slots (pr_pool s) \<le> n \<and>
    (case pr_phase s of Claiming lane taken \<Rightarrow> 1 \<le> taken \<and> int taken \<le> wc_claim_batch_size cfg | _ \<Rightarrow> True)"
proof -
  have "length (filter (\<lambda>x. snd x = Sending) xs) \<le> length (filter (\<lambda>x. snd x \<noteq> Freed) xs)" for xs :: "(job \<times> send_stage) list"
    by (induction xs) auto
  then have "sending s \<le> using_slot s" by (simp add: sending_def using_slot_def)
  then show ?thesis
    using claim_loop.reachable_invariant [OF assms]
    by (auto simp: pool_inv_def newPool_def phase_ok_def split: phase.splits)
qed

text \<open>The lanes of a pool are served in turn: among any as many consecutive claims as there are lanes, each lane
  is claimed from, so a backlog in one lane delays the others by at most one rotation.\<close>

theorem pool_round_robin:
  assumes "reachable (pool_init (newPool name pol lns n)) (pool_step wid cfg) s"
    and "lane \<in> set lns" "k + length lns \<le> length (pr_log s)"
  shows "lane \<in> set (take (length lns) (drop k (pr_log s)))"
proof -
  have "pr_log s = rotation lns (length (pr_log s))"
    using claim_loop.reachable_invariant [OF assms(1)] by (simp add: pool_inv_def newPool_def)
  then show ?thesis using rotation_window [OF assms(2,3)] by metis
qed


subsection \<open>Instances\<close>

definition demo_pool_config :: worker_config where
  "demo_pool_config = FromGateway demo_loaded"

text \<open>A pass of the loop that has budget for one message.\<close>

definition claiming :: "pool_run \<Rightarrow> pool_run" where
  "claiming s = (let p = pr_pool s in s\<lparr>pr_phase := Claiming (next_lane p) 1, pr_pool := rotate_lane (p\<lparr>pl_slots := pl_slots p + 1\<rparr>),
     pr_log := pr_log s @ [next_lane p]\<rparr>)"

lemma pool_pass:
  assumes r: "reachable init (pool_step wid cfg) s" and top: "pr_phase s = Top" "pl_slots (pr_pool s) < pl_concurrency (pr_pool s)"
    and size: "1 \<le> wc_claim_batch_size cfg"
    and cl: "claim now clock wid (wc_lease_duration cfg) locked (next_lane (pr_pool s)) 1 (pr_db s) = (d, jobs)"
  shows "reachable init (pool_step wid cfg) (claim_done 1 d jobs (claiming s))"
proof -
  let ?s1 = "s\<lparr>pr_phase := Holding, pr_pool := (pr_pool s)\<lparr>pl_slots := pl_slots (pr_pool s) + 1\<rparr>\<rparr>"
  let ?s2 = "?s1\<lparr>pr_phase := Taking 1 1\<rparr>"
  have "pool_step wid cfg s ?s1" using top by (rule acquire)
  with r have r1: "reachable init (pool_step wid cfg) ?s1" by (rule reachable_step)
  have "pool_step wid cfg ?s1 ?s2" using size by (intro sized [where budget = 1]) (simp_all add: claim_want_def)
  with r1 have r2: "reachable init (pool_step wid cfg) ?s2" by (rule reachable_step)
  have "pool_step wid cfg ?s2 (?s2\<lparr>pr_phase := Claiming (next_lane (pr_pool ?s2)) 1, pr_pool := rotate_lane (pr_pool ?s2),
      pr_log := pr_log ?s2 @ [next_lane (pr_pool ?s2)]\<rparr>)"
    by (rule start_claim [where want = 1]) simp_all
  then have "pool_step wid cfg ?s2 (claiming s)" by (simp add: claiming_def next_lane_def Let_def)
  with r2 have r3: "reachable init (pool_step wid cfg) (claiming s)" by (rule reachable_step)
  have "pool_step wid cfg (claiming s) (claim_done 1 d jobs (claiming s))"
    using cl by (intro claimed) (simp_all add: claiming_def rotate_lane_def Let_def)
  with r3 show ?thesis by (rule reachable_step)
qed

lemma demo_batch: "wc_claim_batch_size demo_pool_config = 200" "wc_lease_duration demo_pool_config = 30 * second"
  by code_simp+

definition demo_pool_start :: pool_run where
  "demo_pool_start = \<lparr>pr_pool = newPool ''normal'' (wc_normal demo_pool_config) [''normal-0'', ''normal-1''] 2, pr_phase = Top, pr_empty = 0,
     pr_sends = [], pr_log = [], pr_db = demo_db\<rparr>"

text \<open>A pool with two slots finds one message in its first lane, sends it, and finds the second lane empty.\<close>

definition demo_pool_run :: pool_run where
  "demo_pool_run = claim_done 1 demo_leased [] (claiming (claim_done 1 demo_leased [demo_job] (claiming demo_pool_start)))"

abbreviation demo_pool_reachable :: "pool_run \<Rightarrow> bool" where
  "demo_pool_reachable \<equiv> reachable (pool_init (newPool ''normal'' (wc_normal demo_pool_config) [''normal-0'', ''normal-1''] 2))
     (pool_step ''w1'' demo_pool_config)"

lemma demo_claim_one: "claim 1000 0 ''w1'' (30 * second) (\<lambda>u. False) ''normal-0'' 1 demo_db = (demo_leased, [demo_job])"
  by (simp add: claim_def picked_def ready_def row_of_def update_where_def demo_leased_def demo_job_def job_of_def
      lease_row_def demo_db_def demo_message_def demo_queue_row_def map_filter_def)

lemma demo_claim_none: "claim 1000 0 ''w1'' (30 * second) (\<lambda>u. False) ''normal-1'' 1 demo_leased = (demo_leased, [])"
  by (simp add: claim_def picked_def ready_def row_of_def update_where_def demo_leased_def
      lease_row_def demo_db_def demo_message_def demo_queue_row_def map_filter_def)

lemmas demo_pool_simps = demo_pool_start_def claim_done_def claiming_def newPool_def next_lane_def rotate_lane_def release_def Let_def

lemma demo_pool_run_reachable: "demo_pool_reachable demo_pool_run"
proof -
  have "demo_pool_reachable demo_pool_start"
    by (rule reachable_init) (simp add: pool_init_def demo_pool_start_def demo_db_def demo_queue_row_def)
  then have "demo_pool_reachable (claim_done 1 demo_leased [demo_job] (claiming demo_pool_start))"
    by (rule pool_pass) (use demo_claim_one in \<open>simp_all add: demo_batch demo_pool_simps\<close>)
  then show ?thesis unfolding demo_pool_run_def
    by (rule pool_pass) (use demo_claim_none in \<open>simp_all add: demo_batch demo_pool_simps\<close>)
qed

theorem pool_bounded_witness:
  "sending demo_pool_run \<le> 2 \<and> pl_active (pr_pool demo_pool_run) = int (sending demo_pool_run)"
  using pool_bounded [OF demo_pool_run_reachable] by blast

theorem pool_round_robin_witness: "''normal-1'' \<in> set (take 2 (drop 0 (pr_log demo_pool_run)))"
  using pool_round_robin [OF demo_pool_run_reachable, of "''normal-1''" 0] by (simp add: demo_pool_run_def demo_pool_simps)


end
