(* ===== verification/Admin.thy ===== *)
theory Admin
  imports Httpx Customer Queries Checker Monitor Config
begin

text \<open>
  The operator's API: \<^verbatim>\<open>internal/admin/server.go\<close>, \<^verbatim>\<open>api.go\<close> and \<^verbatim>\<open>providers.go\<close>. A handler is a function of the database
  that returns an error or a status and a body. What a request meets outside (clocks, failures of
  statements, new identifiers and keys, the providers' answers, the parsers) is an \<open>admin_world\<close>.
\<close>

subsection \<open>Server\<close>

definition User :: string where "User = ''admin''"

record admin_config =
  ad_token :: string
  ad_providers :: "provider_config list"
  ad_lanes :: "string list"
  ad_default_rate_limit_rps :: int
  ad_invariants :: Checker.check_config

datatype answer = Unreachable | Answered int string "string \<times> string"

record admin_world =
  am_sha :: "string \<Rightarrow> string"
  am_random :: "byte list"
  am_env :: env
  am_now :: gtime
  am_tx_fault :: tx_fault
  am_fails :: "string \<Rightarrow> bool"
  am_parsers :: parsers
  am_provider :: "string \<Rightarrow> string \<Rightarrow> string \<Rightarrow> answer"

text \<open>A statement that cannot be executed returns the driver's error and changes nothing.\<close>

definition asking :: "admin_world \<Rightarrow> string \<Rightarrow> error + 'a \<Rightarrow> served_error + 'a" where
  "asking w what r =
     (if am_fails w what then Inl (OtherErr (DbErr what Unavailable))
      else case r of Inl e \<Rightarrow> Inl (OtherErr e) | Inr x \<Rightarrow> Inr x)"

definition changing :: "admin_world \<Rightarrow> string \<Rightarrow> (db \<Rightarrow> db \<times> (error + 'a)) \<Rightarrow> db \<Rightarrow> db \<times> (served_error + 'a)" where
  "changing w what f d =
     (if am_fails w what then (d, Inl (OtherErr (DbErr what Unavailable)))
      else case f d of (d', Inl e) \<Rightarrow> (d', Inl (OtherErr e)) | (d', Inr x) \<Rightarrow> (d', Inr x))"

text \<open>\<^verbatim>\<open>toHTTPError\<close> of this package.\<close>

definition admin_toHTTPError :: "served_error \<Rightarrow> served_error" where
  "admin_toHTTPError err =
     (case err of
        HttpErr e \<Rightarrow> HttpErr e
      | OtherErr e \<Rightarrow>
          (case e of
             ValidationError fs \<Rightarrow> HttpErr (http_ValidationError fs)
           | ErrNotFound \<Rightarrow> HttpErr (NewError 404 ''not_found'' ''The customer does not exist.'')
           | ErrCustomerNotFound \<Rightarrow> HttpErr (NewError 404 ''not_found'' ''The customer does not exist.'')
           | ErrMessageNotFound \<Rightarrow> HttpErr (NewError 404 ''not_found'' ''The message does not exist.'')
           | _ \<Rightarrow> OtherErr e))"

subsection \<open>Customers\<close>

record customer_day =
  cy_messages :: int
  cy_by_status :: "status \<Rightarrow> int"
  cy_credits_spent :: int

record customer_json =
  cj_id :: string
  cj_name :: string
  cj_api_key_prefix :: string
  cj_balance :: int
  cj_rate_limit_rps :: int
  cj_created_at :: gtime
  cj_updated_at :: gtime
  cj_stats_24h :: "customer_day option"
  cj_api_key :: string

definition toCustomerJSON :: "(uuid \<Rightarrow> string) \<Rightarrow> customer \<Rightarrow> customer_json" where
  "toCustomerJSON us c =
     \<lparr>cj_id = us (c_id c), cj_name = c_name c, cj_api_key_prefix = c_api_key_prefix c, cj_balance = c_balance c,
      cj_rate_limit_rps = c_rate_limit_rps c, cj_created_at = c_created_at c, cj_updated_at = c_updated_at c,
      cj_stats_24h = None, cj_api_key = []\<rparr>"

definition pathID :: "admin_world \<Rightarrow> string \<Rightarrow> error \<Rightarrow> served_error + uuid" where
  "pathID w path notFound = (case parse_uuid (am_parsers w) path of None \<Rightarrow> Inl (OtherErr notFound) | Some u \<Rightarrow> Inr u)"

record customer_request =
  rq_name :: "string option"
  rq_initial_credits :: "int option"
  rq_rate_limit_rps :: "int option"

definition request_problems :: "bool \<Rightarrow> customer_request \<Rightarrow> field_error list" where
  "request_problems creating req =
     (case rq_name req of
        None \<Rightarrow> if creating then [fe ''name'' ''required'' ''is required''] else []
      | Some s \<Rightarrow> if length s < 1 \<or> 100 < length s then [fe ''name'' ''out_of_range'' ''must be 1-100 characters''] else []) @
     (case rq_initial_credits req of
        None \<Rightarrow> []
      | Some n \<Rightarrow> if n < 0 \<or> MaxChargeAmount < n
          then [fe ''initial_credits'' ''out_of_range'' (''must be from 0 to '' @ itoa MaxChargeAmount)] else []) @
     (case rq_rate_limit_rps req of
        None \<Rightarrow> []
      | Some n \<Rightarrow> if n < 1 \<or> 100000 < n then [fe ''rate_limit_rps'' ''out_of_range'' ''must be from 1 to 100000''] else [])"

definition request_validate :: "bool \<Rightarrow> customer_request \<Rightarrow> error option" where
  "request_validate creating req =
     (if request_problems creating req = [] then None else Some (ValidationError (request_problems creating req)))"

text \<open>\<^verbatim>\<open>newCustomer\<close>; the request has a name.\<close>

definition newCustomer :: "admin_world \<Rightarrow> admin_config \<Rightarrow> customer_request \<Rightarrow> db \<Rightarrow> db \<times> (served_error + customer \<times> string)" where
  "newCustomer w cfg req d =
     (let n = \<lparr>n_name = the (rq_name req),
               n_initial_credits = (case rq_initial_credits req of None \<Rightarrow> 0 | Some c \<Rightarrow> c),
               n_rate_limit_rps = (case rq_rate_limit_rps req of None \<Rightarrow> ad_default_rate_limit_rps cfg | Some r \<Rightarrow> r)\<rparr>
      in case Create (am_tx_fault w) (am_sha w) (am_env w) (am_random w) n d of
          (d', Inl e) \<Rightarrow> (d', Inl (OtherErr e))
        | (d', Inr p) \<Rightarrow> (d', Inr p))"

record transaction_json =
  tj_id :: string
  tj_kind :: string
  tj_amount :: int
  tj_message_id :: "string option"
  tj_client_ref :: "string option"
  tj_created_at :: gtime

definition toTransactionJSON :: "(uuid \<Rightarrow> string) \<Rightarrow> transaction \<Rightarrow> transaction_json" where
  "toTransactionJSON us t =
     \<lparr>tj_id = us (t_id t), tj_kind = kind_string (t_kind t), tj_amount = t_amount t, tj_message_id = map_option us (t_message_id t),
      tj_client_ref = t_client_ref t, tj_created_at = t_created_at t\<rparr>"

record queue_json =
  qj_lane :: string
  qj_next_attempt_at :: gtime
  qj_lease_owner :: "string option"

record message_json =
  mj_id :: string
  mj_customer_id :: string
  mj_customer_name :: string
  mj_message :: message
  mj_queue :: "queue_json option"

text \<open>\<^verbatim>\<open>toMessageJSON\<close> copies every field of the message; they are kept together in \<open>mj_message\<close>.\<close>

definition toMessageJSON :: "(uuid \<Rightarrow> string) \<Rightarrow> inspected \<Rightarrow> message_json" where
  "toMessageJSON us i =
     \<lparr>mj_id = us (m_id (in_message i)), mj_customer_id = us (m_customer_id (in_message i)), mj_customer_name = in_customer_name i,
      mj_message = in_message i, mj_queue = None\<rparr>"

record overview =
  ov_generated_at :: gtime
  ov_queue :: "lane_stats list"
  ov_workers :: "worker_view list"
  ov_accepted_per_s :: rat
  ov_express_latency :: express_latency

datatype admin_body =
    CustomerBody customer_json
  | CustomerPage "customer_json list" "string option"
  | KeyBody string string
  | CreditBody transaction_json int
  | InspectedBody message_json
  | InspectedPage "message_json list" "string option"
  | OverviewBody overview
  | InvariantsBody check_report
  | ProxiedBody string string
  | NoBody

type_synonym admin_result = "db \<times> (served_error + int \<times> admin_body)"

definition customers_query :: "(string \<Rightarrow> string) \<Rightarrow> query \<times> uuid \<times> int" where
  "customers_query vals =
     (let (q1, after) = query_Cursor (NewQuery vals); (q2, limit) = query_Limit 50 200 q1 in (q2, after, limit))"

definition listCustomers :: "admin_world \<Rightarrow> (string \<Rightarrow> string) \<Rightarrow> db \<Rightarrow> admin_result" where
  "listCustomers w vals d =
     (d, let (q, after, limit) = customers_query vals
      in case query_Err q of
          Some e \<Rightarrow> Inl (HttpErr e)
        | None \<Rightarrow>
            (case asking w ''list customers'' (Inr (ListCustomers after (nat limit) d)) of
               Inl e \<Rightarrow> Inl e
             | Inr (list, follows) \<Rightarrow> Inr (200, CustomerPage (map (toCustomerJSON (env_uuid_string (am_env w))) list)
                 (pg_next_cursor (NewPage c_id list follows)))))"

definition createCustomer :: "admin_world \<Rightarrow> admin_config \<Rightarrow> customer_request body \<Rightarrow> db \<Rightarrow> admin_result" where
  "createCustomer w cfg body d =
     (case DecodeJSON body of
        Inl e \<Rightarrow> (d, Inl (HttpErr e))
      | Inr req \<Rightarrow>
          (case request_validate True req of
             Some e \<Rightarrow> (d, Inl (OtherErr e))
           | None \<Rightarrow>
               (case newCustomer w cfg req d of
                  (d', Inl e) \<Rightarrow> (d', Inl e)
                | (d', Inr (c, key)) \<Rightarrow>
                    (d', Inr (201, CustomerBody ((toCustomerJSON (env_uuid_string (am_env w)) c)\<lparr>cj_api_key := key\<rparr>))))))"

definition customerDetail :: "admin_world \<Rightarrow> uuid \<Rightarrow> db \<Rightarrow> served_error + customer_json" where
  "customerDetail w cid d =
     (case asking w ''get customer'' (Get cid d) of
        Inl e \<Rightarrow> Inl e
      | Inr c \<Rightarrow>
          (case asking w ''summarize messages'' (Inr (Summarize cid (am_now w - 24 * hour) (am_now w + second) d)) of
             Inl e \<Rightarrow> Inl e
           | Inr sm \<Rightarrow> Inr ((toCustomerJSON (env_uuid_string (am_env w)) c)
               \<lparr>cj_stats_24h := Some \<lparr>cy_messages = su_messages sm, cy_by_status = su_by_status sm,
                 cy_credits_spent = su_credits_spent sm\<rparr>\<rparr>)))"

definition getCustomer :: "admin_world \<Rightarrow> string \<Rightarrow> db \<Rightarrow> admin_result" where
  "getCustomer w path d =
     (d, case pathID w path ErrNotFound of
        Inl e \<Rightarrow> Inl e
      | Inr cid \<Rightarrow> (case customerDetail w cid d of Inl e \<Rightarrow> Inl e | Inr out \<Rightarrow> Inr (200, CustomerBody out)))"

record update_request =
  ur_name :: "string option"
  ur_rate_limit_rps :: "int option"

definition updateCustomer :: "admin_world \<Rightarrow> string \<Rightarrow> update_request body \<Rightarrow> db \<Rightarrow> admin_result" where
  "updateCustomer w path body d =
     (case pathID w path ErrNotFound of
        Inl e \<Rightarrow> (d, Inl e)
      | Inr cid \<Rightarrow>
          (case DecodeJSON body of
             Inl e \<Rightarrow> (d, Inl (HttpErr e))
           | Inr req \<Rightarrow>
               (case request_validate False \<lparr>rq_name = ur_name req, rq_initial_credits = None, rq_rate_limit_rps = ur_rate_limit_rps req\<rparr> of
                  Some e \<Rightarrow> (d, Inl (OtherErr e))
                | None \<Rightarrow>
                    (case changing w ''update customer'' (Update (env_now (am_env w)) cid (ur_name req) (ur_rate_limit_rps req)) d of
                       (d', Inl e) \<Rightarrow> (d', Inl e)
                     | (d', Inr c) \<Rightarrow> (d', Inr (200, CustomerBody (toCustomerJSON (env_uuid_string (am_env w)) c)))))))"

definition deleteCustomer :: "admin_world \<Rightarrow> string \<Rightarrow> db \<Rightarrow> admin_result" where
  "deleteCustomer w path d =
     (case pathID w path ErrNotFound of
        Inl e \<Rightarrow> (d, Inl e)
      | Inr cid \<Rightarrow>
          (case changing w ''delete customer'' (Delete cid) d of
             (d', Inl e) \<Rightarrow> (d', Inl e)
           | (d', Inr u) \<Rightarrow> (d', Inr (204, NoBody))))"

definition rotateKey :: "admin_world \<Rightarrow> string \<Rightarrow> db \<Rightarrow> admin_result" where
  "rotateKey w path d =
     (case pathID w path ErrNotFound of
        Inl e \<Rightarrow> (d, Inl e)
      | Inr cid \<Rightarrow>
          (case changing w ''rotate key'' (RotateKey (am_sha w) (env_now (am_env w)) (am_random w) cid) d of
             (d', Inl e) \<Rightarrow> (d', Inl e)
           | (d', Inr (c, key)) \<Rightarrow> (d', Inr (200, KeyBody key (c_api_key_prefix c)))))"

text \<open>\<^verbatim>\<open>addCredit\<close> draws two identifiers: the one in the reference and the charge's own.\<close>

definition addCredit :: "admin_world \<Rightarrow> uuid \<Rightarrow> int \<Rightarrow> db \<Rightarrow> db \<times> (served_error + charge_result)" where
  "addCredit w cid amount d =
     (if amount < 1 \<or> MaxChargeAmount < amount
      then (d, Inl (OtherErr (ValidationError [fe ''amount'' ''out_of_range'' (''must be from 1 to '' @ itoa MaxChargeAmount)])))
      else case ChargeCustomer (am_tx_fault w) (am_env w) cid amount (AdminChargeRef (am_env w) 1) d of
          (d', Inl e) \<Rightarrow> (d', Inl (OtherErr e))
        | (d', Inr r) \<Rightarrow> (d', Inr r))"

definition addCredits :: "admin_world \<Rightarrow> string \<Rightarrow> int body \<Rightarrow> db \<Rightarrow> admin_result" where
  "addCredits w path body d =
     (case pathID w path ErrNotFound of
        Inl e \<Rightarrow> (d, Inl e)
      | Inr cid \<Rightarrow>
          (case DecodeJSON body of
             Inl e \<Rightarrow> (d, Inl (HttpErr e))
           | Inr amount \<Rightarrow>
               (case addCredit w cid amount d of
                  (d', Inl e) \<Rightarrow> (d', Inl e)
                | (d', Inr r) \<Rightarrow> (d', Inr (201, CreditBody (toTransactionJSON (env_uuid_string (am_env w)) (cr_transaction r)) (cr_balance r))))))"

subsection \<open>Messages and system\<close>

definition messageFilter :: "parsers \<Rightarrow> query \<Rightarrow> query \<times> uuid \<times> message_filter" where
  "messageFilter ps q0 =
     (let (q1, cid) = query_UUID ps ''customer_id'' q0;
          (q2, since) = query_Time ''since'' q1;
          (q3, until) = query_Time ''until'' q2;
          (q4, after) = query_Cursor q3;
          (q5, limit) = query_Limit 50 200 q4;
          status = query_String ''status'' q5;
          q6 = (if status \<noteq> [] \<and> ParseStatus status = None then Fail ''status'' ''invalid_format'' ''must be a message status'' q5 else q5);
          typ_name = query_String ''type'' q6;
          q7 = (if typ_name \<noteq> [] \<and> ParseType typ_name = None then Fail ''type'' ''invalid_format'' ''must be normal or express'' q6 else q6);
          q8 = TimeRange since until q7
      in (q8, cid, \<lparr>mf_status = (case ParseStatus status of None \<Rightarrow> [] | Some st \<Rightarrow> status_string st),
               mf_type = (case ParseType typ_name of None \<Rightarrow> [] | Some t \<Rightarrow> type_string t),
               mf_recipient = [], mf_since = since, mf_until = until, mf_after = after, mf_limit = nat limit\<rparr>))"

definition admin_listMessages :: "admin_world \<Rightarrow> (string \<Rightarrow> string) \<Rightarrow> db \<Rightarrow> admin_result" where
  "admin_listMessages w vals d =
     (d, let (q, cid, f) = messageFilter (am_parsers w) (NewQuery vals)
      in case query_Err q of
          Some e \<Rightarrow> Inl (HttpErr e)
        | None \<Rightarrow>
            (case asking w ''list messages'' (Inr (ListAll cid f (am_now w) d)) of
               Inl e \<Rightarrow> Inl e
             | Inr (list, follows) \<Rightarrow> Inr (200, InspectedPage (map (toMessageJSON (env_uuid_string (am_env w))) list)
                 (pg_next_cursor (NewPage (\<lambda>i. m_id (in_message i)) list follows)))))"

definition admin_getMessage :: "admin_world \<Rightarrow> string \<Rightarrow> db \<Rightarrow> admin_result" where
  "admin_getMessage w path d =
     (d, case pathID w path ErrMessageNotFound of
        Inl e \<Rightarrow> Inl e
      | Inr mid \<Rightarrow>
          (case asking w ''inspect message'' (Inspect mid d) of
             Inl e \<Rightarrow> Inl e
           | Inr i \<Rightarrow> Inr (200, InspectedBody ((toMessageJSON (env_uuid_string (am_env w)) i)
               \<lparr>mj_queue := map_option (\<lambda>q. \<lparr>qj_lane = qs_lane q, qj_next_attempt_at = qs_next_attempt_at q, qj_lease_owner = qs_lease_owner q\<rparr>)
                 (in_queue i)\<rparr>))))"

definition overview_of :: "admin_world \<Rightarrow> admin_config \<Rightarrow> db \<Rightarrow> served_error + overview" where
  "overview_of w cfg d =
     (case asking w ''queue stats'' (Inr (QueueStats (env_now (am_env w)) (ad_lanes cfg) d)) of
        Inl e \<Rightarrow> Inl e
      | Inr qs \<Rightarrow>
          (case asking w ''list workers'' (Inr (Workers (env_now (am_env w)) d)) of
             Inl e \<Rightarrow> Inl e
           | Inr ws \<Rightarrow>
               (case asking w ''throughput'' (Inr (AcceptedPerSecond (am_now w) d)) of
                  Inl e \<Rightarrow> Inl e
                | Inr accepted \<Rightarrow>
                    (case asking w ''express latency'' (Inr (monitor_Express (am_now w) (5 * minute) d)) of
                       Inl e \<Rightarrow> Inl e
                     | Inr express \<Rightarrow> Inr \<lparr>ov_generated_at = am_now w, ov_queue = qs, ov_workers = ws,
                         ov_accepted_per_s = accepted, ov_express_latency = express\<rparr>))))"

definition system_handler :: "admin_world \<Rightarrow> admin_config \<Rightarrow> db \<Rightarrow> admin_result" where
  "system_handler w cfg d = (d, case overview_of w cfg d of Inl e \<Rightarrow> Inl e | Inr ov \<Rightarrow> Inr (200, OverviewBody ov))"

definition invariants_handler :: "admin_world \<Rightarrow> admin_config \<Rightarrow> db \<Rightarrow> admin_result" where
  "invariants_handler w cfg d =
     (d, case asking w ''invariants'' (Inr (Run (env_uuid_string (am_env w)) (ad_invariants cfg) (env_now (am_env w)) d)) of
        Inl e \<Rightarrow> Inl e
      | Inr rep \<Rightarrow> Inr (200, InvariantsBody rep))"

subsection \<open>Providers\<close>

definition provider_named :: "admin_config \<Rightarrow> string \<Rightarrow> provider_config option" where
  "provider_named cfg name = List.find (\<lambda>p. pvc_name p = name) (ad_providers cfg)"

definition errProviderUnknown :: http_error where
  "errProviderUnknown = NewError 404 ''not_found'' ''The provider is not configured.''"

definition errProviderUnreachable :: http_error where
  "errProviderUnreachable = NewError 502 ''provider_unreachable'' ''The provider did not answer.''"

text \<open>\<^verbatim>\<open>proxyProvider\<close>: the answer of the provider is passed on with its status, content type and body. \<open>am_provider\<close> is
  given the method, the URL and the body of the request.\<close>

definition proxyProvider :: "admin_world \<Rightarrow> admin_config \<Rightarrow> string \<Rightarrow> string \<Rightarrow> string \<Rightarrow> string \<Rightarrow> string \<Rightarrow> db \<Rightarrow> admin_result" where
  "proxyProvider w cfg path meth name rawQuery content d =
     (d, case provider_named cfg name of
        None \<Rightarrow> Inl (HttpErr errProviderUnknown)
      | Some p \<Rightarrow>
          let url = pvc_url p @ path; url' = (if rawQuery \<noteq> [] then url @ ''?'' @ rawQuery else url)
          in case am_provider w meth url' content of
              Unreachable \<Rightarrow> Inl (HttpErr errProviderUnreachable)
            | Answered st statusText (contentType, body) \<Rightarrow> Inr (st, ProxiedBody contentType body))"

subsection \<open>Routes\<close>

datatype admin_route =
    ListCustomersRoute "string \<Rightarrow> string"
  | CreateCustomerRoute "customer_request body"
  | GetCustomerRoute string
  | UpdateCustomerRoute string "update_request body"
  | DeleteCustomerRoute string
  | RotateKeyRoute string
  | AddCreditsRoute string "int body"
  | AdminMessagesRoute "string \<Rightarrow> string"
  | AdminMessageRoute string
  | SystemRoute
  | InvariantsRoute
  | ProviderConfigRoute string string string
  | PutProviderConfigRoute string string string
  | ProviderMessagesRoute string string string
  | ProviderStatsRoute string string string

text \<open>A \<^verbatim>\<open>GET\<close> pattern of \<^verbatim>\<open>http.ServeMux\<close> serves \<^verbatim>\<open>HEAD\<close> requests too.\<close>

definition route_methods :: "admin_route \<Rightarrow> string list" where
  "route_methods r =
     (case r of
        CreateCustomerRoute b \<Rightarrow> [''POST'']
      | UpdateCustomerRoute p b \<Rightarrow> [''PATCH'']
      | DeleteCustomerRoute p \<Rightarrow> [''DELETE'']
      | RotateKeyRoute p \<Rightarrow> [''POST'']
      | AddCreditsRoute p b \<Rightarrow> [''POST'']
      | PutProviderConfigRoute n q b \<Rightarrow> [''PUT'']
      | _ \<Rightarrow> [''GET'', ''HEAD''])"

definition admin_handle :: "admin_world \<Rightarrow> admin_config \<Rightarrow> string \<Rightarrow> admin_route \<Rightarrow> db \<Rightarrow> admin_result" where
  "admin_handle w cfg meth r d =
     (case r of
        ListCustomersRoute vals \<Rightarrow> listCustomers w vals d
      | CreateCustomerRoute b \<Rightarrow> createCustomer w cfg b d
      | GetCustomerRoute p \<Rightarrow> getCustomer w p d
      | UpdateCustomerRoute p b \<Rightarrow> updateCustomer w p b d
      | DeleteCustomerRoute p \<Rightarrow> deleteCustomer w p d
      | RotateKeyRoute p \<Rightarrow> rotateKey w p d
      | AddCreditsRoute p b \<Rightarrow> addCredits w p b d
      | AdminMessagesRoute vals \<Rightarrow> admin_listMessages w vals d
      | AdminMessageRoute p \<Rightarrow> admin_getMessage w p d
      | SystemRoute \<Rightarrow> system_handler w cfg d
      | InvariantsRoute \<Rightarrow> invariants_handler w cfg d
      | ProviderConfigRoute n q b \<Rightarrow> proxyProvider w cfg ''/admin/config'' meth n q b d
      | PutProviderConfigRoute n q b \<Rightarrow> proxyProvider w cfg ''/admin/config'' meth n q b d
      | ProviderMessagesRoute n q b \<Rightarrow> proxyProvider w cfg ''/admin/messages'' meth n q b d
      | ProviderStatsRoute n q b \<Rightarrow> proxyProvider w cfg ''/admin/stats'' meth n q b d)"

text \<open>The parts of a request the protection of the console looks at; \<open>rq_origin_host\<close> is the host of the \<^verbatim>\<open>Origin\<close>
  header, if it parses, and \<open>rq_auth\<close> what \<^verbatim>\<open>BasicAuth\<close> finds.\<close>

record admin_request =
  rq_method :: string
  rq_sec_fetch_site :: string
  rq_origin :: string
  rq_origin_host :: "string option"
  rq_host :: string
  rq_auth :: "(string \<times> string) option"

text \<open>\<^verbatim>\<open>http.CrossOriginProtection\<close> with no exceptions configured.\<close>

definition cross_origin_error :: "admin_request \<Rightarrow> string option" where
  "cross_origin_error q =
     (if rq_method q \<in> {''GET'', ''HEAD'', ''OPTIONS''} then None
      else if rq_sec_fetch_site q \<noteq> []
      then if rq_sec_fetch_site q \<in> {''same-origin'', ''none''} then None
           else Some ''cross-origin request detected from Sec-Fetch-Site header''
      else if rq_origin q = [] \<or> rq_origin_host q = Some (rq_host q) then None
      else Some ''cross-origin request detected, and/or browser is out of date: Sec-Fetch-Site is missing, and Origin does not match Host'')"

datatype 'b shown = Content 'b | AdminError http_error | PlainText string

record 'b admin_response =
  ar_status :: int
  ar_body :: "'b shown"

definition credentials_ok :: "admin_config \<Rightarrow> admin_request \<Rightarrow> bool" where
  "credentials_ok cfg q \<longleftrightarrow> rq_auth q = Some (User, ad_token cfg)"

definition basicAuth :: "admin_config \<Rightarrow> admin_request \<Rightarrow> (db \<Rightarrow> db \<times> 'b admin_response) \<Rightarrow> db \<Rightarrow> db \<times> 'b admin_response" where
  "basicAuth cfg q next_handler d =
     (case cross_origin_error q of
        Some msg \<Rightarrow> (d, \<lparr>ar_status = 403, ar_body = PlainText msg\<rparr>)
      | None \<Rightarrow>
          if \<not> credentials_ok cfg q
          then let e = WriteError (HttpErr (NewError 401 ''unauthorized'' ''Admin credentials are required.''))
               in (d, \<lparr>ar_status = he_status e, ar_body = AdminError e\<rparr>)
          else next_handler d)"

definition jsonHandler :: "(db \<Rightarrow> admin_result) \<Rightarrow> db \<Rightarrow> db \<times> admin_body admin_response" where
  "jsonHandler h d =
     (case h d of
        (d', Inl err) \<Rightarrow> (let e = WriteError (admin_toHTTPError err) in (d', \<lparr>ar_status = he_status e, ar_body = AdminError e\<rparr>))
      | (d', Inr (st, b)) \<Rightarrow> (d', \<lparr>ar_status = st, ar_body = Content b\<rparr>))"

definition admin_serve :: "admin_world \<Rightarrow> admin_config \<Rightarrow> admin_request \<Rightarrow> admin_route \<Rightarrow> db \<Rightarrow> db \<times> admin_body admin_response" where
  "admin_serve w cfg q r d = basicAuth cfg q (jsonHandler (admin_handle w cfg (rq_method q) r)) d"

subsection \<open>What handlers change\<close>

text \<open>The operations of the console that write, as effects on the database.\<close>

inductive operator_step :: "gtime \<Rightarrow> db \<Rightarrow> db \<Rightarrow> bool" for now where
  created: "env_now e = now \<Longrightarrow> operator_step now d (fst (Create fault sha e random n d))"
| updated: "operator_step now d (fst (Update now cid name rps d))"
| rotated: "operator_step now d (fst (RotateKey sha now random cid d))"
| credited: "env_now e = now \<Longrightarrow> operator_step now d (fst (ChargeCustomer fault e cid amount ref d))"
| deleted: "operator_step now d (fst (Delete cid d))"

lemma changing_cases:
  assumes "changing w what f d = (d', r)"
  shows "d' = d \<and> (\<exists>e. r = Inl (OtherErr e)) \<or> d' = fst (f d)"
  using assms by (auto simp: changing_def split: if_splits prod.splits sum.splits)

lemma newCustomer_step: "newCustomer w cfg req d = (d', r) \<Longrightarrow> operator_step (env_now (am_env w)) d d'"
proof -
  assume "newCustomer w cfg req d = (d', r)"
  then have "\<exists>n. d' = fst (Create (am_tx_fault w) (am_sha w) (am_env w) (am_random w) n d)"
    unfolding newCustomer_def Let_def by (auto split: prod.splits sum.splits) (metis fst_conv)+
  then show ?thesis by (auto intro: created)
qed

lemma addCredit_step: "addCredit w cid amount d = (d', r) \<Longrightarrow> d' = d \<or> operator_step (env_now (am_env w)) d d'"
  using credited [of "am_env w" "env_now (am_env w)" d "am_tx_fault w" cid amount "AdminChargeRef (am_env w) 1"]
  by (auto simp: addCredit_def split: if_splits prod.splits sum.splits)

lemma changing_step:
  assumes "changing w what f d = (d', r)" "operator_step now d (fst (f d))"
  shows "d' = d \<or> operator_step now d d'"
  using changing_cases [OF assms(1)] assms(2) by auto

lemmas console_writes = createCustomer_def updateCustomer_def deleteCustomer_def rotateKey_def addCredits_def
lemmas console_reads = listCustomers_def getCustomer_def admin_listMessages_def admin_getMessage_def system_handler_def
  invariants_handler_def proxyProvider_def

lemma admin_handle_step:
  assumes "admin_handle w cfg meth r d = (d', res)"
  shows "d' = d \<or> operator_step (env_now (am_env w)) d d'"
proof (cases r)
  case (CreateCustomerRoute b)
  with assms show ?thesis
    by (auto simp: admin_handle_def createCustomer_def dest: newCustomer_step split: sum.splits option.splits prod.splits)
next
  case (UpdateCustomerRoute p b)
  with assms show ?thesis
    by (auto simp: admin_handle_def updateCustomer_def dest!: changing_step [OF _ updated] split: sum.splits option.splits prod.splits)
next
  case (DeleteCustomerRoute p)
  with assms show ?thesis
    by (auto simp: admin_handle_def deleteCustomer_def dest!: changing_step [OF _ deleted] split: sum.splits prod.splits)
next
  case (RotateKeyRoute p)
  with assms show ?thesis
    by (auto simp: admin_handle_def rotateKey_def dest!: changing_step [OF _ rotated] split: sum.splits prod.splits)
next
  case (AddCreditsRoute p b)
  with assms show ?thesis
    by (auto simp: admin_handle_def addCredits_def dest: addCredit_step split: sum.splits prod.splits)
qed (use assms in \<open>auto simp: admin_handle_def console_reads\<close>)

text \<open>An operation that returns an error has changed nothing.\<close>

lemma console_errors_clean:
  "Create fault sha e random n d = (d', Inl err) \<Longrightarrow> d' = d" "Update now cid name rps d = (d', Inl err) \<Longrightarrow> d' = d"
  "RotateKey sha now random cid d = (d', Inl err) \<Longrightarrow> d' = d" "Delete cid d = (d', Inl err) \<Longrightarrow> d' = d"
  "ChargeCustomer fault e cid amount ref d = (d', Inl err) \<Longrightarrow> d' = d"
  by (auto simp: Create_def Update_def RotateKey_def Delete_def ChargeCustomer_def update_customer_def Let_def
      dest: WithTx_Inl split: prod.splits sum.splits option.splits if_splits)

lemma changing_clean:
  assumes "changing w what f d = (d', Inl e)" "\<And>d1 err. f d = (d1, Inl err) \<Longrightarrow> d1 = d"
  shows "d' = d"
  using assms by (auto simp: changing_def split: if_splits prod.splits sum.splits)

lemma admin_handle_clean:
  assumes "admin_handle w cfg meth r d = (d', Inl e)"
  shows "d' = d"
proof (cases r)
  case (CreateCustomerRoute b)
  with assms show ?thesis
    by (auto simp: admin_handle_def createCustomer_def newCustomer_def Let_def dest: console_errors_clean(1) split: sum.splits option.splits prod.splits)
next
  case (UpdateCustomerRoute p b)
  with assms show ?thesis
    by (auto simp: admin_handle_def updateCustomer_def dest: changing_clean console_errors_clean(2) split: sum.splits option.splits prod.splits)
next
  case (DeleteCustomerRoute p)
  with assms show ?thesis
    by (auto simp: admin_handle_def deleteCustomer_def dest: changing_clean console_errors_clean(4) split: sum.splits prod.splits)
next
  case (RotateKeyRoute p)
  with assms show ?thesis
    by (auto simp: admin_handle_def rotateKey_def dest: changing_clean console_errors_clean(3) split: sum.splits prod.splits)
next
  case (AddCreditsRoute p b)
  with assms show ?thesis
    by (auto simp: admin_handle_def addCredits_def addCredit_def dest: console_errors_clean(5) split: sum.splits prod.splits if_splits)
qed (use assms in \<open>auto simp: admin_handle_def console_reads\<close>)

lemma admin_handle_written:
  assumes "admin_handle w cfg meth r d = (d', Inr (st, b))" "d' \<noteq> d"
  shows "st \<in> {200, 201, 204} \<and> set (route_methods r) \<subseteq> {''POST'', ''PATCH'', ''DELETE''}"
  using assms
  by (cases r) (auto simp: admin_handle_def console_writes console_reads route_methods_def split: sum.splits option.splits prod.splits)

lemma basicAuth_changes:
  assumes "basicAuth cfg q h d = (d', resp)" "d' \<noteq> d"
  shows "credentials_ok cfg q" "cross_origin_error q = None" "h d = (d', resp)"
  using assms by (auto simp: basicAuth_def Let_def split: option.splits if_splits)

lemma admin_serve_changes:
  assumes "admin_serve w cfg q r d = (d', resp)" "d' \<noteq> d"
  shows "credentials_ok cfg q" "cross_origin_error q = None" "jsonHandler (admin_handle w cfg (rq_method q) r) d = (d', resp)"
    "\<exists>res. admin_handle w cfg (rq_method q) r d = (d', res)"
proof -
  note a = basicAuth_changes [OF assms(1) [unfolded admin_serve_def] assms(2)]
  show "credentials_ok cfg q" "cross_origin_error q = None" "jsonHandler (admin_handle w cfg (rq_method q) r) d = (d', resp)" by (fact a)+
  from a(3) show "\<exists>res. admin_handle w cfg (rq_method q) r d = (d', res)"
    by (auto simp: jsonHandler_def Let_def split: prod.splits sum.splits)
qed

subsection \<open>Properties\<close>

text \<open>The console changes the database only for the operator: a request that does carried the admin
  credentials, was no read, did not come from another site, and is answered with success; what it did is
  one customer operation, and an error answer means that nothing was written.\<close>

theorem console_changes_authorised:
  assumes "admin_serve w cfg q r d = (d', resp)" "rq_method q \<in> set (route_methods r)" "d' \<noteq> d"
  shows "rq_auth q = Some (''admin'', ad_token cfg) \<and> rq_method q \<in> {''POST'', ''PATCH'', ''DELETE''} \<and>
    (rq_sec_fetch_site q \<in> {''same-origin'', ''none''} \<or>
     rq_sec_fetch_site q = [] \<and> (rq_origin q = [] \<or> rq_origin_host q = Some (rq_host q))) \<and>
    ar_status resp \<in> {200, 201, 204} \<and> operator_step (env_now (am_env w)) d d'"
proof -
  note auth = admin_serve_changes [OF assms(1,3)]
  obtain res where h: "admin_handle w cfg (rq_method q) r d = (d', res)" using auth(4) ..
  then obtain st b where res: "res = Inr (st, b)" using admin_handle_clean h assms(3) by (cases res) fastforce+
  note w = admin_handle_written [OF h [unfolded res] assms(3)]
  have "ar_status resp = st" using auth(3) h res by (auto simp: jsonHandler_def)
  moreover have m: "rq_method q \<in> {''POST'', ''PATCH'', ''DELETE''}" using w assms(2) by blast
  moreover have "operator_step (env_now (am_env w)) d d'" using admin_handle_step [OF h] assms(3) by simp
  moreover have "rq_sec_fetch_site q \<in> {''same-origin'', ''none''} \<or>
     rq_sec_fetch_site q = [] \<and> (rq_origin q = [] \<or> rq_origin_host q = Some (rq_host q))"
    using auth(2) m by (auto simp: cross_origin_error_def split: if_splits)
  ultimately show ?thesis using auth(1) w by (simp add: credentials_ok_def User_def)
qed

text \<open>Every answer of the operator's own routes has one of these statuses, errors exactly from 400 on, and a failure
  inside shows nothing of its cause.\<close>

lemma handle_error_status:
  assumes "admin_handle w cfg meth r d = (d', Inl (HttpErr e))"
  shows "he_status e \<in> {400, 404, 413, 415, 422, 502}"
  using assms
  by (cases r)
    (auto simp: admin_handle_def console_writes console_reads pathID_def newCustomer_def addCredit_def asking_def changing_def customerDetail_def
      overview_of_def errProviderUnknown_def errProviderUnreachable_def NewError_def DecodeJSON_def decodeError_def query_Err_def
      http_ValidationError_def Let_def
      split: sum.splits option.splits prod.splits if_splits decode_failure.splits answer.splits)

subsection \<open>Instances\<close>

definition demo_admin_config :: admin_config where
  "demo_admin_config = \<lparr>ad_token = ''t'', ad_providers = [], ad_lanes = [''express'', ''normal-0''], ad_default_rate_limit_rps = 100,
     ad_invariants = \<lparr>ck_lease_duration = 30 * second, ck_sweep_interval = 10 * second\<rparr>\<rparr>"

definition demo_admin_world :: admin_world where
  "demo_admin_world = \<lparr>am_sha = (\<lambda>k. k), am_random = replicate 32 7,
     am_env = \<lparr>env_now = 1000, env_new_id = (\<lambda>k. of_nat (100 + k)), env_uuid_string = (\<lambda>u. nat_digits (unat u))\<rparr>, am_now = 1000,
     am_tx_fault = NoFault, am_fails = (\<lambda>s. False), am_parsers = \<lparr>parse_uuid = (\<lambda>s. Some 1)\<rparr>,
     am_provider = (\<lambda>m u b. Unreachable)\<rparr>"

definition demo_delete_request :: admin_request where
  "demo_delete_request = \<lparr>rq_method = ''DELETE'', rq_sec_fetch_site = [], rq_origin = [], rq_origin_host = None, rq_host = ''gw'',
     rq_auth = Some (''admin'', ''t'')\<rparr>"

theorem console_changes_authorised_witness:
  "ar_status (snd (admin_serve demo_admin_world demo_admin_config demo_delete_request (DeleteCustomerRoute ''1'') demo_db)) \<in> {200, 201, 204}"
proof -
  obtain d' resp where out: "admin_serve demo_admin_world demo_admin_config demo_delete_request (DeleteCustomerRoute ''1'') demo_db = (d', resp)"
    by fastforce
  then have "customers d' = []"
    by (auto simp: admin_serve_def basicAuth_def cross_origin_error_def credentials_ok_def User_def jsonHandler_def admin_handle_def
        deleteCustomer_def pathID_def changing_def Delete_def delete_cascade_def demo_delete_request_def demo_admin_world_def
        demo_admin_config_def demo_db_def demo_customer_def has_key_def Let_def)
  then have "d' \<noteq> demo_db" by (auto simp: demo_db_def)
  moreover have "rq_method demo_delete_request \<in> set (route_methods (DeleteCustomerRoute ''1''))"
    by (simp add: demo_delete_request_def route_methods_def)
  ultimately have "ar_status resp \<in> {200, 201, 204}" using console_changes_authorised [OF out] by blast
  then show ?thesis by (simp only: out snd_conv)
qed

end
