(* ===== verification/Ring.thy ===== *)
theory Ring
  imports Prelude
begin

text \<open>
  Ring buffers. The simulated operator keeps two of them, the order of its deduplication store
  (\<^verbatim>\<open>internal/fakeprovider/dedup.go\<close>) and its log of recent requests (\<^verbatim>\<open>recent.go\<close>), both as a slice that grows
  to its capacity and is then overwritten in place. The locale states what such a buffer promises,
  and what follows for everything pushed since the beginning.
\<close>

locale bounded_log =
  fixes push :: "'a \<Rightarrow> 'r \<Rightarrow> 'r" and contents :: "'r \<Rightarrow> 'a list" and ok :: "'r \<Rightarrow> bool" and capacity :: nat
  assumes push_contents: "ok r \<Longrightarrow>
      contents (push x r) = (if length (contents r) < capacity then contents r else tl (contents r)) @ [x]"
    and push_ok: "ok r \<Longrightarrow> ok (push x r)"
    and contents_bounded: "ok r \<Longrightarrow> length (contents r) \<le> capacity"
begin

lemma push_all_ok: "ok r \<Longrightarrow> ok (fold push xs r)"
  by (induction xs arbitrary: r) (simp_all add: push_ok)

text \<open>After any number of pushes it holds the latest ones, in order.\<close>

lemma push_all_contents:
  assumes "ok r" "contents r = []"
  shows "contents (fold push xs r) = drop (length xs - capacity) xs"
proof (induction xs rule: rev_induct)
  case (snoc x xs)
  let ?r = "fold push xs r"
  have ok: "ok ?r" using assms(1) by (rule push_all_ok)
  have cap: "capacity \<noteq> 0" using contents_bounded [OF push_ok [OF ok, of x]] push_contents [OF ok, of x] by auto
  show ?case
  proof (cases "length xs < capacity")
    case True
    with snoc.IH push_contents [OF ok, of x] show ?thesis by simp
  next
    case False
    then have "Suc (length xs) - capacity = Suc (length xs - capacity)" by simp
    with False cap snoc.IH push_contents [OF ok, of x] show ?thesis by (simp add: drop_Suc tl_drop)
  qed
qed (simp add: assms(2))

lemma pushed_kept:
  assumes "ok r" "x \<in> set (contents r)" "length (contents r) < capacity"
  shows "x \<in> set (contents (push y r))"
  using assms push_contents by simp

end

text \<open>The slice and its next position.\<close>

record 'a ring =
  r_items :: "'a list"
  r_next :: nat

definition ring_push :: "nat \<Rightarrow> 'a \<Rightarrow> 'a ring \<Rightarrow> 'a ring" where
  "ring_push capacity x r =
     (if length (r_items r) < capacity then r\<lparr>r_items := r_items r @ [x]\<rparr>
      else r\<lparr>r_items := (r_items r)[r_next r := x], r_next := (r_next r + 1) mod capacity\<rparr>)"

definition ring_contents :: "'a ring \<Rightarrow> 'a list" where
  "ring_contents r = drop (r_next r) (r_items r) @ take (r_next r) (r_items r)"

definition ring_ok :: "nat \<Rightarrow> 'a ring \<Rightarrow> bool" where
  "ring_ok capacity r \<longleftrightarrow> length (r_items r) \<le> capacity \<and> r_next r < capacity \<and> (length (r_items r) < capacity \<longrightarrow> r_next r = 0)"

lemma set_ring_contents: "set (ring_contents r) = set (r_items r)"
  by (metis ring_contents_def append_take_drop_id set_append sup_commute)

lemma length_ring_contents [simp]: "length (ring_contents r) = length (r_items r)"
  by (simp add: ring_contents_def)

lemma ring_push_contents:
  assumes "ring_ok capacity r"
  shows "ring_contents (ring_push capacity x r) =
    (if length (ring_contents r) < capacity then ring_contents r else tl (ring_contents r)) @ [x]"
proof (cases "length (r_items r) < capacity")
  case False
  with assms have n: "r_next r < length (r_items r)" "length (r_items r) = capacity" by (auto simp: ring_ok_def)
  show ?thesis
  proof (cases "Suc (r_next r) = capacity")
    case True
    then have d: "drop (r_next r) (r_items r) = [r_items r ! r_next r]" using n by (simp add: Cons_nth_drop_Suc [symmetric])
    have "(r_items r)[r_next r := x] = take (r_next r) (r_items r) @ [x]" using True n by (simp add: upd_conv_take_nth_drop)
    with True n d show ?thesis by (simp add: ring_push_def ring_contents_def)
  next
    case next_inside: False
    then have "(r_next r + 1) mod capacity = Suc (r_next r)" using n by simp
    moreover have "take (Suc (r_next r)) ((r_items r)[r_next r := x]) = take (r_next r) (r_items r) @ [x]"
      using n by (simp add: take_Suc_conv_app_nth)
    moreover have "tl (drop (r_next r) (r_items r)) = drop (Suc (r_next r)) (r_items r)" by (simp add: drop_Suc tl_drop)
    moreover have "drop (r_next r) (r_items r) \<noteq> []" using n by simp
    ultimately show ?thesis using n by (simp add: ring_push_def ring_contents_def tl_append2)
  qed
qed (use assms in \<open>simp add: ring_push_def ring_contents_def ring_ok_def\<close>)

interpretation ring: bounded_log "ring_push capacity" ring_contents "ring_ok capacity" capacity for capacity
proof
  show "ring_ok capacity r \<Longrightarrow> ring_ok capacity (ring_push capacity x r)" for r :: "'a ring" and x
    by (auto simp: ring_ok_def ring_push_def)
qed (auto simp: ring_push_contents ring_ok_def)

end
