(* ===== verification/Fakeprovider.thy ===== *)
theory Fakeprovider
  imports Complex_Main Ring Gostrings Schema Transitions
begin

text \<open>
  The simulated operator, \<^verbatim>\<open>internal/fakeprovider\<close>: its settings, the deduplication store and the log of recent
  requests on ring buffers, the send handler and the delivery reports. The requests it has seen are
  shared objects (the log shows them, the deduplication store and the report that is due refer to
  them), so they live in a list and are referred to by position.
\<close>

subsection \<open>Settings\<close>

text \<open>The probabilities are \<^verbatim>\<open>float64\<close> values, which are rational numbers; they are compared, and multiplied for a jitter, without
  the rounding of the last bit.\<close>

record settings =
  s_latency_ms :: int
  s_jitter_ms :: int
  s_failure_rate :: rat
  s_timeout_rate :: rat
  s_reject_rate :: rat
  s_outage :: bool
  s_delivery_ratio :: rat
  s_dlr_delay_ms :: int
  s_dlr_jitter_ms :: int

definition DefaultSettings :: settings where
  "DefaultSettings = \<lparr>s_latency_ms = 50, s_jitter_ms = 50, s_failure_rate = 0, s_timeout_rate = 0, s_reject_rate = 0,
     s_outage = False, s_delivery_ratio = 95 / 100, s_dlr_delay_ms = 1000, s_dlr_jitter_ms = 500\<rparr>"

definition maxDurationMS :: int where "maxDurationMS = 60000"

record settings_update =
  u_latency_ms :: "int option"
  u_jitter_ms :: "int option"
  u_failure_rate :: "rat option"
  u_timeout_rate :: "rat option"
  u_reject_rate :: "rat option"
  u_outage :: "bool option"
  u_delivery_ratio :: "rat option"
  u_dlr_delay_ms :: "int option"
  u_dlr_jitter_ms :: "int option"

definition out_of_range :: "string \<Rightarrow> string \<Rightarrow> field_error" where
  "out_of_range field msg = \<lparr>fe_field = field, fe_code = ''out_of_range'', fe_message = msg\<rparr>"

text \<open>The two closures of \<^verbatim>\<open>Apply\<close>: the value to store and the problem to report.\<close>

definition duration_field :: "string \<Rightarrow> int option \<Rightarrow> int \<Rightarrow> int \<times> field_error list" where
  "duration_field field v dst =
     (case v of
        None \<Rightarrow> (dst, [])
      | Some x \<Rightarrow> if x < 0 \<or> maxDurationMS < x
          then (dst, [out_of_range field (''must be between 0 and '' @ itoa maxDurationMS)]) else (x, []))"

definition ratio_field :: "string \<Rightarrow> rat option \<Rightarrow> rat \<Rightarrow> rat \<times> field_error list" where
  "ratio_field field v dst =
     (case v of
        None \<Rightarrow> (dst, [])
      | Some x \<Rightarrow> if x < 0 \<or> 1 < x then (dst, [out_of_range field ''must be between 0 and 1'']) else (x, []))"

definition apply_update :: "settings_update \<Rightarrow> settings \<Rightarrow> error + settings" where
  "apply_update u s =
     (let (latency, p1) = duration_field ''latency_ms'' (u_latency_ms u) (s_latency_ms s);
          (jitter, p2) = duration_field ''jitter_ms'' (u_jitter_ms u) (s_jitter_ms s);
          (failure, p3) = ratio_field ''failure_rate'' (u_failure_rate u) (s_failure_rate s);
          (timeout, p4) = ratio_field ''timeout_rate'' (u_timeout_rate u) (s_timeout_rate s);
          (reject, p5) = ratio_field ''reject_rate'' (u_reject_rate u) (s_reject_rate s);
          outage = (case u_outage u of None \<Rightarrow> s_outage s | Some b \<Rightarrow> b);
          (delivery, p6) = ratio_field ''delivery_ratio'' (u_delivery_ratio u) (s_delivery_ratio s);
          (dlr_delay, p7) = duration_field ''dlr_delay_ms'' (u_dlr_delay_ms u) (s_dlr_delay_ms s);
          (dlr_jitter, p8) = duration_field ''dlr_jitter_ms'' (u_dlr_jitter_ms u) (s_dlr_jitter_ms s);
          problems = p1 @ p2 @ p3 @ p4 @ p5 @ p6 @ p7 @ p8
      in if problems \<noteq> [] then Inl (ValidationError problems)
         else Inr \<lparr>s_latency_ms = latency, s_jitter_ms = jitter, s_failure_rate = failure, s_timeout_rate = timeout,
           s_reject_rate = reject, s_outage = outage, s_delivery_ratio = delivery, s_dlr_delay_ms = dlr_delay,
           s_dlr_jitter_ms = dlr_jitter\<rparr>)"

subsection \<open>Deduplication\<close>

definition dedupCapacity :: nat where "dedupCapacity = 1000000"

record acceptance =
  acc_ref :: string
  acc_accepted_at :: gtime
  acc_record :: nat

record dedup_store =
  ds_capacity :: nat
  ds_entries :: "string \<rightharpoonup> acceptance"
  ds_order :: "string ring"

definition newDedupStore :: "nat \<Rightarrow> dedup_store" where
  "newDedupStore capacity = \<lparr>ds_capacity = capacity, ds_entries = Map.empty, ds_order = \<lparr>r_items = [], r_next = 0\<rparr>\<rparr>"

definition dedup_get :: "string \<Rightarrow> dedup_store \<Rightarrow> acceptance option" where
  "dedup_get mid d = ds_entries d mid"

definition dedup_add :: "string \<Rightarrow> acceptance \<Rightarrow> dedup_store \<Rightarrow> dedup_store \<times> acceptance \<times> bool" where
  "dedup_add mid a d =
     (case ds_entries d mid of
        Some existing \<Rightarrow> (d, existing, False)
      | None \<Rightarrow>
          let entries = (if length (r_items (ds_order d)) < ds_capacity d then ds_entries d
                else (ds_entries d)(r_items (ds_order d) ! r_next (ds_order d) := None))
          in (d\<lparr>ds_entries := entries(mid \<mapsto> a), ds_order := ring_push (ds_capacity d) mid (ds_order d)\<rparr>, a, True))"

subsection \<open>Recent requests\<close>

definition recentCapacity :: nat where "recentCapacity = 10000"

datatype send_result = ResultNone | ResultAccepted | ResultRejected | ResultFailed | ResultTimedOut | ResultOutage

datatype dlr_state = DlrNone | DlrPending | DlrDelivered | DlrUndelivered

record send_record =
  sr_id :: string
  sr_to :: string
  sr_text :: string
  sr_provider_ref :: string
  sr_received_at :: gtime
  sr_result :: send_result
  sr_dlr_status :: dlr_state
  sr_dlr_sent_at :: gtime
  sr_duplicates :: int

text \<open>\<^verbatim>\<open>recentLog.latest\<close>, with the index arithmetic of the code on the slice.\<close>

definition latest :: "nat \<Rightarrow> nat \<Rightarrow> 'a ring \<Rightarrow> 'a list" where
  "latest capacity limit r =
     (let size = int (length (r_items r));
          newest = (if size = int capacity then (int (r_next r) - 1 + size) mod size else size - 1)
      in map (\<lambda>i. r_items r ! nat ((newest - int i + size) mod size)) [0..<min limit (length (r_items r))])"

text \<open>\<^verbatim>\<open>record.json\<close>: empty fields are null.\<close>

record record_json =
  rj_id :: string
  rj_to :: string
  rj_text :: string
  rj_provider_ref :: "string option"
  rj_received_at :: gtime
  rj_result :: send_result
  rj_dlr_status :: "dlr_state option"
  rj_dlr_sent_at :: "gtime option"
  rj_duplicates :: int

definition send_record_json :: "send_record \<Rightarrow> record_json" where
  "send_record_json r =
     \<lparr>rj_id = sr_id r, rj_to = sr_to r, rj_text = sr_text r, rj_provider_ref = (if sr_provider_ref r = [] then None else Some (sr_provider_ref r)),
      rj_received_at = sr_received_at r, rj_result = sr_result r,
      rj_dlr_status = (if sr_dlr_status r = DlrNone then None else Some (sr_dlr_status r)),
      rj_dlr_sent_at = (if is_zero_time (sr_dlr_sent_at r) then None else Some (sr_dlr_sent_at r)), rj_duplicates = sr_duplicates r\<rparr>"

lemma mod_wrap: "m < n \<Longrightarrow> (int m + int n) mod int n = int m"
  by simp

lemma latest_newest_first:
  assumes "ring_ok capacity r"
  shows "latest capacity limit r = take limit (rev (ring_contents r))"
proof (intro nth_equalityI)
  let ?xs = "r_items r" and ?n = "length (r_items r)" and ?k = "r_next r"
  show "length (latest capacity limit r) = length (take limit (rev (ring_contents r)))" by (simp add: latest_def Let_def)
  fix i assume "i < length (latest capacity limit r)"
  then have i: "i < limit" "i < ?n" by (simp_all add: latest_def Let_def)
  have k: "?k < ?n \<or> ?k = 0" using assms by (auto simp: ring_ok_def)
  have rev: "rev (ring_contents r) ! i = ?xs ! (if i < ?k then ?k - Suc i else ?n - Suc (i - ?k))"
    using i k by (auto simp: ring_contents_def rev_nth nth_append intro!: arg_cong [where f = "\<lambda>j. ?xs ! j"])
  let ?newest = "if int ?n = int capacity then (int ?k - 1 + int ?n) mod int ?n else int ?n - 1"
  have newest: "?newest = (if ?k = 0 then int ?n - 1 else int ?k - 1)"
  proof (cases "?k = 0")
    case False
    then have "?n = capacity" "?k < ?n" using assms k by (auto simp: ring_ok_def)
    moreover have "(int ?k - 1 + int ?n) mod int ?n = int ?k - 1" using False \<open>?k < ?n\<close> by (simp add: mod_pos_pos_trivial)
    ultimately show ?thesis using False by simp
  next
    case True
    have "(int ?n - 1) mod int ?n = int ?n - 1" using i by (intro mod_pos_pos_trivial) auto
    with True show ?thesis by auto
  qed
  have "nat ((?newest - int i + int ?n) mod int ?n) = (if i < ?k then ?k - Suc i else ?n - Suc (i - ?k))"
  proof (cases "?k = 0 \<or> \<not> i < ?k")
    case True
    then have "(?newest - int i + int ?n) mod int ?n = int (?n - Suc (i - ?k))"
    proof (cases "?k = 0")
      case True
      then have eq: "?newest - int i + int ?n = int (?n - Suc i) + int ?n" using i newest by (simp add: of_nat_diff)
      have "(?newest - int i + int ?n) mod int ?n = (int (?n - Suc i) + int ?n) mod int ?n" by (simp only: eq)
      also have "\<dots> = int (?n - Suc i)" using i by (intro mod_wrap) simp
      finally show ?thesis using True by simp
    next
      case False
      then have "?newest - int i + int ?n = int (?n - Suc (i - ?k))" "?n - Suc (i - ?k) < ?n"
        using True i newest k by (auto simp: of_nat_diff)
      then show ?thesis by simp
    qed
    with True show ?thesis using i by auto
  next
    case False
    then have eq: "?newest - int i + int ?n = int (?k - Suc i) + int ?n" using newest by (simp add: of_nat_diff)
    have "(?newest - int i + int ?n) mod int ?n = (int (?k - Suc i) + int ?n) mod int ?n" by (simp only: eq)
    also have "\<dots> = int (?k - Suc i)" using False i k by (intro mod_wrap) auto
    finally show ?thesis using False by simp
  qed
  with i rev show "latest capacity limit r ! i = take limit (rev (ring_contents r)) ! i"
    unfolding latest_def Let_def by (simp only: length_map length_upt nth_map nth_upt nth_take) simp
qed

subsection \<open>The provider\<close>

record counters =
  n_received :: int
  n_accepted :: int
  n_duplicates :: int
  n_rejected :: int
  n_failed :: int
  n_timed_out :: int
  n_outage :: int
  n_dlr_sent :: int
  n_dlr_pending :: int
  n_dlr_failed :: int

text \<open>A delivery report that is due: the message, its record, the status and the delay.\<close>

record scheduled =
  sc_message_id :: string
  sc_record :: nat
  sc_status :: dlr_state
  sc_delay :: duration

record fake =
  fk_name :: string
  fk_settings :: settings
  fk_dedup :: dedup_store
  fk_recent :: "nat ring"
  fk_records :: "send_record list"
  fk_counters :: counters
  fk_scheduled :: "scheduled list"

definition new_fake :: "string \<Rightarrow> settings \<Rightarrow> fake" where
  "new_fake name s =
     \<lparr>fk_name = name, fk_settings = s, fk_dedup = newDedupStore dedupCapacity, fk_recent = \<lparr>r_items = [], r_next = 0\<rparr>,
      fk_records = [], fk_counters = \<lparr>n_received = 0, n_accepted = 0, n_duplicates = 0, n_rejected = 0, n_failed = 0,
        n_timed_out = 0, n_outage = 0, n_dlr_sent = 0, n_dlr_pending = 0, n_dlr_failed = 0\<rparr>, fk_scheduled = []\<rparr>"

definition alwaysRejectPrefix :: string where "alwaysRejectPrefix = ''+999''"
definition alwaysUndeliveredPrefix :: string where "alwaysUndeliveredPrefix = ''+998''"

definition holdFor :: duration where "holdFor = 30 * second"

record send_request =
  rq_id :: string
  rq_to :: string
  rq_text :: string

datatype send_reply =
    InvalidRequest
  | Outage
  | GaveUp
  | InvalidRecipient
  | InternalError
  | SentOK string gtime
  | Aborted

text \<open>What a request meets: the clock, the bytes of a new reference, the values \<^verbatim>\<open>p.random()\<close> returns for each
  purpose, in \<open>[0, 1)\<close>, and whether the client waits for the answer and through a held response.\<close>

record send_world =
  sw_received :: gtime
  sw_accepted :: gtime
  sw_ref :: "8 word list"
  sw_reject :: rat
  sw_fail :: rat
  sw_deliver :: rat
  sw_timeout :: rat
  sw_latency :: rat
  sw_dlr_jitter :: rat
  sw_waits :: bool
  sw_outlasts_hold :: bool

definition newRef :: "8 word list \<Rightarrow> fake \<Rightarrow> string" where
  "newRef b p = fk_name p @ ''-'' @ hex_encode b"

definition chance :: "rat \<Rightarrow> rat \<Rightarrow> bool" where
  "chance rate random \<longleftrightarrow> 0 < rate \<and> random < rate"

definition count :: "(counters \<Rightarrow> counters) \<Rightarrow> fake \<Rightarrow> fake" where
  "count f p = p\<lparr>fk_counters := f (fk_counters p)\<rparr>"

definition recent_add :: "nat \<Rightarrow> fake \<Rightarrow> fake" where
  "recent_add i p = p\<lparr>fk_recent := ring_push recentCapacity i (fk_recent p)\<rparr>"

definition recent_update :: "nat \<Rightarrow> (send_record \<Rightarrow> send_record) \<Rightarrow> fake \<Rightarrow> fake" where
  "recent_update i f p = p\<lparr>fk_records := (fk_records p)[i := f (fk_records p ! i)]\<rparr>"

definition jittered :: "int \<Rightarrow> int \<Rightarrow> rat \<Rightarrow> duration" where
  "jittered baseMS jitterMS random =
     (let d = baseMS * millisecond
      in if 0 < jitterMS then d + \<lfloor>random * of_int jitterMS * of_int millisecond\<rfloor> else d)"

text \<open>\<^verbatim>\<open>sleep\<close>: no wait at all for a duration that is not positive; otherwise \<open>elapsed\<close> tells whether the timer was first.\<close>

definition sleep :: "duration \<Rightarrow> bool \<Rightarrow> bool" where
  "sleep d elapsed \<longleftrightarrow> d \<le> 0 \<or> elapsed"

lemma jittered_bounds:
  assumes "0 \<le> random" "random < 1" "0 \<le> jitterMS"
  shows "baseMS * millisecond \<le> jittered baseMS jitterMS random" "jittered baseMS jitterMS random \<le> (baseMS + jitterMS) * millisecond"
proof -
  let ?x = "random * of_int jitterMS * of_int millisecond"
  have "0 \<le> ?x" using assms by (simp add: millisecond_def)
  moreover have "?x \<le> 1 * of_int jitterMS * of_int millisecond"
    using assms by (intro mult_right_mono) (auto simp: millisecond_def)
  then have "\<lfloor>?x\<rfloor> \<le> jitterMS * millisecond" by (simp add: floor_le_iff flip: of_int_mult)
  ultimately show "baseMS * millisecond \<le> jittered baseMS jitterMS random" "jittered baseMS jitterMS random \<le> (baseMS + jitterMS) * millisecond"
    using assms(3) by (simp_all add: jittered_def Let_def algebra_simps)
qed

text \<open>A request whose record enters the log with a result.\<close>

definition log_record :: "send_record \<Rightarrow> fake \<Rightarrow> fake" where
  "log_record r p = recent_add (length (fk_records p)) (p\<lparr>fk_records := fk_records p @ [r]\<rparr>)"

definition new_record :: "send_world \<Rightarrow> send_request \<Rightarrow> send_record" where
  "new_record w req = \<lparr>sr_id = rq_id req, sr_to = rq_to req, sr_text = rq_text req, sr_provider_ref = [], sr_received_at = sw_received w,
     sr_result = ResultNone, sr_dlr_status = DlrNone, sr_dlr_sent_at = zero_time, sr_duplicates = 0\<rparr>"

definition replay :: "acceptance \<Rightarrow> fake \<Rightarrow> fake \<times> send_reply" where
  "replay a p =
     (recent_update (acc_record a) (\<lambda>r. r\<lparr>sr_duplicates := sr_duplicates r + 1\<rparr>) (count (n_duplicates_update (\<lambda>n. n + 1)) p),
      SentOK (acc_ref a) (acc_accepted_at a))"

definition scheduleDLR :: "send_world \<Rightarrow> string \<Rightarrow> nat \<Rightarrow> string \<Rightarrow> settings \<Rightarrow> fake \<Rightarrow> fake" where
  "scheduleDLR w mid i to s p =
     (let status = (if HasPrefix to alwaysUndeliveredPrefix \<or> \<not> chance (s_delivery_ratio s) (sw_deliver w) then DlrUndelivered else DlrDelivered);
          delay = jittered (s_dlr_delay_ms s) (s_dlr_jitter_ms s) (sw_dlr_jitter w)
      in count (n_dlr_pending_update (\<lambda>n. n + 1))
           (p\<lparr>fk_scheduled := fk_scheduled p @ [\<lparr>sc_message_id = mid, sc_record = i, sc_status = status, sc_delay = delay\<rparr>]\<rparr>))"

text \<open>\<^verbatim>\<open>handleSend\<close> in three parts, between which other requests run: up to the wait for the simulated latency,
  then up to the decision to accept, and from there on. A part answers, or passes the request on.\<close>

definition send_begin :: "send_world \<Rightarrow> send_request option \<Rightarrow> fake \<Rightarrow> fake \<times> send_reply option" where
  "send_begin w body p =
     (case body of
        None \<Rightarrow> (p, Some InvalidRequest)
      | Some req \<Rightarrow>
          if rq_id req = [] \<or> rq_to req = [] then (p, Some InvalidRequest)
          else let p = count (n_received_update (\<lambda>n. n + 1)) p
            in if s_outage (fk_settings p)
               then (log_record ((new_record w req)\<lparr>sr_result := ResultOutage\<rparr>) (count (n_outage_update (\<lambda>n. n + 1)) p), Some Outage)
               else if \<not> sleep (jittered (s_latency_ms (fk_settings p)) (s_jitter_ms (fk_settings p)) (sw_latency w)) (sw_waits w)
               then (p, Some GaveUp)
               else (p, None))"

definition send_decide :: "send_world \<Rightarrow> settings \<Rightarrow> send_request \<Rightarrow> fake \<Rightarrow> fake \<times> send_reply option" where
  "send_decide w s req p =
     (case dedup_get (rq_id req) (fk_dedup p) of
        Some a \<Rightarrow> map_prod id Some (replay a p)
      | None \<Rightarrow>
          if HasPrefix (rq_to req) alwaysRejectPrefix \<or> chance (s_reject_rate s) (sw_reject w)
          then (log_record ((new_record w req)\<lparr>sr_result := ResultRejected\<rparr>) (count (n_rejected_update (\<lambda>n. n + 1)) p), Some InvalidRecipient)
          else if chance (s_failure_rate s) (sw_fail w)
          then (log_record ((new_record w req)\<lparr>sr_result := ResultFailed\<rparr>) (count (n_failed_update (\<lambda>n. n + 1)) p), Some InternalError)
          else (p, None))"

definition send_accept :: "send_world \<Rightarrow> settings \<Rightarrow> send_request \<Rightarrow> fake \<Rightarrow> fake \<times> send_reply" where
  "send_accept w s req p =
     (let i = length (fk_records p);
          ref = newRef (sw_ref w) p;
          timed_out = chance (s_timeout_rate s) (sw_timeout w);
          rec = (new_record w req)\<lparr>sr_provider_ref := ref, sr_dlr_status := DlrPending,
            sr_result := (if timed_out then ResultTimedOut else ResultAccepted)\<rparr>;
          (dedup, a, added) = dedup_add (rq_id req) \<lparr>acc_ref = ref, acc_accepted_at = sw_accepted w, acc_record = i\<rparr> (fk_dedup p)
      in if \<not> added then replay a p
         else let p = log_record rec (scheduleDLR w (rq_id req) i (rq_to req) s
                    (count (n_accepted_update (\<lambda>n. n + 1)) (p\<lparr>fk_dedup := dedup\<rparr>)))
           in if timed_out
              then (count (n_timed_out_update (\<lambda>n. n + 1)) p, if sleep holdFor (sw_outlasts_hold w) then Aborted else GaveUp)
              else (p, SentOK (acc_ref a) (acc_accepted_at a)))"

text \<open>The whole handler, with what other requests do at its two waits.\<close>

definition handleSend :: "(fake \<Rightarrow> fake) \<Rightarrow> (fake \<Rightarrow> fake) \<Rightarrow> send_world \<Rightarrow> send_request option \<Rightarrow> fake \<Rightarrow> fake \<times> send_reply" where
  "handleSend others1 others2 w body p =
     (case send_begin w body p of
        (p', Some reply) \<Rightarrow> (p', reply)
      | (p', None) \<Rightarrow>
          (case send_decide w (fk_settings p) (the body) (others1 p') of
             (p'', Some reply) \<Rightarrow> (p'', reply)
           | (p'', None) \<Rightarrow> send_accept w (fk_settings p) (the body) (others2 p'')))"

subsection \<open>Delivery reports\<close>

text \<open>\<^verbatim>\<open>Provider.deliver\<close>: \<open>posts k\<close> is the answer to the \<open>k\<close>-th attempt, \<open>None\<close> an error; \<open>sleeps k\<close> tells whether the
  pause after it was not cut short. The result is whether the gateway acknowledged, with the pauses
  that were started.\<close>

function deliver_loop ::
    "(nat \<Rightarrow> int option) \<Rightarrow> (nat \<Rightarrow> bool) \<Rightarrow> nat \<Rightarrow> duration \<Rightarrow> nat \<Rightarrow> duration \<Rightarrow> bool \<times> duration list" where
  "deliver_loop posts sleeps limit retryMax attempt delay =
     (if limit < attempt then (False, [])
      else if posts attempt = Some 200 then (True, [])
      else if posts attempt = Some 400 \<or> posts attempt = Some 401 then (False, [])
      else if attempt = limit then (False, [])
      else if \<not> sleeps attempt then (False, [delay])
      else case deliver_loop posts sleeps limit retryMax (attempt + 1) (min (2 * delay) retryMax) of
          (ok, pauses) \<Rightarrow> (ok, delay # pauses))"
  by pat_completeness auto
termination by (relation "measure (\<lambda>(posts, sleeps, limit, retryMax, attempt, delay). Suc limit - attempt)") auto

declare deliver_loop.simps [simp del]

definition retryLimit :: nat where "retryLimit = 10"
definition retryInitial :: duration where "retryInitial = second"
definition retryMax :: duration where "retryMax = minute"

definition deliver :: "(nat \<Rightarrow> int option) \<Rightarrow> (nat \<Rightarrow> bool) \<Rightarrow> bool \<times> duration list" where
  "deliver posts sleeps = deliver_loop posts sleeps retryLimit retryMax 1 retryInitial"

text \<open>The goroutine of \<^verbatim>\<open>scheduleDLR\<close> for the report at a position: \<open>is_closed\<close> when the provider is closed before the
  delay is over.\<close>

definition send_dlr ::
    "gtime \<Rightarrow> bool \<Rightarrow> (nat \<Rightarrow> int option) \<Rightarrow> (nat \<Rightarrow> bool) \<Rightarrow> nat \<Rightarrow> fake \<Rightarrow> fake" where
  "send_dlr now is_closed posts sleeps k p =
     (let sc = fk_scheduled p ! k;
          p' = (if \<not> sleep (sc_delay sc) (\<not> is_closed) then p
            else if fst (deliver posts sleeps)
            then recent_update (sc_record sc) (\<lambda>r. r\<lparr>sr_dlr_status := sc_status sc, sr_dlr_sent_at := now\<rparr>)
                   (count (n_dlr_sent_update (\<lambda>n. n + 1)) p)
            else count (n_dlr_failed_update (\<lambda>n. n + 1)) p)
      in (count (n_dlr_pending_update (\<lambda>n. n - 1)) p')\<lparr>fk_scheduled := take k (fk_scheduled p) @ drop (Suc k) (fk_scheduled p)\<rparr>)"

text \<open>The operator's view: \<^verbatim>\<open>Settings\<close>, \<^verbatim>\<open>Stats\<close>, \<^verbatim>\<open>handlePutConfig\<close> and \<^verbatim>\<open>handleMessages\<close>.\<close>

definition handleGetConfig :: "fake \<Rightarrow> settings" where
  "handleGetConfig p = fk_settings p"

definition Stats :: "fake \<Rightarrow> counters" where
  "Stats p = fk_counters p"

definition handlePutConfig :: "settings_update \<Rightarrow> fake \<Rightarrow> fake \<times> (error + settings)" where
  "handlePutConfig u p =
     (case apply_update u (fk_settings p) of
        Inl err \<Rightarrow> (p, Inl err)
      | Inr s \<Rightarrow> (p\<lparr>fk_settings := s\<rparr>, Inr s))"

definition handleMessages :: "string \<Rightarrow> fake \<Rightarrow> error + record_json list" where
  "handleMessages limit p =
     (let shown = (\<lambda>n. Inr (map (\<lambda>i. send_record_json (fk_records p ! i)) (latest recentCapacity n (fk_recent p))))
      in if limit = [] then shown 100
         else case atoi limit of
             None \<Rightarrow> Inl (ValidationError [out_of_range ''limit'' ''must be an integer from 1 to 1000''])
           | Some n \<Rightarrow> if n < 1 \<or> 1000 < n then Inl (ValidationError [out_of_range ''limit'' ''must be an integer from 1 to 1000''])
               else shown (nat n))"

subsection \<open>Runs\<close>

text \<open>A provider at work, with the references it has answered with per message and the messages a delivery
  report was scheduled for.\<close>

fun answered :: "string \<Rightarrow> send_reply option \<Rightarrow> (string \<times> string) list" where
  "answered mid (Some (SentOK ref t)) = [(mid, ref)]"
| "answered mid _ = []"

type_synonym fake_run = "fake \<times> (string \<times> string) list \<times> string list"

inductive fake_step :: "fake_run \<Rightarrow> fake_run \<Rightarrow> bool" where
  fake_begin: "fake_step (p, ans, due) (fst (send_begin w body p), ans, due)"
| fake_decide: "send_decide w s req p = (p', reply) \<Longrightarrow>
    fake_step (p, ans, due) (p', ans @ answered (rq_id req) reply, due)"
| fake_accept: "send_accept w s req p = (p', reply) \<Longrightarrow>
    fake_step (p, ans, due) (p', ans @ answered (rq_id req) (Some reply),
      due @ map sc_message_id (drop (length (fk_scheduled p)) (fk_scheduled p')))"
| fake_dlr: "k < length (fk_scheduled p) \<Longrightarrow> fake_step (p, ans, due) (send_dlr now is_closed posts sleeps k p, ans, due)"
| fake_config: "fake_step (p, ans, due) (fst (handlePutConfig u p), ans, due)"

inductive_cases fake_stepE: "fake_step s t"

fun fake_init :: "fake_run \<Rightarrow> bool" where
  "fake_init (p, ans, due) \<longleftrightarrow> (\<exists>name s. p = new_fake name s) \<and> ans = [] \<and> due = []"

definition dedup_ok :: "dedup_store \<Rightarrow> bool" where
  "dedup_ok d \<longleftrightarrow> ds_capacity d = dedupCapacity \<and> ring_ok dedupCapacity (ds_order d) \<and>
     dom (ds_entries d) = set (r_items (ds_order d)) \<and> distinct (r_items (ds_order d))"

definition accepted_count :: "fake \<Rightarrow> int" where
  "accepted_count p = n_accepted (fk_counters p)"

fun fake_inv :: "fake_run \<Rightarrow> bool" where
  "fake_inv (p, ans, due) \<longleftrightarrow> dedup_ok (fk_dedup p) \<and>
     int (length (r_items (ds_order (fk_dedup p)))) = min (accepted_count p) (int dedupCapacity) \<and>
     (accepted_count p \<le> int dedupCapacity \<longrightarrow>
        (\<forall>(mid, ref)\<in>set ans. \<exists>a. ds_entries (fk_dedup p) mid = Some a \<and> acc_ref a = ref) \<and>
        distinct due \<and> set due \<subseteq> dom (ds_entries (fk_dedup p)))"

text \<open>What an operation that accepts nothing leaves alone.\<close>

lemma count_frame [simp]:
  "fk_dedup (count f p) = fk_dedup p" "fk_dedup (recent_add i p) = fk_dedup p" "fk_dedup (recent_update i g p) = fk_dedup p"
  "fk_scheduled (count f p) = fk_scheduled p" "fk_scheduled (recent_add i p) = fk_scheduled p"
  "fk_scheduled (recent_update i g p) = fk_scheduled p"
  "fk_counters (recent_add i p) = fk_counters p" "fk_counters (recent_update i g p) = fk_counters p"
  "fk_counters (count f p) = f (fk_counters p)"
  by (simp_all add: count_def recent_add_def recent_update_def)

lemma log_record_frame [simp]:
  "fk_dedup (log_record r p) = fk_dedup p" "fk_scheduled (log_record r p) = fk_scheduled p" "fk_counters (log_record r p) = fk_counters p"
  by (simp_all add: log_record_def)

lemma scheduleDLR_frame [simp]:
  "fk_dedup (scheduleDLR w mid i to s p) = fk_dedup p"
  "n_accepted (fk_counters (scheduleDLR w mid i to s p)) = n_accepted (fk_counters p)"
  "map sc_message_id (fk_scheduled (scheduleDLR w mid i to s p)) = map sc_message_id (fk_scheduled p) @ [mid]"
  "take (length (fk_scheduled p)) (fk_scheduled (scheduleDLR w mid i to s p)) = fk_scheduled p"
  by (simp_all add: scheduleDLR_def Let_def)

lemma fake_inv_frame:
  assumes "fake_inv (p, ans, due)" "fk_dedup p' = fk_dedup p" "accepted_count p' = accepted_count p"
  shows "fake_inv (p', ans, due)"
  using assms by simp

lemma replay_frame:
  "fk_dedup (fst (replay a p)) = fk_dedup p" "accepted_count (fst (replay a p)) = accepted_count p"
  "fk_scheduled (fst (replay a p)) = fk_scheduled p" "snd (replay a p) = SentOK (acc_ref a) (acc_accepted_at a)"
  by (simp_all add: replay_def accepted_count_def)

lemma fake_inv_replay:
  assumes "fake_inv (p, ans, due)" "ds_entries (fk_dedup p) mid = Some a" "replay a p = (p', reply)"
  shows "fake_inv (p', ans @ answered mid (Some reply), due)" "fk_scheduled p' = fk_scheduled p"
  using assms replay_frame [of a p] by auto

text \<open>Adding a new message to the store.\<close>

lemma dedup_add_new:
  assumes "dedup_ok d" "ds_entries d mid = None" "dedup_add mid a d = (d', b, added)"
  shows "dedup_ok d'" "b = a" "added" "length (r_items (ds_order d')) = min (Suc (length (r_items (ds_order d)))) dedupCapacity"
    "length (r_items (ds_order d)) < dedupCapacity \<Longrightarrow> ds_entries d' = (ds_entries d)(mid \<mapsto> a)"
proof -
  let ?r = "ds_order d"
  from assms(1) have d: "ds_capacity d = dedupCapacity" "ring_ok dedupCapacity ?r" "dom (ds_entries d) = set (r_items ?r)"
      "distinct (r_items ?r)" by (auto simp: dedup_ok_def)
  have mid: "mid \<notin> set (r_items ?r)" using assms(2) d(3) by auto
  show "b = a" added using assms(2,3) by (auto simp: dedup_add_def Let_def)
  show len: "length (r_items (ds_order d')) = min (Suc (length (r_items ?r))) dedupCapacity"
    using assms(2,3) d(1,2) by (auto simp: dedup_add_def Let_def ring_push_def ring_ok_def)
  show "length (r_items ?r) < dedupCapacity \<Longrightarrow> ds_entries d' = (ds_entries d)(mid \<mapsto> a)"
    using assms(2,3) d(1) by (auto simp: dedup_add_def Let_def)
  have ok: "ring_ok dedupCapacity (ring_push dedupCapacity mid ?r)" using d(2) by (rule ring.push_ok)
  show "dedup_ok d'"
  proof (cases "length (r_items ?r) < dedupCapacity")
    case True
    with assms(2,3) d(1) have "d' = d\<lparr>ds_entries := (ds_entries d)(mid \<mapsto> a), ds_order := ring_push dedupCapacity mid ?r\<rparr>"
      by (auto simp: dedup_add_def)
    with True d mid ok show ?thesis by (simp add: dedup_ok_def) (simp add: ring_push_def)
  next
    case False
    then have n: "r_next ?r < length (r_items ?r)" using d(2) by (auto simp: ring_ok_def)
    have s: "set ((r_items ?r)[r_next ?r := mid]) = insert mid (set (r_items ?r) - {r_items ?r ! r_next ?r})"
      using set_update_distinct [OF d(4) n] .
    have "distinct ((r_items ?r)[r_next ?r := mid])" using d(4) mid by (simp add: distinct_list_update)
    moreover have "d' = d\<lparr>ds_entries := (ds_entries d)(r_items ?r ! r_next ?r := None, mid \<mapsto> a), ds_order := ring_push dedupCapacity mid ?r\<rparr>"
      using False assms(2,3) d(1) by (auto simp: dedup_add_def)
    ultimately show ?thesis using False d ok s by (simp add: dedup_ok_def) (simp add: ring_push_def)
  qed
qed

lemma send_accept_inv:
  assumes inv: "fake_inv (p, ans, due)" and acc: "send_accept w s req p = (p', reply)"
  shows "fake_inv (p', ans @ answered (rq_id req) (Some reply), due @ map sc_message_id (drop (length (fk_scheduled p)) (fk_scheduled p')))"
proof (cases "ds_entries (fk_dedup p) (rq_id req)")
  case (Some a)
  then have "replay a p = (p', reply)" using acc by (auto simp: send_accept_def dedup_add_def Let_def split: if_splits)
  with fake_inv_replay [OF inv Some] show ?thesis by simp
next
  case None
  let ?ref = "newRef (sw_ref w) p"
  let ?a = "\<lparr>acc_ref = ?ref, acc_accepted_at = sw_accepted w, acc_record = length (fk_records p)\<rparr>"
  obtain d' b added where add: "dedup_add (rq_id req) ?a (fk_dedup p) = (d', b, added)" by (metis prod_cases3)
  from inv have ok: "dedup_ok (fk_dedup p)"
    and len: "int (length (r_items (ds_order (fk_dedup p)))) = min (accepted_count p) (int dedupCapacity)" by auto
  note new = dedup_add_new [OF ok None add]
  have p': "fk_dedup p' = d'" "accepted_count p' = accepted_count p + 1" "map sc_message_id (fk_scheduled p') = map sc_message_id (fk_scheduled p) @ [rq_id req]"
    using acc new(2,3) by (auto simp: send_accept_def add Let_def accepted_count_def split: if_splits)
  have "map sc_message_id (drop (length (fk_scheduled p)) (fk_scheduled p')) = drop (length (fk_scheduled p)) (map sc_message_id (fk_scheduled p'))"
    by (simp add: drop_map)
  also have "\<dots> = [rq_id req]" unfolding p'(3) by simp
  finally have due: "map sc_message_id (drop (length (fk_scheduled p)) (fk_scheduled p')) = [rq_id req]" .
  have reply: "answered (rq_id req) (Some reply) = [] \<or> answered (rq_id req) (Some reply) = [(rq_id req, ?ref)]"
    using acc new(2,3) by (auto simp: send_accept_def add Let_def split: if_splits)
  show ?thesis
  proof (cases "accepted_count p' \<le> int dedupCapacity")
    case True
    then have "length (r_items (ds_order (fk_dedup p))) < dedupCapacity" using len p'(2) by simp
    note entries = new(5) [OF this]
    from inv True p'(2) have ans: "\<forall>(mid, ref)\<in>set ans. \<exists>a. ds_entries (fk_dedup p) mid = Some a \<and> acc_ref a = ref"
      and d: "distinct due" "set due \<subseteq> dom (ds_entries (fk_dedup p))" by auto
    have "rq_id req \<notin> set due" using d(2) None by auto
    moreover have "\<forall>(mid, ref)\<in>set ans. \<exists>a. ds_entries d' mid = Some a \<and> acc_ref a = ref"
      using ans None unfolding entries by (force split: if_splits)
    ultimately show ?thesis
      using True d reply new(1,4) len p'(1,2) by (auto simp: due entries)
  next
    case False
    with new(1,4) len p'(1,2) show ?thesis by (auto simp: due)
  qed
qed

lemma fake_step_inv:
  assumes "fake_step s t" "fake_inv s"
  shows "fake_inv t"
  using assms(1)
proof (cases rule: fake_step.cases)
  case (fake_begin p ans due w body)
  then show ?thesis
    using assms(2) by (auto simp: accepted_count_def send_begin_def Let_def split: option.splits)
next
  case (fake_decide w s' req p p' reply ans due)
  show ?thesis
  proof (cases "ds_entries (fk_dedup p) (rq_id req)")
    case (Some a)
    with fake_decide obtain r where r: "replay a p = (p', r)" "reply = Some r"
      by (cases "replay a p") (auto simp: send_decide_def dedup_get_def)
    with fake_inv_replay(1) [OF _ Some r(1)] fake_decide assms(2) show ?thesis by (simp del: fake_inv.simps)
  next
    case None
    with fake_decide have "fk_dedup p' = fk_dedup p" "accepted_count p' = accepted_count p" "answered (rq_id req) reply = []"
      by (auto simp: send_decide_def dedup_get_def accepted_count_def split: if_splits)
    with fake_decide assms(2) show ?thesis by simp
  qed
next
  case (fake_accept w s' req p p' reply ans due)
  with assms(2) show ?thesis by (simp del: fake_inv.simps add: send_accept_inv)
next
  case (fake_dlr k p ans due now is_closed posts sleeps)
  then show ?thesis using assms(2) by (auto simp: send_dlr_def Let_def accepted_count_def)
next
  case (fake_config p ans due u)
  then show ?thesis using assms(2) by (auto simp: handlePutConfig_def accepted_count_def split: sum.splits)
qed

interpretation operator_runs: invariant_system fake_init fake_step fake_inv
proof
  show "fake_init s \<Longrightarrow> fake_inv s" for s
    by (cases s) (auto simp: new_fake_def newDedupStore_def dedup_ok_def ring_ok_def dedupCapacity_def accepted_count_def)
qed (rule fake_step_inv)

subsection \<open>Delivery attempts\<close>

text \<open>Attempts go on while neither acknowledged nor refused and the pauses are not cut short.\<close>

definition unsettled :: "(nat \<Rightarrow> int option) \<Rightarrow> (nat \<Rightarrow> bool) \<Rightarrow> nat \<Rightarrow> bool" where
  "unsettled posts sleeps k \<longleftrightarrow> posts k \<notin> {Some 200, Some 400, Some 401} \<and> sleeps k"

lemma deliver_loop_ack:
  "fst (deliver_loop posts sleeps limit most attempt delay) \<longleftrightarrow>
    (\<exists>k. attempt \<le> k \<and> k \<le> limit \<and> posts k = Some 200 \<and> (\<forall>i. attempt \<le> i \<and> i < k \<longrightarrow> unsettled posts sleeps i))"
proof (induction posts sleeps limit most attempt delay rule: deliver_loop.induct)
  case (1 posts sleeps limit most attempt delay)
  consider "limit < attempt" | "attempt \<le> limit" "posts attempt = Some 200"
    | "attempt \<le> limit" "posts attempt \<noteq> Some 200" "attempt = limit \<or> \<not> unsettled posts sleeps attempt"
    | "attempt < limit" "unsettled posts sleeps attempt" by linarith
  then show ?case
  proof cases
    case 2
    then show ?thesis by (subst deliver_loop.simps) auto
  next
    case 3
    then have "\<not> fst (deliver_loop posts sleeps limit most attempt delay)"
      by (subst deliver_loop.simps) (auto simp: unsettled_def)
    moreover have "\<not> (attempt \<le> k \<and> k \<le> limit \<and> posts k = Some 200 \<and> (\<forall>i. attempt \<le> i \<and> i < k \<longrightarrow> unsettled posts sleeps i))" for k
      using 3 by (cases "k = attempt") auto
    ultimately show ?thesis by blast
  next
    case 4
    then have "fst (deliver_loop posts sleeps limit most attempt delay) \<longleftrightarrow>
        fst (deliver_loop posts sleeps limit most (attempt + 1) (min (2 * delay) most))"
      by (subst deliver_loop.simps) (auto simp: unsettled_def split: prod.splits)
    also have "\<dots> \<longleftrightarrow> (\<exists>k. attempt + 1 \<le> k \<and> k \<le> limit \<and> posts k = Some 200 \<and> (\<forall>i. attempt + 1 \<le> i \<and> i < k \<longrightarrow> unsettled posts sleeps i))"
      using 4 by (intro "1.IH") (auto simp: unsettled_def)
    also have "\<dots> \<longleftrightarrow> (\<exists>k. attempt \<le> k \<and> k \<le> limit \<and> posts k = Some 200 \<and> (\<forall>i. attempt \<le> i \<and> i < k \<longrightarrow> unsettled posts sleeps i))"
      using 4(2) by (metis Suc_eq_plus1 Suc_leD Suc_leI insertCI le_neq_implies_less less_or_eq_imp_le unsettled_def)
    finally show ?thesis .
  qed (subst deliver_loop.simps, simp)
qed

lemma deliver_loop_pauses:
  assumes "0 \<le> delay" "delay \<le> most"
  shows "length (snd (deliver_loop posts sleeps limit most attempt delay)) \<le> limit - attempt \<and>
    (\<forall>i<length (snd (deliver_loop posts sleeps limit most attempt delay)).
       snd (deliver_loop posts sleeps limit most attempt delay) ! i = min (delay * 2 ^ i) most)"
  using assms
proof (induction posts sleeps limit most attempt delay rule: deliver_loop.induct)
  case (1 posts sleeps limit most attempt delay)
  show ?case
  proof (cases "attempt < limit \<and> posts attempt \<notin> {Some 200, Some 400, Some 401}")
    case False
    then have "snd (deliver_loop posts sleeps limit most attempt delay) = []" by (subst deliver_loop.simps) auto
    then show ?thesis by simp
  next
    case live: True
    show ?thesis
    proof (cases "sleeps attempt")
      case False
      with live have "snd (deliver_loop posts sleeps limit most attempt delay) = [delay]" by (subst deliver_loop.simps) auto
      with live "1.prems" show ?thesis by auto
    next
      case True
      let ?rest = "snd (deliver_loop posts sleeps limit most (attempt + 1) (min (2 * delay) most))"
      have eq: "snd (deliver_loop posts sleeps limit most attempt delay) = delay # ?rest"
        using live True by (subst deliver_loop.simps) (auto split: prod.splits)
      have IH: "length ?rest \<le> limit - (attempt + 1) \<and> (\<forall>i<length ?rest. ?rest ! i = min (min (2 * delay) most * 2 ^ i) most)"
        using live True "1.prems" by (intro "1.IH") auto
      have "min (min (2 * delay) most * 2 ^ i) most = min (delay * 2 ^ Suc i) most" for i :: nat
      proof -
        have "most \<le> most * 2 ^ i" using "1.prems" mult_left_mono [of 1 "2 ^ i" most] by simp
        moreover have "most * 2 ^ i \<le> 2 * delay * 2 ^ i" if "most \<le> 2 * delay" using that by (intro mult_right_mono) simp_all
        ultimately have "most \<le> 2 * delay * 2 ^ i" if "most \<le> 2 * delay" using that by linarith
        with \<open>most \<le> most * 2 ^ i\<close> show ?thesis by (cases "most \<le> 2 * delay") (simp_all add: min_absorb2 ac_simps)
      qed
      with IH live "1.prems" show ?thesis unfolding eq by (auto simp: nth_Cons split: nat.splits)
    qed
  qed
qed

subsection \<open>Properties\<close>

text \<open>Resending is safe towards the operator: as long as it has not accepted more messages than its
  deduplication store holds, every positive answer for a message carries the same reference, and at
  most one delivery report is ever scheduled for it, whatever requests run concurrently.\<close>

theorem one_reference_per_message:
  assumes "reachable fake_init fake_step (p, ans, due)" "accepted_count p \<le> int dedupCapacity"
    "(mid, ref) \<in> set ans" "(mid, ref') \<in> set ans"
  shows "ref' = ref \<and> distinct due"
proof -
  have "fake_inv (p, ans, due)" using assms(1) by (rule operator_runs.reachable_invariant)
  with assms(2) have ans: "\<forall>(mid, ref)\<in>set ans. \<exists>a. ds_entries (fk_dedup p) mid = Some a \<and> acc_ref a = ref" and "distinct due"
    by simp_all
  have "ref' = ref" using bspec [OF ans assms(3)] bspec [OF ans assms(4)] by auto
  with \<open>distinct due\<close> show ?thesis by simp
qed

text \<open>A delivery report is posted at most ten times: it counts as sent exactly when the gateway
  acknowledged it before refusing it, and the pauses between attempts double from a second up to a
  minute.\<close>

theorem deliver_retries:
  "(fst (deliver posts sleeps) \<longleftrightarrow>
     (\<exists>k\<in>{1..10}. posts k = Some 200 \<and> list_all (unsettled posts sleeps) [1..<k])) \<and>
   length (snd (deliver posts sleeps)) \<le> 9 \<and>
   snd (deliver posts sleeps) = map (\<lambda>i. min (second * 2 ^ i) minute) [0..<length (snd (deliver posts sleeps))]"
proof -
  have "0 \<le> retryInitial" "retryInitial \<le> retryMax" by (simp_all add: retryInitial_def retryMax_def time_unit_defs)
  note pauses = deliver_loop_pauses [OF this, of posts sleeps retryLimit 1]
  have "fst (deliver posts sleeps) \<longleftrightarrow> (\<exists>k\<in>{1..10}. posts k = Some 200 \<and> list_all (unsettled posts sleeps) [1..<k])"
    unfolding deliver_def deliver_loop_ack by (auto simp: list_all_iff retryLimit_def)
  moreover have "length (snd (deliver posts sleeps)) \<le> 9" using pauses by (simp add: deliver_def retryLimit_def)
  moreover have "snd (deliver posts sleeps) = map (\<lambda>i. min (second * 2 ^ i) minute) [0..<length (snd (deliver posts sleeps))]"
    using pauses by (intro nth_equalityI) (simp_all add: deliver_def retryInitial_def retryMax_def)
  ultimately show ?thesis by blast
qed

text \<open>The operator's log shows the latest requests: after any requests were logged, the newest are listed
  first, up to the limit and up to the capacity of the log.\<close>

theorem log_shows_latest:
  assumes "0 < capacity"
  shows "latest capacity limit (fold (ring_push capacity) xs \<lparr>r_items = [], r_next = 0\<rparr>) = take (min limit capacity) (rev xs)"
proof -
  let ?empty = "\<lparr>r_items = [], r_next = 0\<rparr>"
  have ok: "ring_ok capacity ?empty" "ring_contents ?empty = []" using assms by (simp_all add: ring_ok_def ring_contents_def)
  have "ring_contents (fold (ring_push capacity) xs ?empty) = drop (length xs - capacity) xs"
    using ok by (rule ring.push_all_contents)
  moreover have "ring_ok capacity (fold (ring_push capacity) xs ?empty)" using ok(1) by (rule ring.push_all_ok)
  ultimately show ?thesis by (cases "capacity \<le> length xs") (simp_all add: latest_newest_first rev_drop min_def)
qed

definition settings_ok :: "settings \<Rightarrow> bool" where
  "settings_ok s \<longleftrightarrow> (\<forall>x\<in>{s_latency_ms s, s_jitter_ms s, s_dlr_delay_ms s, s_dlr_jitter_ms s}. 0 \<le> x \<and> x \<le> maxDurationMS) \<and>
     (\<forall>x\<in>{s_failure_rate s, s_timeout_rate s, s_reject_rate s, s_delivery_ratio s}. 0 \<le> x \<and> x \<le> 1)"

text \<open>The fields of an update that are out of range, in order.\<close>

definition bad_duration :: "int option \<Rightarrow> bool" where "bad_duration v \<longleftrightarrow> (\<exists>x. v = Some x \<and> (x < 0 \<or> 60000 < x))"
definition bad_ratio :: "rat option \<Rightarrow> bool" where "bad_ratio v \<longleftrightarrow> (\<exists>x. v = Some x \<and> (x < 0 \<or> 1 < x))"

definition bad_fields :: "settings_update \<Rightarrow> string list" where
  "bad_fields u = map snd (filter fst
     [(bad_duration (u_latency_ms u), ''latency_ms''), (bad_duration (u_jitter_ms u), ''jitter_ms''),
      (bad_ratio (u_failure_rate u), ''failure_rate''), (bad_ratio (u_timeout_rate u), ''timeout_rate''),
      (bad_ratio (u_reject_rate u), ''reject_rate''), (bad_ratio (u_delivery_ratio u), ''delivery_ratio''),
      (bad_duration (u_dlr_delay_ms u), ''dlr_delay_ms''), (bad_duration (u_dlr_jitter_ms u), ''dlr_jitter_ms'')])"

lemma duration_field_cases:
  "map fe_field (snd (duration_field field v dst)) = (if bad_duration v then [field] else [])"
  "0 \<le> dst \<Longrightarrow> dst \<le> maxDurationMS \<Longrightarrow> 0 \<le> fst (duration_field field v dst) \<and> fst (duration_field field v dst) \<le> maxDurationMS"
  by (auto simp: duration_field_def bad_duration_def maxDurationMS_def out_of_range_def split: option.splits)

lemma ratio_field_cases:
  "map fe_field (snd (ratio_field field v dst)) = (if bad_ratio v then [field] else [])"
  "0 \<le> dst \<Longrightarrow> dst \<le> 1 \<Longrightarrow> 0 \<le> fst (ratio_field field v dst) \<and> fst (ratio_field field v dst) \<le> 1"
  by (auto simp: ratio_field_def bad_ratio_def out_of_range_def split: option.splits)

text \<open>Settings stay in range: an update is refused, naming exactly its out-of-range fields, or gives settings
  whose rates are probabilities and whose durations are at most a minute, if they were so before.\<close>

theorem settings_stay_valid:
  assumes "settings_ok s"
  shows "case apply_update u s of
      Inl err \<Rightarrow> bad_fields u \<noteq> [] \<and> (\<exists>ps. err = ValidationError ps \<and> map fe_field ps = bad_fields u)
    | Inr s' \<Rightarrow> bad_fields u = [] \<and> settings_ok s'"
proof -
  let ?ps = "snd (duration_field ''latency_ms'' (u_latency_ms u) (s_latency_ms s)) @
    snd (duration_field ''jitter_ms'' (u_jitter_ms u) (s_jitter_ms s)) @
    snd (ratio_field ''failure_rate'' (u_failure_rate u) (s_failure_rate s)) @
    snd (ratio_field ''timeout_rate'' (u_timeout_rate u) (s_timeout_rate s)) @
    snd (ratio_field ''reject_rate'' (u_reject_rate u) (s_reject_rate s)) @
    snd (ratio_field ''delivery_ratio'' (u_delivery_ratio u) (s_delivery_ratio s)) @
    snd (duration_field ''dlr_delay_ms'' (u_dlr_delay_ms u) (s_dlr_delay_ms s)) @
    snd (duration_field ''dlr_jitter_ms'' (u_dlr_jitter_ms u) (s_dlr_jitter_ms s))"
  have fields: "map fe_field ?ps = bad_fields u"
    by (simp add: duration_field_cases ratio_field_cases bad_fields_def)
  show ?thesis
  proof (cases "?ps = []")
    case True
    with fields assms show ?thesis
      by (simp add: apply_update_def Let_def split_beta settings_ok_def duration_field_cases(2) ratio_field_cases(2))
  next
    case False
    with fields show ?thesis by (auto simp: apply_update_def Let_def split_beta)
  qed
qed

subsection \<open>Instances\<close>

definition demo_send :: send_request where
  "demo_send = \<lparr>rq_id = ''m1'', rq_to = ''+49'', rq_text = ''hi''\<rparr>"

definition demo_send_world :: "8 word list \<Rightarrow> send_world" where
  "demo_send_world b = \<lparr>sw_received = 1, sw_accepted = 2, sw_ref = b, sw_reject = 0, sw_fail = 0, sw_deliver = 0, sw_timeout = 0,
     sw_latency = 0, sw_dlr_jitter = 0, sw_waits = True, sw_outlasts_hold = False\<rparr>"

definition demo_fake :: fake where
  "demo_fake = fst (send_accept (demo_send_world [1]) DefaultSettings demo_send (new_fake ''p1'' DefaultSettings))"

definition demo_fake' :: fake where
  "demo_fake' = fst (send_accept (demo_send_world [2]) DefaultSettings demo_send demo_fake)"

lemmas demo_fake_defs = demo_fake_def demo_fake'_def demo_send_def demo_send_world_def DefaultSettings_def new_fake_def newDedupStore_def
  send_accept_def dedup_add_def ring_push_def dedupCapacity_def recentCapacity_def newRef_def hex_encode_def hex_digit_def chance_def
  log_record_def recent_add_def recent_update_def scheduleDLR_def count_def new_record_def HasPrefix_def replay_def
  alwaysUndeliveredPrefix_def accepted_count_def jittered_def

lemma demo_accepts:
  "send_accept (demo_send_world [1]) DefaultSettings demo_send (new_fake ''p1'' DefaultSettings) = (demo_fake, SentOK ''p1-01'' 2)"
  "send_accept (demo_send_world [2]) DefaultSettings demo_send demo_fake = (demo_fake', SentOK ''p1-01'' 2)"
  by (simp_all add: demo_fake_defs Let_def)

lemma demo_scheduled:
  "map sc_message_id (fk_scheduled demo_fake) = [''m1'']" "fk_scheduled demo_fake' = fk_scheduled demo_fake"
  "fk_scheduled (new_fake ''p1'' DefaultSettings) = []" "rq_id demo_send = ''m1''"
  by (simp_all add: demo_fake_defs Let_def)

lemma demo_run: "reachable fake_init fake_step (demo_fake', [(''m1'', ''p1-01''), (''m1'', ''p1-01'')], [''m1''])"
proof -
  let ?p = "new_fake ''p1'' DefaultSettings"
  have "fake_init (?p, [], [])" by auto
  moreover have "fake_step (?p, [], []) (demo_fake, [(''m1'', ''p1-01'')], [''m1''])"
    using fake_accept [OF demo_accepts(1), of "[]" "[]"] by (simp add: demo_scheduled)
  moreover have "fake_step (demo_fake, [(''m1'', ''p1-01'')], [''m1'']) (demo_fake', [(''m1'', ''p1-01''), (''m1'', ''p1-01'')], [''m1''])"
    using fake_accept [OF demo_accepts(2), of "[(''m1'', ''p1-01'')]" "[''m1'']"] by (simp add: demo_scheduled)
  ultimately show ?thesis by (meson reachable_init reachable_step)
qed

theorem one_reference_per_message_witness:
  "''p1-01'' = ''p1-01'' \<and> distinct [''m1''] \<and> accepted_count demo_fake' \<le> int dedupCapacity"
proof -
  have "accepted_count demo_fake' \<le> int dedupCapacity" by (simp add: demo_fake_defs Let_def)
  with one_reference_per_message [OF demo_run this, of "''m1''" "''p1-01''" "''p1-01''"] show ?thesis by simp
qed

theorem log_shows_latest_witness:
  "latest 2 5 (fold (ring_push 2) [1, 2, 3 :: nat] \<lparr>r_items = [], r_next = 0\<rparr>) = [3, 2]"
  using log_shows_latest [of 2 5 "[1, 2, 3 :: nat]"] by simp

theorem settings_stay_valid_witness:
  "case apply_update \<lparr>u_latency_ms = Some 60001, u_jitter_ms = None, u_failure_rate = None, u_timeout_rate = None, u_reject_rate = None,
       u_outage = None, u_delivery_ratio = Some 2, u_dlr_delay_ms = None, u_dlr_jitter_ms = None\<rparr> DefaultSettings of
     Inl err \<Rightarrow> \<exists>ps. err = ValidationError ps \<and> map fe_field ps = [''latency_ms'', ''delivery_ratio'']
   | Inr s' \<Rightarrow> False"
proof -
  have "settings_ok DefaultSettings" by (simp add: settings_ok_def DefaultSettings_def maxDurationMS_def)
  from settings_stay_valid [OF this, of "\<lparr>u_latency_ms = Some 60001, u_jitter_ms = None, u_failure_rate = None, u_timeout_rate = None,
      u_reject_rate = None, u_outage = None, u_delivery_ratio = Some 2, u_dlr_delay_ms = None, u_dlr_jitter_ms = None\<rparr>"]
  show ?thesis by (auto simp: bad_fields_def bad_duration_def bad_ratio_def split: sum.splits)
qed

end
