(* ===== verification/Dashboard.thy ===== *)
theory Dashboard
  imports Admin Fakeprovider
begin

text \<open>
  The operator's dashboard, \<^verbatim>\<open>internal/admin/dashboard.go\<close>, and the calls of \<^verbatim>\<open>providers.go\<close> it makes. A page is the
  data its template is given; whether the template can be executed on it is a parameter, as are the
  JSON forms exchanged with providers and stored by workers.
\<close>

subsection \<open>Pages\<close>

record pool_stats =
  ps_concurrency :: int
  ps_in_flight :: int

text \<open>What a worker's heartbeat says, decoded; fields that are missing are empty.\<close>

record worker_stats =
  wst_pools :: "(string \<times> pool_stats) list"
  wst_circuits :: "(string \<times> string) list"
  wst_rates :: "(string \<times> rat) list"

record worker_panel =
  wp_id :: string
  wp_last_seen :: gtime
  wp_stale :: bool
  wp_stats :: worker_stats

record system_view =
  sy_overview :: overview
  sy_workers :: "worker_panel list"

record provider_view =
  pv_name :: string
  pv_providers :: "string list"
  pv_settings :: "settings option"
  pv_error :: string

datatype dash_page =
    CustomersPage "customer list" int
  | CustomerPageOf customer_json string "transaction list" "inspected list"
  | MessagesPage "inspected list" "customer list" uuid message_filter "string option"
  | MessagePageOf inspected
  | SystemPage system_view "check_report option"
  | SystemPanel system_view
  | ProviderPage provider_view
  | ProviderPanel "string option" "string option" string
  | ErrorPage string

datatype dash_reply = Rendered int dash_page | SeeOther string

type_synonym dash_result = "db \<times> (served_error + dash_reply)"

record dash_world =
  dw_admin :: admin_world
  dw_renders :: "dash_page \<Rightarrow> bool"
  dw_worker_stats :: "string \<Rightarrow> worker_stats"
  dw_decode_settings :: "string \<Rightarrow> settings option"
  dw_decodes_stats :: "string \<Rightarrow> bool"
  dw_decodes_messages :: "string \<Rightarrow> bool"
  dw_encode_update :: "settings_update \<Rightarrow> string"
  dw_parse_float :: "string \<Rightarrow> go_float option"
  dw_int_order :: "string list"
  dw_float_order :: "string list"

text \<open>\<^verbatim>\<open>render\<close>: a page that cannot be rendered is answered with a plain 500.\<close>

definition render :: "dash_world \<Rightarrow> int \<Rightarrow> dash_page \<Rightarrow> dash_page admin_response" where
  "render w st p =
     (if \<not> dw_renders w p then \<lparr>ar_status = 500, ar_body = PlainText ''The page could not be rendered.''\<rparr>
      else \<lparr>ar_status = st, ar_body = Content p\<rparr>)"

definition renderError :: "dash_world \<Rightarrow> served_error \<Rightarrow> dash_page admin_response" where
  "renderError w err =
     (let (st, msg) =
        (case err of
           OtherErr (ValidationError fs) \<Rightarrow> (422, strings_Join (map (\<lambda>f. fe_field f @ '' '' @ fe_message f) fs) ''; '')
         | _ \<Rightarrow> (case admin_toHTTPError err of
               HttpErr e \<Rightarrow> (he_status e, he_message e)
             | OtherErr e \<Rightarrow> (500, ''An unexpected error occurred.'')))
      in render w st (ErrorPage msg))"

definition pageHandler :: "dash_world \<Rightarrow> admin_config \<Rightarrow> admin_request \<Rightarrow> (db \<Rightarrow> dash_result) \<Rightarrow> db \<Rightarrow> db \<times> dash_page admin_response" where
  "pageHandler w cfg q h d =
     basicAuth cfg q (\<lambda>d. case h d of
        (d', Inl err) \<Rightarrow> (d', renderError w err)
      | (d', Inr (Rendered st p)) \<Rightarrow> (d', render w st p)
      | (d', Inr (SeeOther url)) \<Rightarrow> (d', \<lparr>ar_status = 303, ar_body = PlainText url\<rparr>)) d"

subsection \<open>Customers\<close>

type_synonym form = "string \<Rightarrow> string"

definition formInt :: "form \<Rightarrow> string \<Rightarrow> error + int option" where
  "formInt form name =
     (let v = TrimSpace (form name)
      in if v = [] then Inr None
         else case atoi v of
             None \<Rightarrow> Inl (ValidationError [fe name ''invalid_format'' ''must be a whole number''])
           | Some n \<Rightarrow> Inr (Some n))"

definition customersPage :: "dash_world \<Rightarrow> admin_config \<Rightarrow> db \<Rightarrow> dash_result" where
  "customersPage w cfg d =
     (d, case asking (dw_admin w) ''list customers'' (Inr (ListCustomers uuid_nil 200 d)) of
        Inl e \<Rightarrow> Inl e
      | Inr (list, follows) \<Rightarrow> Inr (Rendered 200 (CustomersPage list (ad_default_rate_limit_rps cfg))))"

definition recent_transactions :: transaction_filter where
  "recent_transactions = \<lparr>tf_kind = None, tf_since = zero_time, tf_until = zero_time, tf_after = uuid_nil, tf_limit = 20\<rparr>"

definition recent_messages :: message_filter where
  "recent_messages = \<lparr>mf_status = [], mf_type = [], mf_recipient = [], mf_since = zero_time, mf_until = zero_time, mf_after = uuid_nil,
     mf_limit = 20\<rparr>"

definition renderCustomer :: "dash_world \<Rightarrow> uuid \<Rightarrow> string \<Rightarrow> db \<Rightarrow> dash_result" where
  "renderCustomer w cid newKey d =
     (d, case customerDetail (dw_admin w) cid d of
        Inl e \<Rightarrow> Inl e
      | Inr detail \<Rightarrow>
          (case asking (dw_admin w) ''list transactions'' (Inr (ListTransactions cid recent_transactions d)) of
             Inl e \<Rightarrow> Inl e
           | Inr (ts, tfollows) \<Rightarrow>
               (case asking (dw_admin w) ''list messages'' (Inr (ListAll cid recent_messages (am_now (dw_admin w)) d)) of
                  Inl e \<Rightarrow> Inl e
                | Inr (ms, mfollows) \<Rightarrow> Inr (Rendered 200 (CustomerPageOf detail newKey ts ms)))))"

definition createCustomerForm :: "dash_world \<Rightarrow> admin_config \<Rightarrow> form \<Rightarrow> db \<Rightarrow> dash_result" where
  "createCustomerForm w cfg form d =
     (case formInt form ''initial_credits'' of
        Inl e \<Rightarrow> (d, Inl (OtherErr e))
      | Inr credits \<Rightarrow>
          (case formInt form ''rate_limit_rps'' of
             Inl e \<Rightarrow> (d, Inl (OtherErr e))
           | Inr rps \<Rightarrow>
               let req = \<lparr>rq_name = Some (TrimSpace (form ''name'')), rq_initial_credits = credits, rq_rate_limit_rps = rps\<rparr>
               in case request_validate True req of
                   Some e \<Rightarrow> (d, Inl (OtherErr e))
                 | None \<Rightarrow>
                     (case newCustomer (dw_admin w) cfg req d of
                        (d', Inl e) \<Rightarrow> (d', Inl e)
                      | (d', Inr (c, key)) \<Rightarrow> renderCustomer w (c_id c) key d')))"

definition customerPage :: "dash_world \<Rightarrow> string \<Rightarrow> db \<Rightarrow> dash_result" where
  "customerPage w path d =
     (case pathID (dw_admin w) path ErrNotFound of
        Inl e \<Rightarrow> (d, Inl e)
      | Inr cid \<Rightarrow> renderCustomer w cid [] d)"

definition customer_url :: "dash_world \<Rightarrow> uuid \<Rightarrow> string" where
  "customer_url w cid = ''/dashboard/customers/'' @ env_uuid_string (am_env (dw_admin w)) cid"

definition updateCustomerForm :: "dash_world \<Rightarrow> string \<Rightarrow> form \<Rightarrow> db \<Rightarrow> dash_result" where
  "updateCustomerForm w path form d =
     (case pathID (dw_admin w) path ErrNotFound of
        Inl e \<Rightarrow> (d, Inl e)
      | Inr cid \<Rightarrow>
          (case formInt form ''rate_limit_rps'' of
             Inl e \<Rightarrow> (d, Inl (OtherErr e))
           | Inr rps \<Rightarrow>
               let name = TrimSpace (form ''name''); rq = \<lparr>rq_name = (if name \<noteq> [] then Some name else None), rq_initial_credits = None,
                     rq_rate_limit_rps = rps\<rparr>
               in case request_validate False rq of
                   Some e \<Rightarrow> (d, Inl (OtherErr e))
                 | None \<Rightarrow>
                     (case changing (dw_admin w) ''update customer''
                         (Update (env_now (am_env (dw_admin w))) cid (rq_name rq) (rq_rate_limit_rps rq)) d of
                        (d', Inl e) \<Rightarrow> (d', Inl e)
                      | (d', Inr c) \<Rightarrow> (d', Inr (SeeOther (customer_url w cid))))))"

definition creditsForm :: "dash_world \<Rightarrow> string \<Rightarrow> form \<Rightarrow> db \<Rightarrow> dash_result" where
  "creditsForm w path form d =
     (case pathID (dw_admin w) path ErrNotFound of
        Inl e \<Rightarrow> (d, Inl e)
      | Inr cid \<Rightarrow>
          (case formInt form ''amount'' of
             Inl e \<Rightarrow> (d, Inl (OtherErr e))
           | Inr amount \<Rightarrow>
               (case addCredit (dw_admin w) cid (case amount of None \<Rightarrow> 0 | Some n \<Rightarrow> n) d of
                  (d', Inl e) \<Rightarrow> (d', Inl e)
                | (d', Inr r) \<Rightarrow> (d', Inr (SeeOther (customer_url w cid))))))"

definition rotateKeyForm :: "dash_world \<Rightarrow> string \<Rightarrow> db \<Rightarrow> dash_result" where
  "rotateKeyForm w path d =
     (case pathID (dw_admin w) path ErrNotFound of
        Inl e \<Rightarrow> (d, Inl e)
      | Inr cid \<Rightarrow>
          (case changing (dw_admin w) ''rotate key'' (RotateKey (am_sha (dw_admin w)) (env_now (am_env (dw_admin w))) (am_random (dw_admin w)) cid) d of
             (d', Inl e) \<Rightarrow> (d', Inl e)
           | (d', Inr (c, key)) \<Rightarrow> renderCustomer w cid key d'))"

definition deleteCustomerForm :: "dash_world \<Rightarrow> string \<Rightarrow> db \<Rightarrow> dash_result" where
  "deleteCustomerForm w path d =
     (case pathID (dw_admin w) path ErrNotFound of
        Inl e \<Rightarrow> (d, Inl e)
      | Inr cid \<Rightarrow>
          (case changing (dw_admin w) ''delete customer'' (Delete cid) d of
             (d', Inl e) \<Rightarrow> (d', Inl e)
           | (d', Inr u) \<Rightarrow> (d', Inr (SeeOther ''/dashboard/customers''))))"

subsection \<open>Messages and system\<close>

text \<open>The link to the next page carries the other parameters along; only its cursor is kept here.\<close>

definition messagesPage :: "dash_world \<Rightarrow> (string \<Rightarrow> string) \<Rightarrow> db \<Rightarrow> dash_result" where
  "messagesPage w vals d =
     (d, let (q, cid, f) = messageFilter (am_parsers (dw_admin w)) (NewQuery vals)
      in case query_Err q of
          Some e \<Rightarrow> Inl (HttpErr e)
        | None \<Rightarrow>
            (case asking (dw_admin w) ''list messages'' (Inr (ListAll cid f (am_now (dw_admin w)) d)) of
               Inl e \<Rightarrow> Inl e
             | Inr (list, follows) \<Rightarrow>
                 (case asking (dw_admin w) ''list customers'' (Inr (ListCustomers uuid_nil 200 d)) of
                    Inl e \<Rightarrow> Inl e
                  | Inr (cs, cfollows) \<Rightarrow> Inr (Rendered 200 (MessagesPage list cs cid f
                      (if follows then Some (EncodeCursor (m_id (in_message (last list)))) else None))))))"

definition messagePage :: "dash_world \<Rightarrow> string \<Rightarrow> db \<Rightarrow> dash_result" where
  "messagePage w path d =
     (d, case pathID (dw_admin w) path ErrMessageNotFound of
        Inl e \<Rightarrow> Inl e
      | Inr mid \<Rightarrow> (case asking (dw_admin w) ''inspect message'' (Inspect mid d) of
            Inl e \<Rightarrow> Inl e
          | Inr i \<Rightarrow> Inr (Rendered 200 (MessagePageOf i))))"

definition systemView :: "dash_world \<Rightarrow> overview \<Rightarrow> system_view" where
  "systemView w ov =
     \<lparr>sy_overview = ov,
      sy_workers = map (\<lambda>v. \<lparr>wp_id = w_id (wv_row v), wp_last_seen = w_last_seen (wv_row v), wp_stale = wv_stale v,
        wp_stats = dw_worker_stats w (w_stats (wv_row v))\<rparr>) (ov_workers ov)\<rparr>"

definition systemPage :: "dash_world \<Rightarrow> admin_config \<Rightarrow> (string \<Rightarrow> string) \<Rightarrow> db \<Rightarrow> dash_result" where
  "systemPage w cfg vals d =
     (d, case overview_of (dw_admin w) cfg d of
        Inl e \<Rightarrow> Inl e
      | Inr ov \<Rightarrow>
          if vals ''check'' \<noteq> []
          then (case asking (dw_admin w) ''invariants'' (Inr (Run (env_uuid_string (am_env (dw_admin w))) (ad_invariants cfg)
                   (env_now (am_env (dw_admin w))) d)) of
              Inl e \<Rightarrow> Inl e
            | Inr rep \<Rightarrow> Inr (Rendered 200 (SystemPage (systemView w ov) (Some rep))))
          else Inr (Rendered 200 (SystemPage (systemView w ov) None)))"

definition systemPanel :: "dash_world \<Rightarrow> admin_config \<Rightarrow> db \<Rightarrow> dash_result" where
  "systemPanel w cfg d =
     (d, case overview_of (dw_admin w) cfg d of Inl e \<Rightarrow> Inl e | Inr ov \<Rightarrow> Inr (Rendered 200 (SystemPanel (systemView w ov))))"

subsection \<open>Providers\<close>

text \<open>\<^verbatim>\<open>providerCall\<close>: the answer's body, which the caller decodes, or the error.\<close>

definition providerCall :: "dash_world \<Rightarrow> provider_config \<Rightarrow> string \<Rightarrow> string \<Rightarrow> string \<Rightarrow> (string \<Rightarrow> 'a option) \<Rightarrow> served_error + 'a" where
  "providerCall w p meth path content decode =
     (case am_provider (dw_admin w) meth (pvc_url p @ path) content of
        Unreachable \<Rightarrow> Inl (HttpErr errProviderUnreachable)
      | Answered st statusText (contentType, body) \<Rightarrow>
          if st \<noteq> 200 then Inl (HttpErr (NewError 502 ''provider_error'' (''The provider answered '' @ statusText @ ''.'')))
          else case decode body of None \<Rightarrow> Inl (OtherErr (ErrText ''decode provider answer'')) | Some x \<Rightarrow> Inr x)"

definition providersIndex :: "admin_config \<Rightarrow> db \<Rightarrow> dash_result" where
  "providersIndex cfg d =
     (d, case ad_providers cfg of
        [] \<Rightarrow> Inl (HttpErr errProviderUnknown)
      | p # ps \<Rightarrow> Inr (SeeOther (''/dashboard/providers/'' @ pvc_name p)))"

definition providerPage :: "dash_world \<Rightarrow> admin_config \<Rightarrow> string \<Rightarrow> db \<Rightarrow> dash_result" where
  "providerPage w cfg name d =
     (d, case provider_named cfg name of
        None \<Rightarrow> Inl (HttpErr errProviderUnknown)
      | Some p \<Rightarrow>
          let v = \<lparr>pv_name = pvc_name p, pv_providers = map pvc_name (ad_providers cfg), pv_settings = None, pv_error = []\<rparr>
          in Inr (Rendered 200 (ProviderPage (case providerCall w p ''GET'' ''/admin/config'' [] (dw_decode_settings w) of
              Inl e \<Rightarrow> v\<lparr>pv_error := ''Provider '' @ pvc_name p @ '' is unreachable.''\<rparr>
            | Inr s \<Rightarrow> v\<lparr>pv_settings := Some s\<rparr>))))"

definition providerPanel :: "dash_world \<Rightarrow> admin_config \<Rightarrow> string \<Rightarrow> db \<Rightarrow> dash_result" where
  "providerPanel w cfg name d =
     (d, case provider_named cfg name of
        None \<Rightarrow> Inl (HttpErr errProviderUnknown)
      | Some p \<Rightarrow>
          let stats = providerCall w p ''GET'' ''/admin/stats'' [] (\<lambda>b. if dw_decodes_stats w b then Some b else None);
              ms = providerCall w p ''GET'' ''/admin/messages?limit=50'' [] (\<lambda>b. if dw_decodes_messages w b then Some b else None);
              shown = (\<lambda>r. case r of Inl e \<Rightarrow> None | Inr b \<Rightarrow> Some b)
          in Inr (Rendered 200 (ProviderPanel (shown stats) (shown ms)
               (if isl stats \<or> isl ms then ''Provider '' @ pvc_name p @ '' is unreachable.'' else []))))"

text \<open>\<^verbatim>\<open>providerConfigForm\<close> ranges over two maps, whose order Go leaves open: the first invalid field in that order is
  the one reported. Numbers JSON has no form for cannot be sent.\<close>

fun int_fields :: "form \<Rightarrow> string list \<Rightarrow> error + (string \<times> int) list" where
  "int_fields form [] = Inr []"
| "int_fields form (name # ns) =
     (case formInt form name of
        Inl e \<Rightarrow> Inl e
      | Inr v \<Rightarrow> (case int_fields form ns of
            Inl e \<Rightarrow> Inl e
          | Inr xs \<Rightarrow> Inr (case v of None \<Rightarrow> xs | Some n \<Rightarrow> (name, n) # xs)))"

fun float_fields :: "dash_world \<Rightarrow> form \<Rightarrow> string list \<Rightarrow> error + (string \<times> go_float) list" where
  "float_fields w form [] = Inr []"
| "float_fields w form (name # ns) =
     (let v = TrimSpace (form name)
      in if v = [] then float_fields w form ns
         else case dw_parse_float w v of
             None \<Rightarrow> Inl (ValidationError [fe name ''invalid_format'' ''must be a number''])
           | Some f \<Rightarrow> (case float_fields w form ns of Inl e \<Rightarrow> Inl e | Inr xs \<Rightarrow> Inr ((name, f) # xs)))"

definition finite_float :: "go_float \<Rightarrow> bool" where
  "finite_float f \<longleftrightarrow> (case f of Num x \<Rightarrow> True | _ \<Rightarrow> False)"

definition num_of :: "(string \<times> go_float) list \<Rightarrow> string \<Rightarrow> rat option" where
  "num_of fs name = (case map_of fs name of Some (Num x) \<Rightarrow> Some x | _ \<Rightarrow> None)"

definition form_update :: "(string \<times> int) list \<Rightarrow> (string \<times> go_float) list \<Rightarrow> bool \<Rightarrow> settings_update" where
  "form_update is fs outage =
     \<lparr>u_latency_ms = map_of is ''latency_ms'', u_jitter_ms = map_of is ''jitter_ms'', u_failure_rate = num_of fs ''failure_rate'',
      u_timeout_rate = num_of fs ''timeout_rate'', u_reject_rate = num_of fs ''reject_rate'', u_outage = Some outage,
      u_delivery_ratio = num_of fs ''delivery_ratio'', u_dlr_delay_ms = map_of is ''dlr_delay_ms'',
      u_dlr_jitter_ms = map_of is ''dlr_jitter_ms''\<rparr>"

definition providerConfigForm :: "dash_world \<Rightarrow> admin_config \<Rightarrow> string \<Rightarrow> form option \<Rightarrow> db \<Rightarrow> dash_result" where
  "providerConfigForm w cfg name parsed d =
     (d, case provider_named cfg name of
        None \<Rightarrow> Inl (HttpErr errProviderUnknown)
      | Some p \<Rightarrow>
          (case parsed of
             None \<Rightarrow> Inl (OtherErr (ErrText ''parse form''))
           | Some form \<Rightarrow>
               (case int_fields form (dw_int_order w) of
                  Inl e \<Rightarrow> Inl (OtherErr e)
                | Inr is \<Rightarrow>
                    (case float_fields w form (dw_float_order w) of
                       Inl e \<Rightarrow> Inl (OtherErr e)
                     | Inr fs \<Rightarrow>
                         if \<not> list_all (\<lambda>x. finite_float (snd x)) fs then Inl (OtherErr (ErrText ''json: unsupported value''))
                         else case providerCall w p ''PUT'' ''/admin/config''
                             (dw_encode_update w (form_update is fs (form ''outage'' = ''on''))) (dw_decode_settings w) of
                             Inl e \<Rightarrow> Inl e
                           | Inr s \<Rightarrow> Inr (SeeOther (''/dashboard/providers/'' @ pvc_name p))))))"

subsection \<open>Routes\<close>

datatype dash_route =
    DashIndex
  | DashCustomers
  | DashCreate form
  | DashCustomer string
  | DashUpdate string form
  | DashCredits string form
  | DashRotate string
  | DashDelete string
  | DashMessages "string \<Rightarrow> string"
  | DashMessage string
  | DashSystem "string \<Rightarrow> string"
  | DashSystemPanel
  | DashProviders
  | DashProvider string
  | DashProviderPanel string
  | DashProviderConfig string "form option"

definition dash_methods :: "dash_route \<Rightarrow> string list" where
  "dash_methods r =
     (case r of
        DashCreate f \<Rightarrow> [''POST'']
      | DashUpdate p f \<Rightarrow> [''POST'']
      | DashCredits p f \<Rightarrow> [''POST'']
      | DashRotate p \<Rightarrow> [''POST'']
      | DashDelete p \<Rightarrow> [''POST'']
      | DashProviderConfig n f \<Rightarrow> [''POST'']
      | _ \<Rightarrow> [''GET'', ''HEAD''])"

definition dash_handle :: "dash_world \<Rightarrow> admin_config \<Rightarrow> dash_route \<Rightarrow> db \<Rightarrow> dash_result" where
  "dash_handle w cfg r d =
     (case r of
        DashIndex \<Rightarrow> (d, Inr (SeeOther ''/dashboard/customers''))
      | DashCustomers \<Rightarrow> customersPage w cfg d
      | DashCreate f \<Rightarrow> createCustomerForm w cfg f d
      | DashCustomer p \<Rightarrow> customerPage w p d
      | DashUpdate p f \<Rightarrow> updateCustomerForm w p f d
      | DashCredits p f \<Rightarrow> creditsForm w p f d
      | DashRotate p \<Rightarrow> rotateKeyForm w p d
      | DashDelete p \<Rightarrow> deleteCustomerForm w p d
      | DashMessages vals \<Rightarrow> messagesPage w vals d
      | DashMessage p \<Rightarrow> messagePage w p d
      | DashSystem vals \<Rightarrow> systemPage w cfg vals d
      | DashSystemPanel \<Rightarrow> systemPanel w cfg d
      | DashProviders \<Rightarrow> providersIndex cfg d
      | DashProvider n \<Rightarrow> providerPage w cfg n d
      | DashProviderPanel n \<Rightarrow> providerPanel w cfg n d
      | DashProviderConfig n f \<Rightarrow> providerConfigForm w cfg n f d)"

definition dash_serve :: "dash_world \<Rightarrow> admin_config \<Rightarrow> admin_request \<Rightarrow> dash_route \<Rightarrow> db \<Rightarrow> db \<times> dash_page admin_response" where
  "dash_serve w cfg q r d = pageHandler w cfg q (dash_handle w cfg r) d"

subsection \<open>What forms change\<close>

lemma renderCustomer_db [simp]: "renderCustomer w cid key d = (d', r) \<longleftrightarrow> d' = d \<and> r = snd (renderCustomer w cid key d)"
  by (auto simp: renderCustomer_def)

lemmas dashboard_reads = customersPage_def customerPage_def messagesPage_def messagePage_def systemPage_def systemPanel_def
  providersIndex_def providerPage_def providerPanel_def providerConfigForm_def

lemma dash_handle_step:
  assumes "dash_handle w cfg r d = (d', res)"
  shows "d' = d \<or> operator_step (env_now (am_env (dw_admin w))) d d'"
proof (cases r)
  case (DashCreate f)
  with assms show ?thesis
    by (auto simp: dash_handle_def createCustomerForm_def Let_def dest: newCustomer_step split: sum.splits option.splits prod.splits)
next
  case (DashUpdate p f)
  with assms show ?thesis
    by (auto simp: dash_handle_def updateCustomerForm_def Let_def dest!: changing_step [OF _ updated] split: sum.splits option.splits prod.splits)
next
  case (DashCredits p f)
  with assms show ?thesis
    by (auto simp: dash_handle_def creditsForm_def dest: addCredit_step split: sum.splits prod.splits)
next
  case (DashRotate p)
  with assms show ?thesis
    by (auto simp: dash_handle_def rotateKeyForm_def dest!: changing_step [OF _ rotated] split: sum.splits prod.splits)
next
  case (DashDelete p)
  with assms show ?thesis
    by (auto simp: dash_handle_def deleteCustomerForm_def dest!: changing_step [OF _ deleted] split: sum.splits prod.splits)
qed (use assms in \<open>auto simp: dash_handle_def dashboard_reads split: sum.splits\<close>)

lemma dash_handle_written:
  assumes "dash_handle w cfg r d = (d', res)" "d' \<noteq> d"
  shows "dash_methods r = [''POST'']"
  using assms by (cases r) (auto simp: dash_handle_def dashboard_reads dash_methods_def split: sum.splits)

lemma dash_serve_changes:
  assumes "dash_serve w cfg q r d = (d', resp)" "d' \<noteq> d"
  shows "credentials_ok cfg q" "cross_origin_error q = None" "\<exists>res. dash_handle w cfg r d = (d', res)"
proof -
  note a = basicAuth_changes [OF assms(1) [unfolded dash_serve_def pageHandler_def] assms(2)]
  show "credentials_ok cfg q" "cross_origin_error q = None" by (fact a)+
  show "\<exists>res. dash_handle w cfg r d = (d', res)" using a(3) by (auto split: prod.splits sum.splits dash_reply.splits)
qed

text \<open>The dashboard changes the database only through its forms and only for the operator: a request that does
  was a \<^verbatim>\<open>POST\<close> with the admin credentials that did not come from another site, and what it did is one
  customer operation.\<close>

theorem dashboard_changes_authorised:
  assumes "dash_serve w cfg q r d = (d', resp)" "rq_method q \<in> set (dash_methods r)" "d' \<noteq> d"
  shows "rq_auth q = Some (''admin'', ad_token cfg) \<and> rq_method q = ''POST'' \<and>
    (rq_sec_fetch_site q \<in> {''same-origin'', ''none''} \<or>
     rq_sec_fetch_site q = [] \<and> (rq_origin q = [] \<or> rq_origin_host q = Some (rq_host q))) \<and>
    operator_step (env_now (am_env (dw_admin w))) d d'"
proof -
  note a = dash_serve_changes [OF assms(1,3)]
  obtain res where h: "dash_handle w cfg r d = (d', res)" using a(3) ..
  have m: "rq_method q = ''POST''" using dash_handle_written [OF h assms(3)] assms(2) by simp
  moreover have "operator_step (env_now (am_env (dw_admin w))) d d'" using dash_handle_step [OF h] assms(3) by simp
  moreover have "rq_sec_fetch_site q \<in> {''same-origin'', ''none''} \<or>
     rq_sec_fetch_site q = [] \<and> (rq_origin q = [] \<or> rq_origin_host q = Some (rq_host q))"
    using a(2) m by (auto simp: cross_origin_error_def split: if_splits)
  ultimately show ?thesis using a(1) by (simp add: credentials_ok_def User_def)
qed

subsection \<open>Instances\<close>

definition demo_dash_world :: "(string \<Rightarrow> bool) \<Rightarrow> dash_world" where
  "demo_dash_world fails = \<lparr>dw_admin = demo_admin_world\<lparr>am_fails := fails\<rparr>, dw_renders = (\<lambda>p. True),
     dw_worker_stats = (\<lambda>s. \<lparr>wst_pools = [], wst_circuits = [], wst_rates = []\<rparr>), dw_decode_settings = (\<lambda>s. None),
     dw_decodes_stats = (\<lambda>s. False), dw_decodes_messages = (\<lambda>s. False), dw_encode_update = (\<lambda>u. []), dw_parse_float = (\<lambda>s. None),
     dw_int_order = [''latency_ms'', ''jitter_ms'', ''dlr_delay_ms'', ''dlr_jitter_ms''],
     dw_float_order = [''failure_rate'', ''timeout_rate'', ''reject_rate'', ''delivery_ratio'']\<rparr>"

definition demo_post_request :: admin_request where
  "demo_post_request = demo_delete_request\<lparr>rq_method := ''POST''\<rparr>"

lemmas demo_dash_simps = dash_serve_def pageHandler_def basicAuth_def cross_origin_error_def credentials_ok_def User_def dash_handle_def
  pathID_def changing_def demo_post_request_def demo_delete_request_def demo_dash_world_def demo_admin_world_def demo_admin_config_def

lemma demo_dash_now: "env_now (am_env (dw_admin (demo_dash_world fails))) = 1000"
  by (simp add: demo_dash_world_def demo_admin_world_def)

theorem dashboard_changes_authorised_witness:
  "operator_step 1000 demo_db (fst (dash_serve (demo_dash_world (\<lambda>s. False)) demo_admin_config demo_post_request (DashDelete ''1'') demo_db))"
proof -
  obtain d' resp where out: "dash_serve (demo_dash_world (\<lambda>s. False)) demo_admin_config demo_post_request (DashDelete ''1'') demo_db = (d', resp)"
    by fastforce
  then have "customers d' = []"
    by (auto simp: demo_dash_simps deleteCustomerForm_def Delete_def delete_cascade_def demo_db_def demo_customer_def has_key_def Let_def)
  then have "d' \<noteq> demo_db" by (auto simp: demo_db_def)
  moreover have "rq_method demo_post_request \<in> set (dash_methods (DashDelete ''1''))"
    by (simp add: demo_post_request_def dash_methods_def)
  ultimately have "operator_step (env_now (am_env (dw_admin (demo_dash_world (\<lambda>s. False))))) demo_db d'"
    using dashboard_changes_authorised [OF out] by blast
  then show ?thesis by (simp add: out demo_dash_now)
qed

text \<open>Unlike the API, the dashboard can report an error for a change it made: the key of a customer is rotated, the
  page that would show the new key cannot be loaded, and the key is lost.\<close>

lemma rotateKeyForm_may_lose_key:
  "\<exists>w d' resp. dash_serve w demo_admin_config demo_post_request (DashRotate ''1'') demo_db = (d', resp) \<and> d' \<noteq> demo_db \<and>
     ar_status resp = 500 \<and> ar_body resp = Content (ErrorPage ''An unexpected error occurred.'')"
proof -
  let ?w = "demo_dash_world (\<lambda>s. s = ''get customer'')"
  obtain d' resp where out: "dash_serve ?w demo_admin_config demo_post_request (DashRotate ''1'') demo_db = (d', resp)" by fastforce
  obtain d1 c key where r: "RotateKey (\<lambda>k. k) 1000 (replicate 32 7) 1 demo_db = (d1, Inr (c, key))" and d1: "d1 \<noteq> demo_db"
  proof -
    have "\<exists>c key. RotateKey (\<lambda>k. k) 1000 (replicate 32 7) 1 demo_db = (demo_db\<lparr>customers := [c]\<rparr>, Inr (c, key)) \<and> c_updated_at c = 1000"
      by (simp add: runes_ascii RotateKey_def update_customer_def demo_db_def demo_customer_def row_of_def customer_check_def update_where_def
          in_int64_def max_int64_def Let_def)
    then show ?thesis by (auto simp: demo_db_def demo_customer_def intro!: that)
  qed
  have "d' = d1" "resp = renderError ?w (OtherErr (DbErr ''get customer'' Unavailable))"
    using out r by (auto simp: demo_dash_simps rotateKeyForm_def renderCustomer_def customerDetail_def asking_def)
  with out d1 show ?thesis
    by (intro exI [of _ ?w] exI [of _ d'] exI [of _ resp])
      (simp add: renderError_def admin_toHTTPError_def render_def demo_dash_world_def)
qed

end
