(* ===== verification/Metrics.thy ===== *)
theory Metrics
  imports Complex_Main Gostrings "HOL-Library.List_Lexorder" "HOL-Library.Char_ord"
begin

text \<open>
  Metrics and their text exposition: \<^verbatim>\<open>internal/metrics\<close>. Values are rationals where the code has floating-point
  numbers, and their decimal form is a parameter. A panic is \<open>None\<close>. The counters of the code are updated
  atomically, so an update is one step.
\<close>

subsection \<open>Label sets\<close>

definition escape_char :: "char \<Rightarrow> string" where
  "escape_char c =
     (if c = CHR 0x5C then [CHR 0x5C, CHR 0x5C] else if c = CHR 0x22 then [CHR 0x5C, CHR 0x22]
      else if c = CHR 0x0A then [CHR 0x5C, CHR ''n''] else [c])"

definition escape :: "string \<Rightarrow> string" where
  "escape s = concat (map escape_char s)"

definition label_pair :: "string \<Rightarrow> string \<Rightarrow> string" where
  "label_pair name v = name @ [CHR ''='', CHR 0x22] @ escape v @ [CHR 0x22]"

text \<open>The pairs of a label set, separated by commas; \<^verbatim>\<open>values[i]\<close> panics if there are too few values.\<close>

fun label_pairs :: "string list \<Rightarrow> string list \<Rightarrow> string option" where
  "label_pairs [] vs = Some []"
| "label_pairs (n # ns) [] = None"
| "label_pairs [n] (v # vs) = Some (label_pair n v)"
| "label_pairs (n # m # ns) (v # vs) = map_option (\<lambda>s. label_pair n v @ '','' @ s) (label_pairs (m # ns) vs)"

definition formatLabels :: "string list \<Rightarrow> string list \<Rightarrow> string option" where
  "formatLabels names vals =
     (if names = [] then Some []
      else map_option (\<lambda>s. ''{'' @ s @ ''}'') (label_pairs names vals))"

definition withLabel :: "string \<Rightarrow> string \<Rightarrow> string \<Rightarrow> string" where
  "withLabel labels name v =
     (if labels = [] then ''{'' @ label_pair name v @ ''}''
      else butlast labels @ '','' @ label_pair name v @ ''}'')"

subsection \<open>Families\<close>

text \<open>A labelled family: for every key the label values it was made from and the series.\<close>

record 'a vec =
  vc_name :: string
  vc_help :: string
  vc_labels :: "string list"
  vc_series :: "(string \<times> string list \<times> 'a) list"

definition newVec :: "string \<Rightarrow> string \<Rightarrow> string list \<Rightarrow> 'a vec" where
  "newVec name help labels = \<lparr>vc_name = name, vc_help = help, vc_labels = labels, vc_series = []\<rparr>"

fun join_key :: "string list \<Rightarrow> string" where
  "join_key [] = []"
| "join_key [v] = v"
| "join_key (v # w # vs) = v @ [CHR 0x00] @ join_key (w # vs)"

definition vec_with :: "'a \<Rightarrow> string list \<Rightarrow> 'a vec \<Rightarrow> 'a vec option" where
  "vec_with new vals v =
     (if length vals \<noteq> length (vc_labels v) then None
      else if map_of (vc_series v) (join_key vals) \<noteq> None then Some v
      else Some (v\<lparr>vc_series := vc_series v @ [(join_key vals, vals, new)]\<rparr>))"

definition vec_update :: "string \<Rightarrow> ('a \<Rightarrow> 'a) \<Rightarrow> 'a vec \<Rightarrow> 'a vec" where
  "vec_update key f v = v\<lparr>vc_series := map (\<lambda>(k, vals, s). (k, vals, if k = key then f s else s)) (vc_series v)\<rparr>"

definition vec_apply :: "'a \<Rightarrow> string list \<Rightarrow> ('a \<Rightarrow> 'a) \<Rightarrow> 'a vec \<Rightarrow> 'a vec option" where
  "vec_apply new vals f v = map_option (vec_update (join_key vals) f) (vec_with new vals v)"

definition vec_each :: "'a vec \<Rightarrow> (string \<times> 'a) list option" where
  "vec_each v =
     those (map (\<lambda>(k, vals, s). map_option (\<lambda>l. (l, s)) (formatLabels (vc_labels v) vals)) (sort_key fst (vc_series v)))"

definition counter_Add :: "string list \<Rightarrow> rat \<Rightarrow> rat vec \<Rightarrow> rat vec option" where
  "counter_Add vals x = vec_apply 0 vals (\<lambda>c. c + x)"

definition counter_Inc :: "string list \<Rightarrow> rat vec \<Rightarrow> rat vec option" where
  "counter_Inc vals = counter_Add vals 1"

definition gauge_Set :: "string list \<Rightarrow> rat \<Rightarrow> rat vec \<Rightarrow> rat vec option" where
  "gauge_Set vals x = vec_apply 0 vals (\<lambda>g. x)"

definition gauge_Add :: "string list \<Rightarrow> rat \<Rightarrow> rat vec \<Rightarrow> rat vec option" where
  "gauge_Add vals x = vec_apply 0 vals (\<lambda>g. g + x)"

record histogram =
  hg_bounds :: "rat list"
  hg_buckets :: "nat list"
  hg_count :: nat
  hg_sum :: rat

definition new_histogram :: "rat list \<Rightarrow> histogram" where
  "new_histogram bounds = \<lparr>hg_bounds = bounds, hg_buckets = replicate (length bounds) 0, hg_count = 0, hg_sum = 0\<rparr>"

text \<open>\<^verbatim>\<open>sort.SearchFloat64s\<close>: the least index whose bound is not below the value, in ascending bounds.\<close>

definition SearchFloat64s :: "rat list \<Rightarrow> rat \<Rightarrow> nat" where
  "SearchFloat64s bounds v = length (takeWhile (\<lambda>b. b < v) bounds)"

definition Observe :: "rat \<Rightarrow> histogram \<Rightarrow> histogram" where
  "Observe v h =
     (let i = SearchFloat64s (hg_bounds h) v
      in h\<lparr>hg_buckets := (if i < length (hg_buckets h) then (hg_buckets h)[i := hg_buckets h ! i + 1] else hg_buckets h),
           hg_count := hg_count h + 1, hg_sum := hg_sum h + v\<rparr>)"

definition histogram_Observe :: "rat list \<Rightarrow> string list \<Rightarrow> rat \<Rightarrow> histogram vec \<Rightarrow> histogram vec option" where
  "histogram_Observe bounds vals x = vec_apply (new_histogram bounds) vals (Observe x)"

fun ExponentialBuckets :: "rat \<Rightarrow> rat \<Rightarrow> nat \<Rightarrow> rat list" where
  "ExponentialBuckets start factor 0 = []"
| "ExponentialBuckets start factor (Suc n) = start # ExponentialBuckets (start * factor) factor n"

subsection \<open>Exposition\<close>

definition writeHeader :: "string \<Rightarrow> string \<Rightarrow> string \<Rightarrow> string list" where
  "writeHeader name help knd = [''# HELP '' @ name @ '' '' @ help, ''# TYPE '' @ name @ '' '' @ knd]"

definition value_lines :: "(rat \<Rightarrow> string) \<Rightarrow> string \<Rightarrow> rat vec \<Rightarrow> string list option" where
  "value_lines fmt knd v =
     map_option (\<lambda>es. writeHeader (vc_name v) (vc_help v) knd @ map (\<lambda>(l, x). vc_name v @ l @ '' '' @ fmt x) es) (vec_each v)"

text \<open>The cumulative count up to each bound.\<close>

fun cumulate :: "nat \<Rightarrow> nat list \<Rightarrow> nat list" where
  "cumulate c [] = []"
| "cumulate c (n # ns) = (c + n) # cumulate (c + n) ns"

definition histogram_lines :: "(rat \<Rightarrow> string) \<Rightarrow> string \<Rightarrow> string \<Rightarrow> histogram \<Rightarrow> string list" where
  "histogram_lines fmt name labels h =
     map2 (\<lambda>b c. name @ ''_bucket'' @ withLabel labels ''le'' (fmt b) @ '' '' @ itoa (int c)) (hg_bounds h) (cumulate 0 (hg_buckets h)) @
     [name @ ''_bucket'' @ withLabel labels ''le'' ''+Inf'' @ '' '' @ itoa (int (hg_count h)),
      name @ ''_sum'' @ labels @ '' '' @ fmt (hg_sum h), name @ ''_count'' @ labels @ '' '' @ itoa (int (hg_count h))]"

datatype family = CounterVec "rat vec" | GaugeVec "rat vec" | HistogramVec "rat list" "histogram vec"

fun family_name :: "family \<Rightarrow> string" where
  "family_name (CounterVec v) = vc_name v"
| "family_name (GaugeVec v) = vc_name v"
| "family_name (HistogramVec b v) = vc_name v"

fun family_write :: "(rat \<Rightarrow> string) \<Rightarrow> family \<Rightarrow> string list option" where
  "family_write fmt (CounterVec v) = value_lines fmt ''counter'' v"
| "family_write fmt (GaugeVec v) = value_lines fmt ''gauge'' v"
| "family_write fmt (HistogramVec b v) =
     map_option (\<lambda>es. writeHeader (vc_name v) (vc_help v) ''histogram'' @
       concat (map (\<lambda>(l, h). histogram_lines fmt (vc_name v) l h) es)) (vec_each v)"

subsection \<open>The registry\<close>

type_synonym registry = "family list"

definition register :: "family \<Rightarrow> registry \<Rightarrow> registry option" where
  "register f r = (if family_name f \<in> set (map family_name r) then None else Some (r @ [f]))"

definition NewCounter :: "string \<Rightarrow> string \<Rightarrow> string list \<Rightarrow> registry \<Rightarrow> registry option" where
  "NewCounter name help labels = register (CounterVec (newVec name help labels))"

definition NewGauge :: "string \<Rightarrow> string \<Rightarrow> string list \<Rightarrow> registry \<Rightarrow> registry option" where
  "NewGauge name help labels = register (GaugeVec (newVec name help labels))"

definition NewHistogram :: "string \<Rightarrow> string \<Rightarrow> rat list \<Rightarrow> string list \<Rightarrow> registry \<Rightarrow> registry option" where
  "NewHistogram name help bounds labels = register (HistogramVec bounds (newVec name help labels))"

text \<open>\<^verbatim>\<open>Handler\<close>, with the two runtime gauges it appends.\<close>

definition writeRuntime :: "nat \<Rightarrow> nat \<Rightarrow> string list" where
  "writeRuntime goroutines heap =
     writeHeader ''go_goroutines'' ''Number of goroutines.'' ''gauge'' @ [''go_goroutines '' @ itoa (int goroutines)] @
     writeHeader ''go_memstats_heap_alloc_bytes'' ''Bytes of allocated heap objects.'' ''gauge'' @
     [''go_memstats_heap_alloc_bytes '' @ itoa (int heap)]"

definition exposition :: "(rat \<Rightarrow> string) \<Rightarrow> nat \<Rightarrow> nat \<Rightarrow> registry \<Rightarrow> string list option" where
  "exposition fmt goroutines heap r =
     map_option (\<lambda>ls. concat ls @ writeRuntime goroutines heap) (those (map (family_write fmt) r))"

subsection \<open>The metrics of the program\<close>

definition latencyBuckets :: "rat list" where "latencyBuckets = ExponentialBuckets (5 / 1000) 2 14"
definition sizeBuckets :: "rat list" where "sizeBuckets = ExponentialBuckets 1 2 11"

text \<open>The declarations of \<^verbatim>\<open>metrics.go\<close>, in order.\<close>

definition declarations :: "(registry \<Rightarrow> registry option) list" where
  "declarations =
    [NewCounter ''sms_api_requests_total'' ''HTTP requests by route pattern and status code.'' [''route'', ''code''],
     NewHistogram ''sms_api_request_duration_seconds'' ''HTTP request latency by route pattern.'' latencyBuckets [''route''],
     NewCounter ''sms_messages_accepted_total'' ''Messages accepted.'' [''type''],
     NewCounter ''sms_rate_limited_total'' ''Messages refused by the rate limiter.'' [],
     NewCounter ''sms_credits_debited_total'' ''Credits debited at acceptance.'' [],
     NewCounter ''sms_credits_charged_total'' ''Credits added by charges.'' [],
     NewCounter ''sms_dlr_received_total'' ''Delivery reports by outcome.'' [''outcome''],
     NewHistogram ''sms_dlr_batch_size'' ''Delivery reports per commit.'' sizeBuckets [],
     NewCounter ''sms_dispatch_attempts_total'' ''Provider requests by provider, class, and outcome.'' [''provider'', ''type'', ''outcome''],
     NewCounter ''sms_messages_completed_total''
       ''Messages that reached sent, failed, or expired through a worker or the sweeper.'' [''type'', ''status''],
     NewCounter ''sms_deferrals_total'' ''Messages deferred because no provider was usable.'' [''type''],
     NewCounter ''sms_credits_refunded_total'' ''Credits refunded.'' [],
     NewHistogram ''sms_provider_request_duration_seconds'' ''Provider request latency.'' latencyBuckets [''provider''],
     NewGauge ''sms_circuit_state'' ''Circuit state per provider: 0 closed, 1 half-open, 2 open.'' [''provider''],
     NewGauge ''sms_pool_in_flight'' ''Sends in progress per pool.'' [''pool''],
     NewHistogram ''sms_claim_size'' ''Rows per claim.'' sizeBuckets [''pool''],
     NewHistogram ''sms_completer_batch_size'' ''Outcomes per completer commit.'' sizeBuckets [],
     NewHistogram ''sms_message_latency_seconds''
       ''Time from acceptance to sent (stage=sent) and to a terminal status (stage=completed).'' latencyBuckets [''type'', ''stage''],
     NewCounter ''sms_express_sla_breaches_total'' ''Express messages that ended dispatch with an SLA breach.'' [],
     NewGauge ''sms_queue_depth'' ''Queue rows per lane and state, sampled by the sweeper.'' [''lane'', ''state''],
     NewGauge ''sms_queue_oldest_ready_seconds'' ''Age of the oldest ready row per lane, sampled by the sweeper.'' [''lane''],
     NewCounter ''provider_requests_total'' ''Send requests by result.'' [''result''],
     NewCounter ''provider_dlr_sent_total'' ''Delivery reports acknowledged by the gateway.'' [''status''],
     NewGauge ''provider_dlr_pending'' ''Delivery reports waiting to be sent.'' []]"

fun declare_all :: "(registry \<Rightarrow> registry option) list \<Rightarrow> registry \<Rightarrow> registry option" where
  "declare_all [] r = Some r"
| "declare_all (f # fs) r = (case f r of None \<Rightarrow> None | Some r' \<Rightarrow> declare_all fs r')"

text \<open>The program starts: no metric is declared twice.\<close>

lemma Default_registers: "\<exists>r. declare_all declarations [] = Some r \<and> length r = 24"
  by (simp add: declarations_def NewCounter_def NewGauge_def NewHistogram_def register_def newVec_def)

subsection \<open>Reading label sets back\<close>

text \<open>The reader of the exposition format: a name up to the equals sign, then a quoted value with escapes.\<close>

definition unescape_char :: "char \<Rightarrow> char" where
  "unescape_char c = (if c = CHR ''n'' then CHR 0x0A else c)"

fun read_value :: "string \<Rightarrow> (string \<times> string) option" where
  "read_value [] = None"
| "read_value (c # s) =
     (if c = CHR 0x22 then Some ([], s)
      else if c = CHR 0x5C
      then (case s of [] \<Rightarrow> None | e # s' \<Rightarrow> map_option (\<lambda>(v, r). (unescape_char e # v, r)) (read_value s'))
      else map_option (\<lambda>(v, r). (c # v, r)) (read_value s))"

fun read_pairs :: "nat \<Rightarrow> string \<Rightarrow> (string \<times> string) list option" where
  "read_pairs 0 s = None"
| "read_pairs (Suc n) s =
     (let name = takeWhile (\<lambda>c. c \<noteq> CHR ''='') s
      in case dropWhile (\<lambda>c. c \<noteq> CHR ''='') s of
          e # q # r \<Rightarrow>
            if q \<noteq> CHR 0x22 then None
            else (case read_value r of
                Some (v, c # r') \<Rightarrow>
                  if c = CHR ''}'' then Some [(name, v)]
                  else if c = CHR '','' then map_option (Cons (name, v)) (read_pairs n r')
                  else None
              | _ \<Rightarrow> None)
        | _ \<Rightarrow> None)"

definition read_labels :: "string \<Rightarrow> (string \<times> string) list option" where
  "read_labels s =
     (case s of [] \<Rightarrow> Some [] | c # r \<Rightarrow> if c = CHR ''{'' then read_pairs (length r) r else None)"

lemma read_escaped: "read_value (escape v @ CHR 0x22 # rest) = Some (v, rest)"
proof (induction v)
  case (Cons c v)
  then show ?case by (cases "c = CHR 0x5C"; cases "c = CHR 0x22"; cases "c = CHR 0x0A") (simp_all add: escape_def escape_char_def unescape_char_def)
qed (simp add: escape_def)

definition label_name_ok :: "string \<Rightarrow> bool" where
  "label_name_ok n \<longleftrightarrow> CHR ''='' \<notin> set n"

lemma takeWhile_name: "label_name_ok n \<Longrightarrow> takeWhile (\<lambda>c. c \<noteq> CHR ''='') (n @ CHR ''='' # r) = n"
  by (induction n) (auto simp: label_name_ok_def)

lemma dropWhile_name: "label_name_ok n \<Longrightarrow> dropWhile (\<lambda>c. c \<noteq> CHR ''='') (n @ CHR ''='' # r) = CHR ''='' # r"
  by (induction n) (auto simp: label_name_ok_def)

lemma read_pairs_roundtrip:
  assumes "list_all label_name_ok ns" "length vs = length ns" "ns \<noteq> []" "length ns \<le> fuel"
  shows "\<exists>s. label_pairs ns vs = Some s \<and> read_pairs fuel (s @ ''}'') = Some (zip ns vs)"
  using assms
proof (induction ns vs arbitrary: fuel rule: label_pairs.induct)
  case (3 n v vs)
  then obtain k where "fuel = Suc k" by (cases fuel) auto
  with 3 show ?case by (simp add: label_pair_def takeWhile_name dropWhile_name read_escaped)
next
  case (4 n m ns v vs)
  then obtain k where k: "fuel = Suc k" "length (m # ns) \<le> k" by (cases fuel) auto
  with "4.IH" [of k] "4.prems" obtain s where s: "label_pairs (m # ns) vs = Some s" "read_pairs k (s @ ''}'') = Some (zip (m # ns) vs)" by auto
  with k "4.prems" show ?case by (simp add: label_pair_def takeWhile_name dropWhile_name read_escaped)
qed auto

lemma label_pairs_length: "label_pairs ns vs = Some s \<Longrightarrow> length ns \<le> length s"
  by (induction ns vs arbitrary: s rule: label_pairs.induct) (auto simp: label_pair_def)

subsection \<open>Histograms\<close>

lemma cumulate_nth: "i < length ns \<Longrightarrow> cumulate c ns ! i = c + (\<Sum>n\<leftarrow>take (Suc i) ns. n)"
  by (induction ns arbitrary: c i) (auto simp: nth_Cons split: nat.splits)

lemma length_cumulate [simp]: "length (cumulate c ns) = length ns"
  by (induction ns arbitrary: c) auto

definition observed :: "rat list \<Rightarrow> rat list \<Rightarrow> histogram" where
  "observed bounds vs = fold Observe vs (new_histogram bounds)"

lemma observed_snoc: "observed bounds (vs @ [v]) = Observe v (observed bounds vs)"
  by (simp add: observed_def)

lemma observed_inv:
  "hg_bounds (observed bounds vs) = bounds \<and> length (hg_buckets (observed bounds vs)) = length bounds \<and>
   hg_count (observed bounds vs) = length vs \<and> hg_sum (observed bounds vs) = sum_list vs \<and>
   (\<forall>i<length bounds. hg_buckets (observed bounds vs) ! i = length (filter (\<lambda>v. SearchFloat64s bounds v = i) vs))"
proof (induction vs rule: rev_induct)
  case (snoc v vs)
  then show ?case by (auto simp: observed_snoc Observe_def Let_def nth_list_update)
qed (simp add: observed_def new_histogram_def)

lemma SearchFloat64s_le:
  assumes "sorted bounds" "i < length bounds"
  shows "SearchFloat64s bounds v \<le> i \<longleftrightarrow> v \<le> bounds ! i"
proof
  assume le: "SearchFloat64s bounds v \<le> i"
  let ?k = "SearchFloat64s bounds v"
  have "?k < length bounds" using le assms(2) by simp
  then have "\<not> bounds ! ?k < v" unfolding SearchFloat64s_def using nth_length_takeWhile by blast
  then have "v \<le> bounds ! ?k" by simp
  also have "\<dots> \<le> bounds ! i" using assms le by (intro sorted_nth_mono)
  finally show "v \<le> bounds ! i" .
next
  assume v: "v \<le> bounds ! i"
  show "SearchFloat64s bounds v \<le> i"
  proof (rule ccontr)
    assume "\<not> SearchFloat64s bounds v \<le> i"
    then have "i < length (takeWhile (\<lambda>b. b < v) bounds)" by (simp add: SearchFloat64s_def)
    then have "bounds ! i < v" using set_takeWhileD [OF nth_mem] takeWhile_nth by fastforce
    with v show False by simp
  qed
qed

lemma sum_counts:
  fixes f :: "'a \<Rightarrow> nat"
  shows "(\<Sum>i<n. length (filter (\<lambda>x. f x = i) xs)) = length (filter (\<lambda>x. f x < n) xs)"
proof (induction xs)
  case (Cons x xs)
  have "(\<Sum>i<n. length (filter (\<lambda>y. f y = i) (x # xs))) = (\<Sum>i<n. (if f x = i then 1 else 0) + length (filter (\<lambda>y. f y = i) xs))"
    by (intro sum.cong) auto
  moreover have "(\<Sum>i<n. if f x = i then 1 else 0) = (if f x < n then 1 else 0 :: nat)" by (simp add: sum.delta')
  ultimately show ?case using Cons by (simp add: sum.distrib)
qed simp

lemma ExponentialBuckets_sorted:
  assumes "0 < start" "1 \<le> factor"
  shows "sorted (ExponentialBuckets start factor n) \<and> (\<forall>b\<in>set (ExponentialBuckets start factor n). start \<le> b)"
  using assms
proof (induction start factor n rule: ExponentialBuckets.induct)
  case (2 start factor n)
  have le: "start \<le> start * factor" using "2.prems" by simp
  have "sorted (ExponentialBuckets (start * factor) factor n) \<and> (\<forall>b\<in>set (ExponentialBuckets (start * factor) factor n). start * factor \<le> b)"
    using 2 by simp
  then have "\<forall>b\<in>set (ExponentialBuckets (start * factor) factor n). start \<le> b" using le by (meson order_trans)
  with \<open>sorted _ \<and> _\<close> show ?case by simp
qed simp

lemma program_buckets_sorted: "sorted latencyBuckets" "sorted sizeBuckets"
  using ExponentialBuckets_sorted [of "5 / 1000" 2 14] ExponentialBuckets_sorted [of 1 2 11]
  unfolding latencyBuckets_def sizeBuckets_def by simp_all

subsection \<open>Properties\<close>

text \<open>The label set of a series can be read back from the exposition: whatever bytes the values have, quotes,
  backslashes and line breaks included, reading yields the labels and values it was made from.\<close>

theorem labels_roundtrip:
  assumes "list_all label_name_ok names" "length vals = length names"
  shows "\<exists>s. formatLabels names vals = Some s \<and> read_labels s = Some (zip names vals)"
proof (cases "names = []")
  case False
  obtain s where s: "label_pairs names vals = Some s" using read_pairs_roundtrip [OF assms False le_refl] by auto
  have "length names \<le> length (s @ ''}'')" using label_pairs_length [OF s] by simp
  from read_pairs_roundtrip [OF assms False this] s have "read_pairs (length (s @ ''}'')) (s @ ''}'') = Some (zip names vals)" by simp
  with s False show ?thesis by (simp add: formatLabels_def read_labels_def)
qed (simp add: formatLabels_def read_labels_def)

text \<open>A histogram counts right: with ascending bounds, the cumulative count shown for a bound is the number of
  observations up to it, and the total and the sum are those of all observations.\<close>

theorem histogram_exact:
  assumes "sorted bounds" "i < length bounds"
  shows "cumulate 0 (hg_buckets (observed bounds vs)) ! i = length (filter (\<lambda>v. v \<le> bounds ! i) vs) \<and>
    hg_count (observed bounds vs) = length vs \<and> hg_sum (observed bounds vs) = sum_list vs"
proof -
  let ?b = "hg_buckets (observed bounds vs)"
  note inv = observed_inv [of bounds vs]
  have len: "length ?b = length bounds" using inv by blast
  have "(\<Sum>n\<leftarrow>take (Suc i) ?b. n) = (\<Sum>j<Suc i. ?b ! j)"
    using assms(2) len by (simp add: sum_list_sum_nth atLeast0LessThan min_absorb1 nth_take)
  also have "\<dots> = (\<Sum>j<Suc i. length (filter (\<lambda>v. SearchFloat64s bounds v = j) vs))"
    using inv assms(2) by (intro sum.cong) auto
  also have "\<dots> = length (filter (\<lambda>v. SearchFloat64s bounds v < Suc i) vs)" by (rule sum_counts)
  also have "\<dots> = length (filter (\<lambda>v. v \<le> bounds ! i) vs)"
    using SearchFloat64s_le [OF assms] by (simp add: less_Suc_eq_le cong: filter_cong)
  finally show ?thesis using inv assms(2) len by (simp add: cumulate_nth)
qed

text \<open>Values that contain the separator of the keys share a series although they differ.\<close>

lemma join_key_collides: "join_key [''a'' @ [CHR 0x00] @ ''b'', ''c''] = join_key [''a'', ''b'' @ [CHR 0x00] @ ''c'']"
  by simp

text \<open>Without it, the keys of label values are as different as the values.\<close>

lemma join_key_injective:
  assumes "length vs = length ws" "\<forall>v\<in>set vs \<union> set ws. CHR 0x00 \<notin> set v" "join_key vs = join_key ws"
  shows "vs = ws"
  using assms
proof (induction vs ws rule: list_induct2)
  case (Cons v vs w ws)
  have split: "a = b \<and> r = s" if "a @ CHR 0x00 # r = b @ CHR 0x00 # s" "CHR 0x00 \<notin> set a" "CHR 0x00 \<notin> set b" for a b r s :: string
    using that by (induction a arbitrary: b) (case_tac b; auto)+
  show ?case
  proof (cases vs)
    case Nil
    with Cons show ?thesis by simp
  next
    case (Cons v' vs')
    with Cons.hyps obtain w' ws' where ws: "ws = w' # ws'" by (cases ws) auto
    have "v @ CHR 0x00 # join_key vs = w @ CHR 0x00 # join_key ws" using Cons.prems(2) Cons ws by simp
    from split [OF this] Cons.prems(1) have "v = w \<and> join_key vs = join_key ws" by simp
    with Cons.IH Cons.prems(1) show ?thesis by simp
  qed
qed simp

subsection \<open>Instances\<close>

theorem labels_roundtrip_witness:
  "\<exists>s. formatLabels [''route'', ''code''] [''GET /'' @ [CHR 0x22, CHR 0x0A], ''200''] = Some s \<and>
     read_labels s = Some [(''route'', ''GET /'' @ [CHR 0x22, CHR 0x0A]), (''code'', ''200'')]"
  using labels_roundtrip [of "[''route'', ''code'']" "[''GET /'' @ [CHR 0x22, CHR 0x0A], ''200'']"] by (simp add: label_name_ok_def)

theorem histogram_exact_witness:
  "cumulate 0 (hg_buckets (observed [1, 2, 4] [1, 3, 9, 2])) ! 1 = 2"
  using histogram_exact [of "[1, 2, 4]" 1 "[1, 3, 9, 2]"] by simp

end
