(* ===== verification/Middleware.thy ===== *)
theory Middleware
  imports Httpx Metrics
begin

text \<open>
  What surrounds every HTTP handler: \<^verbatim>\<open>internal/httpx/middleware.go\<close>, \<^verbatim>\<open>health.go\<close> and the order in which
  \<^verbatim>\<open>internal/app/run.go\<close> applies it. A handler is seen through what it does to its response writer and whether
  it panics.
\<close>

subsection \<open>Handlers\<close>

datatype write_op = WriteHeader int | Write string

text \<open>How a handler ends: it returns, or panics, with \<^verbatim>\<open>http.ErrAbortHandler\<close> or another value.\<close>

datatype ending = Returns | Aborts | Panics

record http_request =
  hr_request_id :: string
  hr_pattern :: string
  hr_context_id :: string

text \<open>What serving a request leaves behind: the operations on the writer, the end, the headers set, the lines of the
  access log with their severity, and the increments of the request counter.\<close>

record served =
  sd_ops :: "write_op list"
  sd_ending :: ending
  sd_headers :: "(string \<times> string) list"
  sd_log :: "(bool \<times> int) list"
  sd_counted :: "(string \<times> int) list"

type_synonym handler = "http_request \<Rightarrow> served"

text \<open>The status \<^verbatim>\<open>net/http\<close> sends: that of the first \<^verbatim>\<open>WriteHeader\<close> unless something was written before; later ones are
  ignored, and 200 is sent when there is none. An informational status (1xx but for 101) goes out ahead of the
  response and does not count as its status.\<close>

definition informational :: "int \<Rightarrow> bool" where
  "informational c \<longleftrightarrow> 100 \<le> c \<and> c \<le> 199 \<and> c \<noteq> 101"

fun sent_status :: "write_op list \<Rightarrow> int" where
  "sent_status [] = 200"
| "sent_status (WriteHeader c # ops) = (if informational c then sent_status ops else c)"
| "sent_status (Write b # ops) = 200"

fun final_op :: "write_op \<Rightarrow> bool" where
  "final_op (WriteHeader c) = (\<not> informational c)"
| "final_op (Write b) = True"

record status_recorder =
  sr_status :: int
  sr_wrote_header :: bool

fun record_op :: "write_op \<Rightarrow> status_recorder \<Rightarrow> status_recorder" where
  "record_op (WriteHeader c) s = (if \<not> sr_wrote_header s then s\<lparr>sr_status := c, sr_wrote_header := True\<rparr> else s)"
| "record_op (Write b) s = s\<lparr>sr_wrote_header := True\<rparr>"

definition recorded_status :: "write_op list \<Rightarrow> int" where
  "recorded_status ops = sr_status (fold record_op ops \<lparr>sr_status = 200, sr_wrote_header = False\<rparr>)"

subsection \<open>Middleware\<close>

definition Chain :: "'h \<Rightarrow> ('h \<Rightarrow> 'h) list \<Rightarrow> 'h" where
  "Chain h mws = foldr (\<lambda>mw h. mw h) mws h"

definition is_request_id_char :: "char \<Rightarrow> bool" where
  "is_request_id_char c \<longleftrightarrow> is_alnum c \<or> c \<in> {CHR ''.'', CHR ''_'', CHR '':'', CHR ''-''}"

definition valid_request_id :: "string \<Rightarrow> bool" where
  "valid_request_id s \<longleftrightarrow> list_all is_request_id_char s \<and> 1 \<le> length s \<and> length s \<le> 128"

definition RequestIDHeader :: string where "RequestIDHeader = ''X-Request-Id''"

definition WithRequestID :: "string \<Rightarrow> handler \<Rightarrow> handler" where
  "WithRequestID fresh h r =
     (let rid = (if \<not> valid_request_id (hr_request_id r) then fresh else hr_request_id r);
          s = h (r\<lparr>hr_context_id := rid\<rparr>)
      in s\<lparr>sd_headers := (RequestIDHeader, rid) # sd_headers s\<rparr>)"

definition WithAccessLog :: "handler \<Rightarrow> handler" where
  "WithAccessLog h r =
     (let s = h r
      in if sd_ending s \<noteq> Returns then s
         else let st = recorded_status (sd_ops s) in s\<lparr>sd_log := sd_log s @ [(500 \<le> st, st)]\<rparr>)"

text \<open>\<^verbatim>\<open>WriteJSON\<close> on the writer: the status, then the body; and \<^verbatim>\<open>WriteError\<close> with the request's identifier, \<^verbatim>\<open>RequestID\<close>.\<close>

definition WriteJSON :: "int \<Rightarrow> json \<Rightarrow> write_op list" where
  "WriteJSON st v = [WriteHeader st, Write (WriteJSON_body v)]"

definition error_ops :: "string \<Rightarrow> http_error \<Rightarrow> write_op list" where
  "error_ops rid e = WriteJSON (he_status e) (errorBody rid e)"

definition WithRecovery :: "handler \<Rightarrow> handler" where
  "WithRecovery h r =
     (let s = h r
      in if sd_ending s = Panics
         then s\<lparr>sd_ops := sd_ops s @ error_ops (hr_context_id r) (WriteError (HttpErr (NewError 500 ''internal_error'' ''An unexpected error occurred.''))),
                sd_ending := Returns\<rparr>
         else s)"

definition WithRequestMetrics :: "handler \<Rightarrow> handler" where
  "WithRequestMetrics h r =
     (let s = h r
      in if sd_ending s \<noteq> Returns then s
         else s\<lparr>sd_counted := sd_counted s @ [(if hr_pattern r = [] then ''unmatched'' else hr_pattern r, recorded_status (sd_ops s))]\<rparr>)"

definition withMiddleware :: "string \<Rightarrow> handler \<Rightarrow> handler" where
  "withMiddleware fresh h = Chain h [WithRequestID fresh, WithAccessLog, WithRecovery, WithRequestMetrics]"

subsection \<open>Health\<close>

definition Healthz :: "int \<times> string" where
  "Healthz = (200, ''ok'')"

definition Readyz :: "error option \<Rightarrow> int \<times> string" where
  "Readyz check = (case check of Some e \<Rightarrow> (503, ''unavailable'') | None \<Rightarrow> (200, ''ready''))"

subsection \<open>Properties\<close>

lemma recorded_after_header: "sr_wrote_header s \<Longrightarrow> sr_status (fold record_op ops s) = sr_status s"
proof (induction ops arbitrary: s)
  case (Cons x ops)
  then show ?case by (cases x) auto
qed simp

lemma recorded_sent: "list_all final_op ops \<Longrightarrow> recorded_status ops = sent_status ops"
  by (cases ops rule: sent_status.cases) (simp_all add: recorded_status_def recorded_after_header)

text \<open>A handler that sends an informational status is logged and counted with it, not with the one that follows.\<close>

lemma recorded_informational:
  "recorded_status [WriteHeader 103, WriteHeader 200] = 103 \<and> sent_status [WriteHeader 103, WriteHeader 200] = 200"
  by (simp add: recorded_status_def informational_def)

lemma internal_error_ops:
  "error_ops rid (WriteError (HttpErr (NewError 500 c m))) = [WriteHeader 500, Write (WriteJSON_body (errorBody rid (NewError 500 c m)))]"
  by (simp add: error_ops_def WriteJSON_def NewError_def WriteError_def)

text \<open>A plain handler only writes its response: headers, log and counters are the middleware's.\<close>

definition plain_handler :: "handler \<Rightarrow> bool" where
  "plain_handler h \<longleftrightarrow>
     (\<forall>r. sd_headers (h r) = [] \<and> sd_log (h r) = [] \<and> sd_counted (h r) = [] \<and> list_all final_op (sd_ops (h r)))"

text \<open>A request whose handler panics is answered but not counted: the counter is inside the recovery.\<close>

lemma panics_uncounted:
  assumes "plain_handler h" "sd_ending (h (r\<lparr>hr_context_id := rid\<rparr>)) = Panics" "valid_request_id (hr_request_id r)"
    "rid = hr_request_id r"
  shows "sd_ending (withMiddleware fresh h r) = Returns \<and> sd_counted (withMiddleware fresh h r) = []"
  using assms
  by (simp add: withMiddleware_def Chain_def WithRequestID_def WithAccessLog_def WithRecovery_def WithRequestMetrics_def
      plain_handler_def Let_def)



end
