(* ===== verification/Commands.thy ===== *)
theory Commands
  imports System Migrate Worker
begin

text \<open>
  The command line of the two binaries: \<^verbatim>\<open>cmd/gateway\<close> and \<^verbatim>\<open>cmd/provider\<close>, with the roles of
  \<^verbatim>\<open>internal/app/run.go\<close>, the life of a server (\<^verbatim>\<open>internal/httpx/server.go, probe.go\<close>) and \<^verbatim>\<open>internal/buildinfo\<close>. A command
  gives an exit code, the lines it prints and the database it leaves; log lines are left out.
\<close>

subsection \<open>Flags\<close>

text \<open>\<^verbatim>\<open>flag.FlagSet.Parse\<close> with one flag, which is all a command here declares: a word is a flag with or without a value,
  ends the flags or is the first argument.\<close>

datatype flag_word = NotFlag | Terminator | BadSyntax | FlagNamed string "string option"

definition flag_word :: "string \<Rightarrow> flag_word" where
  "flag_word s =
     (if length s < 2 \<or> hd s \<noteq> CHR ''-'' then NotFlag
      else if s = ''--'' then Terminator
      else let name = (if s ! 1 = CHR ''-'' then drop 2 s else drop 1 s)
           in if name = [] \<or> hd name = CHR ''-'' \<or> hd name = CHR ''='' then BadSyntax
              else case Cut (CHR ''='') name of
                  None \<Rightarrow> FlagNamed name None
                | Some (n, v) \<Rightarrow> FlagNamed n (Some v))"

datatype flag_error = ErrHelp | ErrBadSyntax string | ErrUndefined string | ErrNoArgument string | ErrBadValue string string

record 'v flag =
  fl_name :: string
  fl_bool :: bool
  fl_set :: "string \<Rightarrow> 'v option"

fun flag_parse :: "'v flag \<Rightarrow> 'v \<Rightarrow> string list \<Rightarrow> flag_error + 'v \<times> string list" where
  "flag_parse f v [] = Inr (v, [])"
| "flag_parse f v (s # args) =
     (case flag_word s of
        NotFlag \<Rightarrow> Inr (v, s # args)
      | Terminator \<Rightarrow> Inr (v, args)
      | BadSyntax \<Rightarrow> Inl (ErrBadSyntax s)
      | FlagNamed name given \<Rightarrow>
          if name \<noteq> fl_name f
          then (if name = ''help'' \<or> name = ''h'' then Inl ErrHelp else Inl (ErrUndefined name))
          else if fl_bool f
          then (let x = (case given of None \<Rightarrow> ''true'' | Some x \<Rightarrow> x)
                in case fl_set f x of None \<Rightarrow> Inl (ErrBadValue name x) | Some v' \<Rightarrow> flag_parse f v' args)
          else (case given of
              Some x \<Rightarrow> (case fl_set f x of None \<Rightarrow> Inl (ErrBadValue name x) | Some v' \<Rightarrow> flag_parse f v' args)
            | None \<Rightarrow>
                (case args of
                   [] \<Rightarrow> Inl (ErrNoArgument name)
                 | x # rest \<Rightarrow> (case fl_set f x of None \<Rightarrow> Inl (ErrBadValue name x) | Some v' \<Rightarrow> flag_parse f v' rest))))"

subsection \<open>Roles and servers\<close>

datatype role = RoleAPI | RoleWorker | RoleAll

fun role_string :: "role \<Rightarrow> string" where
  "role_string RoleAPI = ''api''"
| "role_string RoleWorker = ''worker''"
| "role_string RoleAll = ''all''"

definition ParseRole :: "string \<Rightarrow> role option" where
  "ParseRole s =
     (if s = ''api'' then Some RoleAPI else if s = ''worker'' then Some RoleWorker
      else if s = ''all'' then Some RoleAll else None)"

definition runsAPI :: "role \<Rightarrow> bool" where "runsAPI r \<longleftrightarrow> r = RoleAPI \<or> r = RoleAll"
definition runsWorker :: "role \<Rightarrow> bool" where "runsWorker r \<longleftrightarrow> r = RoleWorker \<or> r = RoleAll"

text \<open>What a server meets: listening fails, serving ends by itself, the shutdown fails, and how serving ended after it.\<close>

datatype serve_end = ErrServerClosed | ServeErr string

record serve_world =
  sv_listen :: "string option"
  sv_early :: "serve_end option"
  sv_shutdown :: "string option"
  sv_late :: "serve_end option"

fun serve_text :: "serve_end \<Rightarrow> string" where
  "serve_text ErrServerClosed = ''http: Server closed''"
| "serve_text (ServeErr s) = s"

definition ServeListener :: "string \<Rightarrow> serve_world \<Rightarrow> string option" where
  "ServeListener addr w =
     (case sv_early w of
        Some e \<Rightarrow> Some (''serve '' @ addr @ '': '' @ serve_text e)
      | None \<Rightarrow>
          (case sv_shutdown w of
             Some e \<Rightarrow> Some (''shut down '' @ addr @ '': '' @ e)
           | None \<Rightarrow>
               (case sv_late w of
                  Some (ServeErr e) \<Rightarrow> Some (''serve '' @ addr @ '': '' @ e)
                | _ \<Rightarrow> None)))"

definition Serve :: "string \<Rightarrow> serve_world \<Rightarrow> string option" where
  "Serve addr w =
     (case sv_listen w of
        Some e \<Rightarrow> Some (''listen on '' @ addr @ '': '' @ e)
      | None \<Rightarrow> ServeListener addr w)"

text \<open>The goroutines of a process, as \<^verbatim>\<open>startAPI\<close> and \<^verbatim>\<open>startWorker\<close> start them. If the console cannot be set up its error
  takes the place of its server.\<close>

datatype component =
    DlrBatcher | PublicServer | AdminServer | AdminSetup | DispatchWorker | SweeperLoop | HeartbeatLoop | WorkerServer

definition startAPI :: "string option \<Rightarrow> component list" where
  "startAPI admin_error = [DlrBatcher, PublicServer, if admin_error = None then AdminServer else AdminSetup]"

definition startWorker :: "component list" where
  "startWorker = [DispatchWorker, SweeperLoop, HeartbeatLoop, WorkerServer]"

record process_world =
  pw_open :: "string \<Rightarrow> int \<Rightarrow> string option"
  pw_admin_error :: "string option"
  pw_public :: serve_world
  pw_admin :: serve_world
  pw_worker :: serve_world
  pw_order :: "component list \<Rightarrow> component list"

definition app_components :: "process_world \<Rightarrow> role \<Rightarrow> component list" where
  "app_components w r = (if runsAPI r then startAPI (pw_admin_error w) else []) @ (if runsWorker r then startWorker else [])"

fun component_result :: "process_world \<Rightarrow> gateway_config \<Rightarrow> component \<Rightarrow> string option" where
  "component_result w cfg PublicServer = Serve (gw_http_addr cfg) (pw_public w)"
| "component_result w cfg AdminServer = Serve (gw_admin_addr cfg) (pw_admin w)"
| "component_result w cfg AdminSetup = pw_admin_error w"
| "component_result w cfg WorkerServer = Serve (gw_worker_addr cfg) (pw_worker w)"
| "component_result w cfg DlrBatcher = None"
| "component_result w cfg DispatchWorker = None"
| "component_result w cfg SweeperLoop = None"
| "component_result w cfg HeartbeatLoop = None"

text \<open>\<^verbatim>\<open>errgroup\<close>: \<^verbatim>\<open>Wait\<close> returns the error of the first goroutine, in the order they end, that returned one.\<close>

fun first_error :: "('c \<Rightarrow> string option) \<Rightarrow> 'c list \<Rightarrow> string option" where
  "first_error result [] = None"
| "first_error result (c # cs) = (case result c of Some e \<Rightarrow> Some e | None \<Rightarrow> first_error result cs)"

definition app_Run :: "process_world \<Rightarrow> gateway_config \<Rightarrow> role \<Rightarrow> string option" where
  "app_Run w cfg r =
     (case pw_open w (dbc_url (gw_database cfg)) (dbc_max_conns (gw_database cfg)) of
        Some e \<Rightarrow> Some e
      | None \<Rightarrow> first_error (component_result w cfg) (pw_order w (app_components w r)))"

text \<open>\<^verbatim>\<open>Probe\<close>: the client's answer is an error or a status with its text.\<close>

definition Probe :: "(string \<Rightarrow> duration \<Rightarrow> string + int \<times> string) \<Rightarrow> string \<Rightarrow> duration \<Rightarrow> string option" where
  "Probe get url timeout =
     (case get url timeout of
        Inl e \<Rightarrow> Some e
      | Inr (st, status_text) \<Rightarrow> if st \<noteq> 200 then Some (url @ '' returned '' @ status_text) else None)"

subsection \<open>Versions\<close>

fun vcs_settings :: "(string \<times> string) list \<Rightarrow> string \<Rightarrow> bool \<Rightarrow> string \<times> bool" where
  "vcs_settings [] revision modified = (revision, modified)"
| "vcs_settings ((k, v) # ss) revision modified =
     (if k = ''vcs.revision'' then vcs_settings ss v modified
      else if k = ''vcs.modified'' then vcs_settings ss revision (v = ''true'')
      else vcs_settings ss revision modified)"

definition Revision :: "string \<Rightarrow> (string \<times> string) list option \<Rightarrow> string" where
  "Revision hash info =
     (if hash \<noteq> [] then hash
      else case info of
          None \<Rightarrow> ''unknown''
        | Some settings \<Rightarrow>
            (case vcs_settings settings [] False of (revision, modified) \<Rightarrow>
               if revision = [] then ''unknown''
               else (if 12 < length revision then take 12 revision else revision) @ (if modified then ''-dirty'' else [])))"

definition buildinfo_String :: "string \<Rightarrow> string \<Rightarrow> (string \<times> string) list option \<Rightarrow> string \<Rightarrow> string \<Rightarrow> string" where
  "buildinfo_String version hash info go name =
     name @ '' '' @ version @ '' ('' @ Revision hash info @ '', '' @ go @ '')''"

subsection \<open>The commands of the gateway\<close>

definition exitOK :: int where "exitOK = 0"
definition exitFailure :: int where "exitFailure = 1"
definition exitUsage :: int where "exitUsage = 2"

text \<open>The database as the commands see it: the tables and the state of the migrations.\<close>

record 's store_state =
  ss_db :: db
  ss_migrations :: "'s migrate_db"

record 's ran =
  rn_code :: int
  rn_stdout :: "string list"
  rn_stderr :: "string list"
  rn_state :: "'s store_state"

record seed_world =
  sw_find_error :: "string option"
  sw_rotate_error :: "string option"
  sw_fault :: tx_fault
  sw_env :: env
  sw_random :: "byte list"

text \<open>Everything outside: the process environment, the database's answers, the embedded migrations, the HTTP client,
  the texts of errors, times and reports, and what serving does to the database.\<close>

record 's cmd_world =
  cw_lib :: config_lib
  cw_process :: process_world
  cw_serving :: "gateway_config \<Rightarrow> role \<Rightarrow> 's store_state \<Rightarrow> 's store_state"
  cw_files :: "fs_entry list option"
  cw_exec :: "string \<Rightarrow> 's \<Rightarrow> string + 's"
  cw_migrate :: migrate_world
  cw_sha :: "string \<Rightarrow> string"
  cw_seed :: "string \<Rightarrow> seed_world"
  cw_check_error :: "error option"
  cw_now :: gtime
  cw_uuid_string :: "uuid \<Rightarrow> string"
  cw_json :: "check_report \<Rightarrow> string + string list"
  cw_get :: "string \<Rightarrow> duration \<Rightarrow> string + int \<times> string"
  cw_version :: string
  cw_flag_text :: "string \<Rightarrow> flag_error \<Rightarrow> string list"
  cw_error_text :: "error \<Rightarrow> string"
  cw_migrate_text :: "migrate_error \<Rightarrow> string"
  cw_time_text :: "gtime \<Rightarrow> string"

definition exits :: "int \<Rightarrow> string list \<Rightarrow> string list \<Rightarrow> 's store_state \<Rightarrow> 's ran" where
  "exits code out err st = \<lparr>rn_code = code, rn_stdout = out, rn_stderr = err, rn_state = st\<rparr>"

definition config_Error :: "string list \<Rightarrow> string" where
  "config_Error problems = ''invalid configuration:'' @ concat (map (\<lambda>p. [CHR 0x0A] @ ''  '' @ p) problems)"

text \<open>A command that cannot parse its flags: help is no error.\<close>

definition flags_failed :: "'s cmd_world \<Rightarrow> string \<Rightarrow> flag_error \<Rightarrow> 's store_state \<Rightarrow> 's ran" where
  "flags_failed w cmd e st = exits (if e = ErrHelp then exitOK else exitUsage) [] (cw_flag_text w cmd e) st"

definition role_flag :: "string flag" where
  "role_flag = \<lparr>fl_name = ''role'', fl_bool = False, fl_set = Some\<rparr>"

definition go_list :: "string list \<Rightarrow> string" where
  "go_list xs = ''['' @ strings_Join xs '' '' @ '']''"

definition runServe :: "'s cmd_world \<Rightarrow> string list \<Rightarrow> 's store_state \<Rightarrow> 's ran" where
  "runServe w args st =
     (case flag_parse role_flag (role_string RoleAll) args of
        Inl e \<Rightarrow> flags_failed w ''serve'' e st
      | Inr (name, rest) \<Rightarrow>
          if rest \<noteq> [] then exits exitUsage [] [''gateway serve: unexpected arguments '' @ go_list rest] st
          else case ParseRole name of
              None \<Rightarrow> exits exitUsage []
                [''gateway serve: unknown role '' @ cl_quote (cw_lib w) name @ '': must be api, worker, or all''] st
            | Some role \<Rightarrow>
                (case LoadGateway (cw_lib w) of
                   Inl problems \<Rightarrow> exits exitUsage [] [''gateway serve: '' @ config_Error problems] st
                 | Inr cfg \<Rightarrow>
                     let st' = (if pw_open (cw_process w) (dbc_url (gw_database cfg)) (dbc_max_conns (gw_database cfg)) = None
                                then cw_serving w cfg role st else st)
                     in exits (if app_Run (cw_process w) cfg role \<noteq> None then exitFailure else exitOK) [] [] st'))"

text \<open>\<^verbatim>\<open>text/tabwriter\<close> with padding 2 on rows of equally many cells: every column but the last is as wide as its widest
  cell plus the padding.\<close>

definition pad_to :: "nat \<Rightarrow> string \<Rightarrow> string" where
  "pad_to n s = s @ replicate (n - length s) (CHR '' '')"

definition column_width :: "string list list \<Rightarrow> nat \<Rightarrow> nat" where
  "column_width rows i = fold max (map (\<lambda>r. length (r ! i) + 2) rows) 0"

definition tabulate :: "string list list \<Rightarrow> string list" where
  "tabulate rows =
     map (\<lambda>r. concat (map (\<lambda>i. if Suc i < length r then pad_to (column_width rows i) (r ! i) else r ! i) [0..<length r])) rows"

definition padded_version :: "int \<Rightarrow> string" where
  "padded_version v = replicate (5 - length (itoa v)) (CHR ''0'') @ itoa v"

definition migration_title :: "migration \<Rightarrow> string" where
  "migration_title mig = padded_version (mig_version mig) @ ''_'' @ mig_name mig"

definition migrate_action :: "'s cmd_world \<Rightarrow> string \<Rightarrow> migration list \<Rightarrow> 's store_state \<Rightarrow> 's ran" where
  "migrate_action w action migs st =
     (let fail = (\<lambda>out e. exits exitFailure out [''gateway migrate: '' @ cw_migrate_text w e])
      in if action = ''up''
         then (case Up (cw_exec w) (cw_migrate w) migs (ss_migrations st) of (ms, applied, e) \<Rightarrow>
             let out = map (\<lambda>mig. ''applied '' @ migration_title mig) applied; st' = st\<lparr>ss_migrations := ms\<rparr>
             in case e of
                 Some err \<Rightarrow> fail out err st'
               | None \<Rightarrow> exits exitOK (if applied = [] then [''schema is up to date''] else out) [] st')
         else if action = ''down''
         then (case Down (cw_exec w) (cw_migrate w) migs (ss_migrations st) of
             (ms, Inl err) \<Rightarrow> fail [] err (st\<lparr>ss_migrations := ms\<rparr>)
           | (ms, Inr None) \<Rightarrow> exits exitOK [''no migration to revert''] [] (st\<lparr>ss_migrations := ms\<rparr>)
           | (ms, Inr (Some mig)) \<Rightarrow> exits exitOK [''reverted '' @ migration_title mig] [] (st\<lparr>ss_migrations := ms\<rparr>))
         else (case Status (cw_migrate w) migs (ss_migrations st) of
             Inl err \<Rightarrow> fail [] err st
           | Inr rows \<Rightarrow>
               exits exitOK (tabulate ([''VERSION'', ''NAME'', ''APPLIED''] #
                 map (\<lambda>(mig, at_time). [padded_version (mig_version mig), mig_name mig,
                   case at_time of None \<Rightarrow> ''pending'' | Some t \<Rightarrow> cw_time_text w t]) rows)) [] st))"

definition runMigrate :: "'s cmd_world \<Rightarrow> string list \<Rightarrow> 's store_state \<Rightarrow> 's ran" where
  "runMigrate w args st =
     (if 1 < length args then exits exitUsage [] [''usage: gateway migrate [up|down|status]''] st
      else let action = (case args of [] \<Rightarrow> ''up'' | a # _ \<Rightarrow> a)
           in if action \<noteq> ''up'' \<and> action \<noteq> ''down'' \<and> action \<noteq> ''status''
              then exits exitUsage [] [''gateway migrate: unknown action '' @ cl_quote (cw_lib w) action @
                ''; usage: gateway migrate [up|down|status]''] st
              else case LoadDatabase (cw_lib w) of
                  Inl problems \<Rightarrow> exits exitUsage [] [''gateway migrate: '' @ config_Error problems] st
                | Inr cfg \<Rightarrow>
                    (case LoadMigrations (cw_files w) of
                       Inl e \<Rightarrow> exits exitFailure [] [''gateway migrate: '' @ cw_migrate_text w e] st
                     | Inr migs \<Rightarrow>
                         (case pw_open (cw_process w) (dbc_url cfg) 2 of
                            Some e \<Rightarrow> exits exitFailure [] [''gateway migrate: '' @ e] st
                          | None \<Rightarrow> migrate_action w action migs st)))"

record demo_customer =
  dc_name :: string
  dc_key_var :: string
  dc_credits :: int
  dc_rps :: int

definition demoCustomers :: "demo_customer list" where
  "demoCustomers =
     [\<lparr>dc_name = ''acme'', dc_key_var = ''ACME_KEY'', dc_credits = 10000, dc_rps = 100\<rparr>,
      \<lparr>dc_name = ''bulkco'', dc_key_var = ''BULK_KEY'', dc_credits = 1000000, dc_rps = 2000\<rparr>,
      \<lparr>dc_name = ''quickpay'', dc_key_var = ''QUICK_KEY'', dc_credits = 50000, dc_rps = 200\<rparr>]"

text \<open>One demo customer: created if there is none of that name, its key rotated otherwise; the progress line and the key.\<close>

definition seed_customer :: "(string \<Rightarrow> string) \<Rightarrow> seed_world \<Rightarrow> demo_customer \<Rightarrow> db \<Rightarrow> db \<times> (error + string \<times> string)" where
  "seed_customer sha w dc d =
     (case (case sw_find_error w of Some e \<Rightarrow> Inl (DbErr e Unavailable) | None \<Rightarrow> FindByName (dc_name dc) d) of
        Inl err \<Rightarrow>
          if err = ErrNotFound
          then (case Create (sw_fault w) sha (sw_env w) (sw_random w)
                  \<lparr>n_name = dc_name dc, n_initial_credits = dc_credits dc, n_rate_limit_rps = dc_rps dc\<rparr> d of
              (d', Inl err) \<Rightarrow> (d', Inl err)
            | (d', Inr (c, key)) \<Rightarrow> (d', Inr (''created '' @ c_name c @ '' with '' @ itoa (c_balance c) @ '' credits'', key)))
          else (d, Inl err)
      | Inr c \<Rightarrow>
          (case sw_rotate_error w of
             Some e \<Rightarrow> (d, Inl (DbErr e Unavailable))
           | None \<Rightarrow>
               (case RotateKey sha (env_now (sw_env w)) (sw_random w) (c_id c) d of
                  (d', Inl err) \<Rightarrow> (d', Inl err)
                | (d', Inr (_, key)) \<Rightarrow> (d', Inr (''rotated the key of '' @ c_name c, key)))))"

fun seed_loop :: "'s cmd_world \<Rightarrow> demo_customer list \<Rightarrow> 's store_state \<Rightarrow> 's ran" where
  "seed_loop w [] st = exits exitOK [] [] st"
| "seed_loop w (dc # dcs) st =
     (case seed_customer (cw_sha w) (cw_seed w (dc_name dc)) dc (ss_db st) of
        (d, Inl err) \<Rightarrow> exits exitFailure [] [''gateway seed: '' @ dc_name dc @ '': '' @ cw_error_text w err] (st\<lparr>ss_db := d\<rparr>)
      | (d, Inr (progress, key)) \<Rightarrow>
          (let r = seed_loop w dcs (st\<lparr>ss_db := d\<rparr>)
           in r\<lparr>rn_stdout := (dc_key_var dc @ ''='' @ key) # rn_stdout r, rn_stderr := progress # rn_stderr r\<rparr>))"

definition runSeed :: "'s cmd_world \<Rightarrow> string list \<Rightarrow> 's store_state \<Rightarrow> 's ran" where
  "runSeed w args st =
     (if args \<noteq> [] then exits exitUsage [] [''usage: gateway seed''] st
      else case LoadDatabase (cw_lib w) of
          Inl problems \<Rightarrow> exits exitUsage [] [''gateway seed: '' @ config_Error problems] st
        | Inr cfg \<Rightarrow>
            (case pw_open (cw_process w) (dbc_url cfg) 2 of
               Some e \<Rightarrow> exits exitFailure [] [''gateway seed: '' @ e] st
             | None \<Rightarrow> seed_loop w demoCustomers st))"

definition json_flag :: "bool flag" where
  "json_flag = \<lparr>fl_name = ''json'', fl_bool = True, fl_set = ParseBool\<rparr>"

definition check_row :: "check \<Rightarrow> string list" where
  "check_row c =
     [if \<not> ck_ok c then ''FAIL'' else ''PASS'', ck_name c, itoa (int (ck_violations c)), strings_Join (ck_sample c) '' '']"

definition runCheck :: "'s cmd_world \<Rightarrow> string list \<Rightarrow> 's store_state \<Rightarrow> 's ran" where
  "runCheck w args st =
     (case flag_parse json_flag False args of
        Inl e \<Rightarrow> flags_failed w ''check'' e st
      | Inr (as_json, rest) \<Rightarrow>
          (case LoadCheck (cw_lib w) of
             Inl problems \<Rightarrow> exits exitUsage [] [''gateway check: '' @ config_Error problems] st
           | Inr cfg \<Rightarrow>
               (case pw_open (cw_process w) (dbc_url (ckc_database cfg)) 2 of
                  Some e \<Rightarrow> exits exitFailure [] [''gateway check: '' @ e] st
                | None \<Rightarrow>
                    (case cw_check_error w of
                       Some e \<Rightarrow> exits exitFailure [] [''gateway check: '' @ cw_error_text w e] st
                     | None \<Rightarrow>
                         let report = Run (cw_uuid_string w)
                               \<lparr>ck_lease_duration = ckc_lease_duration cfg, ck_sweep_interval = ckc_sweep_interval cfg\<rparr>
                               (cw_now w) (ss_db st);
                             code = (if \<not> rep_ok report then exitFailure else exitOK)
                         in if as_json
                            then (case cw_json w report of
                                Inl e \<Rightarrow> exits exitFailure [] [] st
                              | Inr text_lines \<Rightarrow> exits code text_lines [] st)
                            else exits code (tabulate ([''RESULT'', ''CHECK'', ''VIOLATIONS'', ''SAMPLE''] #
                                map check_row (rep_checks report))) [] st))))"

definition timeout_flag :: "config_lib \<Rightarrow> duration flag" where
  "timeout_flag lib = \<lparr>fl_name = ''timeout'', fl_bool = False, fl_set = cl_duration lib\<rparr>"

definition runProbe :: "'s cmd_world \<Rightarrow> string list \<Rightarrow> 's store_state \<Rightarrow> 's ran" where
  "runProbe w args st =
     (case flag_parse (timeout_flag (cw_lib w)) (2 * second) args of
        Inl e \<Rightarrow> flags_failed w ''probe'' e st
      | Inr (timeout, rest) \<Rightarrow>
          (case rest of
             [url] \<Rightarrow> (case Probe (cw_get w) url timeout of
                 Some e \<Rightarrow> exits exitFailure [] [''probe: '' @ e] st
               | None \<Rightarrow> exits exitOK [] [] st)
           | _ \<Rightarrow> exits exitUsage [] [''usage: gateway probe [--timeout=2s] <url>''] st))"

definition runVersion :: "'s cmd_world \<Rightarrow> string list \<Rightarrow> 's store_state \<Rightarrow> 's ran" where
  "runVersion w args st = exits exitOK [cw_version w] [] st"

definition command_help :: "(string \<times> string) list" where
  "command_help =
     [(''serve'', ''Run the gateway in a role (api, worker, or all)''),
      (''migrate'', ''Apply, revert, or list database migrations''),
      (''seed'', ''Create the demo customers, or rotate their keys, and print the keys''),
      (''check'', ''Run the invariant checks; exit 1 if any fails''),
      (''probe'', ''Request a health URL and exit 0 on HTTP 200''),
      (''version'', ''Print version information''),
      (''help'', ''Show this help'')]"

definition printUsage :: "string list" where
  "printUsage =
     [''Usage: gateway <command> [flags] [arguments]'', [], ''Commands:''] @
     map (\<lambda>(name, summary). ''  '' @ pad_to 9 name @ '' '' @ summary) command_help @
     [[], ''Configuration is read from environment variables; see docs/090-operations/020-configuration.md.'']"

definition runHelp :: "'s cmd_world \<Rightarrow> string list \<Rightarrow> 's store_state \<Rightarrow> 's ran" where
  "runHelp w args st = exits exitOK printUsage [] st"

definition commands :: "(string \<times> ('s cmd_world \<Rightarrow> string list \<Rightarrow> 's store_state \<Rightarrow> 's ran)) list" where
  "commands = [(''serve'', runServe), (''migrate'', runMigrate), (''seed'', runSeed), (''check'', runCheck),
     (''probe'', runProbe), (''version'', runVersion), (''help'', runHelp)]"

definition gateway_run :: "'s cmd_world \<Rightarrow> string list \<Rightarrow> 's store_state \<Rightarrow> 's ran" where
  "gateway_run w args st =
     (case args of
        [] \<Rightarrow> exits exitUsage [] printUsage st
      | a # rest \<Rightarrow>
          (let name = (if a = ''-h'' \<or> a = ''--help'' then ''help'' else a)
           in case map_of commands name of
               Some command \<Rightarrow> command w rest st
             | None \<Rightarrow> exits exitUsage [] ([''gateway: unknown command '' @ cl_quote (cw_lib w) name, []] @ printUsage) st))"

subsection \<open>The commands of the simulated operator\<close>

record provider_world =
  pv_lib :: config_lib
  pv_server :: serve_world
  pv_get :: "string \<Rightarrow> duration \<Rightarrow> string + int \<times> string"
  pv_version :: string
  pv_flag_text :: "string \<Rightarrow> flag_error \<Rightarrow> string list"

definition provider_serve :: "provider_world \<Rightarrow> int \<times> string list \<times> string list" where
  "provider_serve w =
     (case LoadFakeProvider (pv_lib w) of
        Inl problems \<Rightarrow> (exitUsage, [], [''provider: '' @ config_Error problems])
      | Inr cfg \<Rightarrow> (if Serve (fkc_addr cfg) (pv_server w) \<noteq> None then exitFailure else exitOK, [], []))"

definition provider_probe :: "provider_world \<Rightarrow> string list \<Rightarrow> int \<times> string list \<times> string list" where
  "provider_probe w args =
     (case flag_parse (timeout_flag (pv_lib w)) (2 * second) args of
        Inl e \<Rightarrow> (if e = ErrHelp then exitOK else exitUsage, [], pv_flag_text w ''probe'' e)
      | Inr (timeout, rest) \<Rightarrow>
          (case rest of
             [url] \<Rightarrow> (case Probe (pv_get w) url timeout of
                 Some e \<Rightarrow> (exitFailure, [], [''probe: '' @ e])
               | None \<Rightarrow> (exitOK, [], []))
           | _ \<Rightarrow> (exitUsage, [], [''usage: provider probe [--timeout=2s] <url>''])))"

definition provider_run :: "provider_world \<Rightarrow> string list \<Rightarrow> int \<times> string list \<times> string list" where
  "provider_run w args =
     (let cmd = (case args of [] \<Rightarrow> ''serve'' | a # _ \<Rightarrow> a); rest = tl args
      in if cmd = ''serve'' then provider_serve w
         else if cmd = ''probe'' then provider_probe w rest
         else if cmd = ''version'' then (exitOK, [pv_version w], [])
         else if cmd = ''help'' \<or> cmd = ''-h'' \<or> cmd = ''--help''
         then (exitOK, [''Usage: provider [serve] | provider probe [--timeout=2s] <url> | provider version''], [])
         else (exitUsage, [], [''provider: unknown command '' @ cl_quote (pv_lib w) cmd]))"

subsection \<open>Exit codes\<close>

text \<open>A run that ends as a command may: with one of the three codes, and untouched if it was used wrongly.\<close>

definition well_ended :: "'s store_state \<Rightarrow> 's ran \<Rightarrow> bool" where
  "well_ended st r \<longleftrightarrow>
     (rn_code r = exitOK \<or> rn_code r = exitFailure \<or> rn_code r = exitUsage \<and> rn_state r = st \<and> rn_stdout r = [])"

lemma well_ended_exits [simp]:
  "well_ended st (exits exitOK out err st')" "well_ended st (exits exitFailure out err st')" "well_ended st (exits exitUsage [] err st)"
  by (simp_all add: well_ended_def exits_def)

lemma well_ended_flags [simp]: "well_ended st (flags_failed w cmd e st)"
  by (simp add: flags_failed_def)

lemma seed_loop_code: "rn_code (seed_loop w dcs st) = exitOK \<or> rn_code (seed_loop w dcs st) = exitFailure"
  by (induction w dcs st rule: seed_loop.induct) (auto simp: exits_def Let_def split: prod.splits sum.splits)

lemma well_ended_seed_loop [simp]: "well_ended st (seed_loop w dcs st)"
  using seed_loop_code by (auto simp: well_ended_def)

lemma well_ended_migrate_action [simp]: "well_ended st (migrate_action w action migs st)"
  by (simp add: migrate_action_def Let_def split: prod.splits sum.splits option.splits)

lemma commands_well_ended:
  "well_ended st (runServe w args st)" "well_ended st (runMigrate w args st)" "well_ended st (runSeed w args st)"
  "well_ended st (runCheck w args st)" "well_ended st (runProbe w args st)" "well_ended st (runVersion w args st)"
  "well_ended st (runHelp w args st)"
  by (simp_all add: runServe_def runMigrate_def runSeed_def runCheck_def runProbe_def runVersion_def runHelp_def Let_def
      split: sum.splits prod.splits option.splits list.splits)

text \<open>Every run of the gateway command ends with exit code 0, 1 or 2, and one that was called wrongly or is
  misconfigured (code 2) has printed nothing on standard output and left the database as it was.\<close>

theorem command_exits:
  "rn_code (gateway_run w args st) \<in> {0, 1, 2} \<and>
   (rn_code (gateway_run w args st) = 2 \<longrightarrow> rn_stdout (gateway_run w args st) = [] \<and> rn_state (gateway_run w args st) = st)"
proof -
  have "well_ended st (gateway_run w args st)"
    by (simp add: gateway_run_def commands_def commands_well_ended Let_def split: list.splits option.splits)
  then show ?thesis by (auto simp: well_ended_def exitOK_def exitFailure_def exitUsage_def)
qed

subsection \<open>Seeding\<close>

lemma FindByName_filter:
  "filter (\<lambda>c. c_name c = name) (customers d) = filter (\<lambda>c. c_name c = name) (customers d') \<Longrightarrow> FindByName name d = FindByName name d'"
  by (simp add: FindByName_def)

lemma FindByName_InrD:
  assumes "FindByName name d = Inr c"
  shows "c \<in> set (customers d) \<and> c_name c = name"
proof -
  from assms obtain cs where cs: "sort_key c_id (filter (\<lambda>c. c_name c = name) (customers d)) = c # cs"
    by (auto simp: FindByName_def split: list.splits)
  have "c \<in> set (sort_key c_id (filter (\<lambda>c. c_name c = name) (customers d)))" unfolding cs by simp
  then show ?thesis by simp
qed

definition seed_balance :: "demo_customer \<Rightarrow> db \<Rightarrow> int" where
  "seed_balance dc d = (case FindByName (dc_name dc) d of Inl _ \<Rightarrow> dc_credits dc | Inr c \<Rightarrow> c_balance c)"

definition seeded :: "(string \<Rightarrow> string) \<Rightarrow> db \<Rightarrow> db \<Rightarrow> demo_customer \<Rightarrow> string \<Rightarrow> bool" where
  "seeded sha d d' dc key \<longleftrightarrow>
     (\<exists>c\<in>set (customers d'). c_name c = dc_name dc \<and> c_api_key_hash c = sha key \<and> c_balance c = seed_balance dc d)"

definition others :: "string set \<Rightarrow> db \<Rightarrow> customer list" where
  "others names d = filter (\<lambda>c. c_name c \<notin> names) (customers d)"

lemma create_body_effect:
  assumes inv: "db_inv now d" and cr: "create_body sha e key n d = Inr (d', c)" and pos: "0 < n_initial_credits n"
  shows "\<exists>c'. customers d' = customers d @ [c'] \<and> c_name c' = n_name n \<and> c_api_key_hash c' = sha key \<and> c_balance c' = n_initial_credits n"
    and "messages d' = messages d" "queue d' = queue d"
proof -
  let ?row = "customer_row sha e key n"
  from cr pos obtain d1 r where ins: "insert_customer ?row d = Inr d1"
    and ch: "Charge e 2 (c_id ?row) (n_initial_credits n) (AdminChargeRef e 1) d1 = Inr (d', r)"
    by (auto simp: create_body_def Let_def split: sum.splits if_splits)
  from ins have d1: "d1 = d\<lparr>customers := customers d @ [?row]\<rparr>" and new: "c_id ?row \<notin> c_id ` set (customers d)"
    by (auto simp: insert_customer_def has_key_iff split: if_splits)
  have "t_customer_id t \<noteq> c_id ?row" if "t \<in> set (transactions d)" for t
    using db_inv_foreignD(2) [OF inv that] new by metis
  then have "\<not> charge_ref_taken (c_id ?row) ref (transactions d1)" for ref
    by (auto simp: charge_ref_taken_def list_ex_iff d1)
  with ch obtain d2 b where tx: "insert_transaction (charge_transaction e 2 (c_id ?row) (n_initial_credits n) (AdminChargeRef e 1)) d1 = Inr d2"
    and bal: "add_balance (env_now e) (c_id ?row) (n_initial_credits n) d2 = Inr (d', Some b)"
    by (elim Charge_cases) auto
  have old: "map (\<lambda>c. if c_id c = c_id ?row then c\<lparr>c_balance := c_balance c + x, c_updated_at := t\<rparr> else c) (customers d) = customers d" for x t
    using new by (intro map_idI) (metis image_eqI)
  show "\<exists>c'. customers d' = customers d @ [c'] \<and> c_name c' = n_name n \<and> c_api_key_hash c' = sha key \<and> c_balance c' = n_initial_credits n"
    by (simp add: add_balance_customers [OF bal] insert_transaction_frame [OF tx] d1 old) (simp add: customer_row_def)
  show "messages d' = messages d" "queue d' = queue d"
    by (simp_all add: add_balance_frame [OF bal] insert_transaction_frame [OF tx] d1)
qed

lemma Create_effect:
  assumes inv: "db_inv now d" and cr: "Create fault sha e random n d = (d', Inr (c, key))" and pos: "0 < n_initial_credits n"
  shows "\<exists>c'. customers d' = customers d @ [c'] \<and> c_name c' = n_name n \<and> c_api_key_hash c' = sha key \<and> c_balance c' = n_initial_credits n"
    and "messages d' = messages d" "queue d' = queue d"
proof -
  from cr have "key = GenerateKey random" "create_body sha e key n d = Inr (d', c)"
    by (auto simp: Create_def WithTx_def Let_def split: prod.splits sum.splits if_splits)
  from create_body_effect [OF inv this(2) pos]
  show "\<exists>c'. customers d' = customers d @ [c'] \<and> c_name c' = n_name n \<and> c_api_key_hash c' = sha key \<and> c_balance c' = n_initial_credits n"
    "messages d' = messages d" "queue d' = queue d" by blast+
qed

lemma RotateKey_effect:
  assumes inv: "db_inv now d" and c: "c \<in> set (customers d)" and ro: "RotateKey sha t random (c_id c) d = (d', Inr (c', key))"
  shows "\<exists>c'\<in>set (customers d'). c_name c' = c_name c \<and> c_api_key_hash c' = sha key \<and> c_balance c' = c_balance c"
    and "messages d' = messages d" "queue d' = queue d" "transactions d' = transactions d"
    and "filter (\<lambda>x. c_name x \<noteq> c_name c) (customers d') = filter (\<lambda>x. c_name x \<noteq> c_name c) (customers d)"
proof -
  let ?f = "\<lambda>x. x\<lparr>c_api_key_hash := sha key, c_api_key_prefix := DisplayPrefix key, c_updated_at := t\<rparr>"
  from ro have d': "d' = d\<lparr>customers := update_where (\<lambda>x. c_id x = c_id c) ?f (customers d)\<rparr>"
    by (auto simp: RotateKey_def update_customer_def Let_def split: prod.splits sum.splits option.splits if_splits)
  show "\<exists>c'\<in>set (customers d'). c_name c' = c_name c \<and> c_api_key_hash c' = sha key \<and> c_balance c' = c_balance c"
    using c by (intro bexI [of _ "?f c"]) (auto simp: d' set_update_where image_iff)
  show "messages d' = messages d" "queue d' = queue d" "transactions d' = transactions d" by (simp_all add: d')
  have same: "x = c" if "x \<in> set (customers d)" "c_id x = c_id c" for x
    using distinct_key_unique [OF db_inv_keysD(1) [OF inv] that(1) c that(2)] .
  have "filter (\<lambda>x. c_name x \<noteq> c_name c) (map (\<lambda>x. if c_id x = c_id c then ?f x else x) xs) = filter (\<lambda>x. c_name x \<noteq> c_name c) xs"
    if "set xs \<subseteq> set (customers d)" for xs
    using that by (induction xs) (auto dest: same)
  then show "filter (\<lambda>x. c_name x \<noteq> c_name c) (customers d') = filter (\<lambda>x. c_name x \<noteq> c_name c) (customers d)"
    by (simp add: d' update_where_def)
qed

lemma seed_customer_effect:
  assumes inv: "db_inv now d" and sd: "seed_customer sha w dc d = (d', Inr (p, key))" and pos: "0 < dc_credits dc"
  shows "db_inv now d' \<and> seeded sha d d' dc key \<and> messages d' = messages d \<and> queue d' = queue d \<and>
    others {dc_name dc} d' = others {dc_name dc} d"
proof (cases "FindByName (dc_name dc) d")
  case (Inl err)
  let ?n = "\<lparr>n_name = dc_name dc, n_initial_credits = dc_credits dc, n_rate_limit_rps = dc_rps dc\<rparr>"
  from sd Inl obtain c where cr: "Create (sw_fault w) sha (sw_env w) (sw_random w) ?n d = (d', Inr (c, key))"
    by (auto simp: seed_customer_def split: option.splits prod.splits sum.splits if_splits)
  have "db_inv now d'" using Create_inv [OF inv, of "sw_fault w" sha "sw_env w" "sw_random w" ?n] cr by simp
  with Create_effect [OF inv cr] pos Inl show ?thesis by (auto simp: seeded_def seed_balance_def others_def)
next
  case (Inr c)
  from sd Inr obtain c' where ro: "RotateKey sha (env_now (sw_env w)) (sw_random w) (c_id c) d = (d', Inr (c', key))"
    by (auto simp: seed_customer_def split: option.splits prod.splits sum.splits if_splits)
  have "db_inv now d'" using RotateKey_inv [OF inv, of sha "env_now (sw_env w)" "sw_random w" "c_id c"] ro by simp
  with RotateKey_effect [OF inv _ ro] FindByName_InrD [OF Inr] Inr show ?thesis
    by (auto simp: seeded_def seed_balance_def others_def)
qed

lemma others_mono: "others N d' = others N d \<Longrightarrow> N \<subseteq> M \<Longrightarrow> others M d' = others M d"
proof -
  assume eq: "others N d' = others N d" and sub: "N \<subseteq> M"
  have "others M d = filter (\<lambda>c. c_name c \<notin> M) (others N d)" for d
    using sub by (auto simp: others_def intro!: filter_cong)
  with eq show ?thesis by simp
qed

lemma others_FindByName: "others N d' = others N d \<Longrightarrow> name \<notin> N \<Longrightarrow> FindByName name d' = FindByName name d"
proof (rule FindByName_filter)
  assume eq: "others N d' = others N d" and name: "name \<notin> N"
  have "filter (\<lambda>c. c_name c = name) (customers d) = filter (\<lambda>c. c_name c = name) (others N d)" for d
    using name by (auto simp: others_def intro!: filter_cong)
  with eq show "filter (\<lambda>c. c_name c = name) (customers d') = filter (\<lambda>c. c_name c = name) (customers d)" by simp
qed

lemma seeded_later:
  assumes "seeded sha d d1 dc key" "others N d2 = others N d1" "dc_name dc \<notin> N"
  shows "seeded sha d d2 dc key"
proof -
  from assms(1) obtain c where c: "c \<in> set (customers d1)" "c_name c = dc_name dc" "c_api_key_hash c = sha key"
    "c_balance c = seed_balance dc d" by (auto simp: seeded_def)
  then have "c \<in> set (others N d1)" using assms(3) by (simp add: others_def)
  then have "c \<in> set (customers d2)" unfolding assms(2) [symmetric] by (simp add: others_def)
  with c show ?thesis by (auto simp: seeded_def)
qed

lemma seed_loop_exact:
  assumes "db_inv now (ss_db st)" "distinct (map dc_name dcs)" "list_all (\<lambda>dc. 0 < dc_credits dc) dcs"
    and "rn_code (seed_loop w dcs st) = exitOK"
  shows "\<exists>keys. rn_stdout (seed_loop w dcs st) = map2 (\<lambda>dc key. dc_key_var dc @ ''='' @ key) dcs keys \<and>
    list_all2 (seeded (cw_sha w) (ss_db st) (ss_db (rn_state (seed_loop w dcs st)))) dcs keys \<and>
    messages (ss_db (rn_state (seed_loop w dcs st))) = messages (ss_db st) \<and>
    queue (ss_db (rn_state (seed_loop w dcs st))) = queue (ss_db st) \<and>
    others (dc_name ` set dcs) (ss_db (rn_state (seed_loop w dcs st))) = others (dc_name ` set dcs) (ss_db st)"
  using assms
proof (induction w dcs st rule: seed_loop.induct)
  case (2 w dc dcs st)
  from "2.prems"(4) obtain d p key where sd: "seed_customer (cw_sha w) (cw_seed w (dc_name dc)) dc (ss_db st) = (d, Inr (p, key))"
    by (auto simp: exits_def exitOK_def exitFailure_def split: prod.splits sum.splits)
  let ?st = "st\<lparr>ss_db := d\<rparr>" and ?d' = "ss_db (rn_state (seed_loop w dcs (st\<lparr>ss_db := d\<rparr>)))"
  have eff: "db_inv now d" "seeded (cw_sha w) (ss_db st) d dc key" "messages d = messages (ss_db st)" "queue d = queue (ss_db st)"
    "others {dc_name dc} d = others {dc_name dc} (ss_db st)"
    using seed_customer_effect [OF "2.prems"(1) sd] "2.prems"(3) by auto
  have "rn_code (seed_loop w dcs ?st) = exitOK" using "2.prems"(4) by (simp add: sd Let_def)
  with "2.IH" [OF sd [symmetric] refl refl] eff(1) "2.prems"(2,3) obtain keys where
    keys: "rn_stdout (seed_loop w dcs ?st) = map2 (\<lambda>dc key. dc_key_var dc @ ''='' @ key) dcs keys"
      "list_all2 (seeded (cw_sha w) d ?d') dcs keys" "messages ?d' = messages d" "queue ?d' = queue d"
      "others (dc_name ` set dcs) ?d' = others (dc_name ` set dcs) d" by auto
  have head: "seeded (cw_sha w) (ss_db st) ?d' dc key"
    by (rule seeded_later [OF eff(2) keys(5)]) (use "2.prems"(2) in auto)
  have "seed_balance x d = seed_balance x (ss_db st)" if "x \<in> set dcs" for x
  proof -
    have "dc_name x \<noteq> dc_name dc" using that "2.prems"(2) by (metis distinct.simps(2) image_eqI list.simps(9) set_map)
    with others_FindByName [OF eff(5), of "dc_name x"] show ?thesis by (simp add: seed_balance_def)
  qed
  then have "list_all2 (seeded (cw_sha w) (ss_db st) ?d') dcs keys"
    using keys(2) by (auto simp: list_all2_conv_all_nth seeded_def)
  moreover have "others (dc_name ` set (dc # dcs)) ?d' = others (dc_name ` set (dc # dcs)) (ss_db st)"
    using others_mono [OF keys(5), of "dc_name ` set (dc # dcs)"] others_mono [OF eff(5), of "dc_name ` set (dc # dcs)"] by auto
  ultimately show ?case using keys(1,3,4) eff(3,4) head by (intro exI [of _ "key # keys"]) (simp add: sd Let_def)
qed (simp add: exits_def)

text \<open>Seeding is safe to repeat: when it succeeds it has printed one line per demo customer with a key that is now
  that customer's, a customer that existed keeps its balance and a new one starts with its demo credits, and no
  message, no queued work and no other customer is touched.\<close>

theorem seed_exact:
  assumes "db_inv now (ss_db st)" "r = gateway_run w [''seed''] st" "rn_code r = exitOK" "d' = ss_db (rn_state r)"
  shows "\<exists>keys. rn_stdout r = map2 (\<lambda>dc key. dc_key_var dc @ ''='' @ key) demoCustomers keys \<and>
    list_all2 (seeded (cw_sha w) (ss_db st) d') demoCustomers keys \<and>
    messages d' = messages (ss_db st) \<and> queue d' = queue (ss_db st) \<and>
    others {''acme'', ''bulkco'', ''quickpay''} d' = others {''acme'', ''bulkco'', ''quickpay''} (ss_db st)"
proof -
  have "r = runSeed w [] st" using assms(2) by (simp add: gateway_run_def commands_def)
  with assms(3) have r: "r = seed_loop w demoCustomers st"
    by (auto simp: runSeed_def exits_def exitOK_def exitUsage_def exitFailure_def split: sum.splits option.splits)
  have "dc_name ` set demoCustomers = {''acme'', ''bulkco'', ''quickpay''}" by (auto simp: demoCustomers_def)
  with seed_loop_exact [OF assms(1), of demoCustomers w] assms(3,4) show ?thesis
    by (simp add: r) (simp add: demoCustomers_def)
qed

lemma seed_customer_step:
  assumes "sys_now s = env_now (sw_env w)"
  shows "fst (seed_customer sha w dc (sys_db s)) = sys_db s \<or>
    work_step s (s\<lparr>sys_db := fst (seed_customer sha w dc (sys_db s))\<rparr>)"
proof (cases "FindByName (dc_name dc) (sys_db s)")
  case (Inl err)
  let ?n = "\<lparr>n_name = dc_name dc, n_initial_credits = dc_credits dc, n_rate_limit_rps = dc_rps dc\<rparr>"
  have "fst (seed_customer sha w dc (sys_db s)) = sys_db s \<or>
      fst (seed_customer sha w dc (sys_db s)) = fst (Create (sw_fault w) sha (sw_env w) (sw_random w) ?n (sys_db s))"
    using Inl by (auto simp: seed_customer_def split: option.splits prod.splits sum.splits)
  with customer_created [OF assms [symmetric], of "sw_fault w" sha "sw_random w" ?n] show ?thesis by auto
next
  case (Inr c)
  have "fst (seed_customer sha w dc (sys_db s)) = sys_db s \<or>
      fst (seed_customer sha w dc (sys_db s)) = fst (RotateKey sha (sys_now s) (sw_random w) (c_id c) (sys_db s))"
    using Inr assms by (auto simp: seed_customer_def split: option.splits prod.splits sum.splits)
  with key_rotated [of s sha "sw_random w" "c_id c"] show ?thesis by auto
qed

lemma seed_loop_reachable:
  assumes "reachable system_init system_step (s\<lparr>sys_db := ss_db st\<rparr>)" "list_all (\<lambda>dc. env_now (sw_env (cw_seed w (dc_name dc))) = sys_now s) dcs"
  shows "reachable system_init system_step (s\<lparr>sys_db := ss_db (rn_state (seed_loop w dcs st))\<rparr>)"
  using assms
proof (induction w dcs st rule: seed_loop.induct)
  case (2 w dc dcs st)
  obtain d r where sd: "seed_customer (cw_sha w) (cw_seed w (dc_name dc)) dc (ss_db st) = (d, r)" by fastforce
  from "2.prems"(2) have "sys_now (s\<lparr>sys_db := ss_db st\<rparr>) = env_now (sw_env (cw_seed w (dc_name dc)))" by simp
  from seed_customer_step [OF this, of "cw_sha w" dc] sd have "d = ss_db st \<or> work_step (s\<lparr>sys_db := ss_db st\<rparr>) (s\<lparr>sys_db := d\<rparr>)"
    by simp
  with "2.prems"(1) have d: "reachable system_init system_step (s\<lparr>sys_db := d\<rparr>)"
    by (auto intro: reachable_step system_step.work)
  show ?case
  proof (cases r)
    case (Inl err)
    then show ?thesis using d by (simp add: sd exits_def)
  next
    case (Inr pk)
    obtain p key where pk: "pk = (p, key)" by fastforce
    from "2.IH" [OF sd [symmetric] Inr pk [symmetric]] d "2.prems"(2) show ?thesis by (simp add: sd Inr pk Let_def)
  qed
qed (simp add: exits_def)

lemma fold_ok: "fold (\<lambda>c ok. ok \<and> P c) cs b \<longleftrightarrow> b \<and> list_all P cs"
  by (induction cs arbitrary: b) auto

lemma rep_ok_iff: "rep_ok (Run us ck now d) \<longleftrightarrow> list_all (\<lambda>(n, q). q d = []) (definitions ck now)"
  by (auto simp: Run_def Let_def fold_ok list_all_iff run_check_ok)

text \<open>A check is the report: exit code 0 exactly for a clean one.\<close>

lemma runCheck_code:
  assumes "LoadCheck (cw_lib w) = Inr cfg" "pw_open (cw_process w) (dbc_url (ckc_database cfg)) 2 = None" "cw_check_error w = None"
  shows "rn_code (runCheck w [] st) = exitOK \<longleftrightarrow> rep_ok (Run (cw_uuid_string w)
    \<lparr>ck_lease_duration = ckc_lease_duration cfg, ck_sweep_interval = ckc_sweep_interval cfg\<rparr> (cw_now w) (ss_db st))"
  using assms by (simp add: runCheck_def Let_def exits_def exitOK_def exitFailure_def)

text \<open>Seeding is part of the gateway the invariants are proved for, and the check command vouches for them: in
  whatever reachable state the demo customers are seeded, successfully or not, the state is reachable still, and
  \<^verbatim>\<open>gateway check\<close> then fails only if a finished message was left in the queue or a lease abandoned.\<close>

theorem seed_then_check:
  assumes "reachable system_init system_step (s\<lparr>sys_db := ss_db st\<rparr>)"
    and "\<And>name. env_now (sw_env (cw_seed w name)) = sys_now s"
    and "LoadCheck (cw_lib w) = Inr cfg" "pw_open (cw_process w) (dbc_url (ckc_database cfg)) 2 = None" "cw_check_error w = None"
    and "st' = rn_state (gateway_run w [''seed''] st)" "ck = \<lparr>ck_lease_duration = ckc_lease_duration cfg, ck_sweep_interval = ckc_sweep_interval cfg\<rparr>"
  shows "reachable system_init system_step (s\<lparr>sys_db := ss_db st'\<rparr>) \<and>
    (rn_code (gateway_run w [''check''] st') = exitOK \<longleftrightarrow>
      finished_messages_leave_the_queue ck (cw_now w) (ss_db st') = [] \<and> no_abandoned_leases (cw_now w) (ss_db st') = [])"
proof -
  have seed: "gateway_run w [''seed''] st = runSeed w [] st" and check: "gateway_run w [''check''] st' = runCheck w [] st'"
    by (simp_all add: gateway_run_def commands_def)
  have "rn_state (runSeed w [] st) = st \<or> runSeed w [] st = seed_loop w demoCustomers st"
    by (auto simp: runSeed_def exits_def split: sum.splits option.splits)
  with assms(1,6) seed_loop_reachable [where s = s and st = st and w = w and dcs = demoCustomers] assms(2) seed
  have r: "reachable system_init system_step (s\<lparr>sys_db := ss_db st'\<rparr>)" by (auto simp: list_all_iff)
  then have inv: "db_inv (sys_now s) (ss_db st')" using gateway.reachable_invariant [OF r] by (simp add: system_inv_def)
  with checks_pass [OF inv] r show ?thesis
    by (auto simp: check runCheck_code [OF assms(3-5)] assms(7) rep_ok_iff definitions_def)
qed

subsection \<open>Instances\<close>

text \<open>A world in which everything answers; the hash of a key is the key.\<close>

definition demo_server :: serve_world where
  "demo_server = \<lparr>sv_listen = None, sv_early = None, sv_shutdown = None, sv_late = Some ErrServerClosed\<rparr>"

definition demo_process :: process_world where
  "demo_process = \<lparr>pw_open = (\<lambda>url n. None), pw_admin_error = None, pw_public = demo_server, pw_admin = demo_server,
     pw_worker = demo_server, pw_order = (\<lambda>cs. cs)\<rparr>"

definition demo_seed :: "string \<Rightarrow> seed_world" where
  "demo_seed name = \<lparr>sw_find_error = None, sw_rotate_error = None, sw_fault = NoFault,
     sw_env = \<lparr>env_now = 0, env_new_id = (\<lambda>k. word_of_nat (10 * length name + k)), env_uuid_string = (\<lambda>u. ''id'')\<rparr>,
     sw_random = [word_of_nat (length name)]\<rparr>"

definition demo_cmd_world :: "string list cmd_world" where
  "demo_cmd_world = \<lparr>cw_lib = demo_lib, cw_process = demo_process, cw_serving = (\<lambda>cfg role st. st), cw_files = Some demo_files,
     cw_exec = demo_exec, cw_migrate = demo_migrate_world, cw_sha = (\<lambda>k. k), cw_seed = demo_seed, cw_check_error = None, cw_now = 0,
     cw_uuid_string = (\<lambda>u. ''id''), cw_json = (\<lambda>r. Inl ''no''), cw_get = (\<lambda>url t. Inl ''no''), cw_version = ''dev'',
     cw_flag_text = (\<lambda>cmd e. []), cw_error_text = (\<lambda>e. ''error''), cw_migrate_text = (\<lambda>e. ''error''), cw_time_text = (\<lambda>t. ''time'')\<rparr>"

definition demo_store :: "string list store_state" where
  "demo_store = \<lparr>ss_db = empty_db, ss_migrations = demo_migrate_db\<rparr>"

lemma demo_keys:
  "GenerateKey [4] = ''sk_0000000000000000000000000000000000000000004''"
  "GenerateKey [6] = ''sk_0000000000000000000000000000000000000000006''"
  "GenerateKey [8] = ''sk_0000000000000000000000000000000000000000008''"
  by code_simp+

lemma demo_database: "LoadDatabase demo_lib = Inr \<lparr>dbc_url = ''db'', dbc_max_conns = 20\<rparr>"
  by code_simp

theorem command_exits_witness:
  "rn_state (gateway_run demo_cmd_world [''migrate'', ''up'', ''down''] demo_store) = demo_store"
  using command_exits [of demo_cmd_world "[''migrate'', ''up'', ''down'']" demo_store]
  by (simp add: gateway_run_def commands_def runMigrate_def exits_def exitUsage_def)

lemma demo_seeds: "rn_code (gateway_run demo_cmd_world [''seed''] demo_store) = exitOK"
  by (simp add: gateway_run_def commands_def runSeed_def demo_cmd_world_def demo_database demo_process_def demoCustomers_def
      seed_customer_def demo_seed_def demo_store_def FindByName_def exits_def demo_keys
      Create_def create_body_def insert_customer_def customer_row_def customer_check_def
      empty_db_def runes_ascii in_int64_def max_int64_def has_key_def WithTx_def Charge_def charge_transaction_def
      transaction_check_def charge_ref_taken_def insert_transaction_def message_kind_taken_def add_balance_def row_of_def
      update_where_def AdminChargeRef_def Let_def)

theorem seed_exact_witness:
  "queue (ss_db (rn_state (gateway_run demo_cmd_world [''seed''] demo_store))) = []"
proof -
  have "db_inv 0 (ss_db demo_store)" by (simp add: demo_store_def db_inv_empty)
  from seed_exact [OF this refl demo_seeds refl] show ?thesis by (auto simp: demo_store_def empty_db_def)
qed

lemma demo_check: "LoadCheck demo_lib = Inr \<lparr>ckc_database = \<lparr>dbc_url = ''db'', dbc_max_conns = 20\<rparr>,
    ckc_lease_duration = 30 * second, ckc_sweep_interval = 10 * second\<rparr>"
  by code_simp

theorem seed_then_check_witness:
  "reachable system_init system_step \<lparr>sys_now = 0, sys_db = ss_db (rn_state (gateway_run demo_cmd_world [''seed''] demo_store))\<rparr>"
proof -
  have "reachable system_init system_step (\<lparr>sys_now = 0, sys_db = empty_db\<rparr>\<lparr>sys_db := ss_db demo_store\<rparr>)"
    by (rule reachable_init) (simp add: system_init_def demo_store_def)
  from seed_then_check [OF this _ _ _ _ refl refl, of demo_cmd_world] show ?thesis
    by (simp add: demo_cmd_world_def demo_seed_def demo_check demo_process_def)
qed

end
