(* ===== verification/Shutdown.thy ===== *)
theory Shutdown
  imports Completer Transitions "HOL-Library.Multiset"
begin

text \<open>
  How a worker runs and stops: \<^verbatim>\<open>Worker.Run\<close> of \<^verbatim>\<open>internal/dispatch/worker.go\<close> with its two pools, the listener, the sends
  in flight, the completer and the context of \<^verbatim>\<open>internal/lifecycle/drain.go\<close>, as a step relation over all
  interleavings of these goroutines. Time is not measured: the drain timer may fire at any moment after
  the cancellation. What a flush does to the database is the subject of \<open>Completer\<close>.
\<close>

subsection \<open>Goroutines\<close>

text \<open>A pool has seen the context alive and is in an iteration, is about to look at it, or has returned. A send runs
  \<^verbatim>\<open>dispatch\<close> or waits to submit its outcome. The main goroutine waits for the cancellation, for pools and
  listener, for the sends, for the sends it cut off, for the completer, or has returned.\<close>

datatype pool_phase = Looking | Iterating | PoolDone

datatype send_phase = Dispatching job | Submitting outcome

datatype main_phase = Waiting | Joining | Draining | CuttingOff | Closing | Returned

record worker_run =
  wr_cancelled :: bool
  wr_send_done :: bool
  wr_pools :: "pool_phase list"
  wr_listening :: bool
  wr_sends :: "send_phase list"
  wr_in :: "outcome list"
  wr_batch :: "outcome list"
  wr_events :: "run_event list"
  wr_completing :: bool
  wr_quit :: bool
  wr_main :: main_phase
  wr_started :: "job list"
  wr_submitted :: "outcome list"
  wr_lost :: "job list"

definition worker_started :: "worker_run \<Rightarrow> bool" where
  "worker_started s \<longleftrightarrow> s = \<lparr>wr_cancelled = False, wr_send_done = False, wr_pools = [Looking, Looking], wr_listening = True, wr_sends = [],
     wr_in = [], wr_batch = [], wr_events = [], wr_completing = True, wr_quit = False, wr_main = Waiting,
     wr_started = [], wr_submitted = [], wr_lost = []\<rparr>"

fun send_job :: "send_phase \<Rightarrow> job" where
  "send_job (Dispatching j) = j"
| "send_job (Submitting out) = o_job out"

definition drop_nth :: "nat \<Rightarrow> 'a list \<Rightarrow> 'a list" where
  "drop_nth i xs = take i xs @ drop (Suc i) xs"

text \<open>What the completer's loop keeps after it received an outcome: nothing if the batch was full and flushed.\<close>

definition batch_after :: "nat \<Rightarrow> outcome list \<Rightarrow> outcome \<Rightarrow> outcome list" where
  "batch_after sz batch out = (let b = batch @ [out] in if sz \<le> length b then [] else b)"

subsection \<open>Steps\<close>

inductive pools_step :: "worker_run \<Rightarrow> worker_run \<Rightarrow> bool" where
  pool_iterates: "i < length (wr_pools s) \<Longrightarrow> wr_pools s ! i = Looking \<Longrightarrow> \<not> wr_cancelled s \<Longrightarrow>
    pools_step s (s\<lparr>wr_pools := (wr_pools s)[i := Iterating]\<rparr>)"
| pool_claims: "i < length (wr_pools s) \<Longrightarrow> wr_pools s ! i = Iterating \<Longrightarrow>
    pools_step s (s\<lparr>wr_pools := (wr_pools s)[i := Looking], wr_sends := wr_sends s @ map Dispatching jobs,
      wr_started := wr_started s @ jobs\<rparr>)"
| pool_returns: "i < length (wr_pools s) \<Longrightarrow> wr_pools s ! i = Looking \<Longrightarrow> wr_cancelled s \<Longrightarrow>
    pools_step s (s\<lparr>wr_pools := (wr_pools s)[i := PoolDone]\<rparr>)"
| pool_breaks: "i < length (wr_pools s) \<Longrightarrow> wr_pools s ! i = Iterating \<Longrightarrow> wr_cancelled s \<Longrightarrow>
    pools_step s (s\<lparr>wr_pools := (wr_pools s)[i := PoolDone]\<rparr>)"
| listener_returns: "wr_listening s \<Longrightarrow> wr_cancelled s \<Longrightarrow> pools_step s (s\<lparr>wr_listening := False\<rparr>)"

text \<open>\<^verbatim>\<open>dispatch\<close> returns an outcome, or nothing once its context is done; \<^verbatim>\<open>submit\<close> gives up only then too.\<close>

inductive sends_step :: "nat \<Rightarrow> worker_run \<Rightarrow> worker_run \<Rightarrow> bool" for sz where
  dispatched: "i < length (wr_sends s) \<Longrightarrow> wr_sends s ! i = Dispatching (o_job out) \<Longrightarrow>
    sends_step sz s (s\<lparr>wr_sends := (wr_sends s)[i := Submitting out]\<rparr>)"
| cut_off: "i < length (wr_sends s) \<Longrightarrow> wr_sends s ! i = Dispatching j \<Longrightarrow> wr_send_done s \<Longrightarrow>
    sends_step sz s (s\<lparr>wr_sends := drop_nth i (wr_sends s), wr_lost := wr_lost s @ [j]\<rparr>)"
| submitted: "i < length (wr_sends s) \<Longrightarrow> wr_sends s ! i = Submitting out \<Longrightarrow> length (wr_in s) < 2 * sz \<Longrightarrow>
    sends_step sz s (s\<lparr>wr_sends := drop_nth i (wr_sends s), wr_in := wr_in s @ [out], wr_submitted := wr_submitted s @ [out]\<rparr>)"
| given_up: "i < length (wr_sends s) \<Longrightarrow> wr_sends s ! i = Submitting out \<Longrightarrow> wr_send_done s \<Longrightarrow>
    sends_step sz s (s\<lparr>wr_sends := drop_nth i (wr_sends s), wr_lost := wr_lost s @ [o_job out]\<rparr>)"

text \<open>The select loop of the completer. Nobody submits once \<^verbatim>\<open>quit\<close> is closed, so the drain is one step.\<close>

inductive completer_step :: "nat \<Rightarrow> worker_run \<Rightarrow> worker_run \<Rightarrow> bool" for sz where
  receives: "wr_completing s \<Longrightarrow> wr_in s = out # rest \<Longrightarrow>
    completer_step sz s (s\<lparr>wr_in := rest, wr_batch := batch_after sz (wr_batch s) out, wr_events := wr_events s @ [Recv out]\<rparr>)"
| timer_fires: "wr_completing s \<Longrightarrow> wr_batch s \<noteq> [] \<Longrightarrow>
    completer_step sz s (s\<lparr>wr_batch := [], wr_events := wr_events s @ [Timer]\<rparr>)"
| quits: "wr_completing s \<Longrightarrow> wr_quit s \<Longrightarrow>
    completer_step sz s (s\<lparr>wr_in := [], wr_batch := [], wr_completing := False, wr_events := wr_events s @ [Quit (wr_in s)]\<rparr>)"
| aborts: "wr_completing s \<Longrightarrow> wr_send_done s \<Longrightarrow>
    completer_step sz s (s\<lparr>wr_completing := False, wr_events := wr_events s @ [Cancelled]\<rparr>)"

text \<open>The main goroutine.\<close>

inductive main_step :: "worker_run \<Rightarrow> worker_run \<Rightarrow> bool" where
  sees_cancel: "wr_main s = Waiting \<Longrightarrow> wr_cancelled s \<Longrightarrow> main_step s (s\<lparr>wr_main := Joining\<rparr>)"
| joined: "wr_main s = Joining \<Longrightarrow> list_all (\<lambda>p. p = PoolDone) (wr_pools s) \<Longrightarrow> \<not> wr_listening s \<Longrightarrow>
    main_step s (s\<lparr>wr_main := Draining\<rparr>)"
| drained: "wr_main s = Draining \<or> wr_main s = CuttingOff \<Longrightarrow> wr_sends s = [] \<Longrightarrow>
    main_step s (s\<lparr>wr_main := Closing, wr_quit := True\<rparr>)"
| out_of_time: "wr_main s = Draining \<Longrightarrow> wr_send_done s \<Longrightarrow> main_step s (s\<lparr>wr_main := CuttingOff\<rparr>)"
| completed: "wr_main s = Closing \<Longrightarrow> \<not> wr_completing s \<Longrightarrow> main_step s (s\<lparr>wr_main := Returned\<rparr>)"

text \<open>The context of \<^verbatim>\<open>DrainContext\<close> ends when the timer started at the parent's cancellation fires.\<close>

inductive drain_step :: "worker_run \<Rightarrow> worker_run \<Rightarrow> bool" where
  drain_expires: "wr_cancelled s \<Longrightarrow> \<not> wr_send_done s \<Longrightarrow> drain_step s (s\<lparr>wr_send_done := True\<rparr>)"

inductive run_step :: "nat \<Rightarrow> worker_run \<Rightarrow> worker_run \<Rightarrow> bool" for sz where
  pools: "pools_step s t \<Longrightarrow> run_step sz s t"
| sends: "sends_step sz s t \<Longrightarrow> run_step sz s t"
| completes: "completer_step sz s t \<Longrightarrow> run_step sz s t"
| main: "main_step s t \<Longrightarrow> run_step sz s t"
| drains: "drain_step s t \<Longrightarrow> run_step sz s t"
| cancel: "\<not> wr_cancelled s \<Longrightarrow> run_step sz s (s\<lparr>wr_cancelled := True\<rparr>)"

inductive_cases pools_stepE: "pools_step s t"
inductive_cases sends_stepE: "sends_step sz s t"
inductive_cases completer_stepE: "completer_step sz s t"
inductive_cases main_stepE: "main_step s t"
inductive_cases drain_stepE: "drain_step s t"
inductive_cases run_stepE: "run_step sz s t"

subsection \<open>The accounts of a worker\<close>

fun going_on :: "run_event \<Rightarrow> bool" where
  "going_on (Recv out) = True"
| "going_on Timer = True"
| "going_on (Quit outs) = False"
| "going_on Cancelled = False"

lemma received_snoc: "list_all going_on es \<Longrightarrow> received (es @ [e]) = received es @ received [e]"
  by (induction es rule: received.induct) auto

lemma stopped_snoc: "list_all going_on es \<Longrightarrow> stopped (es @ [e]) = stopped [e]"
  by (induction es rule: received.induct) auto

definition ended_pools :: "worker_run \<Rightarrow> bool" where
  "ended_pools s \<longleftrightarrow> list_all (\<lambda>p. p = PoolDone) (wr_pools s) \<and> \<not> wr_listening s"

definition main_inv :: "worker_run \<Rightarrow> bool" where
  "main_inv s \<longleftrightarrow>
     (wr_main s \<notin> {Waiting, Joining} \<longrightarrow> ended_pools s) \<and>
     (wr_quit s \<longleftrightarrow> wr_main s \<in> {Closing, Returned}) \<and> (wr_quit s \<longrightarrow> wr_sends s = []) \<and>
     (wr_main s = Returned \<longrightarrow> \<not> wr_completing s) \<and> (wr_main s = CuttingOff \<longrightarrow> wr_send_done s) \<and>
     (wr_main s \<noteq> Waiting \<or> wr_send_done s \<longrightarrow> wr_cancelled s)"

definition outcome_inv :: "worker_run \<Rightarrow> bool" where
  "outcome_inv s \<longleftrightarrow>
     (wr_completing s \<longrightarrow> list_all going_on (wr_events s) \<and> received (wr_events s) @ wr_in s = wr_submitted s) \<and>
     (\<not> wr_completing s \<longrightarrow> wr_send_done s \<or> stopped (wr_events s)) \<and>
     (\<not> wr_completing s \<and> stopped (wr_events s) \<longrightarrow> wr_quit s \<and> received (wr_events s) = wr_submitted s) \<and>
     (wr_lost s \<noteq> [] \<longrightarrow> wr_send_done s)"

definition job_inv :: "worker_run \<Rightarrow> bool" where
  "job_inv s \<longleftrightarrow>
     mset (wr_started s) = mset (map send_job (wr_sends s)) + mset (map o_job (wr_submitted s)) + mset (wr_lost s)"

definition worker_inv :: "worker_run \<Rightarrow> bool" where
  "worker_inv s \<longleftrightarrow> main_inv s \<and> outcome_inv s \<and> job_inv s"

lemma mset_drop_nth: "i < length xs \<Longrightarrow> mset (map f xs) = add_mset (f (xs ! i)) (mset (map f (drop_nth i xs)))"
proof -
  assume i: "i < length xs"
  have "mset (map f xs) = mset (map f (take i xs @ xs ! i # drop (Suc i) xs))"
    by (rule arg_cong [OF id_take_nth_drop [OF i]])
  then show ?thesis by (simp add: drop_nth_def)
qed

lemma length_drop_nth: "i < length xs \<Longrightarrow> length (drop_nth i xs) = length xs - 1"
  by (simp add: drop_nth_def)

lemma map_update_same: "i < length xs \<Longrightarrow> f x = f (xs ! i) \<Longrightarrow> map f (xs[i := x]) = map f xs"
  by (metis list_update_id map_update)

lemma ended_pool: "ended_pools s \<Longrightarrow> i < length (wr_pools s) \<Longrightarrow> wr_pools s ! i = PoolDone"
  by (simp add: ended_pools_def list_all_length)

lemma worker_invI: "main_inv s \<Longrightarrow> outcome_inv s \<Longrightarrow> job_inv s \<Longrightarrow> worker_inv s"
  by (simp add: worker_inv_def)

lemma worker_invD: "worker_inv s \<Longrightarrow> main_inv s" "worker_inv s \<Longrightarrow> outcome_inv s" "worker_inv s \<Longrightarrow> job_inv s"
  by (simp_all add: worker_inv_def)

text \<open>Pools and listener move only before the main goroutine has seen them end.\<close>

lemma pools_step_early:
  assumes "main_inv s" "pools_step s t"
  shows "wr_main s \<in> {Waiting, Joining}"
proof (rule ccontr)
  assume "wr_main s \<notin> {Waiting, Joining}"
  then have "ended_pools s" using assms(1) unfolding main_inv_def by blast
  with assms(2) ended_pool show False by cases (fastforce simp: ended_pools_def)+
qed

lemma pools_step_frame:
  assumes "pools_step s t"
  shows "wr_main t = wr_main s" "wr_quit t = wr_quit s" "wr_completing t = wr_completing s" "wr_send_done t = wr_send_done s"
    "wr_cancelled t = wr_cancelled s" "wr_events t = wr_events s" "wr_in t = wr_in s" "wr_submitted t = wr_submitted s" "wr_lost t = wr_lost s"
    "wr_batch t = wr_batch s"
  using assms by (cases; simp)+

lemma pools_step_inv:
  assumes "worker_inv s" "pools_step s t"
  shows "worker_inv t"
proof (rule worker_invI)
  note fr = pools_step_frame [OF assms(2)] and early = pools_step_early [OF worker_invD(1) [OF assms(1)] assms(2)]
  show "main_inv t" using early worker_invD(1) [OF assms(1)] by (auto simp: main_inv_def fr)
  show "outcome_inv t" using worker_invD(2) [OF assms(1)] by (simp add: outcome_inv_def fr)
  show "job_inv t" using assms(2) worker_invD(3) [OF assms(1)] by cases (simp_all add: job_inv_def comp_def)
qed

lemma sends_step_frame:
  assumes "sends_step sz s t"
  shows "wr_main t = wr_main s" "wr_quit t = wr_quit s" "wr_completing t = wr_completing s" "wr_send_done t = wr_send_done s"
    "wr_cancelled t = wr_cancelled s" "wr_events t = wr_events s" "wr_batch t = wr_batch s" "wr_pools t = wr_pools s" "wr_listening t = wr_listening s"
    "wr_sends s \<noteq> []"
  using assms by (cases; fastforce)+

lemma sends_step_inv:
  assumes "worker_inv s" "sends_step sz s t"
  shows "worker_inv t"
proof (rule worker_invI)
  note fr = sends_step_frame [OF assms(2)] and inv = worker_invD [OF assms(1)]
  have quit: "\<not> wr_quit s" using inv(1) fr(10) by (auto simp: main_inv_def)
  then show "main_inv t" using inv(1) by (simp add: main_inv_def fr ended_pools_def)
  show "outcome_inv t" using assms(2)
  proof cases
    case (submitted i out)
    then show ?thesis using inv(2) quit by (auto simp: outcome_inv_def)
  qed (use inv(2) in \<open>simp_all add: outcome_inv_def\<close>)
  show "job_inv t" using assms(2)
  proof cases
    case (dispatched i out)
    then show ?thesis using inv(3) by (simp add: job_inv_def map_update_same del: mset_map)
  qed (use inv(3) mset_drop_nth [of _ "wr_sends s" send_job] in \<open>force simp: job_inv_def simp del: mset_map\<close>)+
qed

lemma completer_step_inv: "worker_inv s \<Longrightarrow> completer_step sz s t \<Longrightarrow> worker_inv t"
  by (erule completer_stepE)
    (auto simp: worker_inv_def main_inv_def outcome_inv_def job_inv_def ended_pools_def received_snoc stopped_snoc)

lemma main_step_inv:
  assumes "worker_inv s" "main_step s t"
  shows "worker_inv t"
proof -
  have "main_inv t" using assms(2,1)
    by cases (auto simp: worker_inv_def main_inv_def ended_pools_def)
  moreover have "outcome_inv t" using assms(2,1)
    by cases (simp_all add: worker_inv_def outcome_inv_def)
  moreover have "job_inv t" using assms(2,1)
    by cases (simp_all add: worker_inv_def job_inv_def)
  ultimately show ?thesis by (simp add: worker_inv_def)
qed

lemma drain_step_inv:
  assumes "worker_inv s" "drain_step s t"
  shows "worker_inv t"
proof (rule worker_invI)
  show "main_inv t" using assms(2) worker_invD(1) [OF assms(1)] by cases (auto simp: main_inv_def ended_pools_def)
  show "outcome_inv t" using assms(2) worker_invD(2) [OF assms(1)] by cases (simp add: outcome_inv_def)
  show "job_inv t" using assms(2) worker_invD(3) [OF assms(1)] by cases (simp add: job_inv_def)
qed

interpretation running: invariant_system worker_started "run_step sz" worker_inv for sz
proof
  show "worker_inv s" if "worker_started s" for s
    using that by (simp add: worker_started_def worker_inv_def main_inv_def outcome_inv_def job_inv_def)
  show "worker_inv t" if "worker_inv s" "run_step sz s t" for s t
    using that(2)
  proof cases
    case cancel
    with that(1) show ?thesis by (auto simp: worker_inv_def main_inv_def outcome_inv_def job_inv_def ended_pools_def)
  qed (use that(1) pools_step_inv sends_step_inv completer_step_inv main_step_inv drain_step_inv in blast)+
qed

subsection \<open>Termination\<close>

fun pool_rank :: "pool_phase \<Rightarrow> nat" where
  "pool_rank Iterating = 2"
| "pool_rank Looking = 1"
| "pool_rank PoolDone = 0"

fun send_rank :: "send_phase \<Rightarrow> nat" where
  "send_rank (Dispatching j) = 2"
| "send_rank (Submitting out) = 1"

fun main_rank :: "main_phase \<Rightarrow> nat" where
  "main_rank Waiting = 5"
| "main_rank Joining = 4"
| "main_rank Draining = 3"
| "main_rank CuttingOff = 2"
| "main_rank Closing = 1"
| "main_rank Returned = 0"

definition pools_left :: "worker_run \<Rightarrow> nat" where
  "pools_left s = sum_list (map pool_rank (wr_pools s)) + of_bool (wr_listening s)"

definition phases_left :: "worker_run \<Rightarrow> nat" where
  "phases_left s = main_rank (wr_main s) + of_bool (wr_completing s) + of_bool (\<not> wr_send_done s)"

definition sends_left :: "worker_run \<Rightarrow> nat" where
  "sends_left s = sum_list (map send_rank (wr_sends s))"

definition outcomes_left :: "worker_run \<Rightarrow> nat" where
  "outcomes_left s = 2 * length (wr_in s) + length (wr_batch s)"

lemma sum_list_drop_nth: "i < length xs \<Longrightarrow> sum_list (map f xs) = f (xs ! i) + (sum_list (map f (drop_nth i xs)) :: nat)"
  using mset_drop_nth [of i xs f] by (metis sum_mset.add_mset sum_mset_sum_list)

lemma sum_list_update_nat:
  fixes f :: "'a \<Rightarrow> nat"
  assumes "i < length xs"
  shows "sum_list (map f (xs[i := x])) + f (xs ! i) = sum_list (map f xs) + f x"
  using assms by (induction xs arbitrary: i) (auto simp: nth_Cons split: nat.splits)

lemma batch_after_length: "length (batch_after sz batch out) \<le> Suc (length batch)"
  by (simp add: batch_after_def Let_def)

lemma pools_step_left:
  assumes "wr_cancelled s" "pools_step s t"
  shows "pools_left t < pools_left s"
  using assms(2,1)
proof cases
  case (pool_claims i jobs)
  then show ?thesis using sum_list_update_nat [of i "wr_pools s" pool_rank Looking] by (simp add: pools_left_def)
next
  case (pool_returns i)
  then show ?thesis using sum_list_update_nat [of i "wr_pools s" pool_rank PoolDone] by (simp add: pools_left_def)
next
  case (pool_breaks i)
  then show ?thesis using sum_list_update_nat [of i "wr_pools s" pool_rank PoolDone] by (simp add: pools_left_def)
qed (simp_all add: pools_left_def)

lemma sends_step_left:
  assumes "sends_step sz s t"
  shows "pools_left t = pools_left s" "phases_left t = phases_left s" "sends_left t < sends_left s"
proof -
  show "pools_left t = pools_left s" "phases_left t = phases_left s"
    by (simp_all add: pools_left_def phases_left_def sends_step_frame [OF assms])
  show "sends_left t < sends_left s" using assms
  proof cases
    case (dispatched i out)
    then show ?thesis using sum_list_update_nat [of i "wr_sends s" send_rank "Submitting out"] by (simp add: sends_left_def)
  qed (use sum_list_drop_nth [of _ "wr_sends s" send_rank] in \<open>fastforce simp: sends_left_def\<close>)+
qed

lemma completer_step_left:
  assumes "completer_step sz s t"
  shows "pools_left t = pools_left s" "sends_left t = sends_left s"
    "phases_left t < phases_left s \<or> phases_left t = phases_left s \<and> outcomes_left t < outcomes_left s"
proof -
  show "pools_left t = pools_left s" "sends_left t = sends_left s"
    using assms by (cases; simp add: pools_left_def sends_left_def)+
  show "phases_left t < phases_left s \<or> phases_left t = phases_left s \<and> outcomes_left t < outcomes_left s" using assms
  proof cases
    case (receives out rest)
    then show ?thesis using batch_after_length [of sz "wr_batch s" out] by (simp add: phases_left_def outcomes_left_def)
  qed (simp_all add: phases_left_def outcomes_left_def)
qed

lemma main_step_left:
  assumes "main_step s t"
  shows "pools_left t = pools_left s" "phases_left t < phases_left s"
  using assms by (cases; auto simp: pools_left_def phases_left_def)+

lemma drain_step_left:
  assumes "drain_step s t"
  shows "pools_left t = pools_left s" "phases_left t < phases_left s" "wr_cancelled t = wr_cancelled s"
  using assms by (cases; simp add: pools_left_def phases_left_def)+

lemma run_step_left:
  assumes "wr_cancelled s" "run_step sz s t"
  shows "wr_cancelled t \<and> (t, s) \<in> measures [pools_left, phases_left, sends_left, outcomes_left]"
proof -
  have "wr_cancelled t" using assms(2)
  proof cases
    case main
    then show ?thesis using assms(1) by cases simp_all
  next
    case completes
    then show ?thesis using assms(1) by cases simp_all
  qed (use assms(1) pools_step_frame(5) sends_step_frame(5) drain_step_left(3) in auto)
  moreover have "(t, s) \<in> measures [pools_left, phases_left, sends_left, outcomes_left]"
    using assms(2)
  proof cases
    case completes
    then show ?thesis using completer_step_left [OF completes] by auto
  qed (use assms(1) pools_step_left sends_step_left main_step_left drain_step_left in auto)
  ultimately show ?thesis ..
qed

lemma no_endless_shutdown:
  assumes "wr_cancelled (f 0)"
  shows "\<exists>i. \<not> run_step sz (f i) (f (Suc i))"
proof (rule ccontr)
  assume "\<not> ?thesis"
  then have step: "run_step sz (f i) (f (Suc i))" for i by blast
  have "wr_cancelled (f i)" for i
    by (induction i) (use assms run_step_left step in blast)+
  then have "(f (Suc i), f i) \<in> measures [pools_left, phases_left, sends_left, outcomes_left]" for i
    using run_step_left step by blast
  then show False using wf_measures wf_iff_no_infinite_down_chain by blast
qed

subsection \<open>Progress\<close>

lemma some_outcome: "\<exists>out :: outcome. o_job out = j"
  by (rule exI [of _ "\<lparr>o_kind = outcomeSent, o_job = j, o_provider = [], o_provider_ref = [], o_err = [], o_delay = 0, o_reason = None,
    o_attempted = False\<rparr>"]) simp

lemma send_can_move:
  assumes "worker_inv s" "wr_sends s \<noteq> []" "0 < sz"
  shows "\<exists>t. run_step sz s t"
proof -
  have i: "0 < length (wr_sends s)" using assms(2) by simp
  show ?thesis
  proof (cases "wr_sends s ! 0")
    case (Dispatching j)
    with some_outcome [of j] i dispatched [of 0 s] sends show ?thesis by metis
  next
    case (Submitting out)
    show ?thesis
    proof (cases "length (wr_in s) < 2 * sz")
      case True
      with submitted [OF i Submitting] sends show ?thesis by blast
    next
      case False
      then obtain x rest where "wr_in s = x # rest" using assms(3) by (cases "wr_in s") auto
      moreover have "wr_completing s \<or> wr_send_done s"
        using assms(1,2) by (auto simp: worker_inv_def main_inv_def outcome_inv_def)
      ultimately show ?thesis using receives given_up [OF i Submitting] sends completes by blast
    qed
  qed
qed

lemma pool_can_move:
  assumes "wr_cancelled s" "\<not> ended_pools s"
  shows "\<exists>t. run_step sz s t"
proof (cases "wr_listening s")
  case True
  then show ?thesis using listener_returns assms(1) pools by blast
next
  case False
  with assms(2) obtain i where i: "i < length (wr_pools s)" "wr_pools s ! i \<noteq> PoolDone"
    by (auto simp: ended_pools_def list_all_length)
  then show ?thesis using pool_returns [OF i(1) _ assms(1)] pool_breaks [OF i(1) _ assms(1)] pools
    by (cases "wr_pools s ! i") blast+
qed

lemma shutdown_progress:
  assumes "worker_inv s" "wr_cancelled s" "wr_main s \<noteq> Returned" "0 < sz"
  shows "\<exists>t. run_step sz s t"
proof (cases "wr_main s")
  case Waiting
  then show ?thesis using sees_cancel assms(2) main by blast
next
  case Joining
  show ?thesis
  proof (cases "ended_pools s")
    case True
    with joined [OF Joining] main show ?thesis by (auto simp: ended_pools_def)
  qed (rule pool_can_move [OF assms(2)])
next
  case Draining
  then show ?thesis using drained send_can_move [OF assms(1) _ assms(4)] main by blast
next
  case CuttingOff
  then show ?thesis using drained send_can_move [OF assms(1) _ assms(4)] main by blast
next
  case Closing
  then have "wr_quit s" using assms(1) by (simp add: worker_inv_def main_inv_def)
  then show ?thesis using completed [OF Closing] quits main completes by blast
qed (use assms(3) in simp)

subsection \<open>Properties\<close>

text \<open>C34: A worker that stops before its drain time is up loses nothing: when \<^verbatim>\<open>Run\<close> returns no pool, listener, send or
  completer is left running, and every message whose dispatch was started has had its outcome flushed by
  the completer, exactly once and in the order of submission.\<close>

theorem shutdown_clean:
  assumes "reachable worker_started (run_step sz) s" "wr_main s = Returned" "\<not> wr_send_done s" "0 < sz"
  shows "ended_pools s \<and> wr_sends s = [] \<and> \<not> wr_completing s \<and>
    concat (run sz [] (wr_events s)) = wr_submitted s \<and>
    mset (map o_job (concat (run sz [] (wr_events s)))) = mset (wr_started s)"
proof -
  have inv: "main_inv s" "outcome_inv s" "job_inv s"
    using running.reachable_invariant [OF assms(1)] by (simp_all add: worker_inv_def)
  from inv(1) assms(2) have m: "ended_pools s" "wr_sends s = []" "\<not> wr_completing s" by (auto simp: main_inv_def)
  from inv(2) assms(3) m(3) have out: "stopped (wr_events s)" "received (wr_events s) = wr_submitted s" "wr_lost s = []"
    by (auto simp: outcome_inv_def)
  from run_concat [OF _ out(1), of "[]" sz] out(2) assms(4) have c: "concat (run sz [] (wr_events s)) = wr_submitted s" by simp
  with inv(3) m out(3) show ?thesis by (simp add: job_inv_def)
qed

text \<open>C35: A worker always stops: once its context is cancelled no run of its goroutines goes on for ever, however they
  interleave, and none gets stuck before \<^verbatim>\<open>Run\<close> has returned.\<close>

theorem shutdown_ends:
  assumes "reachable worker_started (run_step sz) s" "wr_cancelled s" "0 < sz"
  shows "(\<forall>f. f 0 = s \<longrightarrow> (\<exists>i. \<not> run_step sz (f i) (f (Suc i)))) \<and>
    (\<forall>t. (run_step sz)\<^sup>*\<^sup>* s t \<and> (\<nexists>u. run_step sz t u) \<longrightarrow> wr_main t = Returned)"
proof (intro conjI allI impI)
  show "\<exists>i. \<not> run_step sz (f i) (f (Suc i))" if "f 0 = s" for f
    using no_endless_shutdown [of f sz] assms(2) that by simp
  fix t assume t: "(run_step sz)\<^sup>*\<^sup>* s t \<and> (\<nexists>u. run_step sz t u)"
  then have "(run_step sz)\<^sup>*\<^sup>* s t" by simp
  then have "wr_cancelled t" using assms(2) by induction (use run_step_left in blast)+
  moreover have "worker_inv t"
    using running.reachable_invariant [OF reachable_steps [OF _ assms(1)]] t by blast
  ultimately show "wr_main t = Returned" using shutdown_progress assms(3) t by blast
qed

subsection \<open>Instances\<close>

text \<open>A run of one message: claimed, sent, submitted and received, then the shutdown.\<close>

definition demo_running :: "outcome \<Rightarrow> worker_run" where
  "demo_running out = \<lparr>wr_cancelled = True, wr_send_done = False, wr_pools = [Looking, Looking], wr_listening = True, wr_sends = [],
     wr_in = [out], wr_batch = [], wr_events = [], wr_completing = True, wr_quit = False, wr_main = Waiting,
     wr_started = [o_job out], wr_submitted = [out], wr_lost = []\<rparr>"

definition demo_returned :: "outcome \<Rightarrow> worker_run" where
  "demo_returned out = (demo_running out)\<lparr>wr_pools := [PoolDone, PoolDone], wr_listening := False, wr_in := [],
     wr_events := [Recv out, Quit []], wr_completing := False, wr_quit := True, wr_main := Returned\<rparr>"

lemma demo_step:
  "reachable worker_started (run_step 1) s \<Longrightarrow> run_step 1 s t \<Longrightarrow> t = t' \<Longrightarrow> reachable worker_started (run_step 1) t'"
  by (metis reachable_step)

lemma demo_running_reachable: "reachable worker_started (run_step 1) (demo_running out)"
proof -
  let ?s0 = "\<lparr>wr_cancelled = False, wr_send_done = False, wr_pools = [Looking, Looking], wr_listening = True, wr_sends = [],
     wr_in = [], wr_batch = [], wr_events = [], wr_completing = True, wr_quit = False, wr_main = Waiting,
     wr_started = [], wr_submitted = [], wr_lost = []\<rparr>"
  let ?s1 = "?s0\<lparr>wr_pools := [Iterating, Looking]\<rparr>"
  let ?s2 = "?s0\<lparr>wr_sends := [Dispatching (o_job out)], wr_started := [o_job out]\<rparr>"
  let ?s3 = "?s2\<lparr>wr_sends := [Submitting out]\<rparr>"
  let ?s4 = "?s2\<lparr>wr_sends := [], wr_in := [out], wr_submitted := [out]\<rparr>"
  have r0: "reachable worker_started (run_step 1) ?s0" by (rule reachable_init) (simp add: worker_started_def)
  have r1: "reachable worker_started (run_step 1) ?s1"
    by (rule demo_step [OF r0 pools [OF pool_iterates [of 0 ?s0]]]) simp_all
  have r2: "reachable worker_started (run_step 1) ?s2"
    by (rule demo_step [OF r1 pools [OF pool_claims [of 0 ?s1 "[o_job out]"]]]) simp_all
  have r3: "reachable worker_started (run_step 1) ?s3"
    by (rule demo_step [OF r2 sends [OF dispatched [of 0 ?s2 out]]]) simp_all
  have r4: "reachable worker_started (run_step 1) ?s4"
    by (rule demo_step [OF r3 sends [OF submitted [of 0 ?s3 out]]]) (simp_all add: drop_nth_def)
  show ?thesis by (rule demo_step [OF r4 cancel [of ?s4 1]]) (simp_all add: demo_running_def)
qed

lemma demo_returned_reachable: "reachable worker_started (run_step 1) (demo_returned out)"
proof -
  let ?s0 = "demo_running out"
  let ?s1 = "?s0\<lparr>wr_main := Joining\<rparr>" and ?s2 = "?s0\<lparr>wr_main := Joining, wr_pools := [PoolDone, Looking]\<rparr>"
  let ?s3 = "?s0\<lparr>wr_main := Joining, wr_pools := [PoolDone, PoolDone]\<rparr>"
  let ?s4 = "?s3\<lparr>wr_listening := False\<rparr>" and ?s5 = "?s3\<lparr>wr_listening := False, wr_main := Draining\<rparr>"
  let ?s6 = "?s5\<lparr>wr_in := [], wr_events := [Recv out]\<rparr>"
  let ?s7 = "?s6\<lparr>wr_main := Closing, wr_quit := True\<rparr>"
  let ?s8 = "?s7\<lparr>wr_completing := False, wr_events := [Recv out, Quit []]\<rparr>"
  have r1: "reachable worker_started (run_step 1) ?s1"
    by (rule demo_step [OF demo_running_reachable main [OF sees_cancel [of ?s0]]]) (simp_all add: demo_running_def)
  have r2: "reachable worker_started (run_step 1) ?s2"
    by (rule demo_step [OF r1 pools [OF pool_returns [of 0 ?s1]]]) (simp_all add: demo_running_def)
  have r3: "reachable worker_started (run_step 1) ?s3"
    by (rule demo_step [OF r2 pools [OF pool_returns [of 1 ?s2]]]) (simp_all add: demo_running_def)
  have r4: "reachable worker_started (run_step 1) ?s4"
    by (rule demo_step [OF r3 pools [OF listener_returns [of ?s3]]]) (simp_all add: demo_running_def)
  have r5: "reachable worker_started (run_step 1) ?s5"
    by (rule demo_step [OF r4 main [OF joined [of ?s4]]]) (simp_all add: demo_running_def)
  have r6: "reachable worker_started (run_step 1) ?s6"
    by (rule demo_step [OF r5 completes [OF receives [of ?s5 out "[]"]]]) (simp_all add: demo_running_def batch_after_def)
  have r7: "reachable worker_started (run_step 1) ?s7"
    by (rule demo_step [OF r6 main [OF drained [of ?s6]]]) (simp_all add: demo_running_def)
  have r8: "reachable worker_started (run_step 1) ?s8"
    by (rule demo_step [OF r7 completes [OF quits [of ?s7]]]) (simp_all add: demo_running_def)
  show ?thesis by (rule demo_step [OF r8 main [OF completed [of ?s8]]]) (simp_all add: demo_running_def demo_returned_def)
qed

theorem shutdown_clean_witness: "concat (run 1 [] (wr_events (demo_returned demo_outcome))) = [demo_outcome]"
  using shutdown_clean [OF demo_returned_reachable, of demo_outcome] by (simp add: demo_returned_def demo_running_def)

theorem shutdown_ends_witness: "\<not> run_step 1 (demo_running demo_outcome) (demo_running demo_outcome)"
proof -
  have "wr_cancelled (demo_running demo_outcome)" by (simp add: demo_running_def)
  from shutdown_ends [OF demo_running_reachable this zero_less_one]
  have "\<exists>i::nat. \<not> run_step 1 (demo_running demo_outcome) (demo_running demo_outcome)"
    by (elim conjE allE [of _ "\<lambda>i. demo_running demo_outcome"]) simp
  then show ?thesis by simp
qed

end
