(* ===== verification/Telemetry.thy ===== *)
theory Telemetry
  imports Sweeper Monitor Worker Metrics "HOL-Library.Monad_Syntax"
begin

text \<open>
  What a worker tells about itself: the counters and metrics of committed outcomes (\<^verbatim>\<open>completer.count\<close>), the snapshot of its
  heartbeat (\<^verbatim>\<open>Worker.Snapshot\<close>), and the metrics of the sweeper (\<^verbatim>\<open>publishExpired\<close>, \<^verbatim>\<open>sampleQueue\<close>). A panic of the metrics
  library is \<open>None\<close>.
\<close>

subsection \<open>Committed outcomes\<close>

record counters =
  ct_sent :: int
  ct_retried :: int
  ct_deferred :: int
  ct_failed :: int
  ct_expired :: int

text \<open>The families the worker role records into.\<close>

record telemetry =
  tm_completed :: "rat vec"
  tm_latency :: "histogram vec"
  tm_breaches :: "rat vec"
  tm_deferrals :: "rat vec"
  tm_refunded :: "rat vec"
  tm_depth :: "rat vec"
  tm_oldest :: "rat vec"

definition in_seconds :: "duration \<Rightarrow> rat" where
  "in_seconds d = of_int d / of_int second"

definition breach :: "bool \<Rightarrow> rat vec \<Rightarrow> rat vec option" where
  "breach breached v = (if breached then counter_Inc [] v else Some v)"

definition count_completed :: "string \<Rightarrow> string \<Rightarrow> string \<Rightarrow> duration \<Rightarrow> bool \<Rightarrow> telemetry \<Rightarrow> telemetry option" where
  "count_completed typ_name status stage latency breached t = do {
     completed \<leftarrow> counter_Inc [typ_name, status] (tm_completed t);
     observed \<leftarrow> histogram_Observe latencyBuckets [typ_name, stage] (in_seconds latency) (tm_latency t);
     breaches \<leftarrow> breach breached (tm_breaches t);
     Some (t\<lparr>tm_completed := completed, tm_latency := observed, tm_breaches := breaches\<rparr>) }"

definition count_one :: "duration \<Rightarrow> gtime \<Rightarrow> outcome \<Rightarrow> counters \<Rightarrow> telemetry \<Rightarrow> (counters \<times> telemetry) option" where
  "count_one sla now out c t =
     (let typ_name = type_string (j_type (o_job out)); express = (j_type (o_job out) = Express);
          latency = now - j_accepted_at (o_job out)
      in case o_kind out of
          outcomeSent \<Rightarrow> do {
            t' \<leftarrow> count_completed typ_name ''sent'' ''sent'' latency (express \<and> sla < latency) t;
            Some (c\<lparr>ct_sent := ct_sent c + 1\<rparr>, t') }
        | outcomeRetry \<Rightarrow> Some (c\<lparr>ct_retried := ct_retried c + 1\<rparr>, t)
        | outcomeDeferred \<Rightarrow> do {
            deferrals \<leftarrow> counter_Inc [typ_name] (tm_deferrals t);
            Some (c\<lparr>ct_deferred := ct_deferred c + 1\<rparr>, t\<lparr>tm_deferrals := deferrals\<rparr>) }
        | outcomeFailed \<Rightarrow> do {
            t' \<leftarrow> count_completed typ_name ''failed'' ''completed'' latency express t;
            Some (c\<lparr>ct_failed := ct_failed c + 1\<rparr>, t') }
        | outcomeExpired \<Rightarrow> do {
            t' \<leftarrow> count_completed typ_name ''expired'' ''completed'' latency express t;
            Some (c\<lparr>ct_expired := ct_expired c + 1\<rparr>, t') })"

fun count_batch :: "duration \<Rightarrow> gtime \<Rightarrow> outcome list \<Rightarrow> counters \<Rightarrow> telemetry \<Rightarrow> (counters \<times> telemetry) option" where
  "count_batch sla now [] c t = Some (c, t)"
| "count_batch sla now (out # outs) c t = do { (c', t') \<leftarrow> count_one sla now out c t; count_batch sla now outs c' t' }"

subsection \<open>The sweeper\<close>

record expired_message =
  ex_type :: mtype
  ex_accepted_at :: gtime
  ex_cost :: int

fun publishExpired :: "gtime \<Rightarrow> expired_message list \<Rightarrow> telemetry \<Rightarrow> telemetry option" where
  "publishExpired now [] t = Some t"
| "publishExpired now (e # es) t = do {
     t1 \<leftarrow> count_completed (type_string (ex_type e)) ''expired'' ''completed'' (now - ex_accepted_at e) (ex_type e = Express) t;
     refunded \<leftarrow> counter_Add [] (of_int (ex_cost e)) (tm_refunded t1);
     publishExpired now es (t1\<lparr>tm_refunded := refunded\<rparr>) }"

fun sample_lanes :: "lane_stats list \<Rightarrow> telemetry \<Rightarrow> telemetry option" where
  "sample_lanes [] t = Some t"
| "sample_lanes (l # ls) t = do {
     d1 \<leftarrow> gauge_Set [ls_lane l, ''ready''] (of_nat (ls_ready l)) (tm_depth t);
     d2 \<leftarrow> gauge_Set [ls_lane l, ''delayed''] (of_nat (ls_delayed l)) d1;
     d3 \<leftarrow> gauge_Set [ls_lane l, ''in_flight''] (of_nat (ls_in_flight l)) d2;
     oldest \<leftarrow> gauge_Set [ls_lane l] (in_seconds (ls_oldest_ready_age l)) (tm_oldest t);
     sample_lanes ls (t\<lparr>tm_depth := d3, tm_oldest := oldest\<rparr>) }"

definition sampleQueue :: "gtime \<Rightarrow> bool \<Rightarrow> string list \<Rightarrow> db \<Rightarrow> telemetry \<Rightarrow> telemetry option" where
  "sampleQueue now db_fails lns d t =
     (if lns = [] then Some t else if db_fails then Some t else sample_lanes (QueueStats now lns d) t)"

subsection \<open>Snapshots\<close>

record snapshot =
  sn_pools :: "(string \<times> nat \<times> int) list"
  sn_counters :: "(string \<times> int) list"
  sn_rates :: "(string \<times> rat) list"
  sn_circuits :: "(string \<times> string) list"

definition counter_list :: "counters \<Rightarrow> (string \<times> int) list" where
  "counter_list c = [(''sent'', ct_sent c), (''retried'', ct_retried c), (''deferred'', ct_deferred c), (''failed'', ct_failed c),
     (''expired'', ct_expired c)]"

text \<open>Taking a snapshot reads the breakers, which may half-open them, and keeps time and counts for the next one.\<close>

definition Snapshot :: "gtime \<Rightarrow> counters \<Rightarrow> (gtime \<times> (string \<times> int) list) option \<Rightarrow> 'l worker \<Rightarrow>
    'l worker \<times> (gtime \<times> (string \<times> int) list) option \<times> snapshot" where
  "Snapshot now c last_snap w =
     (let states = map (\<lambda>p. State now (p_breaker p)) (wk_providers w);
          counts = counter_list c;
          rates = (case last_snap of
              None \<Rightarrow> []
            | Some (at_time, old) \<Rightarrow>
                let elapsed = in_seconds (now - at_time)
                in if 0 < elapsed
                   then map (\<lambda>(k, v). (k, of_int (v - (case map_of old k of Some x \<Rightarrow> x | None \<Rightarrow> 0)) / elapsed)) counts
                   else [])
      in (w\<lparr>wk_providers := map2 (\<lambda>p (b, _). p\<lparr>p_breaker := b\<rparr>) (wk_providers w) states\<rparr>, Some (now, counts),
          \<lparr>sn_pools = [(''express'', pl_concurrency (wk_express w), pl_active (wk_express w)),
                       (''normal'', pl_concurrency (wk_normal w), pl_active (wk_normal w))],
           sn_counters = counts, sn_rates = rates,
           sn_circuits = map2 (\<lambda>p (_, st). (p_name p, circuit_string st)) (wk_providers w) states\<rparr>))"

subsection \<open>Counting right\<close>

definition vec_value :: "rat vec \<Rightarrow> string list \<Rightarrow> rat" where
  "vec_value v vals = (case map_of (vc_series v) (join_key vals) of Some (_, x) \<Rightarrow> x | None \<Rightarrow> 0)"

lemma map_of_update_series:
  "map_of (map (\<lambda>(k, vals, s). (k, vals, if k = key then f s else s)) xs) k =
     map_option (\<lambda>(vals, s). (vals, if k = key then f s else s)) (map_of xs k)"
  by (induction xs) auto

lemma vec_apply_total:
  assumes "length vals = length (vc_labels v)"
  shows "\<exists>v'. vec_apply new vals f v = Some v' \<and> vc_labels v' = vc_labels v"
  using assms by (auto simp: vec_apply_def vec_with_def vec_update_def)

lemma counter_Add_value:
  assumes "length vals = length (vc_labels v)"
  shows "\<exists>v'. counter_Add vals x v = Some v' \<and> vc_labels v' = vc_labels v \<and>
    (\<forall>ws. vec_value v' ws = vec_value v ws + (if join_key ws = join_key vals then x else 0))"
  using assms
  by (auto simp: counter_Add_def vec_apply_def vec_with_def vec_update_def vec_value_def map_of_update_series map_add_def
      split: option.splits)

definition telemetry_ok :: "telemetry \<Rightarrow> bool" where
  "telemetry_ok t \<longleftrightarrow> length (vc_labels (tm_completed t)) = 2 \<and> length (vc_labels (tm_latency t)) = 2 \<and> vc_labels (tm_breaches t) = [] \<and>
     length (vc_labels (tm_deferrals t)) = 1"

lemma type_key: "join_key [type_string ty, st] = join_key [type_string ty', st'] \<longleftrightarrow> ty = ty' \<and> st = st'"
  by (cases ty; cases ty') (simp_all add: type_string_def)

lemma count_completed_ok:
  assumes "telemetry_ok t"
  shows "\<exists>t'. count_completed (type_string ty) st stage latency breached t = Some t' \<and> telemetry_ok t' \<and>
    (\<forall>ty' st'. vec_value (tm_completed t') [type_string ty', st'] = vec_value (tm_completed t) [type_string ty', st'] + of_bool (ty' = ty \<and> st' = st))"
proof -
  from counter_Add_value [of "[type_string ty, st]" "tm_completed t" 1] assms obtain v where
    v: "counter_Inc [type_string ty, st] (tm_completed t) = Some v" "vc_labels v = vc_labels (tm_completed t)"
      "\<And>ws. vec_value v ws = vec_value (tm_completed t) ws + (if join_key ws = join_key [type_string ty, st] then 1 else 0)"
    by (auto simp: counter_Inc_def telemetry_ok_def)
  obtain h where h: "histogram_Observe latencyBuckets [type_string ty, stage] (in_seconds latency) (tm_latency t) = Some h" "vc_labels h = vc_labels (tm_latency t)"
    using vec_apply_total [of "[type_string ty, stage]" "tm_latency t"] assms by (auto simp: histogram_Observe_def telemetry_ok_def)
  obtain b where b: "breach breached (tm_breaches t) = Some b" "vc_labels b = []"
    using counter_Add_value [of "[]" "tm_breaches t" 1] assms by (cases breached) (auto simp: breach_def counter_Inc_def telemetry_ok_def)
  from v h b assms show ?thesis by (simp add: count_completed_def telemetry_ok_def type_key del: join_key.simps)
qed

fun completes_as :: "outcome_kind \<Rightarrow> string option" where
  "completes_as outcomeSent = Some ''sent''"
| "completes_as outcomeFailed = Some ''failed''"
| "completes_as outcomeExpired = Some ''expired''"
| "completes_as outcomeRetry = None"
| "completes_as outcomeDeferred = None"

definition of_kind :: "outcome_kind \<Rightarrow> outcome list \<Rightarrow> int" where
  "of_kind k outs = int (length (filter (\<lambda>out. o_kind out = k) outs))"

definition completed_as :: "mtype \<Rightarrow> string \<Rightarrow> outcome list \<Rightarrow> nat" where
  "completed_as ty st outs = length (filter (\<lambda>out. j_type (o_job out) = ty \<and> completes_as (o_kind out) = Some st) outs)"

lemma count_one_ok:
  assumes "telemetry_ok t"
  shows "\<exists>t'. count_one sla now out c t = Some (\<lparr>ct_sent = ct_sent c + of_kind outcomeSent [out], ct_retried = ct_retried c + of_kind outcomeRetry [out],
      ct_deferred = ct_deferred c + of_kind outcomeDeferred [out], ct_failed = ct_failed c + of_kind outcomeFailed [out],
      ct_expired = ct_expired c + of_kind outcomeExpired [out]\<rparr>, t') \<and> telemetry_ok t' \<and>
    (\<forall>ty st. vec_value (tm_completed t') [type_string ty, st] = vec_value (tm_completed t) [type_string ty, st] + of_nat (completed_as ty st [out]))"
proof (cases "o_kind out")
  case outcomeDeferred
  obtain v where "counter_Inc [type_string (j_type (o_job out))] (tm_deferrals t) = Some v" "vc_labels v = vc_labels (tm_deferrals t)"
    using counter_Add_value [of "[type_string (j_type (o_job out))]" "tm_deferrals t" 1] assms by (auto simp: counter_Inc_def telemetry_ok_def)
  with outcomeDeferred assms show ?thesis by (simp add: count_one_def Let_def of_kind_def completed_as_def telemetry_ok_def)
next
  case outcomeSent
  with count_completed_ok [OF assms, of "j_type (o_job out)" "''sent''" "''sent''" "now - j_accepted_at (o_job out)"
      "j_type (o_job out) = Express \<and> sla < now - j_accepted_at (o_job out)"] show ?thesis
    by (auto simp: count_one_def Let_def of_kind_def completed_as_def)
next
  case outcomeFailed
  with count_completed_ok [OF assms, of "j_type (o_job out)" "''failed''" "''completed''" "now - j_accepted_at (o_job out)"
      "j_type (o_job out) = Express"] show ?thesis
    by (auto simp: count_one_def Let_def of_kind_def completed_as_def)
next
  case outcomeExpired
  with count_completed_ok [OF assms, of "j_type (o_job out)" "''expired''" "''completed''" "now - j_accepted_at (o_job out)"
      "j_type (o_job out) = Express"] show ?thesis
    by (auto simp: count_one_def Let_def of_kind_def completed_as_def)
qed (use assms in \<open>simp add: count_one_def Let_def of_kind_def completed_as_def\<close>)

text \<open>The counters of a worker and the metric of completed messages agree with the outcomes: counting a batch
  never panics, raises each counter by the number of outcomes of its kind, and raises the series of a
  type and status by the number of outcomes that brought such a message to that status.\<close>

theorem count_exact:
  assumes "telemetry_ok t"
  shows "\<exists>t'. count_batch sla now outs c t = Some (\<lparr>ct_sent = ct_sent c + of_kind outcomeSent outs, ct_retried = ct_retried c + of_kind outcomeRetry outs,
      ct_deferred = ct_deferred c + of_kind outcomeDeferred outs, ct_failed = ct_failed c + of_kind outcomeFailed outs,
      ct_expired = ct_expired c + of_kind outcomeExpired outs\<rparr>, t') \<and> telemetry_ok t' \<and>
    (\<forall>ty st. vec_value (tm_completed t') [type_string ty, st] = vec_value (tm_completed t) [type_string ty, st] + of_nat (completed_as ty st outs))"
  using assms
proof (induction outs arbitrary: c t)
  case (Cons out outs)
  let ?c = "\<lparr>ct_sent = ct_sent c + of_kind outcomeSent [out], ct_retried = ct_retried c + of_kind outcomeRetry [out],
      ct_deferred = ct_deferred c + of_kind outcomeDeferred [out], ct_failed = ct_failed c + of_kind outcomeFailed [out],
      ct_expired = ct_expired c + of_kind outcomeExpired [out]\<rparr>"
  obtain t1 where t1: "count_one sla now out c t = Some (?c, t1)" "telemetry_ok t1"
    "\<And>ty st. vec_value (tm_completed t1) [type_string ty, st] = vec_value (tm_completed t) [type_string ty, st] + of_nat (completed_as ty st [out])"
    using count_one_ok [OF Cons.prems, of sla now out c] by blast
  have app: "of_kind k [out] + of_kind k outs = of_kind k (out # outs)" for k by (simp add: of_kind_def)
  have app': "completed_as ty st [out] + completed_as ty st outs = completed_as ty st (out # outs)" for ty st by (simp add: completed_as_def)
  from Cons.IH [OF t1(2), of ?c] show ?case
    by (auto simp: t1(1,3) app [symmetric] app' [symmetric] add.assoc)
qed (simp add: of_kind_def completed_as_def)

text \<open>The rates of a snapshot are the increases since the last one: over the time elapsed they add up to what was
  counted in between.\<close>

lemma Snapshot_rates:
  assumes "Snapshot t1 c1 last_snap w = (w1, mem, s1)" "Snapshot t2 c2 mem w1 = (w2, mem', s2)" "t1 < t2"
  shows "map (\<lambda>(k, r). (k, r * in_seconds (t2 - t1))) (sn_rates s2) =
    map2 (\<lambda>(k, v2) (_, v1). (k, of_int (v2 - v1))) (counter_list c2) (counter_list c1)"
proof -
  have mem: "mem = Some (t1, counter_list c1)" using assms(1) by (auto simp: Snapshot_def Let_def)
  have "0 < in_seconds (t2 - t1)" using assms(3) by (simp add: in_seconds_def second_def millisecond_def)
  with assms(2) show ?thesis by (auto simp: Snapshot_def Let_def mem counter_list_def)
qed

subsection \<open>Instances\<close>

definition demo_telemetry :: telemetry where
  "demo_telemetry = \<lparr>tm_completed = newVec [] [] [''type'', ''status''], tm_latency = newVec [] [] [''type'', ''stage''], tm_breaches = newVec [] [] [],
     tm_deferrals = newVec [] [] [''type''], tm_refunded = newVec [] [] [], tm_depth = newVec [] [] [''lane'', ''state''],
     tm_oldest = newVec [] [] [''lane'']\<rparr>"

theorem count_exact_witness:
  "\<exists>t'. count_batch second 2000 [demo_outcome, demo_outcome] \<lparr>ct_sent = 3, ct_retried = 0, ct_deferred = 0, ct_failed = 1, ct_expired = 0\<rparr> demo_telemetry =
     Some (\<lparr>ct_sent = 3, ct_retried = 0, ct_deferred = 0, ct_failed = 3, ct_expired = 0\<rparr>, t')"
proof -
  have "telemetry_ok demo_telemetry" by (simp add: demo_telemetry_def telemetry_ok_def newVec_def)
  from count_exact [OF this, of second 2000 "[demo_outcome, demo_outcome]" "\<lparr>ct_sent = 3, ct_retried = 0, ct_deferred = 0, ct_failed = 1, ct_expired = 0\<rparr>"]
  show ?thesis by (auto simp: of_kind_def demo_outcome_def)
qed

end
