(* ===== verification/Routing.thy ===== *)
theory Routing
  imports Api Admin Dashboard Commands Middleware
begin

text \<open>
  Which handler serves a request: the patterns the servers register (\<^verbatim>\<open>internal/api/server.go, internal/admin/server.go,
  dashboard.go, internal/app/api.go, worker.go, internal/fakeprovider/provider.go\<close>) in the \<^verbatim>\<open>http.ServeMux\<close> of Go's library, from the
  text of a pattern to the handler of a request. Registering patterns that conflict panics, which is \<open>None\<close>. A
  path is given by its unescaped segments. Redirects to a path with a slash appended are included.
\<close>

subsection \<open>Patterns\<close>

text \<open>A segment is a literal, a wildcard or the rest of the path, which a trailing slash stands for; \<^verbatim>\<open>{$}\<close> is the literal
  empty segment at the end.\<close>

datatype segment = Lit string | Wild string | Rest

record pattern =
  pt_method :: string
  pt_segments :: "segment list"

definition parse_segment :: "string \<Rightarrow> segment" where
  "parse_segment s =
     (if s = ''{$}'' then Lit []
      else if s \<noteq> [] \<and> hd s = CHR ''{'' \<and> last s = CHR ''}'' then Wild (butlast (tl s))
      else Lit s)"

fun parse_segments :: "string list \<Rightarrow> segment list" where
  "parse_segments [] = []"
| "parse_segments [s] = [if s = [] then Rest else parse_segment s]"
| "parse_segments (s # t # ss) = parse_segment s # parse_segments (t # ss)"

definition path_segments :: "string \<Rightarrow> string list" where
  "path_segments path = Split (CHR ''/'') (tl path)"

definition parsePattern :: "string \<Rightarrow> pattern option" where
  "parsePattern s =
     (case (case Cut (CHR '' '') s of None \<Rightarrow> ([], s) | Some (m, r) \<Rightarrow> (m, r)) of (m, r) \<Rightarrow>
        if r = [] \<or> hd r \<noteq> CHR ''/'' then None
        else Some \<lparr>pt_method = m, pt_segments = parse_segments (path_segments r)\<rparr>)"

subsection \<open>Conflicts\<close>

datatype relationship = Equivalent | MoreGeneral | MoreSpecific | Disjoint | Overlaps

fun inverseRelationship :: "relationship \<Rightarrow> relationship" where
  "inverseRelationship MoreSpecific = MoreGeneral"
| "inverseRelationship MoreGeneral = MoreSpecific"
| "inverseRelationship r = r"

definition combineRelationships :: "relationship \<Rightarrow> relationship \<Rightarrow> relationship" where
  "combineRelationships r1 r2 =
     (case r1 of
        Equivalent \<Rightarrow> r2
      | Disjoint \<Rightarrow> Disjoint
      | Overlaps \<Rightarrow> (if r2 = Disjoint then Disjoint else Overlaps)
      | _ \<Rightarrow> (if r2 = Equivalent then r1 else if r2 = inverseRelationship r1 then Overlaps else r2))"

fun compareSegments :: "segment \<Rightarrow> segment \<Rightarrow> relationship" where
  "compareSegments Rest Rest = Equivalent"
| "compareSegments Rest s = MoreGeneral"
| "compareSegments s Rest = MoreSpecific"
| "compareSegments (Wild a) (Wild b) = Equivalent"
| "compareSegments (Wild a) (Lit s) = (if s = [] then Disjoint else MoreGeneral)"
| "compareSegments (Lit s) (Wild b) = (if s = [] then Disjoint else MoreSpecific)"
| "compareSegments (Lit s) (Lit t) = (if s = t then Equivalent else Disjoint)"

definition multi :: "segment list \<Rightarrow> bool" where
  "multi ss \<longleftrightarrow> ss \<noteq> [] \<and> last ss = Rest"

text \<open>The loop over corresponding segments, then the leftover of the longer pattern.\<close>

fun compare_segments :: "bool \<Rightarrow> bool \<Rightarrow> relationship \<Rightarrow> segment list \<Rightarrow> segment list \<Rightarrow> relationship" where
  "compare_segments m1 m2 rel [] [] = rel"
| "compare_segments m1 m2 rel [] (t # ts) = (if m1 then combineRelationships rel MoreGeneral else Disjoint)"
| "compare_segments m1 m2 rel (s # ss) [] = (if m2 then combineRelationships rel MoreSpecific else Disjoint)"
| "compare_segments m1 m2 rel (s # ss) (t # ts) =
     (let r = combineRelationships rel (compareSegments s t) in if r = Disjoint then Disjoint else compare_segments m1 m2 r ss ts)"

definition comparePaths :: "segment list \<Rightarrow> segment list \<Rightarrow> relationship" where
  "comparePaths ss ts =
     (if length ss \<noteq> length ts \<and> \<not> multi ss \<and> \<not> multi ts then Disjoint
      else compare_segments (multi ss) (multi ts) Equivalent ss ts)"

definition compareMethods :: "string \<Rightarrow> string \<Rightarrow> relationship" where
  "compareMethods m1 m2 =
     (if m1 = m2 then Equivalent else if m1 = [] then MoreGeneral else if m2 = [] then MoreSpecific
      else if m1 = ''GET'' \<and> m2 = ''HEAD'' then MoreGeneral
      else if m1 = ''HEAD'' \<and> m2 = ''GET'' then MoreSpecific
      else Disjoint)"

definition conflictsWith :: "pattern \<Rightarrow> pattern \<Rightarrow> bool" where
  "conflictsWith p q =
     (let mrel = compareMethods (pt_method p) (pt_method q);
          rel = (if mrel = Disjoint then Disjoint else combineRelationships mrel (comparePaths (pt_segments p) (pt_segments q)))
      in rel = Equivalent \<or> rel = Overlaps)"

type_synonym 'e mux = "(pattern \<times> 'e) list"

definition mux_Handle :: "string \<Rightarrow> 'e \<Rightarrow> 'e mux \<Rightarrow> 'e mux option" where
  "mux_Handle s e m =
     (case parsePattern s of
        None \<Rightarrow> None
      | Some p \<Rightarrow> if list_ex (\<lambda>(q, _). conflictsWith p q) m then None else Some (m @ [(p, e)]))"

fun register_routes :: "(string \<times> 'e) list \<Rightarrow> 'e mux \<Rightarrow> 'e mux option" where
  "register_routes [] m = Some m"
| "register_routes ((s, e) # rs) m = (case mux_Handle s e m of None \<Rightarrow> None | Some m' \<Rightarrow> register_routes rs m')"

subsection \<open>Search\<close>

text \<open>The routing tree is searched segment by segment: literals first, then wildcards, then the rest.\<close>

fun advance_lit :: "string \<Rightarrow> (segment list \<times> 'x) list \<Rightarrow> (segment list \<times> 'x) list" where
  "advance_lit seg [] = []"
| "advance_lit seg ((Lit s # ss, x) # es) = (if s = seg then (ss, x) # advance_lit seg es else advance_lit seg es)"
| "advance_lit seg (e # es) = advance_lit seg es"

fun advance_wild :: "(segment list \<times> 'x) list \<Rightarrow> (segment list \<times> 'x) list" where
  "advance_wild [] = []"
| "advance_wild ((Wild n # ss, x) # es) = (ss, x) # advance_wild es"
| "advance_wild (e # es) = advance_wild es"

definition entry_at :: "segment list \<Rightarrow> (segment list \<times> 'x) list \<Rightarrow> string list \<Rightarrow> ('x \<times> string list) option" where
  "entry_at ss es caps = map_option (\<lambda>x. (x, caps)) (map_of es ss)"

fun matchPath :: "(segment list \<times> 'x) list \<Rightarrow> string list \<Rightarrow> string list \<Rightarrow> ('x \<times> string list) option" where
  "matchPath es caps [] = entry_at [] es caps"
| "matchPath es caps (seg # segs) =
     (case matchPath (advance_lit seg es) caps segs of
        Some r \<Rightarrow> Some r
      | None \<Rightarrow>
          (case (if seg \<noteq> [] then matchPath (advance_wild es) (caps @ [seg]) segs else None) of
             Some r \<Rightarrow> Some r
           | None \<Rightarrow> entry_at [Rest] es caps))"

definition method_entries :: "string \<Rightarrow> 'e mux \<Rightarrow> (segment list \<times> pattern \<times> 'e) list" where
  "method_entries meth m = map (\<lambda>(p, e). (pt_segments p, p, e)) (filter (\<lambda>(p, _). pt_method p = meth) m)"

definition mux_match :: "'e mux \<Rightarrow> string \<Rightarrow> string list \<Rightarrow> ((pattern \<times> 'e) \<times> string list) option" where
  "mux_match m meth segs =
     (case (if meth = [] then None else matchPath (method_entries meth m) [] segs) of
        Some r \<Rightarrow> Some r
      | None \<Rightarrow>
          (case (if meth = ''HEAD'' then matchPath (method_entries ''GET'' m) [] segs else None) of
             Some r \<Rightarrow> Some r
           | None \<Rightarrow> matchPath (method_entries [] m) [] segs))"

definition exactMatch :: "pattern \<Rightarrow> string list \<Rightarrow> bool" where
  "exactMatch p segs \<longleftrightarrow> (if multi (pt_segments p) then last segs = [] \<and> length (pt_segments p) = length segs else True)"

datatype 'e found = Handler 'e "string list" | RedirectTo "string list" | NoHandler

definition mux_find :: "'e mux \<Rightarrow> string \<Rightarrow> string list \<Rightarrow> 'e found" where
  "mux_find m meth segs =
     (let r = mux_match m meth segs;
          exact = (case r of None \<Rightarrow> False | Some ((p, _), _) \<Rightarrow> exactMatch p segs)
      in if \<not> exact \<and> last segs \<noteq> [] \<and>
            (case mux_match m meth (segs @ [[]]) of None \<Rightarrow> False | Some ((p, _), _) \<Rightarrow> exactMatch p (segs @ [[]]))
         then RedirectTo (segs @ [[]])
         else case r of None \<Rightarrow> NoHandler | Some ((_, e), caps) \<Rightarrow> Handler e caps)"

subsection \<open>The routes of the servers\<close>

datatype api_op =
    SendMessageOp | SendBatchOp | GetMessageOp | ListMessagesOp | GetBalanceOp | ChargeOp | ListTransactionsOp | SummaryOp

datatype public_endpoint = PublicHealth | PublicReady | ApiEndpoint api_op | SpecEndpoint | DocsEndpoint | PublicMissing

definition api_Register :: "(string \<times> public_endpoint) list" where
  "api_Register =
     [(''POST /v1/messages'', ApiEndpoint SendMessageOp), (''POST /v1/messages/batch'', ApiEndpoint SendBatchOp),
      (''GET /v1/messages/{id}'', ApiEndpoint GetMessageOp), (''GET /v1/messages'', ApiEndpoint ListMessagesOp),
      (''GET /v1/balance'', ApiEndpoint GetBalanceOp), (''POST /v1/balance/charges'', ApiEndpoint ChargeOp),
      (''GET /v1/balance/transactions'', ApiEndpoint ListTransactionsOp), (''GET /v1/reports/summary'', ApiEndpoint SummaryOp),
      (''GET /openapi.yaml'', SpecEndpoint), (''GET /docs'', DocsEndpoint)]"

definition publicHandler :: "public_endpoint mux option" where
  "publicHandler = register_routes
     ([(''GET /healthz'', PublicHealth), (''GET /readyz'', PublicReady)] @ api_Register @ [(''/'', PublicMissing)]) []"

datatype admin_endpoint = AdminHealth | AdminReady | DlrEndpoint | MetricsEndpoint | ConsoleEndpoint string | PageEndpoint string | StaticEndpoint | AdminMissing

definition admin_Register :: "(string \<times> admin_endpoint) list" where
  "admin_Register =
     [(''GET /admin/api/customers'', ConsoleEndpoint ''listCustomers''), (''POST /admin/api/customers'', ConsoleEndpoint ''createCustomer''),
      (''GET /admin/api/customers/{id}'', ConsoleEndpoint ''getCustomer''), (''PATCH /admin/api/customers/{id}'', ConsoleEndpoint ''updateCustomer''),
      (''DELETE /admin/api/customers/{id}'', ConsoleEndpoint ''deleteCustomer''),
      (''POST /admin/api/customers/{id}/rotate-key'', ConsoleEndpoint ''rotateKey''),
      (''POST /admin/api/customers/{id}/credits'', ConsoleEndpoint ''addCredits''),
      (''GET /admin/api/messages'', ConsoleEndpoint ''listMessages''), (''GET /admin/api/messages/{id}'', ConsoleEndpoint ''getMessage''),
      (''GET /admin/api/system'', ConsoleEndpoint ''system''), (''GET /admin/api/invariants'', ConsoleEndpoint ''invariants''),
      (''GET /admin/api/providers/{name}/config'', ConsoleEndpoint ''proxyProvider /admin/config''),
      (''PUT /admin/api/providers/{name}/config'', ConsoleEndpoint ''proxyProvider /admin/config''),
      (''GET /admin/api/providers/{name}/messages'', ConsoleEndpoint ''proxyProvider /admin/messages''),
      (''GET /admin/api/providers/{name}/stats'', ConsoleEndpoint ''proxyProvider /admin/stats'')]"

definition registerDashboard :: "(string \<times> admin_endpoint) list" where
  "registerDashboard =
     [(''GET /dashboard/{$}'', PageEndpoint ''redirect''), (''GET /dashboard/customers'', PageEndpoint ''customersPage''),
      (''POST /dashboard/customers'', PageEndpoint ''createCustomerForm''), (''GET /dashboard/customers/{id}'', PageEndpoint ''customerPage''),
      (''POST /dashboard/customers/{id}/update'', PageEndpoint ''updateCustomerForm''),
      (''POST /dashboard/customers/{id}/credits'', PageEndpoint ''creditsForm''),
      (''POST /dashboard/customers/{id}/rotate-key'', PageEndpoint ''rotateKeyForm''),
      (''POST /dashboard/customers/{id}/delete'', PageEndpoint ''deleteCustomerForm''),
      (''GET /dashboard/messages'', PageEndpoint ''messagesPage''), (''GET /dashboard/messages/{id}'', PageEndpoint ''messagePage''),
      (''GET /dashboard/system'', PageEndpoint ''systemPage''), (''GET /dashboard/system/panel'', PageEndpoint ''systemPanel''),
      (''GET /dashboard/providers'', PageEndpoint ''providersIndex''), (''GET /dashboard/providers/{name}'', PageEndpoint ''providerPage''),
      (''GET /dashboard/providers/{name}/panel'', PageEndpoint ''providerPanel''),
      (''POST /dashboard/providers/{name}/config'', PageEndpoint ''providerConfigForm'')]"

definition adminHandler :: "admin_endpoint mux option" where
  "adminHandler = register_routes
     ([(''GET /healthz'', AdminHealth), (''GET /readyz'', AdminReady), (''POST /internal/dlr'', DlrEndpoint), (''GET /metrics'', MetricsEndpoint)] @
      admin_Register @ registerDashboard @ [(''GET /dashboard/static/'', StaticEndpoint), (''/'', AdminMissing)]) []"

datatype worker_endpoint = WorkerHealth | WorkerReady | WorkerMetrics | WorkerMissing

definition workerHandler :: "worker_endpoint mux option" where
  "workerHandler = register_routes
     [(''GET /healthz'', WorkerHealth), (''GET /readyz'', WorkerReady), (''GET /metrics'', WorkerMetrics), (''/'', WorkerMissing)] []"

datatype provider_endpoint = SendEndpoint | GetConfigEndpoint | PutConfigEndpoint | RecentEndpoint | StatsEndpoint

definition provider_Handler :: "provider_endpoint mux option" where
  "provider_Handler = register_routes
     [(''POST /send'', SendEndpoint), (''GET /admin/config'', GetConfigEndpoint), (''PUT /admin/config'', PutConfigEndpoint),
      (''GET /admin/messages'', RecentEndpoint), (''GET /admin/stats'', StatsEndpoint)] []"

subsection \<open>The search is right\<close>

text \<open>What a pattern matches, and what its wildcards capture.\<close>

fun seg_match :: "segment list \<Rightarrow> string list \<Rightarrow> string list option" where
  "seg_match [] [] = Some []"
| "seg_match (Lit s # ss) (x # xs) = (if s = x then seg_match ss xs else None)"
| "seg_match (Wild n # ss) (x # xs) = (if x \<noteq> [] then map_option (Cons x) (seg_match ss xs) else None)"
| "seg_match [Rest] (x # xs) = Some []"
| "seg_match ss xs = None"

lemma in_advance_lit: "(ss, x) \<in> set (advance_lit seg es) \<longleftrightarrow> (Lit seg # ss, x) \<in> set es"
  by (induction seg es rule: advance_lit.induct) auto

lemma in_advance_wild: "(ss, x) \<in> set (advance_wild es) \<longleftrightarrow> (\<exists>n. (Wild n # ss, x) \<in> set es)"
  by (induction es rule: advance_wild.induct) auto

lemma entry_at_SomeD: "entry_at ss es caps = Some (x, caps') \<Longrightarrow> (ss, x) \<in> set es \<and> caps' = caps"
  by (auto simp: entry_at_def dest: map_of_SomeD)

lemma entry_at_in: "(ss, x) \<in> set es \<Longrightarrow> entry_at ss es caps \<noteq> None"
  using weak_map_of_SomeI [of ss x es] by (auto simp: entry_at_def)

lemma matchPath_sound:
  assumes "matchPath es caps segs = Some (x, caps')"
  shows "\<exists>ss cs. (ss, x) \<in> set es \<and> seg_match ss segs = Some cs \<and> caps' = caps @ cs"
  using assms
proof (induction es caps segs rule: matchPath.induct)
  case (1 es caps)
  then show ?case using entry_at_SomeD [of "[]" es caps x caps'] by (intro exI [of _ "[]"]) simp
next
  case (2 es caps seg segs)
  show ?case
  proof (cases "matchPath (advance_lit seg es) caps segs")
    case (Some r)
    with 2 obtain ss cs where "(ss, x) \<in> set (advance_lit seg es)" "seg_match ss segs = Some cs" "caps' = caps @ cs" by auto
    then show ?thesis by (intro exI [of _ "Lit seg # ss"] exI [of _ cs]) (simp add: in_advance_lit)
  next
    case lit: None
    show ?thesis
    proof (cases "if seg \<noteq> [] then matchPath (advance_wild es) (caps @ [seg]) segs else None")
      case (Some r)
      then have seg: "seg \<noteq> []" by (auto split: if_splits)
      with Some lit "2.prems" have "matchPath (advance_wild es) (caps @ [seg]) segs = Some (x, caps')" by auto
      with "2.IH"(2) [OF lit seg] obtain ss cs where "(ss, x) \<in> set (advance_wild es)" "seg_match ss segs = Some cs" "caps' = (caps @ [seg]) @ cs" by auto
      moreover from this(1) obtain n where "(Wild n # ss, x) \<in> set es" by (auto simp: in_advance_wild)
      ultimately show ?thesis using seg by (intro exI [of _ "Wild n # ss"] exI [of _ "seg # cs"]) simp
    next
      case None
      with lit "2.prems" have "entry_at [Rest] es caps = Some (x, caps')" by auto
      from entry_at_SomeD [OF this] show ?thesis by (intro exI [of _ "[Rest]"] exI [of _ "[]"]) simp
    qed
  qed
qed

lemma matchPath_complete:
  assumes "(ss, x) \<in> set es" "seg_match ss segs = Some cs"
  shows "matchPath es caps segs \<noteq> None"
  using assms
proof (induction ss segs arbitrary: es caps cs x rule: seg_match.induct)
  case 1
  then show ?case using entry_at_in [of "[]" x es caps] by simp
next
  case (2 s ss seg segs)
  then have "matchPath (advance_lit seg es) caps segs \<noteq> None" by (auto simp: in_advance_lit split: if_splits)
  then show ?case by auto
next
  case (3 n ss seg segs)
  then obtain z where z: "seg \<noteq> []" "seg_match ss segs = Some z" by (auto split: if_splits)
  have "(ss, x) \<in> set (advance_wild es)" using "3.prems"(1) by (auto simp: in_advance_wild)
  from "3.IH" [OF z(1) this z(2), of "caps @ [seg]"] z(1) show ?case by (auto split: option.splits)
next
  case (4 seg segs)
  then have "entry_at [Rest] es caps \<noteq> None" using entry_at_in [of "[Rest]" x es caps] by simp
  then show ?case by (auto split: option.splits)
qed auto

definition request_matches :: "pattern \<Rightarrow> string \<Rightarrow> string list \<Rightarrow> bool" where
  "request_matches p meth segs \<longleftrightarrow>
     (pt_method p = [] \<or> pt_method p = meth \<or> meth = ''HEAD'' \<and> pt_method p = ''GET'') \<and> seg_match (pt_segments p) segs \<noteq> None"

lemma mux_match_sound:
  assumes "mux_match m meth segs = Some ((p, e), caps)"
  shows "(p, e) \<in> set m \<and> request_matches p meth segs \<and> seg_match (pt_segments p) segs = Some caps"
proof -
  from assms consider "matchPath (method_entries meth m) [] segs = Some ((p, e), caps)"
    | "meth = ''HEAD''" "matchPath (method_entries ''GET'' m) [] segs = Some ((p, e), caps)"
    | "matchPath (method_entries [] m) [] segs = Some ((p, e), caps)"
    by (auto simp: mux_match_def split: option.splits if_splits)
  then show ?thesis
    by cases (auto dest!: matchPath_sound simp: method_entries_def request_matches_def)
qed

lemma mux_match_complete:
  assumes "(p, e) \<in> set m" "request_matches p meth segs"
  shows "mux_match m meth segs \<noteq> None"
proof -
  from assms(2) obtain cs where cs: "seg_match (pt_segments p) segs = Some cs" by (auto simp: request_matches_def)
  have "matchPath (method_entries (pt_method p) m) [] segs \<noteq> None"
    by (rule matchPath_complete [OF _ cs, of "(p, e)"]) (use assms(1) in \<open>auto simp: method_entries_def image_iff\<close>)
  with assms(2) show ?thesis by (auto simp: request_matches_def mux_match_def split: option.splits)
qed

definition public_mux :: "public_endpoint mux" where "public_mux = the publicHandler"
definition admin_mux :: "admin_endpoint mux" where "admin_mux = the adminHandler"

lemma public_registers: "publicHandler \<noteq> None" by code_simp
lemma worker_registers: "workerHandler \<noteq> None" by code_simp
lemma provider_registers: "provider_Handler \<noteq> None" by code_simp
lemma admin_registers: "adminHandler \<noteq> None" by code_simp

subsection \<open>The public server\<close>

text \<open>A request with everything a handler may read of it; which body is decoded depends on the handler.\<close>

record public_request =
  pq_method :: string
  pq_path :: "string list"
  pq_authorization :: string
  pq_values :: "string \<Rightarrow> string"
  pq_message :: "request body"
  pq_batch :: "request list body"
  pq_charge :: "charge_request body"

datatype public_response =
    ApiResponse response | HealthResponse int string | SpecResponse | DocsResponse | MissingResponse http_error
  | Redirected "string list" | PlainNotFound

definition api_route :: "api_op \<Rightarrow> string list \<Rightarrow> public_request \<Rightarrow> route" where
  "api_route op caps q =
     (case op of
        SendMessageOp \<Rightarrow> PostMessages (pq_message q)
      | SendBatchOp \<Rightarrow> PostBatch (pq_batch q)
      | GetMessageOp \<Rightarrow> GetMessages (hd caps)
      | ListMessagesOp \<Rightarrow> ListMessagesRoute (pq_values q)
      | GetBalanceOp \<Rightarrow> GetBalanceRoute
      | ChargeOp \<Rightarrow> PostCharges (pq_charge q)
      | ListTransactionsOp \<Rightarrow> ListTransactionsRoute (pq_values q)
      | SummaryOp \<Rightarrow> GetSummary (pq_values q))"

definition health_response :: "int \<times> string \<Rightarrow> public_response" where
  "health_response r = HealthResponse (fst r) (snd r)"

definition public_serve ::
    "('l, 'r) api_world \<Rightarrow> error option \<Rightarrow> public_request \<Rightarrow> 'l server \<Rightarrow> 'l server \<times> public_response" where
  "public_serve w unready q sv =
     (case mux_find public_mux (pq_method q) (pq_path q) of
        RedirectTo path \<Rightarrow> (sv, Redirected path)
      | NoHandler \<Rightarrow> (sv, PlainNotFound)
      | Handler e caps \<Rightarrow>
          (case e of
             PublicHealth \<Rightarrow> (sv, health_response Healthz)
           | PublicReady \<Rightarrow> (sv, health_response (Readyz unready))
           | ApiEndpoint op \<Rightarrow>
               (case authed w (pq_authorization q) (api_route op caps q) sv of (sv', r) \<Rightarrow> (sv', ApiResponse r))
           | SpecEndpoint \<Rightarrow> (sv, SpecResponse)
           | DocsEndpoint \<Rightarrow> (sv, DocsResponse)
           | PublicMissing \<Rightarrow> (sv, MissingResponse NotFound)))"

lemma public_mux_eq:
  "public_mux =
    [(\<lparr>pt_method = ''GET'', pt_segments = [Lit ''healthz'']\<rparr>, PublicHealth),
     (\<lparr>pt_method = ''GET'', pt_segments = [Lit ''readyz'']\<rparr>, PublicReady),
     (\<lparr>pt_method = ''POST'', pt_segments = [Lit ''v1'', Lit ''messages'']\<rparr>, ApiEndpoint SendMessageOp),
     (\<lparr>pt_method = ''POST'', pt_segments = [Lit ''v1'', Lit ''messages'', Lit ''batch'']\<rparr>, ApiEndpoint SendBatchOp),
     (\<lparr>pt_method = ''GET'', pt_segments = [Lit ''v1'', Lit ''messages'', Wild ''id'']\<rparr>, ApiEndpoint GetMessageOp),
     (\<lparr>pt_method = ''GET'', pt_segments = [Lit ''v1'', Lit ''messages'']\<rparr>, ApiEndpoint ListMessagesOp),
     (\<lparr>pt_method = ''GET'', pt_segments = [Lit ''v1'', Lit ''balance'']\<rparr>, ApiEndpoint GetBalanceOp),
     (\<lparr>pt_method = ''POST'', pt_segments = [Lit ''v1'', Lit ''balance'', Lit ''charges'']\<rparr>, ApiEndpoint ChargeOp),
     (\<lparr>pt_method = ''GET'', pt_segments = [Lit ''v1'', Lit ''balance'', Lit ''transactions'']\<rparr>, ApiEndpoint ListTransactionsOp),
     (\<lparr>pt_method = ''GET'', pt_segments = [Lit ''v1'', Lit ''reports'', Lit ''summary'']\<rparr>, ApiEndpoint SummaryOp),
     (\<lparr>pt_method = ''GET'', pt_segments = [Lit ''openapi.yaml'']\<rparr>, SpecEndpoint),
     (\<lparr>pt_method = ''GET'', pt_segments = [Lit ''docs'']\<rparr>, DocsEndpoint),
     (\<lparr>pt_method = [], pt_segments = [Rest]\<rparr>, PublicMissing)]"
  by code_simp

lemma mux_find_Handler:
  assumes "mux_find m meth segs = Handler e caps"
  shows "\<exists>p. (p, e) \<in> set m \<and> request_matches p meth segs \<and> seg_match (pt_segments p) segs = Some caps"
proof -
  from assms obtain p where "mux_match m meth segs = Some ((p, e), caps)"
    by (auto simp: mux_find_def Let_def split: if_splits option.splits)
  from mux_match_sound [OF this] show ?thesis by blast
qed

lemma seg_match_lits: "seg_match (map Lit ss) segs = Some cs \<Longrightarrow> segs = ss"
proof (induction ss arbitrary: segs)
  case Nil
  then show ?case by (cases segs) auto
next
  case (Cons a ss)
  then show ?case by (cases segs) (auto split: if_splits)
qed

lemma public_Post:
  assumes "mux_find public_mux meth segs = Handler (ApiEndpoint op) caps" "op \<in> {SendMessageOp, SendBatchOp, ChargeOp}"
  shows "meth = ''POST'' \<and> segs \<in> {[''v1'', ''messages''], [''v1'', ''messages'', ''batch''], [''v1'', ''balance'', ''charges'']}"
proof -
  have "meth = ''POST'' \<and> (\<exists>ss\<in>{[''v1'', ''messages''], [''v1'', ''messages'', ''batch''], [''v1'', ''balance'', ''charges'']}.
      seg_match (map Lit ss) segs = Some caps)"
    using mux_find_Handler [OF assms(1)] assms(2) by (auto simp: public_mux_eq request_matches_def simp del: seg_match.simps)
  then show ?thesis using seg_match_lits by blast
qed

lemma handle_reads:
  assumes "handle w (api_route op caps q) c sv = (sv', hs, r)" "op \<notin> {SendMessageOp, SendBatchOp, ChargeOp}"
  shows "sv_db sv' = sv_db sv"
  using assms by (cases op) (auto simp: api_route_def handle_def getMessage_def listMessages_def getBalance_def listTransactions_def summary_handler_def)


subsection \<open>Instances\<close>

definition demo_public_request :: public_request where
  "demo_public_request = \<lparr>pq_method = ''POST'', pq_path = path_segments ''/v1/messages'', pq_authorization = demo_header, pq_values = (\<lambda>k. []),
     pq_message = demo_body, pq_batch = \<lparr>bd_media_type = None, bd_decoded = Inl EOF, bd_at_end = True\<rparr>,
     pq_charge = \<lparr>bd_media_type = None, bd_decoded = Inl EOF, bd_at_end = True\<rparr>\<rparr>"

lemma demo_path: "path_segments ''/v1/messages'' = [''v1'', ''messages'']"
  by code_simp

lemma demo_find: "mux_find public_mux ''POST'' [''v1'', ''messages''] = Handler (ApiEndpoint SendMessageOp) []"
  by code_simp


end
