(* ===== verification/Feedback.thy ===== *)
theory Feedback
  imports Fakeprovider Callback
begin

text \<open>
  The operator's delivery reports at the gateway: the body the goroutine of \<^verbatim>\<open>scheduleDLR\<close> posts (\<^verbatim>\<open>internal/fakeprovider/dlr.go\<close>), in
  the text form the gateway's callback reads (\<^verbatim>\<open>internal/dlr/handler.go\<close>), and what comes of its attempts.
\<close>

subsection \<open>The report\<close>

definition dlr_text :: "dlr_state \<Rightarrow> string" where
  "dlr_text s = (case s of DlrNone \<Rightarrow> [] | DlrPending \<Rightarrow> ''pending'' | DlrDelivered \<Rightarrow> ''delivered'' | DlrUndelivered \<Rightarrow> ''undelivered'')"

definition dlr_report :: "gtime \<Rightarrow> scheduled \<Rightarrow> fake \<Rightarrow> report_body" where
  "dlr_report now sc p =
     \<lparr>rb_message_id = sc_message_id sc, rb_provider = fk_name p, rb_provider_ref = sr_provider_ref (fk_records p ! sc_record sc),
      rb_status = dlr_text (sc_status sc), rb_reported_at = format_TimeLayout now\<rparr>"

text \<open>The JSON of a report, which \<^verbatim>\<open>deliver\<close> marshals once.\<close>

definition report_json :: "report_body \<Rightarrow> json" where
  "report_json rep =
     JObj [(''message_id'', JStr (rb_message_id rep)), (''provider'', JStr (rb_provider rep)), (''provider_ref'', JStr (rb_provider_ref rep)),
       (''status'', JStr (rb_status rep)), (''reported_at'', JStr (rb_reported_at rep))]"

text \<open>The gateway decodes it into its own \<^verbatim>\<open>reportBody\<close>: a key that is no field's name, but for the case of its ASCII letters, is
  an error, and so is a value that is no string; null leaves a field as it is.\<close>

definition report_fields :: "(string \<times> (string \<Rightarrow> report_body \<Rightarrow> report_body)) list" where
  "report_fields =
     [(''message_id'', \<lambda>s. rb_message_id_update (\<lambda>_. s)), (''provider'', \<lambda>s. rb_provider_update (\<lambda>_. s)),
      (''provider_ref'', \<lambda>s. rb_provider_ref_update (\<lambda>_. s)), (''status'', \<lambda>s. rb_status_update (\<lambda>_. s)),
      (''reported_at'', \<lambda>s. rb_reported_at_update (\<lambda>_. s))]"

definition report_field :: "string \<Rightarrow> (string \<times> (string \<Rightarrow> report_body \<Rightarrow> report_body)) option" where
  "report_field k =
     (case find (\<lambda>f. fst f = k) report_fields of
        Some f \<Rightarrow> Some f
      | None \<Rightarrow> find (\<lambda>f. EqualFold (fst f) k) report_fields)"

definition quoted :: "string \<Rightarrow> string" where
  "quoted s = [quote_char] @ s @ [quote_char]"

fun decode_fields :: "(string \<times> json) list \<Rightarrow> report_body \<Rightarrow> decode_failure + report_body" where
  "decode_fields [] rep = Inr rep"
| "decode_fields ((k, v) # ms) rep =
     (case report_field k of
        None \<Rightarrow> Inl (UnknownField (quoted k))
      | Some (name, set_field) \<Rightarrow>
          (case v of
             JStr s \<Rightarrow> decode_fields ms (set_field s rep)
           | JNull \<Rightarrow> decode_fields ms rep
           | _ \<Rightarrow> Inl (UnmarshalTypeError (quoted name) ''string'')))"

definition zero_report :: report_body where
  "zero_report = \<lparr>rb_message_id = [], rb_provider = [], rb_provider_ref = [], rb_status = [], rb_reported_at = []\<rparr>"

definition decode_report :: "string \<Rightarrow> decode_failure + report_body" where
  "decode_report s =
     (if MaxBodyBytes < int (length s) then Inl TooLarge
      else case read_json s of
          None \<Rightarrow> Inl OtherFailure
        | Some (JObj ms) \<Rightarrow> decode_fields ms zero_report
        | Some JNull \<Rightarrow> Inr zero_report
        | Some v \<Rightarrow> Inl (UnmarshalTypeError (quoted []) ''dlr.reportBody''))"

text \<open>\<^verbatim>\<open>post\<close>: the JSON body with its content type, and the secret of the configuration in the header.\<close>

definition post_body :: "report_body \<Rightarrow> report_body body" where
  "post_body rep = \<lparr>bd_media_type = Some ''application/json'', bd_decoded = decode_report (encode_json (report_json rep)), bd_at_end = True\<rparr>"

definition post :: "parsers \<Rightarrow> dlr_handler \<Rightarrow> string \<Rightarrow> report_body \<Rightarrow> (report \<Rightarrow> submit_fate) \<Rightarrow> int" where
  "post ps h secret rep fate = callback_status (ServeHTTP ps h secret (post_body rep) fate)"

subsection \<open>What is scheduled can be reported\<close>

text \<open>A scheduled report refers to a record that has the provider's reference, and its status is final.\<close>

definition due_ok :: "fake \<Rightarrow> bool" where
  "due_ok p \<longleftrightarrow> list_all (\<lambda>sc. sc_record sc < length (fk_records p) \<and> sr_provider_ref (fk_records p ! sc_record sc) \<noteq> [] \<and>
     (sc_status sc = DlrDelivered \<or> sc_status sc = DlrUndelivered)) (fk_scheduled p)"

lemma due_ok_frame [simp]:
  "due_ok (count f p) = due_ok p" "due_ok (p\<lparr>fk_dedup := ds\<rparr>) = due_ok p" "due_ok (p\<lparr>fk_settings := s\<rparr>) = due_ok p"
  by (simp_all add: due_ok_def count_def)

lemma due_ok_log [simp]: "due_ok p \<Longrightarrow> due_ok (log_record r p)"
  by (auto simp: due_ok_def log_record_def recent_add_def list_all_iff nth_append)

lemma due_ok_update:
  assumes "due_ok p" "\<And>r. sr_provider_ref (f r) = sr_provider_ref r"
  shows "due_ok (recent_update i f p)"
proof -
  have "sr_provider_ref (xs[i := f (xs ! i)] ! j) = sr_provider_ref (xs ! j)" for xs j
    using assms(2) by (cases "i < length xs") (auto simp: nth_list_update list_update_beyond)
  with assms(1) show ?thesis by (simp add: due_ok_def recent_update_def list_all_iff)
qed

lemma due_ok_replay: "due_ok p \<Longrightarrow> due_ok (fst (replay a p))"
  by (simp add: replay_def due_ok_update)

lemma due_ok_drop:
  assumes "due_ok p" "set scs \<subseteq> set (fk_scheduled p)"
  shows "due_ok (p\<lparr>fk_scheduled := scs\<rparr>)"
  using assms by (auto simp: due_ok_def list_all_iff)

lemma due_ok_schedule:
  assumes "due_ok p" "i = length (fk_records p)" "sr_provider_ref r \<noteq> []"
  shows "due_ok (log_record r (scheduleDLR w mid i to s p))"
  using assms by (auto simp: due_ok_def scheduleDLR_def log_record_def recent_add_def count_def Let_def nth_append list_all_iff)

lemma newRef_ne [simp]: "newRef b p \<noteq> []"
  by (simp add: newRef_def)

lemma fk_records_count [simp]: "fk_records (count f p) = fk_records p"
  by (simp add: count_def)

lemma due_ok_accept: "due_ok p \<Longrightarrow> due_ok (fst (send_accept w s req p))"
  by (auto simp: send_accept_def Let_def due_ok_replay split: prod.splits intro!: due_ok_schedule)

lemma due_ok_decide: "due_ok p \<Longrightarrow> due_ok (fst (send_decide w s req p))"
  by (auto simp: send_decide_def due_ok_replay split: option.splits)

lemma due_ok_begin: "due_ok p \<Longrightarrow> due_ok (fst (send_begin w body p))"
  by (auto simp: send_begin_def Let_def split: option.splits)

lemma due_ok_send_dlr:
  assumes "due_ok p"
  shows "due_ok (send_dlr now is_closed posts sleeps k p)"
proof -
  have "set (take k scs @ drop (Suc k) scs) \<subseteq> set scs" for scs :: "scheduled list"
    using set_take_subset [of k scs] set_drop_subset [of "Suc k" scs] by auto
  then show ?thesis using assms
    by (auto simp: send_dlr_def Let_def due_ok_update intro!: due_ok_drop) (auto simp: count_def recent_update_def dest: in_set_takeD in_set_dropD)
qed

fun due_inv :: "fake_run \<Rightarrow> bool" where
  "due_inv (p, ans, due) = due_ok p"

lemma due_inv_step:
  assumes "fake_step r r'" "due_inv r"
  shows "due_inv r'"
  using assms(1)
proof (cases rule: fake_step.cases)
  case (fake_decide w s req p p' reply ans due)
  then show ?thesis using assms(2) due_ok_decide [of p w s req] by simp
next
  case (fake_accept w s req p p' reply ans due)
  then show ?thesis using assms(2) due_ok_accept [of p w s req] by simp
qed (use assms(2) in \<open>auto simp: due_ok_begin due_ok_send_dlr handlePutConfig_def split: sum.splits\<close>)

interpretation due_runs: invariant_system fake_init fake_step due_inv
proof
  show "fake_init r \<Longrightarrow> due_inv r" for r by (cases r) (auto simp: new_fake_def due_ok_def)
qed (rule due_inv_step)

subsection \<open>Reports arrive\<close>

definition report_of :: "uuid \<Rightarrow> scheduled \<Rightarrow> fake \<Rightarrow> report" where
  "report_of u sc p =
     \<lparr>rp_message_id = u, rp_provider = fk_name p, rp_provider_ref = sr_provider_ref (fk_records p ! sc_record sc),
      rp_status = report_status (dlr_text (sc_status sc))\<rparr>"

text \<open>The two ends agree on the names of the fields.\<close>

definition transmissible :: "report_body \<Rightarrow> bool" where
  "transmissible rep \<longleftrightarrow> list_all valid_utf8 [rb_message_id rep, rb_provider rep, rb_provider_ref rep] \<and>
     length (rb_message_id rep) + length (rb_provider rep) + length (rb_provider_ref rep) \<le> 100000"

lemma transmissible_json:
  assumes "transmissible rep" "ascii (rb_status rep)" "ascii (rb_reported_at rep)" "length (rb_status rep) \<le> 11" "length (rb_reported_at rep) = 24"
  shows "json_utf8 (report_json rep)" "int (length (encode_json (report_json rep))) \<le> MaxBodyBytes"
proof -
  show "json_utf8 (report_json rep)" using assms(1-3) by (simp add: report_json_def transmissible_def ascii_utf8)
  have "length (encode_json (report_json rep)) \<le> length (json_string (rb_message_id rep)) + length (json_string (rb_provider rep)) +
      length (json_string (rb_provider_ref rep)) + length (json_string (rb_status rep)) + length (json_string (rb_reported_at rep)) + 500"
    using json_string_length [of "''message_id''"] json_string_length [of "''provider''"] json_string_length [of "''provider_ref''"]
      json_string_length [of "''status''"] json_string_length [of "''reported_at''"]
    by (simp add: report_json_def)
  then show "int (length (encode_json (report_json rep))) \<le> MaxBodyBytes"
    using assms(1,4,5) json_string_length [of "rb_message_id rep"] json_string_length [of "rb_provider rep"] json_string_length [of "rb_provider_ref rep"]
      json_string_length [of "rb_status rep"] json_string_length [of "rb_reported_at rep"]
    by (simp add: transmissible_def MaxBodyBytes_def)
qed

lemma decode_report_json:
  assumes "json_utf8 (report_json rep)" "int (length (encode_json (report_json rep))) \<le> MaxBodyBytes"
  shows "decode_report (encode_json (report_json rep)) = Inr rep"
proof -
  have "read_json (encode_json (report_json rep)) = Some (report_json rep)" by (rule read_json_encode [OF assms(1)])
  moreover have "decode_fields [(''message_id'', JStr (rb_message_id rep)), (''provider'', JStr (rb_provider rep)),
      (''provider_ref'', JStr (rb_provider_ref rep)), (''status'', JStr (rb_status rep)), (''reported_at'', JStr (rb_reported_at rep))] zero_report = Inr rep"
    by (simp add: report_field_def report_fields_def zero_report_def)
  ultimately show ?thesis using assms(2) by (simp add: decode_report_def) (simp add: report_json_def)
qed

lemma gateway_receives:
  assumes "due_ok p" "sc \<in> set (fk_scheduled p)" "fk_name p \<in> set providers" "parse_uuid ps (sc_message_id sc) = Some u"
    and "zero_time \<le> now" "now < year_10000" "transmissible (dlr_report now sc p)"
  shows "receive ps (NewHandler secret providers) secret (post_body (dlr_report now sc p)) = Inr (report_of u sc p)"
proof -
  have "parse_RFC3339Nano (format_TimeLayout now) \<noteq> None" using format_parse [OF four_digit_yearI [OF assms(5,6)]] by simp
  moreover have "sr_provider_ref (fk_records p ! sc_record sc) \<noteq> []" "dlr_text (sc_status sc) = ''delivered'' \<or> dlr_text (sc_status sc) = ''undelivered''"
    using assms(1,2) by (auto simp: due_ok_def list_all_iff dlr_text_def)
  moreover have "length (dlr_text (sc_status sc)) \<le> 11" "ascii (dlr_text (sc_status sc))" by (simp_all add: dlr_text_def split: dlr_state.splits)
  then have "decode_report (encode_json (report_json (dlr_report now sc p))) = Inr (dlr_report now sc p)"
    using transmissible_json [OF assms(7)] format_TimeLayout_length [OF four_digit_yearI [OF assms(5,6)]]
    by (intro decode_report_json) (simp_all add: dlr_report_def)
  ultimately show ?thesis
    using assms(3,4)
    by (auto simp: receive_def NewHandler_def post_body_def DecodeJSON_def validate_def validate_problems_def dlr_report_def report_of_def)
qed

lemma post_status:
  assumes "receive ps h secret (post_body rep) = Inr r"
  shows "post ps h secret rep fate = (case Submit (fate r) of Inl err \<Rightarrow> 503 | Inr out \<Rightarrow> 200)"
  using assms by (simp add: post_def ServeHTTP_def callback_status_def NewError_def split: sum.splits)



end
