(* ===== verification/Wakeup.thy ===== *)
theory Wakeup
  imports Worker Replay
begin

text \<open>
  How an Express message reaches a worker without waiting for the poll interval: the notification of the accept
  transaction, the listener of \<^verbatim>\<open>internal/dispatch/listener.go\<close> and the wake-up channel of the Express pool, as a step relation
  over all interleavings. No wake-up is lost between a claim that found nothing and the wait that follows it.
\<close>

subsection \<open>The listener\<close>

text \<open>A listener without a session, one with a session in which notifications are queued, or one that has
  returned. The ghost fields: the Express messages committed since the last claim query, and whether one of their
  notifications found no session or was lost with it, in which case the poll interval decides.\<close>

datatype listener = Disconnected | Listening nat | ListenerDone

record express_run =
  ex_pool :: pool_run
  ex_listener :: listener
  ex_fresh :: "uuid list"
  ex_missed :: bool

definition new_express :: "db \<Rightarrow> db \<Rightarrow> uuid list" where
  "new_express d d' = map q_message_id (filter (\<lambda>q. q_lane q = ExpressLane \<and> \<not> has_key q_message_id (q_message_id q) (queue d)) (queue d'))"

text \<open>A commit of acceptance at the listener: its notification is queued in the session, if there is one.\<close>

definition notified :: "bool \<Rightarrow> listener \<Rightarrow> listener" where
  "notified notify l = (case l of Listening n \<Rightarrow> Listening (if notify then Suc n else n) | _ \<Rightarrow> l)"

fun in_session :: "listener \<Rightarrow> bool" where
  "in_session (Listening n) = True"
| "in_session _ = False"

text \<open>\<^verbatim>\<open>listenOnce\<close> in the loop of \<^verbatim>\<open>listen\<close>: a connection or the \<^verbatim>\<open>LISTEN\<close> may fail, the session delivers a notification
  or ends with an error, and the loop returns when it finds its context done.\<close>

inductive listen_step :: "express_run \<Rightarrow> express_run \<Rightarrow> bool" where
  listen_fails: "ex_listener s = Disconnected \<Longrightarrow> listen_step s s"
| listens: "ex_listener s = Disconnected \<Longrightarrow> listen_step s (s\<lparr>ex_listener := Listening 0\<rparr>)"
| delivers: "ex_listener s = Listening (Suc n) \<Longrightarrow>
    listen_step s (s\<lparr>ex_listener := Listening n, ex_pool := (ex_pool s)\<lparr>pr_pool := signal (pr_pool (ex_pool s))\<rparr>\<rparr>)"
| session_ends: "ex_listener s = Listening n \<Longrightarrow> listen_step s (s\<lparr>ex_listener := Disconnected, ex_missed := (ex_missed s \<or> 0 < n)\<rparr>)"
| listener_ends: "ex_listener s = Disconnected \<Longrightarrow> listen_step s (s\<lparr>ex_listener := ListenerDone\<rparr>)"

subsection \<open>All steps\<close>

text \<open>The pool's claim query sees everything committed before it; only an empty one leads to the wait. A commit
  is acceptance in a state that has the gateway's invariant.\<close>

inductive express_step :: "string \<Rightarrow> worker_config \<Rightarrow> express_run \<Rightarrow> express_run \<Rightarrow> bool" for wid cfg where
  queries: "pr_phase (ex_pool s) = Claiming lane taken \<Longrightarrow> taken - length jobs \<le> pl_slots (pr_pool (ex_pool s)) \<Longrightarrow>
    claim now clock wid (wc_lease_duration cfg) locked lane taken (pr_db (ex_pool s)) = (d, jobs) \<Longrightarrow>
    express_step wid cfg s (s\<lparr>ex_pool := claim_done taken d jobs (ex_pool s), ex_fresh := [], ex_missed := False\<rparr>)"
| moves: "pool_step wid cfg (ex_pool s) p \<Longrightarrow> (pr_phase p = Idle \<longrightarrow> pr_phase (ex_pool s) = Idle) \<Longrightarrow>
    express_step wid cfg s (s\<lparr>ex_pool := p\<rparr>)"
| listener: "listen_step s t \<Longrightarrow> express_step wid cfg s t"
| commits: "db_inv (env_now e) (pr_db (ex_pool s)) \<Longrightarrow> items_ok acfg items \<Longrightarrow>
    insert_accept fault e acfg cid items (pr_db (ex_pool s)) = (d, Inr (a, notify)) \<Longrightarrow>
    express_step wid cfg s (s\<lparr>ex_pool := (ex_pool s)\<lparr>pr_db := d\<rparr>, ex_listener := notified notify (ex_listener s),
      ex_fresh := ex_fresh s @ new_express (pr_db (ex_pool s)) d,
      ex_missed := (ex_missed s \<or> notify \<and> \<not> in_session (ex_listener s))\<rparr>)"

definition express_init :: "pool \<Rightarrow> express_run \<Rightarrow> bool" where
  "express_init p s \<longleftrightarrow> pool_init p (ex_pool s) \<and> ex_listener s = Disconnected \<and> ex_fresh s = [] \<and> \<not> ex_missed s"

subsection \<open>No wake-up is lost\<close>

definition wake_inv :: "express_run \<Rightarrow> bool" where
  "wake_inv s \<longleftrightarrow> (pr_phase (ex_pool s) = Idle \<and> ex_fresh s \<noteq> [] \<and> \<not> ex_missed s \<longrightarrow>
     pl_wake (pr_pool (ex_pool s)) \<or> (\<exists>n. ex_listener s = Listening (Suc n)))"

lemma NormalLane_not_express: "NormalLane i \<noteq> ExpressLane"
  by (simp add: NormalLane_def ExpressLane_def)

lemma new_express_notified:
  assumes "db_inv (env_now e) d" "items_ok acfg items" "insert_accept fault e acfg cid items d = (d', Inr (a, notify))" "new_express d d' \<noteq> []"
  shows "notify"
proof -
  have d': "queue d' = queue d @ accept_queue_rows e acfg cid items" "notify = list_ex (\<lambda>it. it_type it = Express) items"
    using insert_accept_InrD [OF assms(1-3)] by (simp_all add: accept_effect_def)
  obtain q where q: "q \<in> set (accept_queue_rows e acfg cid items)" "q_lane q = ExpressLane"
    using assms(4) by (auto simp: new_express_def d' filter_empty_conv has_key_iff)
  then obtain it where "it \<in> set items" "Lane (it_type it) cid (cfg_normal_lanes acfg) = ExpressLane"
    by (auto simp: accept_queue_rows_def new_queue_row_def dest!: set_zip_rightD)
  then show ?thesis using d'(2) by (auto simp: Lane_def NormalLane_not_express list_ex_iff split: if_splits)
qed

lemma idle_keeps_wake:
  assumes "pool_step wid cfg p p'" "pr_phase p = Idle" "pr_phase p' = Idle" "pl_wake (pr_pool p)"
  shows "pl_wake (pr_pool p')"
  using assms by cases (auto simp: signal_def release_def)

lemma listen_step_wake: "listen_step s t \<Longrightarrow> wake_inv s \<Longrightarrow> wake_inv t"
  by (erule listen_step.cases) (auto simp: wake_inv_def signal_def gr0_conv_Suc)

lemma express_step_wake:
  assumes "wake_inv s" "express_step wid cfg s t"
  shows "wake_inv t"
  using assms(2)
proof cases
  case (moves p)
  then show ?thesis using assms(1) idle_keeps_wake [OF moves(2)] by (auto simp: wake_inv_def)
next
  case (commits e acfg items fault cid d a notify)
  have "new_express (pr_db (ex_pool s)) d \<noteq> [] \<Longrightarrow> notify" using new_express_notified [OF commits(2-4)] .
  then show ?thesis using assms(1) commits(1) by (cases "ex_listener s") (auto simp: wake_inv_def notified_def)
qed (use assms(1) listen_step_wake in \<open>auto simp: wake_inv_def\<close>)

interpretation express_wakes: invariant_system "express_init p" "express_step wid cfg" wake_inv for p wid cfg
proof
  show "express_init p s \<Longrightarrow> wake_inv s" for s by (simp add: express_init_def wake_inv_def pool_init_def)
qed (rule express_step_wake)

text \<open>C21: No wake-up is lost: whenever the Express pool waits although an Express message was committed after its last
  look into the queue, the end of its wait is already in the channel or comes with the next notification the listener
  reads, however commits, listener, claims and sends interleave; only a notification that found no session or broke
  off with it leaves the message to the poll interval.\<close>

theorem express_woken:
  assumes "reachable (express_init (newPool name pol [ExpressLane] n)) (express_step wid cfg) s"
    and "pr_phase (ex_pool s) = Idle" "ex_fresh s \<noteq> []" "\<not> ex_missed s"
  shows "\<exists>t. (t = s \<or> listen_step s t) \<and> pr_phase (ex_pool t) = Idle \<and> pl_wake (pr_pool (ex_pool t)) \<and> ex_fresh t = ex_fresh s"
proof -
  have "wake_inv s" by (rule express_wakes.reachable_invariant [OF assms(1)])
  then consider "pl_wake (pr_pool (ex_pool s))" | k where "ex_listener s = Listening (Suc k)"
    using assms(2-4) by (auto simp: wake_inv_def)
  then show ?thesis
  proof cases
    case 2
    from delivers [OF this] show ?thesis using assms(2) by (fastforce simp: signal_def)
  qed (use assms(2) in blast)
qed

subsection \<open>Instances\<close>

text \<open>An Express pool finds nothing and waits; its listener connects; an Express message is accepted.\<close>

abbreviation demo_express_pool :: pool where
  "demo_express_pool \<equiv> newPool ''express'' (wc_express demo_pool_config) [ExpressLane] 1"

definition demo_express_item :: item where
  "demo_express_item = (demo_item ''Yo'' ''b1'')\<lparr>it_type := Express, it_cost := 20\<rparr>"

definition demo_express_db :: db where
  "demo_express_db = accept_effect demo_env demo_config 1 [demo_express_item] demo_db"

definition demo_express_start :: express_run where
  "demo_express_start = \<lparr>ex_pool = \<lparr>pr_pool = demo_express_pool, pr_phase = Top, pr_empty = 0, pr_sends = [], pr_log = [], pr_db = demo_db\<rparr>,
     ex_listener = Disconnected, ex_fresh = [], ex_missed = False\<rparr>"

definition demo_express_idle :: express_run where
  "demo_express_idle = demo_express_start\<lparr>ex_pool := claim_done 1 demo_db [] (claiming (ex_pool demo_express_start)), ex_listener := Listening 0\<rparr>"

definition demo_express_waiting :: express_run where
  "demo_express_waiting = demo_express_idle\<lparr>ex_pool := (ex_pool demo_express_idle)\<lparr>pr_db := demo_express_db\<rparr>,
     ex_listener := Listening 1, ex_fresh := [100]\<rparr>"

abbreviation express_reachable :: "express_run \<Rightarrow> bool" where
  "express_reachable \<equiv> reachable (express_init demo_express_pool) (express_step ''w1'' demo_pool_config)"

lemma express_next:
  assumes "express_reachable s" "express_step ''w1'' demo_pool_config s t" "t = t'"
  shows "express_reachable t'"
  using reachable_step [OF assms(1,2)] unfolding assms(3) .

lemmas demo_express_simps = demo_express_start_def demo_express_idle_def demo_express_waiting_def claim_done_def claiming_def newPool_def
  next_lane_def rotate_lane_def release_def Let_def

lemma demo_express_claim: "claim 1000 0 ''w1'' (30 * second) (\<lambda>u. False) ExpressLane 1 demo_db = (demo_db, [])"
  by (simp add: claim_def picked_def ready_def row_of_def update_where_def ExpressLane_def lease_row_def demo_db_def demo_message_def
      demo_queue_row_def map_filter_def)

lemma demo_express_ok: "items_ok demo_config [demo_express_item]"
proof -
  have "item_ok demo_config demo_express_item"
    by (simp add: item_ok_def demo_express_item_def demo_item_def demo_texts ValidRecipient_def ValidClientRef_def is_ref_char_def is_alnum_def
        is_digit_def demo_config_def Cost_def PerSegment_def in_int64_def max_int64_def)
  then show ?thesis by (simp add: items_ok_def demo_config_ok MaxBatchSize_def)
qed

lemma demo_express_accept:
  "\<exists>a. insert_accept NoFault demo_env demo_config 1 [demo_express_item] demo_db = (demo_express_db, Inr (a, True))"
proof -
  have "accept_fresh demo_env demo_config 1 [demo_express_item] demo_db"
    by (simp add: accept_fresh_def accept_ids_def accept_rows_def demo_defs new_message_def demo_express_item_def demo_item_def NullString_def)
  from insert_body_eq [OF demo_db_inv demo_express_ok this demo_customer_row]
  show ?thesis by (simp add: insert_accept_def WithTx_def demo_express_db_def demo_express_item_def demo_item_def demo_customer_def)
qed

lemma demo_express_idle_reachable: "express_reachable demo_express_idle"
proof -
  let ?p0 = "ex_pool demo_express_start" and ?start = demo_express_start
  let ?p1 = "?p0\<lparr>pr_phase := Holding, pr_pool := (pr_pool ?p0)\<lparr>pl_slots := pl_slots (pr_pool ?p0) + 1\<rparr>\<rparr>"
  let ?p2 = "?p1\<lparr>pr_phase := Taking 1 1\<rparr>"
  have r0: "express_reachable ?start"
    by (rule reachable_init) (simp add: express_init_def pool_init_def demo_express_start_def demo_db_def demo_queue_row_def)
  have "pool_step ''w1'' demo_pool_config ?p0 ?p1" by (rule acquire) (simp_all add: demo_express_start_def newPool_def)
  then have r1: "express_reachable (?start\<lparr>ex_pool := ?p1\<rparr>)" by (intro express_next [OF r0 moves [of _ _ _ ?p1]]) simp_all
  have "pool_step ''w1'' demo_pool_config ?p1 ?p2" by (rule sized [where budget = 1]) (simp_all add: claim_want_def demo_batch)
  then have r2: "express_reachable (?start\<lparr>ex_pool := ?p2\<rparr>)" by (intro express_next [OF r1 moves [of _ _ _ ?p2]]) simp_all
  have "pool_step ''w1'' demo_pool_config ?p2 (claiming ?p0)"
    using start_claim [of ?p2 1 1 "''w1''" demo_pool_config] by (simp add: claiming_def next_lane_def Let_def)
  then have r3: "express_reachable (?start\<lparr>ex_pool := claiming ?p0\<rparr>)"
    by (intro express_next [OF r2 moves [of _ _ _ "claiming ?p0"]]) (simp_all add: claiming_def Let_def)
  have r4: "express_reachable (?start\<lparr>ex_pool := claim_done 1 demo_db [] (claiming ?p0)\<rparr>)"
    by (rule express_next [OF r3 queries [of _ ExpressLane 1 "[]" 1000 0 _ _ "\<lambda>u. False" demo_db]])
      (simp_all add: demo_express_claim [unfolded One_nat_def] demo_batch demo_express_simps)
  show ?thesis
    by (rule express_next [OF r4 listener [OF listens]]) (simp_all add: demo_express_simps)
qed

lemma demo_express_waiting_reachable: "express_reachable demo_express_waiting"
proof -
  obtain a where a: "insert_accept NoFault demo_env demo_config 1 [demo_express_item] demo_db = (demo_express_db, Inr (a, True))"
    using demo_express_accept by blast
  have db: "pr_db (ex_pool demo_express_idle) = demo_db" by (simp add: demo_express_simps)
  have new: "new_express demo_db demo_express_db = [100]"
    by (simp add: new_express_def demo_express_db_def accept_effect_def accept_queue_rows_def accept_rows_def accept_ids_def new_queue_row_def
        new_message_def demo_defs demo_express_item_def demo_item_def Lane_def has_key_def ExpressLane_def)
  have now: "env_now demo_env = 1000" by (simp add: demo_env_def)
  note step = commits [of demo_env demo_express_idle demo_config "[demo_express_item]" NoFault 1 demo_express_db a True, unfolded db now,
    OF demo_db_inv demo_express_ok a]
  show ?thesis
    by (rule express_next [OF demo_express_idle_reachable step]) (simp add: new demo_express_simps notified_def)
qed

theorem express_woken_witness:
  "\<exists>t. (t = demo_express_waiting \<or> listen_step demo_express_waiting t) \<and> pr_phase (ex_pool t) = Idle \<and> pl_wake (pr_pool (ex_pool t)) \<and>
    ex_fresh t = [100]"
  using express_woken [OF demo_express_waiting_reachable] by (simp add: demo_express_simps)

end
