(* ===== verification/Wire.thy ===== *)
theory Wire
  imports Api Middleware
begin

text \<open>
  The responses of the customer API as bytes: the JSON of every response type of \<^verbatim>\<open>internal/api: messages.go, balance.go, reports.go\<close>
  with its field names, and of the list envelope of \<^verbatim>\<open>internal/httpx/query.go\<close>. A client that reads a message from a response
  gets the message, with its times to the millisecond.
\<close>

subsection \<open>Responses\<close>

definition reason_string :: "failure_reason \<Rightarrow> string" where
  "reason_string r = (case r of ReasonRejected \<Rightarrow> ''rejected'' | ReasonAttemptsExhausted \<Rightarrow> ''attempts_exhausted'' | ReasonExpired \<Rightarrow> ''expired'')"

definition encoding_string :: "encoding \<Rightarrow> string" where
  "encoding_string e = (case e of GSM7 \<Rightarrow> ''gsm7'' | UCS2 \<Rightarrow> ''ucs2'')"

definition json_opt :: "('a \<Rightarrow> json) \<Rightarrow> 'a option \<Rightarrow> json" where
  "json_opt f x = (case x of None \<Rightarrow> JNull | Some a \<Rightarrow> f a)"

definition json_time :: "gtime \<Rightarrow> json" where
  "json_time t = JStr (format_TimeLayout t)"

definition messageResponse_json :: "message_response \<Rightarrow> json" where
  "messageResponse_json m =
     JObj [(''id'', JStr (mr_id m)), (''type'', JStr (type_string (mr_type m))), (''to'', JStr (mr_to m)), (''text'', JStr (mr_text m)),
       (''encoding'', JStr (encoding_string (mr_encoding m))), (''segments'', JInt (int (mr_segments m))), (''cost'', JInt (mr_cost m)),
       (''status'', JStr (status_string (mr_status m))), (''attempts'', JInt (mr_attempts m)),
       (''failure_reason'', json_opt (\<lambda>r. JStr (reason_string r)) (mr_failure_reason m)), (''sla_breached'', JBool (mr_sla_breached m)),
       (''client_ref'', json_opt JStr (mr_client_ref m)), (''accepted_at'', json_time (mr_accepted_at m)),
       (''sent_at'', json_opt json_time (mr_sent_at m)), (''completed_at'', json_opt json_time (mr_completed_at m))]"

definition transactionResponse_json :: "transaction_response \<Rightarrow> json" where
  "transactionResponse_json t =
     JObj [(''id'', JStr (tr_id t)), (''kind'', JStr (kind_string (tr_kind t))), (''amount'', JInt (tr_amount t)),
       (''message_id'', json_opt JStr (tr_message_id t)), (''client_ref'', json_opt JStr (tr_client_ref t)), (''created_at'', json_time (tr_created_at t))]"

definition page_json :: "('a \<Rightarrow> json) \<Rightarrow> 'a list \<Rightarrow> string option \<Rightarrow> json" where
  "page_json f xs cursor = JObj [(''data'', JArr (map f xs)), (''next_cursor'', json_opt JStr cursor)]"

text \<open>The maps of a summary are written with their keys in order; \<^verbatim>\<open>sla_breached\<close> is left out when nil.\<close>

definition summary_type_json :: "summary_type_response \<Rightarrow> json" where
  "summary_type_json s =
     JObj ([(''messages'', JInt (st_messages s)), (''credits'', JInt (st_credits s))] @
       (case st_sla_breached s of None \<Rightarrow> [] | Some n \<Rightarrow> [(''sla_breached'', JInt n)]))"

definition summaryResponse_json :: "summary_response \<Rightarrow> json" where
  "summaryResponse_json s =
     JObj [(''since'', json_time (sum_since s)), (''until'', json_time (sum_until s)),
       (''totals'', JObj [(''messages'', JInt (sum_messages s)), (''segments'', JInt (sum_segments s)),
         (''credits_spent'', JInt (sum_credits_spent s)), (''credits_refunded'', JInt (sum_credits_refunded s))]),
       (''by_status'', JObj (map (\<lambda>st. (status_string st, JInt (sum_by_status s st)))
         [StatusAccepted, StatusDelivered, StatusExpired, StatusFailed, StatusSent, StatusUndelivered])),
       (''by_type'', JObj (map (\<lambda>t. (type_string t, summary_type_json (sum_by_type s t))) [Express, Normal]))]"

definition batchResponse_json :: "message_response list \<Rightarrow> int \<Rightarrow> json" where
  "batchResponse_json ms cost = JObj [(''messages'', JArr (map messageResponse_json ms)), (''total_cost'', JInt cost)]"

definition balanceResponse_json :: "int \<Rightarrow> gtime \<Rightarrow> json" where
  "balanceResponse_json amount updated = JObj [(''balance'', JInt amount), (''updated_at'', json_time updated)]"

definition chargeResponse_json :: "transaction_response \<Rightarrow> int \<Rightarrow> json" where
  "chargeResponse_json t balance = JObj [(''transaction'', transactionResponse_json t), (''balance'', JInt balance)]"

definition body_json :: "string \<Rightarrow> response_body \<Rightarrow> json" where
  "body_json rid b =
     (case b of
        MessageBody m \<Rightarrow> messageResponse_json m
      | BatchBody ms cost \<Rightarrow> batchResponse_json ms cost
      | MessagePage ms cursor \<Rightarrow> page_json messageResponse_json ms cursor
      | BalanceBody amount updated \<Rightarrow> balanceResponse_json amount updated
      | ChargeBody t balance \<Rightarrow> chargeResponse_json t balance
      | TransactionPage ts cursor \<Rightarrow> page_json transactionResponse_json ts cursor
      | SummaryBody s \<Rightarrow> summaryResponse_json s
      | ErrorBody e \<Rightarrow> errorBody rid e)"

text \<open>A response on the writer of a request with an identifier.\<close>

definition response_ops :: "string \<Rightarrow> response \<Rightarrow> write_op list" where
  "response_ops rid rs = WriteJSON (rs_status rs) (body_json rid (rs_body rs))"

subsection \<open>A client\<close>

definition field_of :: "(json \<Rightarrow> 'a option) \<Rightarrow> string \<Rightarrow> (string \<times> json) list \<Rightarrow> 'a option" where
  "field_of f k ms = Option.bind (map_of ms k) f"

fun as_str :: "json \<Rightarrow> string option" where
  "as_str (JStr s) = Some s"
| "as_str _ = None"

fun as_int :: "json \<Rightarrow> int option" where
  "as_int (JInt i) = Some i"
| "as_int _ = None"

fun as_bool :: "json \<Rightarrow> bool option" where
  "as_bool (JBool b) = Some b"
| "as_bool _ = None"

definition as_parsed :: "(string \<Rightarrow> 'a option) \<Rightarrow> json \<Rightarrow> 'a option" where
  "as_parsed p v = Option.bind (as_str v) p"

definition nullable :: "(json \<Rightarrow> 'a option) \<Rightarrow> json \<Rightarrow> 'a option option" where
  "nullable f v = (case v of JNull \<Rightarrow> Some None | _ \<Rightarrow> map_option Some (f v))"

definition parse_reason :: "string \<Rightarrow> failure_reason option" where
  "parse_reason s = find (\<lambda>r. reason_string r = s) [ReasonRejected, ReasonAttemptsExhausted, ReasonExpired]"

definition parse_encoding :: "string \<Rightarrow> encoding option" where
  "parse_encoding s = find (\<lambda>e. encoding_string e = s) [GSM7, UCS2]"

definition message_of_json :: "json \<Rightarrow> message_response option" where
  "message_of_json v =
     (case v of
        JObj ms \<Rightarrow> do {
          i \<leftarrow> field_of as_str ''id'' ms;
          ty \<leftarrow> field_of (as_parsed ParseType) ''type'' ms;
          to \<leftarrow> field_of as_str ''to'' ms;
          tx \<leftarrow> field_of as_str ''text'' ms;
          en \<leftarrow> field_of (as_parsed parse_encoding) ''encoding'' ms;
          seg \<leftarrow> field_of as_int ''segments'' ms;
          cost \<leftarrow> field_of as_int ''cost'' ms;
          st \<leftarrow> field_of (as_parsed ParseStatus) ''status'' ms;
          att \<leftarrow> field_of as_int ''attempts'' ms;
          fr \<leftarrow> field_of (nullable (as_parsed parse_reason)) ''failure_reason'' ms;
          sla \<leftarrow> field_of as_bool ''sla_breached'' ms;
          ref \<leftarrow> field_of (nullable as_str) ''client_ref'' ms;
          acc \<leftarrow> field_of (as_parsed parse_RFC3339Nano) ''accepted_at'' ms;
          sent \<leftarrow> field_of (nullable (as_parsed parse_RFC3339Nano)) ''sent_at'' ms;
          compl \<leftarrow> field_of (nullable (as_parsed parse_RFC3339Nano)) ''completed_at'' ms;
          Some \<lparr>mr_id = i, mr_type = ty, mr_to = to, mr_text = tx, mr_encoding = en, mr_segments = nat seg, mr_cost = cost, mr_status = st,
            mr_attempts = att, mr_failure_reason = fr, mr_sla_breached = sla, mr_client_ref = ref, mr_accepted_at = acc, mr_sent_at = sent,
            mr_completed_at = compl\<rparr>
        }
      | _ \<Rightarrow> None)"

text \<open>What arrives: the body without its final newline.\<close>

definition received_json :: "write_op list \<Rightarrow> json option" where
  "received_json ops = read_json (butlast (concat (map (\<lambda>w. case w of Write b \<Rightarrow> b | _ \<Rightarrow> []) ops)))"

lemma received_WriteJSON: "json_utf8 v \<Longrightarrow> received_json (WriteJSON st v) = Some v"
  by (simp add: received_json_def WriteJSON_def WriteJSON_body_def butlast_append read_json_encode)

subsection \<open>Round trips\<close>

lemma ascii_names [simp]: "ascii (type_string ty)" "ascii (status_string st)" "ascii (reason_string r)" "ascii (encoding_string e)" "ascii (kind_string k)"
  by (simp_all add: type_string_def status_string_def reason_string_def encoding_string_def kind_string_def
      split: mtype.splits status.splits failure_reason.splits encoding.splits kind.splits)

lemma parse_reason_string [simp]: "parse_reason (reason_string r) = Some r"
  by (cases r) (simp_all add: parse_reason_def reason_string_def)

lemma parse_encoding_string [simp]: "parse_encoding (encoding_string e) = Some e"
  by (cases e) (simp_all add: parse_encoding_def encoding_string_def)

lemma json_utf8_opt [simp]: "json_utf8 (json_opt f x) \<longleftrightarrow> (\<forall>a. x = Some a \<longrightarrow> json_utf8 (f a))"
  by (cases x) (simp_all add: json_opt_def)

lemma json_utf8_time [simp]: "json_utf8 (json_time t)"
  by (simp add: json_time_def ascii_utf8)

text \<open>The responses whose texts are UTF-8, as accepted ones are, and whose times four digits of a year can name.\<close>

definition message_utf8 :: "message_response \<Rightarrow> bool" where
  "message_utf8 m \<longleftrightarrow> valid_utf8 (mr_id m) \<and> valid_utf8 (mr_to m) \<and> valid_utf8 (mr_text m) \<and>
     (case mr_client_ref m of None \<Rightarrow> True | Some ref \<Rightarrow> valid_utf8 ref)"

definition printable :: "gtime \<Rightarrow> bool" where
  "printable t \<longleftrightarrow> zero_time \<le> t \<and> t < year_10000"

definition message_printable :: "message_response \<Rightarrow> bool" where
  "message_printable m \<longleftrightarrow> printable (mr_accepted_at m) \<and> pred_option printable (mr_sent_at m) \<and> pred_option printable (mr_completed_at m)"

lemma messageResponse_json_utf8: "message_utf8 m \<Longrightarrow> json_utf8 (messageResponse_json m)"
  by (auto simp: messageResponse_json_def message_utf8_def ascii_utf8 split: option.splits)

lemma as_printed_time: "printable t \<Longrightarrow> as_parsed parse_RFC3339Nano (json_time t) = Some (truncate_ms t)"
  by (simp add: as_parsed_def json_time_def printable_def format_parse four_digit_yearI)

lemma nullable_opt:
  assumes "\<And>a. x = Some a \<Longrightarrow> f a \<noteq> JNull \<and> g (f a) = Some (h a)"
  shows "nullable g (json_opt f x) = Some (map_option h x)"
proof (cases x)
  case (Some a)
  with assms have "f a \<noteq> JNull" "g (f a) = Some (h a)" by simp_all
  with Some show ?thesis by (cases "f a") (simp_all add: nullable_def json_opt_def)
qed (simp add: nullable_def json_opt_def)

lemma message_of_response_json:
  assumes "message_printable m"
  shows "message_of_json (messageResponse_json m) = Some (m\<lparr>mr_accepted_at := truncate_ms (mr_accepted_at m),
    mr_sent_at := map_option truncate_ms (mr_sent_at m), mr_completed_at := map_option truncate_ms (mr_completed_at m)\<rparr>)"
proof -
  have t: "nullable (as_parsed parse_RFC3339Nano) (json_opt json_time x) = Some (map_option truncate_ms x)" if "pred_option printable x" for x
    using that by (intro nullable_opt conjI as_printed_time) (auto simp: json_time_def)
  have r: "nullable (as_parsed parse_reason) (json_opt (\<lambda>r. JStr (reason_string r)) x) = Some x" for x
    using nullable_opt [of x "\<lambda>r. JStr (reason_string r)" "as_parsed parse_reason" "\<lambda>r. r"] by (simp add: as_parsed_def option.map_ident)
  have c: "nullable as_str (json_opt JStr x) = Some x" for x
    using nullable_opt [of x JStr as_str "\<lambda>s. s"] by (simp add: option.map_ident)
  have p: "printable (mr_accepted_at m)" "pred_option printable (mr_sent_at m)" "pred_option printable (mr_completed_at m)"
    using assms by (simp_all add: message_printable_def)
  show ?thesis by (simp add: message_of_json_def messageResponse_json_def field_of_def as_parsed_def [of ParseType] as_parsed_def [of ParseStatus]
      as_parsed_def [of parse_encoding] r c as_printed_time [OF p(1)] t [OF p(2)] t [OF p(3)])
qed

text \<open>C26: What the API says of a message can be read back: a client that parses the body of a response gets every field of
  the message as it was, whatever characters its text and reference have, and its times to the millisecond.\<close>

theorem message_roundtrip:
  assumes "message_utf8 m" "message_printable m" "rs_body rs = MessageBody m"
  shows "Option.bind (received_json (response_ops rid rs)) message_of_json =
    Some (m\<lparr>mr_accepted_at := truncate_ms (mr_accepted_at m), mr_sent_at := map_option truncate_ms (mr_sent_at m),
      mr_completed_at := map_option truncate_ms (mr_completed_at m)\<rparr>)"
  using assms received_WriteJSON [OF messageResponse_json_utf8 [OF assms(1)]]
  by (simp add: response_ops_def body_json_def message_of_response_json)

definition error_utf8 :: "http_error \<Rightarrow> bool" where
  "error_utf8 e \<longleftrightarrow> valid_utf8 (he_code e) \<and> valid_utf8 (he_message e) \<and>
     list_all (\<lambda>f. valid_utf8 (fe_field f) \<and> valid_utf8 (fe_code f) \<and> valid_utf8 (fe_message f)) (he_details e)"

lemma request_id_ascii: "valid_request_id rid \<Longrightarrow> ascii rid"
  by (auto simp: valid_request_id_def ascii_def list_all_iff is_request_id_char_def is_alnum_def is_digit_def)

lemma errorBody_utf8: "error_utf8 e \<Longrightarrow> ascii rid \<Longrightarrow> json_utf8 (errorBody rid e)"
  by (auto simp: errorBody_def error_utf8_def ascii_utf8 field_error_json_def list_all_iff)


subsection \<open>Instances\<close>

definition demo_response :: response where
  "demo_response = \<lparr>rs_status = 200, rs_headers = [], rs_body = MessageBody \<lparr>mr_id = ''m-1'', mr_type = Express, mr_to = ''+49'',
     mr_text = [CHR 0xC3, CHR 0xA4, CHR 0x22, CHR ''<'', CHR 0x0A, CHR 0xE2, CHR 0x80, CHR 0xA8], mr_encoding = UCS2, mr_segments = 1,
     mr_cost = 20, mr_status = StatusSent, mr_attempts = 1, mr_failure_reason = None, mr_sla_breached = False, mr_client_ref = Some ''a'',
     mr_accepted_at = 1789985730123456789, mr_sent_at = Some 1789985731000000000, mr_completed_at = None\<rparr>\<rparr>"

theorem message_roundtrip_witness:
  "\<exists>m. Option.bind (received_json (response_ops ''r1'' demo_response)) message_of_json = Some m \<and>
     mr_text m = [CHR 0xC3, CHR 0xA4, CHR 0x22, CHR ''<'', CHR 0x0A, CHR 0xE2, CHR 0x80, CHR 0xA8] \<and> mr_accepted_at m = 1789985730123000000"
proof -
  obtain m where m: "rs_body demo_response = MessageBody m" "mr_text m = [CHR 0xC3, CHR 0xA4, CHR 0x22, CHR ''<'', CHR 0x0A, CHR 0xE2, CHR 0x80, CHR 0xA8]"
    "mr_accepted_at m = 1789985730123456789" "mr_id m = ''m-1''" "mr_to m = ''+49''" "mr_client_ref m = Some ''a''"
    "mr_sent_at m = Some 1789985731000000000" "mr_completed_at m = None"
    by (simp add: demo_response_def)
  have "valid_utf8 (mr_text m)" by (simp add: m valid_utf8_def string_bytes_def decode_all.simps decode_rune_def utf8_cont_def Let_def)
  then have "message_utf8 m" by (simp add: message_utf8_def m ascii_utf8)
  moreover have "message_printable m"
    by (simp add: message_printable_def m printable_def zero_time_def year_10000_def time_unit_defs)
  ultimately show ?thesis using message_roundtrip [of m demo_response "''r1''"] m
    by (simp add: truncate_ms_def millisecond_def)
qed

definition demo_problem :: http_error where
  "demo_problem = http_ValidationError [\<lparr>fe_field = ''since'', fe_code = ''invalid_format'', fe_message = ''must be an RFC 3339 timestamp''\<rparr>]"

definition demo_bad_request :: http_request where
  "demo_bad_request = \<lparr>hr_request_id = ''not an id'', hr_pattern = ''GET /v1/messages'', hr_context_id = []\<rparr>"


end
