(* ===== verification/Access.thy ===== *)
theory Access
  imports Prelude
begin

text \<open>
  How errors of the database reach their callers (\<^verbatim>\<open>internal/store: tx.go, pgerr.go, querier.go, pool.go\<close>): Go's error trees with
  \<^verbatim>\<open>errors.As\<close>, the classification of PostgreSQL errors, what \<^verbatim>\<open>WithTx\<close> returns when the rollback fails too, and the opening of
  a connection pool. The driver's steps are parameters.
\<close>

subsection \<open>Errors\<close>

text \<open>The errors the driver documents and those \<^verbatim>\<open>fmt.Errorf\<close> with \<^verbatim>\<open>%w\<close> and \<^verbatim>\<open>errors.Join\<close> build on them.\<close>

datatype go_error =
    PgError string string
  | ConnectError go_error
  | TimeoutError go_error
  | PlainError string
  | Wrapped string go_error
  | Joined "go_error list"

text \<open>\<^verbatim>\<open>errors.As\<close>: the first error of a kind in the tree, before what it wraps.\<close>

fun errors_As :: "(go_error \<Rightarrow> bool) \<Rightarrow> go_error \<Rightarrow> go_error option" and errors_As_list :: "(go_error \<Rightarrow> bool) \<Rightarrow> go_error list \<Rightarrow> go_error option" where
  "errors_As p e =
     (if p e then Some e
      else case e of
          ConnectError f \<Rightarrow> errors_As p f
        | TimeoutError f \<Rightarrow> errors_As p f
        | Wrapped m f \<Rightarrow> errors_As p f
        | Joined fs \<Rightarrow> errors_As_list p fs
        | _ \<Rightarrow> None)"
| "errors_As_list p [] = None"
| "errors_As_list p (e # es) = (case errors_As p e of Some f \<Rightarrow> Some f | None \<Rightarrow> errors_As_list p es)"

fun is_pg :: "go_error \<Rightarrow> bool" where
  "is_pg (PgError code name) = True"
| "is_pg _ = False"

fun is_connect :: "go_error \<Rightarrow> bool" where
  "is_connect (ConnectError f) = True"
| "is_connect _ = False"

fun is_timeout :: "go_error \<Rightarrow> bool" where
  "is_timeout (TimeoutError f) = True"
| "is_timeout _ = False"

definition codeForeignKeyViolation :: string where "codeForeignKeyViolation = ''23503''"

definition IsForeignKeyViolation :: "go_error \<Rightarrow> string \<Rightarrow> bool" where
  "IsForeignKeyViolation err name =
     (case errors_As is_pg err of
        Some (PgError code con) \<Rightarrow> code = codeForeignKeyViolation \<and> (name = [] \<or> con = name)
      | _ \<Rightarrow> False)"

definition IsUnavailable :: "go_error \<Rightarrow> bool" where
  "IsUnavailable err \<longleftrightarrow> errors_As is_connect err \<noteq> None \<or> errors_As is_timeout err \<noteq> None"

subsection \<open>Transactions\<close>

text \<open>What happens to a transaction: it does not begin, the function fails and is rolled back, perhaps with an error,
  or the commit succeeds or fails.\<close>

datatype tx_course =
    NotBegun go_error
  | FnFailed go_error "go_error option"
  | NotCommitted go_error
  | Committed

definition ErrTxClosed :: go_error where "ErrTxClosed = PlainError ''tx is closed''"

definition is_closed_error :: "go_error \<Rightarrow> bool" where
  "is_closed_error e \<longleftrightarrow> errors_As (\<lambda>f. f = ErrTxClosed) e \<noteq> None"

definition WithTxOptions_error :: "tx_course \<Rightarrow> go_error option" where
  "WithTxOptions_error c =
     (case c of
        NotBegun e \<Rightarrow> Some (Wrapped ''begin transaction'' e)
      | FnFailed e rollback \<Rightarrow>
          (case rollback of
             Some rb \<Rightarrow> if \<not> is_closed_error rb then Some (Joined [e, Wrapped ''rollback'' rb]) else Some e
           | None \<Rightarrow> Some e)
      | NotCommitted e \<Rightarrow> Some (Wrapped ''commit transaction'' e)
      | Committed \<Rightarrow> None)"

subsection \<open>Opening a pool\<close>

record pool_settings =
  pc_max_conns :: int
  pc_url :: string

text \<open>The driver: parsing a URL, creating a pool, and the answer to a ping within the time given. A result names the pools
  that are left open.\<close>

record pg_driver =
  pg_parse :: "string \<Rightarrow> go_error + pool_settings"
  pg_create :: "pool_settings \<Rightarrow> go_error option"
  pg_ping :: "duration \<Rightarrow> go_error option"

definition Ping :: "pg_driver \<Rightarrow> go_error option" where
  "Ping drv = map_option (Wrapped ''ping database'') (pg_ping drv second)"

definition OpenConfig :: "pg_driver \<Rightarrow> pool_settings \<Rightarrow> pool_settings list \<Rightarrow> pool_settings list \<times> (go_error + pool_settings)" where
  "OpenConfig drv cfg opened =
     (case pg_create drv cfg of
        Some err \<Rightarrow> (opened, Inl (Wrapped ''create pool'' err))
      | None \<Rightarrow>
          (let opened' = cfg # opened
           in case Ping drv of
               Some err \<Rightarrow> (remove1 cfg opened', Inl err)
             | None \<Rightarrow> (opened', Inr cfg)))"

definition int32_of :: "int \<Rightarrow> int" where
  "int32_of n = signed_take_bit 31 n"

definition Open :: "pg_driver \<Rightarrow> string \<Rightarrow> int \<Rightarrow> pool_settings list \<Rightarrow> pool_settings list \<times> (go_error + pool_settings)" where
  "Open drv url maxConns opened =
     (case pg_parse drv url of
        Inl err \<Rightarrow> (opened, Inl (Wrapped ''parse database url'' err))
      | Inr cfg \<Rightarrow> OpenConfig drv (cfg\<lparr>pc_max_conns := int32_of maxConns\<rparr>) opened)"

subsection \<open>Properties\<close>

lemma errors_As_wrapped: "\<not> p (Wrapped m e) \<Longrightarrow> errors_As p (Wrapped m e) = errors_As p e"
  by simp

lemma errors_As_joined: "\<not> p (Joined es) \<Longrightarrow> errors_As p (Joined es) = errors_As_list p es"
  by simp

text \<open>Errors stay recognisable: the error a transaction returns for a failed function is of every kind the function's
  error is, even when the rollback failed as well, and so are errors of its begin and its commit.\<close>

theorem tx_error_kinds:
  assumes "WithTxOptions_error c = Some err" "c = NotBegun e \<or> c = FnFailed e rb \<or> c = NotCommitted e"
  shows "(IsForeignKeyViolation e name \<longrightarrow> IsForeignKeyViolation err name) \<and> (IsUnavailable e \<longrightarrow> IsUnavailable err)"
proof -
  have "errors_As p err = Some f" if "errors_As p e = Some f" "\<And>m g. \<not> p (Wrapped m g)" "\<And>es. \<not> p (Joined es)" for p f
    using assms that by (auto simp: WithTxOptions_error_def simp del: errors_As.simps simp: errors_As_wrapped errors_As_joined
        split: option.splits if_splits)
  then have pg: "errors_As is_pg e = Some f \<Longrightarrow> errors_As is_pg err = Some f"
    and co: "errors_As is_connect e = Some f \<Longrightarrow> errors_As is_connect err = Some f"
    and ti: "errors_As is_timeout e = Some f \<Longrightarrow> errors_As is_timeout err = Some f" for f by simp_all
  show ?thesis using pg co ti by (auto simp: IsForeignKeyViolation_def IsUnavailable_def simp del: errors_As.simps split: option.splits)
qed

text \<open>A pool that cannot be used is not left open, and one that is returned has the configured size.\<close>

theorem Open_leaks_nothing:
  assumes "Open drv url n opened = (opened', r)" "1 \<le> n" "n < 2 ^ 31"
  shows "case r of Inl err \<Rightarrow> opened' = opened | Inr cfg \<Rightarrow> opened' = cfg # opened \<and> pc_max_conns cfg = n \<and> pg_ping drv second = None"
proof -
  have "int32_of n = n" using assms(2,3) by (simp add: int32_of_def signed_take_bit_int_eq_self_iff)
  then show ?thesis using assms(1)
    by (auto simp: Open_def OpenConfig_def Ping_def Let_def split: sum.splits option.splits)
qed

end
