(* ===== verification/Sweeping.thy ===== *)
theory Sweeping
  imports Sweeper
begin

text \<open>
  The loop of the sweeper, \<^verbatim>\<open>Sweeper.Run\<close> of \<^verbatim>\<open>internal/sweeper/sweeper.go\<close>, over the sweeps of its ticks, and that it gets through
  its work: a backlog of any size is gone after as many sweeps as batches fit into it, although the expiry task and the removal of
  orphaned rows share the order of the queue.
\<close>

subsection \<open>The loop\<close>

text \<open>One sweep per tick, whatever the result of the last; the results are what is logged.\<close>

fun sweeper_run :: "sweeper_config \<Rightarrow> sweep_world list \<Rightarrow> db \<Rightarrow> db \<times> ((task \<times> nat) list \<times> (task \<times> error) option) list" where
  "sweeper_run cfg [] d = (d, [])"
| "sweeper_run cfg (w # ws) d =
     (case Sweep cfg w d of
        (d1, res, err) \<Rightarrow> (case sweeper_run cfg ws d1 of (d', rs) \<Rightarrow> (d', (res, err) # rs)))"

subsection \<open>What a sweep leaves\<close>

definition unleased :: "gtime \<Rightarrow> queue_row \<Rightarrow> bool" where
  "unleased now q \<longleftrightarrow> q_lease_owner q = None \<or> q_next_attempt_at q \<le> now"

definition overdue :: "gtime \<Rightarrow> queue_row \<Rightarrow> bool" where
  "overdue now q \<longleftrightarrow> q_expires_at q \<le> now \<and> unleased now q"

definition orphaned :: "db \<Rightarrow> queue_row \<Rightarrow> bool" where
  "orphaned d q \<longleftrightarrow> (\<exists>m\<in>set (messages d). m_id m = q_message_id q \<and> m_status m \<noteq> StatusAccepted)"

text \<open>The rows that are overdue or orphaned by a time, as identifiers, and the messages that are overdue.\<close>

definition backlog :: "gtime \<Rightarrow> db \<Rightarrow> uuid set" where
  "backlog T d = q_message_id ` {q \<in> set (queue d). unleased T q \<and> (q_expires_at q \<le> T \<or> orphaned d q)}"

definition overdue_messages :: "gtime \<Rightarrow> db \<Rightarrow> uuid set" where
  "overdue_messages now d =
     {m_id m |m q. m \<in> set (messages d) \<and> q \<in> set (queue d) \<and> q_message_id q = m_id m \<and> m_status m = StatusAccepted \<and> overdue now q}"

definition undisturbed :: "gtime \<Rightarrow> sweep_world \<Rightarrow> bool" where
  "undisturbed now w \<longleftrightarrow> (\<forall>t. env_now (sv_env w t) = now \<and> sv_acquired w t \<and> (\<forall>u. \<not> sv_locked w t u))"

text \<open>Tables after a task: rows that are left keep what matters here, and messages outside a set keep their status.\<close>

definition shrinks :: "uuid set \<Rightarrow> uuid set \<Rightarrow> db \<Rightarrow> db \<Rightarrow> bool" where
  "shrinks A R d d' \<longleftrightarrow>
     (\<forall>q'\<in>set (queue d'). q_message_id q' \<notin> R \<and> (\<exists>q\<in>set (queue d). q_message_id q = q_message_id q' \<and>
        q_expires_at q = q_expires_at q' \<and> q_lease_owner q = q_lease_owner q' \<and> q_next_attempt_at q = q_next_attempt_at q')) \<and>
     (\<forall>m'\<in>set (messages d'). \<exists>m\<in>set (messages d). m_id m = m_id m' \<and> (m_id m \<notin> A \<longrightarrow> m_status m = m_status m'))"

lemma shrinks_refl: "shrinks A {} d d"
  by (auto simp: shrinks_def)

lemma shrinks_trans: "shrinks A R d d1 \<Longrightarrow> shrinks B S d1 d2 \<Longrightarrow> shrinks (A \<union> B) (R \<union> S) d d2"
  unfolding shrinks_def by (metis Un_iff)

lemma shrinks_weaken: "shrinks A R d d' \<Longrightarrow> A \<subseteq> A' \<Longrightarrow> shrinks A' R d d'"
  by (auto simp: shrinks_def subset_iff)

lemma unleased_mono: "unleased now q \<Longrightarrow> now \<le> T \<Longrightarrow> unleased T q"
  by (auto simp: unleased_def)

lemma overdue_mono: "overdue now q \<Longrightarrow> now \<le> T \<Longrightarrow> overdue T q"
  by (auto simp: overdue_def unleased_def)

definition due_ids :: "gtime \<Rightarrow> nat \<Rightarrow> db \<Rightarrow> uuid set" where
  "due_ids now n d = q_message_id ` set (due now n (\<lambda>u. False) d)"

lemma due_eq: "due now n (\<lambda>u. False) d = take n (sort_key q_message_id (filter (overdue now) (queue d)))"
  by (simp add: due_def overdue_def [abs_def] unleased_def)

lemma shrinks_expire:
  assumes "db_inv (env_now e) d" "expire e n (\<lambda>u. False) d = Inr (d', k)"
    and A: "A = {m_id m |m. m \<in> set (messages d) \<and> m_id m \<in> due_ids (env_now e) n d \<and> m_status m = StatusAccepted}"
  shows "shrinks A A d d'" "queue d' = filter (\<lambda>q. q_message_id q \<notin> A) (queue d)"
    "\<And>m. m \<in> set (messages d) \<Longrightarrow> m_status m \<noteq> StatusAccepted \<Longrightarrow> m \<in> set (messages d')"
proof -
  let ?P = "expiring (env_now e) n (\<lambda>u. False) d"
  obtain d1 where app: "ApplyRefunds e (map refund_of (filter ?P (messages d)))
      (d\<lparr>messages := map (\<lambda>m. if ?P m then expire_row (env_now e) m else m) (messages d)\<rparr>) = Inr d1"
    and d': "d' = d1\<lparr>queue := filter (\<lambda>q. q_message_id q \<notin> m_id ` set (filter ?P (messages d))) (queue d1)\<rparr>"
    by (rule expire_InrD [OF assms(2)])
  have ids: "m_id ` set (filter ?P (messages d)) = A" by (auto simp: A expiring_def due_ids_def)
  show q: "queue d' = filter (\<lambda>q. q_message_id q \<notin> A) (queue d)"
    unfolding d' ids using ApplyRefunds_frame [OF app] by simp
  have m: "messages d' = map (\<lambda>m. if ?P m then expire_row (env_now e) m else m) (messages d)"
    by (rule expire_facts(1) [OF assms(1,2)])
  have "m_id m \<in> A" if "m \<in> set (messages d)" "?P m" for m using that ids by auto
  then show "shrinks A A d d'" unfolding shrinks_def q m by (auto simp: expire_row_def)
  show "m \<in> set (messages d')" if "m \<in> set (messages d)" "m_status m \<noteq> StatusAccepted" for m
    unfolding m using that by (force simp: expiring_def)
qed

lemma shrinks_flagSLA: "shrinks A {} d (fst (flagSLA now sla n d))"
  by (auto simp: shrinks_def flagSLA_def Let_def update_where_def)

lemma flagSLA_messages:
  assumes "m \<in> set (messages d)"
  shows "\<exists>m'\<in>set (messages (fst (flagSLA now sla n d))). m_id m' = m_id m \<and> m_status m' = m_status m"
proof -
  let ?f = "\<lambda>m. if m_id m \<in> set (map q_message_id (breaching now sla n d)) then m\<lparr>m_sla_breached := True, m_updated_at := now\<rparr> else m"
  have "messages (fst (flagSLA now sla n d)) = map ?f (messages d)" by (simp add: flagSLA_def Let_def update_where_def)
  moreover have "?f m \<in> set (map ?f (messages d))" unfolding set_map using assms by (rule imageI)
  ultimately show ?thesis by (intro bexI [of _ "?f m"]) simp_all
qed

lemma shrinks_orphans:
  assumes "R = q_message_id ` set (orphans now n (\<lambda>u. False) d)"
  shows "shrinks A R d (fst (removeOrphans now n (\<lambda>u. False) d))"
  using assms by (auto simp: shrinks_def removeOrphans_def Let_def)

lemma shrinks_lanes:
  assumes "reassignLanes lns n locked d = Inr (d', k)"
  shows "shrinks A {} d d'"
  using assms by (auto simp: shrinks_def reassignLanes_def Let_def set_update_join split: if_splits option.splits) blast+

lemma shrinks_workers: "shrinks A {} d (fst (removeStaleWorkers now d))"
  by (auto simp: shrinks_def removeStaleWorkers_def Let_def)

lemma sweep_loop_ok:
  assumes "sweep_loop cfg w (t # ts) res d = (d', res', None)" "undisturbed now w"
  obtains d1 n where "run_task cfg (sv_env w t) (\<lambda>u. False) t d = Inr (d1, n)" "sweep_loop cfg w ts (res @ [(t, n)]) d1 = (d', res', None)"
proof -
  have "sv_locked w t = (\<lambda>u. False)" "sv_acquired w t" using assms(2) by (auto simp: undisturbed_def)
  with assms(1) that show thesis by (auto simp: locked_task_def dest!: WithTx_Inr split: prod.splits sum.splits)
qed

text \<open>The tasks of an undisturbed sweep without an error.\<close>

lemma Sweep_tasks:
  assumes "Sweep cfg w d = (d', res, None)" "undisturbed now w"
  obtains d1 n1 d3 d4 n4 where "expire (sv_env w taskExpire) (sw_batch_size cfg) (\<lambda>u. False) d = Inr (d1, n1)"
    "d3 = fst (removeOrphans now (sw_batch_size cfg) (\<lambda>u. False) (fst (flagSLA now (sw_express_sla cfg) (sw_batch_size cfg) d1)))"
    "reassignLanes (sw_normal_lanes cfg) (sw_batch_size cfg) (\<lambda>u. False) d3 = Inr (d4, n4)" "d' = fst (removeStaleWorkers now d4)"
proof -
  have now: "env_now (sv_env w t) = now" for t using assms(2) by (simp add: undisturbed_def)
  obtain d1 n1 where t1: "run_task cfg (sv_env w taskExpire) (\<lambda>u. False) taskExpire d = Inr (d1, n1)"
    and l1: "sweep_loop cfg w [taskFlagSLA, taskOrphans, taskLanes, taskWorkers] ([] @ [(taskExpire, n1)]) d1 = (d', res, None)"
    using assms unfolding Sweep_def sweep_tasks_def by (rule sweep_loop_ok)
  obtain d2 n2 where t2: "run_task cfg (sv_env w taskFlagSLA) (\<lambda>u. False) taskFlagSLA d1 = Inr (d2, n2)"
    and l2: "sweep_loop cfg w [taskOrphans, taskLanes, taskWorkers] (([] @ [(taskExpire, n1)]) @ [(taskFlagSLA, n2)]) d2 = (d', res, None)"
    using l1 assms(2) by (rule sweep_loop_ok)
  obtain d3 n3 where t3: "run_task cfg (sv_env w taskOrphans) (\<lambda>u. False) taskOrphans d2 = Inr (d3, n3)"
    and l3: "sweep_loop cfg w [taskLanes, taskWorkers] ((([] @ [(taskExpire, n1)]) @ [(taskFlagSLA, n2)]) @ [(taskOrphans, n3)]) d3 = (d', res, None)"
    using l2 assms(2) by (rule sweep_loop_ok)
  obtain d4 n4 where t4: "run_task cfg (sv_env w taskLanes) (\<lambda>u. False) taskLanes d3 = Inr (d4, n4)"
    and l4: "sweep_loop cfg w [taskWorkers] (((([] @ [(taskExpire, n1)]) @ [(taskFlagSLA, n2)]) @ [(taskOrphans, n3)]) @ [(taskLanes, n4)]) d4 = (d', res, None)"
    using l3 assms(2) by (rule sweep_loop_ok)
  obtain d5 n5 where t5: "run_task cfg (sv_env w taskWorkers) (\<lambda>u. False) taskWorkers d4 = Inr (d5, n5)"
    and l5: "sweep_loop cfg w [] ((((([] @ [(taskExpire, n1)]) @ [(taskFlagSLA, n2)]) @ [(taskOrphans, n3)]) @ [(taskLanes, n4)]) @ [(taskWorkers, n5)]) d5 = (d', res, None)"
    using l4 assms(2) by (rule sweep_loop_ok)
  from l5 have "d5 = d'" by simp
  have ex: "expire (sv_env w taskExpire) (sw_batch_size cfg) (\<lambda>u. False) d = Inr (d1, n1)" using t1 by (simp add: run_task_def)
  have d2: "d2 = fst (flagSLA now (sw_express_sla cfg) (sw_batch_size cfg) d1)" using t2 by (simp add: run_task_def now)
  have d3: "d3 = fst (removeOrphans now (sw_batch_size cfg) (\<lambda>u. False) d2)" using t3 by (simp add: run_task_def now)
  have d4: "reassignLanes (sw_normal_lanes cfg) (sw_batch_size cfg) (\<lambda>u. False) d3 = Inr (d4, n4)" using t4 by (simp add: run_task_def)
  have "d' = fst (removeStaleWorkers now d4)" using t5 \<open>d5 = d'\<close> by (simp add: run_task_def now)
  then show thesis using ex d3 [unfolded d2] d4 by (rule that [rotated 3])
qed

lemma orphans_eq:
  assumes "distinct (map m_id (messages d))"
  shows "orphans now n (\<lambda>u. False) d = take n (filter (\<lambda>q. orphaned d q \<and> unleased now q) (queue d))"
proof -
  have "(case row_of m_id (q_message_id q) (messages d) of None \<Rightarrow> False | Some m \<Rightarrow> m_status m \<noteq> StatusAccepted) \<longleftrightarrow> orphaned d q" for q
  proof (cases "row_of m_id (q_message_id q) (messages d)")
    case None
    moreover have "\<not> orphaned d q" using None unfolding row_of_None_iff orphaned_def by (metis image_eqI)
    ultimately show ?thesis by simp
  next
    case (Some m)
    then have m: "m \<in> set (messages d)" "m_id m = q_message_id q" using row_of_SomeD by metis+
    have "m' = m" if "m' \<in> set (messages d)" "m_id m' = q_message_id q" for m'
      using distinct_key_unique [OF assms that(1) m(1)] that(2) m(2) by simp
    then have "orphaned d q \<longleftrightarrow> m_status m \<noteq> StatusAccepted" unfolding orphaned_def using m by blast
    then show ?thesis using Some by simp
  qed
  then show ?thesis by (simp add: orphans_def unleased_def)
qed

lemma card_ids: "distinct (map f xs) \<Longrightarrow> card (f ` set xs) = length xs"
  using distinct_card [of "map f xs"] by simp

text \<open>What the expiry task skips of its batch is orphaned, and the task after it takes as many rows.\<close>

lemma skipped_are_orphans:
  assumes inv: "db_inv now d" and inv2: "db_inv now d2"
    and A: "A = {m_id m |m. m \<in> set (messages d) \<and> m_id m \<in> due_ids now n d \<and> m_status m = StatusAccepted}"
    and q2: "queue d2 = filter (\<lambda>q. q_message_id q \<notin> A) (queue d)" and or2: "\<And>q. orphaned d q \<Longrightarrow> orphaned d2 q"
  shows "card (due_ids now n d - A) \<le> card (q_message_id ` set (orphans now n (\<lambda>u. False) d2))"
proof -
  let ?xs = "filter (\<lambda>q. orphaned d2 q \<and> unleased now q) (queue d2)"
  have dist: "distinct (map q_message_id ?xs)" by (rule distinct_map_filterI [OF db_inv_keysD(4) [OF inv2]])
  have "due_ids now n d - A \<subseteq> q_message_id ` set ?xs"
  proof
    fix u assume u: "u \<in> due_ids now n d - A"
    then obtain q where q: "q \<in> set (queue d)" "overdue now q" "q_message_id q = u"
      by (auto simp: due_ids_def due_eq dest!: in_set_takeD)
    obtain m where m: "m \<in> set (messages d)" "m_id m = u" using inv q(1,3) by (auto simp: db_inv_def foreign_ok_def)
    then have "m_status m \<noteq> StatusAccepted" using u by (auto simp: A)
    then have "orphaned d q" using m q(3) by (auto simp: orphaned_def)
    then show "u \<in> q_message_id ` set ?xs" using or2 q u by (auto simp: q2 overdue_def)
  qed
  then have "card (due_ids now n d - A) \<le> length ?xs" using card_mono [of "q_message_id ` set ?xs"] card_ids [OF dist] by simp
  moreover have "card (due_ids now n d - A) \<le> n"
  proof -
    have "card (due_ids now n d) \<le> length (due now n (\<lambda>u. False) d)" unfolding due_ids_def using card_length [of "map q_message_id (due now n (\<lambda>u. False) d)"] by simp
    also have "\<dots> \<le> n" by (simp add: due_eq)
    finally show ?thesis using card_mono [of "due_ids now n d" "due_ids now n d - A"] by (simp add: due_ids_def)
  qed
  moreover have "card (q_message_id ` set (orphans now n (\<lambda>u. False) d2)) = min (length ?xs) n"
    unfolding orphans_eq [OF db_inv_keysD(2) [OF inv2]] by (subst card_ids) (use dist in \<open>simp_all add: take_map [symmetric]\<close>)
  ultimately show ?thesis by simp
qed

text \<open>If the batch does not hold all overdue rows, what the expiry task skips is orphaned, and removed next.\<close>

lemma sweep_shrinks:
  assumes sw: "Sweep cfg w d = (d', res, None)" "undisturbed now w" and inv: "db_inv now d"
    and A: "A = {m_id m |m. m \<in> set (messages d) \<and> m_id m \<in> due_ids now (sw_batch_size cfg) d \<and> m_status m = StatusAccepted}"
  obtains R where "shrinks A (A \<union> R) d d'" "R \<subseteq> backlog now d" "A \<inter> R = {}" "card (due_ids now (sw_batch_size cfg) d - A) \<le> card R" "finite R"
proof -
  let ?n = "sw_batch_size cfg" and ?e = "sv_env w taskExpire"
  have now: "env_now ?e = now" using sw(2) by (simp add: undisturbed_def)
  obtain d1 n1 d3 d4 n4 where ex: "expire ?e ?n (\<lambda>u. False) d = Inr (d1, n1)"
    and d3: "d3 = fst (removeOrphans now ?n (\<lambda>u. False) (fst (flagSLA now (sw_express_sla cfg) ?n d1)))"
    and d4: "reassignLanes (sw_normal_lanes cfg) ?n (\<lambda>u. False) d3 = Inr (d4, n4)" and d': "d' = fst (removeStaleWorkers now d4)"
    by (rule Sweep_tasks [OF sw])
  define d2 where "d2 = fst (flagSLA now (sw_express_sla cfg) ?n d1)"
  define R where "R = q_message_id ` set (orphans now ?n (\<lambda>u. False) d2)"
  note e = shrinks_expire [OF _ ex, unfolded now, OF inv A]
  have inv1: "db_inv now d1" using expire_inv [OF _ ex] inv by (simp add: now)
  then have inv2: "db_inv now d2" unfolding d2_def by (rule flagSLA_inv)
  have s12: "shrinks A A d d2" using shrinks_trans [OF e(1) shrinks_flagSLA [of A]] by (simp add: d2_def)
  have "shrinks A R d2 d3" unfolding d3 d2_def [symmetric] by (rule shrinks_orphans [OF R_def])
  then have "shrinks A (A \<union> R) d d3" using shrinks_trans [OF s12, of A R d3] by simp
  then have "shrinks A (A \<union> R) d d4" using shrinks_trans [OF _ shrinks_lanes [OF d4, of A], of A "A \<union> R" d] by simp
  then have sh: "shrinks A (A \<union> R) d d'" unfolding d' using shrinks_trans [OF _ shrinks_workers [of A d4 now], of A "A \<union> R" d] by simp
  have q2: "queue d2 = filter (\<lambda>q. q_message_id q \<notin> A) (queue d)" by (simp add: d2_def flagSLA_def Let_def e(2))
  have RA: "A \<inter> R = {}" by (auto simp: R_def orphans_def q2 dest!: in_set_takeD)
  have or2: "orphaned d2 q" if "orphaned d q" for q
  proof -
    from that obtain m where "m \<in> set (messages d1)" "m_id m = q_message_id q" "m_status m \<noteq> StatusAccepted"
      using e(3) by (auto simp: orphaned_def)
    then show ?thesis using flagSLA_messages unfolding orphaned_def d2_def by metis
  qed
  have or: "orphaned d q" if "orphaned d2 q" "q_message_id q \<notin> A" for q
    using s12 that unfolding shrinks_def orphaned_def by metis
  have "R \<subseteq> backlog now d"
    unfolding R_def orphans_eq [OF db_inv_keysD(2) [OF inv2]] backlog_def using or by (auto simp: q2 dest!: in_set_takeD)
  moreover have "card (due_ids now ?n d - A) \<le> card R" unfolding R_def by (rule skipped_are_orphans [OF inv inv2 A q2 or2])
  ultimately show thesis using sh RA by (intro that [of R]) (simp_all add: R_def)
qed

lemma backlog_mono: "now \<le> T \<Longrightarrow> backlog now d \<subseteq> backlog T d"
  unfolding backlog_def using unleased_mono by fastforce

lemma due_ids_backlog: "due_ids now n d \<subseteq> backlog now d"
  by (auto simp: due_ids_def due_eq backlog_def overdue_def dest!: in_set_takeD)

lemma overdue_messages_backlog:
  assumes "now \<le> T"
  shows "overdue_messages now d \<subseteq> backlog T d"
proof
  fix u assume "u \<in> overdue_messages now d"
  then obtain q where q: "q \<in> set (queue d)" "q_message_id q = u" "overdue now q" by (auto simp: overdue_messages_def)
  have "overdue T q" using q(3) assms by (rule overdue_mono)
  then show "u \<in> backlog T d" using q(1,2) by (auto simp: backlog_def overdue_def)
qed

lemma finite_backlog [simp]: "finite (backlog T d)"
  by (simp add: backlog_def)

lemma shrinks_backlog:
  assumes "shrinks A R d d'" "A \<subseteq> R"
  shows "backlog T d' \<subseteq> backlog T d - R"
proof
  fix u assume "u \<in> backlog T d'"
  then obtain q' where q': "q' \<in> set (queue d')" "q_message_id q' = u" "unleased T q'" "q_expires_at q' \<le> T \<or> orphaned d' q'"
    by (auto simp: backlog_def)
  then obtain q where q: "q \<in> set (queue d)" "q_message_id q = u" "q_expires_at q = q_expires_at q'" "unleased T q" "u \<notin> R"
    using assms(1) unfolding shrinks_def unleased_def by metis
  have "orphaned d q" if "orphaned d' q'"
    using that assms q(2,5) q'(2) unfolding shrinks_def orphaned_def by (metis subsetD)
  then show "u \<in> backlog T d - R" using q q'(4) by (auto simp: backlog_def)
qed

lemma shrinks_overdue:
  assumes "shrinks A R d d'" "A \<subseteq> R"
  shows "overdue_messages t d' \<subseteq> overdue_messages t d - R"
proof
  fix u assume "u \<in> overdue_messages t d'"
  then obtain m' q' where m': "m' \<in> set (messages d')" "m_id m' = u" "m_status m' = StatusAccepted"
    and q': "q' \<in> set (queue d')" "q_message_id q' = u" "overdue t q'"
    by (auto simp: overdue_messages_def)
  obtain q where q: "q \<in> set (queue d)" "q_message_id q = u" "overdue t q" "u \<notin> R"
    using assms(1) q' unfolding shrinks_def overdue_def unleased_def by metis
  obtain m where m: "m \<in> set (messages d)" "m_id m = u" "m_status m = StatusAccepted"
    using assms m' q(4) unfolding shrinks_def by (metis subsetD)
  have "u = m_id m \<and> m \<in> set (messages d) \<and> q \<in> set (queue d) \<and> q_message_id q = m_id m \<and> m_status m = StatusAccepted \<and> overdue t q"
    using m q by simp
  then show "u \<in> overdue_messages t d - R" unfolding overdue_messages_def using q(4) by blast
qed

text \<open>A sweep makes progress: it ends everything overdue, or the backlog shrinks by a batch.\<close>

lemma sweep_progress:
  assumes sw: "Sweep cfg w d = (d', res, None)" "undisturbed now w" and inv: "db_inv now d" and T: "now \<le> T"
  shows "db_inv now d'" "overdue_messages t d' \<subseteq> overdue_messages t d"
    "overdue_messages now d' = {} \<or> card (backlog T d') + sw_batch_size cfg \<le> card (backlog T d)"
proof -
  let ?n = "sw_batch_size cfg" and ?due = "due_ids now (sw_batch_size cfg) d"
  define A where "A = {m_id m |m. m \<in> set (messages d) \<and> m_id m \<in> ?due \<and> m_status m = StatusAccepted}"
  obtain R where R: "shrinks A (A \<union> R) d d'" "R \<subseteq> backlog now d" "A \<inter> R = {}" "card (?due - A) \<le> card R" "finite R"
    by (rule sweep_shrinks [OF sw inv A_def])
  show "db_inv now d'" using sweep_loop_inv [of w now d cfg sweep_tasks "[]"] sw inv by (simp add: Sweep_def undisturbed_def)
  show "overdue_messages t d' \<subseteq> overdue_messages t d" using shrinks_overdue [OF R(1)] by blast
  have A: "A \<subseteq> ?due" "finite ?due" by (auto simp: A_def due_ids_def)
  show "overdue_messages now d' = {} \<or> card (backlog T d') + ?n \<le> card (backlog T d)"
  proof (cases "length (filter (overdue now) (queue d)) \<le> ?n")
    case True
    then have "due now ?n (\<lambda>u. False) d = sort_key q_message_id (filter (overdue now) (queue d))" by (simp add: due_eq)
    then have "overdue_messages now d \<subseteq> A" by (force simp: overdue_messages_def A_def due_ids_def)
    then show ?thesis using shrinks_overdue [OF R(1), of now] by blast
  next
    case False
    have "card ?due = ?n"
      unfolding due_ids_def
    proof (subst card_ids)
      have "distinct (map q_message_id (filter (overdue now) (queue d)))" by (rule distinct_map_filterI [OF db_inv_keysD(4) [OF inv]])
      then have "distinct (map q_message_id (sort_key q_message_id (filter (overdue now) (queue d))))"
        by (simp add: distinct_map)
      then show "distinct (map q_message_id (due now ?n (\<lambda>u. False) d))" unfolding due_eq take_map [symmetric] by (rule distinct_take)
    qed (use False in \<open>simp add: due_eq\<close>)
    moreover have "card ?due = card A + card (?due - A)" using A by (metis card_Diff_subset card_mono finite_subset le_add_diff_inverse)
    ultimately have "?n \<le> card (A \<union> R)" using R(3,4,5) A finite_subset by (subst card_Un_disjoint) auto
    moreover have sub: "A \<union> R \<subseteq> backlog T d" using A(1) R(2) due_ids_backlog backlog_mono [OF T] by blast
    moreover have "backlog T d' \<subseteq> backlog T d - (A \<union> R)" by (rule shrinks_backlog [OF R(1)]) simp
    then have "card (backlog T d') \<le> card (backlog T d) - card (A \<union> R)"
      using card_mono [of "backlog T d - (A \<union> R)"] card_Diff_subset [OF finite_subset [OF sub] sub] by simp
    moreover have "card (A \<union> R) \<le> card (backlog T d)" using sub by (simp add: card_mono)
    ultimately show ?thesis by linarith
  qed
qed

subsection \<open>Properties\<close>

definition tick_time :: "sweep_world \<Rightarrow> gtime" where
  "tick_time w = env_now (sv_env w taskExpire)"

lemma sweeper_run_overdue:
  assumes "sweeper_run cfg ws d = (d', rs)" "list_all (\<lambda>r. snd r = None) rs" "list_all (\<lambda>w. undisturbed (tick_time w) w) ws"
    and "db_inv t d" "sorted (t # map tick_time ws)"
  shows "overdue_messages u d' \<subseteq> overdue_messages u d"
  using assms
proof (induction ws arbitrary: d t rs)
  case (Cons w ws)
  obtain d1 res err where s: "Sweep cfg w d = (d1, res, err)" by (cases "Sweep cfg w d") auto
  obtain rs' where r: "sweeper_run cfg ws d1 = (d', rs')" "rs = (res, err) # rs'" using Cons.prems(1) s by (auto split: prod.splits)
  have ok: "err = None" "list_all (\<lambda>r. snd r = None) rs'" using Cons.prems(2) r(2) by simp_all
  have inv: "db_inv (tick_time w) d" using Cons.prems(4,5) by (auto intro: db_inv_mono)
  note p = sweep_progress [OF s [unfolded ok(1)] _ inv order_refl]
  have "overdue_messages u d' \<subseteq> overdue_messages u d1"
    using Cons.IH [OF r(1) ok(2) _ p(1)] Cons.prems(3,5) by simp
  then show ?case using p(2) Cons.prems(3) by auto
qed simp

text \<open>C20: The sweeper gets through its work: once it has made as many undisturbed sweeps as batches fit into the backlog, the rows
  overdue or orphaned by then, no message that was overdue before the first of them is still waiting, however orphaned rows and
  messages that become overdue meanwhile share the order of the queue.\<close>

theorem sweeper_drains:
  assumes "sweeper_run cfg ws d = (d', rs)" "list_all (\<lambda>r. snd r = None) rs" "list_all (\<lambda>w. undisturbed (tick_time w) w) ws"
    and "db_inv now d" "sorted (now # map tick_time ws)" "list_all (\<lambda>w. tick_time w \<le> T) ws" "now \<le> T"
    and "card (backlog T d) \<le> sw_batch_size cfg * length ws"
  shows "overdue_messages now d' = {}"
proof -
  have "overdue_messages now d' = {}" if "db_inv t d" "sorted (t # map tick_time ws)" "now \<le> t" for t
    using assms(1-3,6-8) that
  proof (induction ws arbitrary: d t rs)
    case Nil
    then have "backlog T d = {}" by simp
    with Nil overdue_messages_backlog [of now T d] show ?case by auto
  next
    case (Cons w ws)
    obtain d1 res err where s: "Sweep cfg w d = (d1, res, err)" by (cases "Sweep cfg w d") auto
    obtain rs' where r: "sweeper_run cfg ws d1 = (d', rs')" "rs = (res, err) # rs'" using Cons.prems(1) s by (auto split: prod.splits)
    have ok: "err = None" "list_all (\<lambda>r. snd r = None) rs'" using Cons.prems(2) r(2) by simp_all
    have und: "undisturbed (tick_time w) w" "list_all (\<lambda>w. undisturbed (tick_time w) w) ws" and T: "tick_time w \<le> T" "list_all (\<lambda>w. tick_time w \<le> T) ws"
      and srt: "sorted (tick_time w # map tick_time ws)" "now \<le> tick_time w"
      using Cons.prems(3,4,8,9) by auto
    have inv: "db_inv (tick_time w) d" using Cons.prems(7,8) by (auto intro: db_inv_mono)
    note p = sweep_progress [OF s [unfolded ok(1)] und(1) inv T(1)]
    from p(3) show ?case
    proof
      assume "overdue_messages (tick_time w) d1 = {}"
      then have "overdue_messages now d1 = {}" using srt(2) overdue_mono unfolding overdue_messages_def by blast
      then show ?thesis using sweeper_run_overdue [OF r(1) ok(2) und(2) p(1) srt(1), of now] by simp
    next
      assume "card (backlog T d1) + sw_batch_size cfg \<le> card (backlog T d)"
      then have "card (backlog T d1) \<le> sw_batch_size cfg * length ws" using Cons.prems(6) by simp
      then show ?thesis using Cons.IH [OF r(1) ok(2) und(2) T(2) Cons.prems(5) _ p(1) srt(1,2)] by simp
    qed
  qed
  then show ?thesis using assms(4,5) by blast
qed

definition quiet_world :: sweep_world where
  "quiet_world = \<lparr>sv_env = (\<lambda>t. late_env), sv_fault = (\<lambda>t. NoFault), sv_acquired = (\<lambda>t. True), sv_locked = (\<lambda>t u. False)\<rparr>"

definition demo_sweeper :: sweeper_config where
  "demo_sweeper = \<lparr>sw_express_sla = 2000000000, sw_normal_lanes = 4, sw_batch_size = 10\<rparr>"

lemma demo_sweep:
  "Sweep demo_sweeper quiet_world demo_db =
     (demo_expired, [(taskExpire, 1), (taskFlagSLA, 0), (taskOrphans, 0), (taskLanes, 0), (taskWorkers, 0)], None)"
proof -
  have e: "demo_expired\<lparr>messages := messages demo_expired\<rparr> = demo_expired" "demo_expired\<lparr>queue := []\<rparr> = demo_expired"
    "demo_expired\<lparr>workers := []\<rparr> = demo_expired" and q: "queue demo_expired = []" "workers demo_expired = []"
    by (simp_all add: demo_expired_def)
  have t: "flagSLA now sla n demo_expired = (demo_expired, 0)" "removeOrphans now n (\<lambda>u. False) demo_expired = (demo_expired, 0)"
    "reassignLanes l n (\<lambda>u. False) demo_expired = Inr (demo_expired, 0)" "removeStaleWorkers now demo_expired = (demo_expired, 0)"
    for now sla n l
    by (simp_all add: flagSLA_def breaching_def removeOrphans_def orphans_def reassignLanes_def removeStaleWorkers_def update_where_def q e)
  show ?thesis
    by (simp add: Sweep_def sweep_tasks_def locked_task_def WithTx_def quiet_world_def run_task_def demo_sweeper_def demo_expire t)
qed

theorem sweeper_drains_witness:
  "m_id demo_message \<in> overdue_messages (env_now late_env) demo_db \<and>
   overdue_messages (env_now late_env) (fst (sweeper_run demo_sweeper [quiet_world] demo_db)) = {}"
proof
  show "m_id demo_message \<in> overdue_messages (env_now late_env) demo_db"
    by (auto simp: overdue_messages_def overdue_def unleased_def late_env_def demo_defs)
  have "backlog (env_now late_env) demo_db \<subseteq> {q_message_id demo_queue_row}" by (auto simp: backlog_def demo_db_def)
  then have "card (backlog (env_now late_env) demo_db) \<le> card {q_message_id demo_queue_row}" by (intro card_mono) simp_all
  then have "card (backlog (env_now late_env) demo_db) \<le> sw_batch_size demo_sweeper * length [quiet_world]"
    by (simp add: demo_sweeper_def)
  from sweeper_drains [OF _ _ _ late_inv _ _ _ this]
  show "overdue_messages (env_now late_env) (fst (sweeper_run demo_sweeper [quiet_world] demo_db)) = {}"
    by (simp add: demo_sweep) (simp add: undisturbed_def tick_time_def quiet_world_def)
qed

end
