(* ===== verification/Startup.thy ===== *)
theory Startup
  imports Worker Admin Callback Sweeper Commands
begin

text \<open>
  How a process passes its configuration on to the parts it starts, \<^verbatim>\<open>startAPI\<close>, \<^verbatim>\<open>newAdminServer\<close> and \<^verbatim>\<open>startWorker\<close> of \<^verbatim>\<open>internal/app\<close>,
  with the constructors \<^verbatim>\<open>NewServer\<close>, \<^verbatim>\<open>NewBatcher\<close> and the level of \<^verbatim>\<open>internal/logging\<close>. Processes started from one configuration agree:
  the worker's sweeper leaves the lanes of acceptance alone, and the callback knows the providers the worker sends to.
\<close>

subsection \<open>Constructors\<close>

datatype log_level = LevelDebug | LevelInfo | LevelWarn | LevelError

definition parseLevel :: "string \<Rightarrow> log_level" where
  "parseLevel level =
     (if level = ''debug'' then LevelDebug else if level = ''warn'' then LevelWarn else if level = ''error'' then LevelError else LevelInfo)"

record http_server =
  hs_addr :: string
  hs_read_header_timeout :: duration
  hs_read_timeout :: duration
  hs_write_timeout :: duration
  hs_idle_timeout :: duration

definition NewServer :: "string \<Rightarrow> http_server" where
  "NewServer addr =
     \<lparr>hs_addr = addr, hs_read_header_timeout = 5 * second, hs_read_timeout = 15 * second, hs_write_timeout = 30 * second,
      hs_idle_timeout = 60 * second\<rparr>"

record batcher =
  bt_size :: int
  bt_interval :: duration
  bt_timeout :: duration
  bt_capacity :: int

definition NewBatcher :: "int \<Rightarrow> duration \<Rightarrow> duration \<Rightarrow> batcher" where
  "NewBatcher sz interval timeout = \<lparr>bt_size = sz, bt_interval = interval, bt_timeout = timeout, bt_capacity = sz\<rparr>"

subsection \<open>What the roles start\<close>

definition api_batcher :: "gateway_config \<Rightarrow> batcher" where
  "api_batcher c = NewBatcher (gw_dlr_batch_size c) (gw_dlr_flush_interval c) (gw_shutdown_timeout c)"

definition newAdminServer :: "gateway_config \<Rightarrow> admin_config" where
  "newAdminServer c =
     \<lparr>ad_token = gw_admin_token c, ad_providers = psc_list (gw_providers c), ad_lanes = lanes c,
      ad_default_rate_limit_rps = apc_default_rate_limit_rps (gw_api c),
      ad_invariants = \<lparr>ck_lease_duration = wkc_lease_duration (gw_dispatch c), ck_sweep_interval = wkc_sweep_interval (gw_dispatch c)\<rparr>\<rparr>"

definition admin_dlr_handler :: "gateway_config \<Rightarrow> dlr_handler" where
  "admin_dlr_handler c = NewHandler (psc_secret (gw_providers c)) (map pvc_name (psc_list (gw_providers c)))"

text \<open>The sweeper is configured without a batch size, which \<^verbatim>\<open>New\<close> replaces.\<close>

definition worker_sweeper :: "gateway_config \<Rightarrow> sweeper_config" where
  "worker_sweeper c =
     new_sweeper \<lparr>sw_express_sla = gw_express_sla c, sw_normal_lanes = nat (wkc_normal_lanes (gw_dispatch c)), sw_batch_size = 0\<rparr>"

subsection \<open>The parts agree\<close>

lemma accepted_lane:
  assumes "gateway_ok c" "q \<in> set (accept_queue_rows e (newMessageService c) cid items)"
  shows "q_lane q \<in> set (lanes c)"
proof -
  have "\<exists>t. q_lane q = Lane t cid (cfg_normal_lanes (newMessageService c))"
    using assms(2) by (auto simp: accept_queue_rows_def new_queue_row_def dest!: set_zip_rightD)
  then show ?thesis using Lane_in_lanes [OF assms(1)] by auto
qed

lemma kept_lane:
  assumes "gateway_ok c" "q_lane q \<in> set (lanes c)"
  shows "\<not> bad_lane q \<and> \<not> removed_lane (sw_normal_lanes (worker_sweeper c)) q"
proof -
  have n: "1 \<le> wkc_normal_lanes (gw_dispatch c)" "wkc_normal_lanes (gw_dispatch c) \<le> 1024" using assms(1) by (simp_all add: gateway_ok_def workers_ok_def)
  then have "lanes_ok (2 ^ 31) [q]" using assms(2) by (auto simp: lanes_ok_def lanes_def)
  note lane = removed_lane_iff [OF this, of q]
  have "\<not> removed_lane (nat (wkc_normal_lanes (gw_dispatch c))) q"
  proof
    assume r: "removed_lane (nat (wkc_normal_lanes (gw_dispatch c))) q"
    then have "wkc_normal_lanes (gw_dispatch c) \<le> laneIndex (q_lane q)" "take 7 (q_lane q) = ''normal-''"
      using lane(3) [of "nat (wkc_normal_lanes (gw_dispatch c))"] n by (simp_all add: removed_lane_def)
    moreover have "laneIndex (NormalLane i) = i" if "0 \<le> i" "i < 1024" for i
      by (rule laneIndex_NormalLane) (use that in \<open>simp add: in_int64_def max_int64_def\<close>)
    ultimately show False using assms(2) n by (auto simp: lanes_def)
  qed
  then show ?thesis using lane(1) by (simp add: worker_sweeper_def new_sweeper_def)
qed

text \<open>Processes of one loaded configuration fit together: the sweeper of a worker moves no row that acceptance wrote, its
  tasks have a positive batch size, the callback takes the reports of exactly the providers the worker sends to and no
  report without a secret, the console watches exactly the lanes the worker polls, and an empty password opens nothing.\<close>

theorem processes_agree:
  assumes "LoadGateway lib = Inr c" "New rates wid (FromGateway c) = w"
    and "q \<in> set (accept_queue_rows e (newMessageService c) cid items)"
  shows "\<not> bad_lane q \<and> \<not> removed_lane (sw_normal_lanes (worker_sweeper c)) q \<and> 1 \<le> sw_batch_size (worker_sweeper c) \<and>
    dh_providers (admin_dlr_handler c) = set (map p_name (wk_providers w)) \<and> dh_secret (admin_dlr_handler c) \<noteq> [] \<and>
    set (ad_lanes (newAdminServer c)) = set (pl_lanes (wk_express w)) \<union> set (pl_lanes (wk_normal w)) \<and>
    \<not> credentials_ok (newAdminServer c) (r\<lparr>rq_auth := Some (User, [])\<rparr>) \<and> 1 \<le> bt_capacity (api_batcher c)"
proof -
  have ok: "gateway_ok c" using LoadGateway_checked [OF assms(1)] by simp
  have w: "w = New rates wid (FromGateway c)" using assms(2) by simp
  have "\<not> bad_lane q \<and> \<not> removed_lane (sw_normal_lanes (worker_sweeper c)) q" using kept_lane [OF ok accepted_lane [OF ok assms(3)]] .
  moreover have "1 \<le> sw_batch_size (worker_sweeper c)" by (simp add: worker_sweeper_def new_sweeper_def DefaultBatchSize_def)
  moreover have "dh_providers (admin_dlr_handler c) = set (map p_name (wk_providers w))"
    by (simp add: admin_dlr_handler_def NewHandler_def w New_def FromGateway_def Let_def image_image)
  moreover have "dh_secret (admin_dlr_handler c) \<noteq> []" using ok by (simp add: admin_dlr_handler_def NewHandler_def gateway_ok_def providers_config_ok_def)
  moreover have "set (ad_lanes (newAdminServer c)) = set (pl_lanes (wk_express w)) \<union> set (pl_lanes (wk_normal w))"
    by (simp add: newAdminServer_def lanes_def w New_def FromGateway_def newPool_def Let_def)
  moreover have "\<not> credentials_ok (newAdminServer c) (r\<lparr>rq_auth := Some (User, [])\<rparr>)"
    using ok by (auto simp: credentials_ok_def newAdminServer_def gateway_ok_def)
  moreover have "1 \<le> bt_capacity (api_batcher c)" using ok by (simp add: api_batcher_def NewBatcher_def gateway_ok_def)
  ultimately show ?thesis by blast
qed

end
