(* ===== verification/Fixtures.thy ===== *)
theory Fixtures
  imports System
begin

text \<open>
  The fixtures of the repository's own tests, \<^verbatim>\<open>internal/testutil/fixtures.go\<close>: the customer they create and the two assertions they end
  with. A test that only exercises the gateway never fails in the assertion about the ledger.
\<close>

definition randomHex :: "byte list \<Rightarrow> string" where
  "randomHex bytes = hex_encode bytes"

definition fixture_Customer :: "tx_fault \<Rightarrow> (string \<Rightarrow> string) \<Rightarrow> env \<Rightarrow> byte list \<Rightarrow> byte list \<Rightarrow> int \<Rightarrow> db \<Rightarrow> db \<times> (error + customer \<times> string)" where
  "fixture_Customer fault sha e hex_bytes key_bytes credits d =
     Create fault sha e key_bytes
       \<lparr>n_name = ''test-'' @ randomHex hex_bytes, n_initial_credits = credits, n_rate_limit_rps = 100000\<rparr> d"

text \<open>\<^verbatim>\<open>AssertLedgerConsistent\<close>: the numbers of balances and of debits that are wrong, when one is.\<close>

definition bad_balances :: "db \<Rightarrow> nat" where
  "bad_balances d =
     length (filter (\<lambda>c. c_balance c \<noteq> (\<Sum>t\<leftarrow>filter (\<lambda>t. t_customer_id t = c_id c) (transactions d). t_amount t)) (customers d))"

definition bad_debits :: "db \<Rightarrow> nat" where
  "bad_debits d =
     length (filter (\<lambda>m. length (filter (\<lambda>t. t_message_id t = Some (m_id m) \<and> t_kind t = KindDebit \<and> t_amount t = - m_cost m)
       (transactions d)) \<noteq> 1) (messages d))"

definition AssertLedgerConsistent :: "db \<Rightarrow> (nat \<times> nat) option" where
  "AssertLedgerConsistent d =
     (if bad_balances d > 0 \<or> bad_debits d > 0 then Some (bad_balances d, bad_debits d) else None)"

text \<open>\<^verbatim>\<open>AssertInvariants\<close>: the violated checks, each with its number of rows and a sample.\<close>

definition AssertInvariants :: "(uuid \<Rightarrow> string) \<Rightarrow> gtime \<Rightarrow> db \<Rightarrow> (string \<times> nat \<times> string list) list" where
  "AssertInvariants uuid_string now d =
     map (\<lambda>c. (ck_name c, ck_violations c, ck_sample c)) (filter (\<lambda>c. \<not> ck_ok c)
       (rep_checks (Run uuid_string \<lparr>ck_lease_duration = 30 * second, ck_sweep_interval = 10 * second\<rparr> now d)))"

lemma ledger_assertion:
  assumes "db_inv now d"
  shows "AssertLedgerConsistent d = None"
proof -
  have "length (filter (\<lambda>t. t_message_id t = Some (m_id m) \<and> t_kind t = KindDebit \<and> t_amount t = - m_cost m) (transactions d)) = 1"
    if "m \<in> set (messages d)" for m
  proof -
    have one: "map t_amount (txns_of KindDebit (m_id m) (transactions d)) = [- m_cost m]"
      using assms that by (auto simp: db_inv_def ledger_ok_def message_ledger_ok_def)
    have "filter (\<lambda>t. t_message_id t = Some (m_id m) \<and> t_kind t = KindDebit \<and> t_amount t = - m_cost m) (transactions d) =
        filter (\<lambda>t. t_amount t = - m_cost m) (txns_of KindDebit (m_id m) (transactions d))"
      by (simp add: txns_of_def conj_ac)
    also have "\<dots> = txns_of KindDebit (m_id m) (transactions d)" using one by (auto simp: map_eq_Cons_conv)
    finally show ?thesis using one by (metis length_map length_Cons list.size(3) One_nat_def)
  qed
  moreover have "c_balance c = (\<Sum>t\<leftarrow>filter (\<lambda>t. t_customer_id t = c_id c) (transactions d). t_amount t)" if "c \<in> set (customers d)" for c
    using assms that by (auto simp: db_inv_def ledger_ok_def balances_ok_def ledger_sum_def)
  ultimately show ?thesis by (simp add: AssertLedgerConsistent_def bad_balances_def bad_debits_def filter_empty_conv)
qed

text \<open>In every state the gateway reaches, the assertion about the ledger holds, and the assertion about the invariants can
  only complain about the two checks that measure how promptly workers clean up.\<close>

theorem assertions_hold:
  assumes "reachable system_init system_step s"
  shows "AssertLedgerConsistent (sys_db s) = None \<and>
    set (map fst (AssertInvariants us now (sys_db s))) \<subseteq> {''finished_messages_leave_the_queue'', ''no_abandoned_leases''}"
proof -
  have inv: "db_inv (sys_now s) (sys_db s)" using gateway.reachable_invariant [OF assms] by (simp add: system_inv_def)
  have name: "ck_name (run_check f n vs) = n" for f n vs by (simp add: run_check_def Let_def)
  have "set (map fst (AssertInvariants us now (sys_db s))) \<subseteq> {''finished_messages_leave_the_queue'', ''no_abandoned_leases''}"
    using checks_pass [OF inv] by (auto simp: AssertInvariants_def Run_def definitions_def Let_def name run_check_ok)
  then show ?thesis using ledger_assertion [OF inv] by simp
qed

end
