(* ===== verification/Spec2Isabelle.thy ===== *)
theory Spec2Isabelle
  imports System Dispatch Migrate Api Callback Worker Dashboard Middleware
    Commands Shutdown Telemetry Routing Feedback Wakeup Wire Access Sweeping Startup Fixtures
begin

text \<open>
  Verification of an SMS gateway.

  \<^bold>\<open>The program.\<close> Customers submit messages over an HTTP API and pay for them from a prepaid balance. A
  submission is accepted in one PostgreSQL transaction that inserts the messages, records a debit for
  each, enqueues them and debits the balance. Workers claim queue rows under a lease, send each
  message to a provider, guarded by circuit breakers and rate budgets, and commit the outcomes in
  batches, fenced by the lease version. Providers report deliveries, which are applied in batches. A
  sweeper expires what is overdue, with a refund, and repairs the queue. A checker states the
  invariants of the database as queries. A simulated operator stands in for real providers.

  \<^bold>\<open>How it is modelled.\<close> The database is a record of tables, lists of row records (\<open>Schema\<close>). An operation is a
  function from the database to a new one and an error or a result; a transaction that fails leaves the
  database as it was, and may also fail to begin or to commit. The clock, new identifiers, failures,
  rows locked by others and what others commit meanwhile are arguments. Third-party code is a
  parameter: UUID generation and text form, SHA-256, the token buckets of \<^verbatim>\<open>x/time/rate\<close>, the providers'
  answers, the PostgreSQL driver and PostgreSQL's execution of migration scripts. A request body is given to the
  handlers as Go's JSON decoder leaves it, a value or one of its errors; what the gateway itself writes, JSON and
  times, is modelled to the byte, and so is the parser of timestamps. Integers are unbounded where
  the database or a check bounds them, and wrapped at 64 bits where the code adds or shifts
  unchecked; UUIDs and hashes are words. Loops are recursive functions that terminate, with
  the retry counts of the code; long-running loops consume lists of events.

  \<^bold>\<open>Theories\<close>, from the bottom:

    \<^item> \<open>Prelude\<close>, \<open>Gostrings\<close>, \<open>Transitions\<close>, \<open>Ring\<close>, \<open>Batching\<close>: time, 64-bit arithmetic, decimal text, tables, transactions;
      Go's string functions; step relations with reachable states and the locales for invariants; ring
      buffers with their locale; batching loops.
    \<^item> \<open>Ids\<close> (\<^verbatim>\<open>internal/store/ids.go, cursor.go, null.go\<close>): ordered identifiers, cursors and their round trip.
    \<^item> \<open>Timestamps\<close>, \<open>Json\<close> (\<^verbatim>\<open>internal/httpx: time.go, json.go; time.Parse and encoding/json\<close> as far as they are used): the calendar, times as text and
      their parser, JSON as text and a reader; what is written is read back.
    \<^item> \<open>Access\<close> (\<^verbatim>\<open>internal/store: pool.go, tx.go, pgerr.go, querier.go\<close>): the errors of transactions, which stay recognisable, and opening a pool.
    \<^item> \<open>Segment\<close> (\<^verbatim>\<open>internal/segment\<close>): encodings and segment counts; the count is the least possible.
    \<^item> \<open>Schema\<close>, \<open>Consistency\<close> (\<^verbatim>\<open>migrations/00001_init.sql\<close>, row types): tables, constraints and the database invariant \<open>db_inv\<close>.
    \<^item> \<open>Billing\<close> (\<^verbatim>\<open>internal/billing\<close>): debits, charges, refunds, queries.
    \<^item> \<open>Validate\<close>, \<open>Accept\<close>, \<open>Replay\<close> (\<^verbatim>\<open>internal/message: validate.go, price.go, lane.go, accept.go\<close>): what a submission does,
      when it is refused, and that repeating it is answered from the first one. \<open>Demo\<close> is the example
      database of the instances.
    \<^item> \<open>Customer\<close> (\<^verbatim>\<open>internal/customer, internal/auth/key.go\<close>) and \<open>Auth\<close> (\<^verbatim>\<open>internal/auth/authenticator.go\<close>): customers, keys, and a cache
      that lets keys be revoked.
    \<^item> \<open>Lease\<close>, \<open>Completer\<close> (\<^verbatim>\<open>internal/dispatch: claim.go, completer.go\<close>): exclusive leases, the fenced commit of outcomes, atomic
      flushes, and a loop that loses nothing.
    \<^item> \<open>Breaker\<close>, \<open>Policy\<close>, \<open>Dispatch\<close> (\<^verbatim>\<open>internal/dispatch: circuit.go, policy.go, classify.go, client.go, send.go\<close>) and \<open>Limiter\<close>
      (\<^verbatim>\<open>internal/ratelimit, internal/dispatch/budget.go\<close>): which provider gets a message, what becomes of it, and rates.
    \<^item> \<open>Dlr\<close> (\<^verbatim>\<open>internal/dlr: apply.go, batcher.go\<close>), \<open>Sweeper\<close>, \<open>Sweeping\<close> (\<^verbatim>\<open>internal/sweeper\<close>; its tasks, and its loop, which drains any backlog), \<open>Checker\<close> (\<^verbatim>\<open>internal/invariant\<close>), \<open>Monitor\<close>
      (\<^verbatim>\<open>internal/heartbeat, internal/monitor\<close>).
    \<^item> \<open>Paging\<close>, \<open>Queries\<close> (\<^verbatim>\<open>internal/httpx/query.go: NewPage; internal/message: query.go, report.go, admin.go\<close>): listings by cursor, with the
      locale that shows them complete, and summaries.
    \<^item> \<open>Httpx\<close>, \<open>Api\<close>, \<open>Wire\<close> (\<^verbatim>\<open>internal/httpx, internal/api\<close>): the customer API from the bearer token to the response, and the bytes of the
      response, which a client can read back.
    \<^item> \<open>Migrate\<close> (\<^verbatim>\<open>internal/store/migrate.go\<close>), \<open>Fakeprovider\<close> (\<^verbatim>\<open>internal/fakeprovider\<close>).
    \<^item> \<open>Callback\<close> (\<^verbatim>\<open>internal/dlr/handler.go\<close>): the delivery report callback, which answers only for what is committed. \<open>Feedback\<close> puts the
      simulated operator in front of it (\<^verbatim>\<open>internal/fakeprovider/dlr.go\<close>): none of its reports is refused.
    \<^item> \<open>Config\<close> (\<^verbatim>\<open>internal/config\<close>): environment variables, read in a state monad that collects problems; which
      configurations load and what is reported of the others.
    \<^item> \<open>Worker\<close> (\<^verbatim>\<open>internal/dispatch: worker.go, pool.go; internal/app/api.go\<close>): how a loaded configuration sets up acceptance and workers, and the
      claim loop of a pool with its concurrent sends as a step relation. \<open>Wakeup\<close> (\<^verbatim>\<open>internal/dispatch/listener.go\<close>) adds acceptance and the
      listener for its notifications: no wake-up is lost.
    \<^item> \<open>Admin\<close>, \<open>Dashboard\<close> (\<^verbatim>\<open>internal/admin\<close>): the operator's API and dashboard behind their credentials; what they may change.
    \<^item> \<open>Metrics\<close>, \<open>Middleware\<close>, \<open>Telemetry\<close> (\<^verbatim>\<open>internal/metrics; internal/httpx: middleware.go, health.go; completer.count, Worker.Snapshot,
      Sweeper.publishExpired, sampleQueue\<close>): labelled metrics and their text form, what surrounds every HTTP handler, and what
      workers count and report about themselves.
    \<^item> \<open>Routing\<close> (\<^verbatim>\<open>internal/app: api.go, worker.go; the Register functions\<close>): patterns, their conflicts and the search of Go's multiplexer; every
      server's routes register without a panic, and only three public paths write.
    \<^item> \<open>Shutdown\<close> (\<^verbatim>\<open>Worker.Run, internal/lifecycle\<close>): the goroutines of a worker as a step relation, from the first claim to the
      return; it ends, and in time it loses nothing.
    \<^item> \<open>Commands\<close> (\<^verbatim>\<open>cmd/gateway, cmd/provider, internal/app/run.go, internal/buildinfo; internal/httpx: server.go, probe.go\<close>): flags, exit codes, output
      and effect of every command. \<open>Startup\<close> (\<^verbatim>\<open>internal/app, internal/logging\<close>): how a process configures its parts, and that they agree.
    \<^item> \<open>System\<close>: the gateway as a step relation over all operations that write the database, in any order and
      any number, with failures. \<open>Fixtures\<close> (\<^verbatim>\<open>internal/testutil/fixtures.go\<close>): the assertions of the repository's tests, which hold in every
      state of it.

  \<^bold>\<open>What is shown.\<close> The invariant \<open>db_inv\<close> (balances equal the ledger, one debit per message, a refund exactly for
  failed and expired ones, queued exactly while accepted, keys, references and timestamps) holds in
  every state \<open>System\<close> reaches, so the checker of the program finds nothing there, and messages move only
  along the documented status graph. Each operation has its exact effect stated on every branch, errors
  included: acceptance, commit, expiry, delivery reports, charges. Leases exclude each other and a lost lease
  is fenced off. Submissions and delivery reports are idempotent. The API changes the database only
  when it answers so, the console only for the operator and only in ways the gateway's invariants cover. Caches, breakers, buffers and the operator are state machines with
  invariants over all interleavings of their critical sections; a worker stops however its goroutines
  interleave, the sweeper drains every backlog, and no wake-up of the Express pool is lost. Listings, reports, batches and
  migrations are complete. Responses, errors and delivery reports survive the way over the wire.

  \<^bold>\<open>Bounds.\<close> \<open>accept\<close> and \<open>flush\<close> retry as often as the code does (three attempts; the flush limit is a parameter).
  \<open>walk\<close>, a client following cursors, is given one request more than there are rows, which suffices; \<open>read_json\<close> gets as
  much fuel as the text is long, which is enough for all that is written (\<open>read_json_encode\<close>). Totals of
  reports and refunds are unbounded integers: the sums they stand for are bounded by balances.

  \<^bold>\<open>Not modelled\<close>, because it is output or belongs to others: log lines and the loggers kept in request contexts; the HTML
  templates and static files (what a page is given is modelled, not its text); JSON that contains floating-point
  numbers; how Go's decoder reads request bodies, except for delivery reports, whose sender is part of the repository; the
  driver's connection pools beyond being opened; creating and dropping test schemas (\<^verbatim>\<open>internal/testutil/db.go\<close>). Time passes in \<open>Shutdown\<close>
  only as the event that the drain timer fires, and in \<open>Wakeup\<close> only as the end of a wait. The liveness of the sweeper is shown for
  sweeps that get their locks; a sweep that does not is another worker's.
\<close>

subsection \<open>The console and the gateway\<close>

lemma operator_step_system:
  assumes "operator_step (sys_now s) (sys_db s) d'"
  shows "system_step s (s\<lparr>sys_db := d'\<rparr>)"
  using assms by cases (auto intro: system_step.intros work_step.intros)

text \<open>C40: The operator's console is part of the gateway the invariants are proved for: whatever request it serves, API
  or dashboard, authorised or not, in whatever reachable state, the database it leaves is reachable too.\<close>

theorem console_refines_gateway:
  assumes "reachable system_init system_step s"
    and "env_now (am_env w) = sys_now s" "dw_admin dw = w"
    and "d' = fst (admin_serve w cfg q r (sys_db s)) \<or> d' = fst (dash_serve dw cfg q dr (sys_db s))"
  shows "reachable system_init system_step (s\<lparr>sys_db := d'\<rparr>)"
proof -
  have admin: "d' = sys_db s \<or> operator_step (sys_now s) (sys_db s) d'" if "admin_serve w cfg q r (sys_db s) = (d', resp)" for resp
    using admin_serve_changes(4) [OF that] admin_handle_step [of w cfg "rq_method q" r "sys_db s" d'] assms(2) by metis
  have dash: "d' = sys_db s \<or> operator_step (sys_now s) (sys_db s) d'" if "dash_serve dw cfg q dr (sys_db s) = (d', resp)" for resp
    using dash_serve_changes(3) [OF that] dash_handle_step [of dw cfg dr "sys_db s" d'] assms(2,3) by metis
  from assms(4) have "d' = sys_db s \<or> operator_step (sys_now s) (sys_db s) d'" using admin dash by (metis prod.collapse)
  then show ?thesis
  proof
    assume "operator_step (sys_now s) (sys_db s) d'"
    with assms(1) operator_step_system show ?thesis by (blast intro: reachable_step)
  qed (simp add: assms(1))
qed

theorem console_refines_gateway_witness:
  "reachable system_init system_step (demo_system\<lparr>sys_db := fst (admin_serve (demo_admin_world\<lparr>am_env := demo_env\<lparr>env_now := sys_now demo_system\<rparr>\<rparr>)
     demo_admin_config demo_delete_request (DeleteCustomerRoute ''1'') (sys_db demo_system))\<rparr>)"
proof -
  let ?w = "demo_admin_world\<lparr>am_env := demo_env\<lparr>env_now := sys_now demo_system\<rparr>\<rparr>"
  have "env_now (am_env ?w) = sys_now demo_system" "dw_admin ((demo_dash_world (\<lambda>s. False))\<lparr>dw_admin := ?w\<rparr>) = ?w" by simp_all
  from console_refines_gateway [OF demo_system_reachable this disjI1 [OF refl]] show ?thesis .
qed

end
